(* ===== verification/Prelude.thy ===== *)
theory Prelude
  imports Complex_Main "HOL-Library.Finite_Map" "HOL-Library.Signed_Division"
begin

text \<open>
  What every component theory of the development shares: the result type of an action
  (\<open>Inl\<close> is a failed \<open>eosio::check\<close>, which aborts the transaction, with its message),
  the two combinators the handlers are written with, the C++ integer types as \<open>int\<close> with
  the wrap-around written out, and sums over the rows of a table. The collection
  \<open>res_simps\<close> holds the rules that take a successful run of a handler apart.
\<close>

named_theorems res_simps \<open>rules that take a successful run of a handler apart\<close>
named_theorems lib_simps \<open>the documented behaviour of the eosiolib functions\<close>
named_theorems int_simps \<open>rules that remove the wrap-around of an integer in range\<close>

section \<open>Results of fallible code\<close>

type_synonym 'a res = "string + 'a"

definition check :: "bool \<Rightarrow> string \<Rightarrow> 'a res \<Rightarrow> 'a res" where
  "check c msg k = (if c then k else Inl msg)"

definition bindr :: "'a res \<Rightarrow> ('a \<Rightarrow> 'b res) \<Rightarrow> 'b res" where
  "bindr m k = (case m of Inl e \<Rightarrow> Inl e | Inr x \<Rightarrow> k x)"

definition the_row :: "'a option \<Rightarrow> string \<Rightarrow> ('a \<Rightarrow> 'b res) \<Rightarrow> 'b res" where
  "the_row r msg k = (case r of None \<Rightarrow> Inl msg | Some x \<Rightarrow> k x)"

abbreviation succeeds :: "'a res \<Rightarrow> bool" where
  "succeeds m \<equiv> \<exists>x. m = Inr x"

lemma check_Inr [simp, res_simps]: "check c msg k = Inr y \<longleftrightarrow> c \<and> k = Inr y"
  by (simp add: check_def)

lemma check_True [simp]: "check True msg k = k"
  by (simp add: check_def)

lemma check_False [simp]: "check False msg k = Inl msg"
  by (simp add: check_def)

lemma check_Inl: "check c msg k = Inl e \<longleftrightarrow> (\<not> c \<and> e = msg) \<or> (c \<and> k = Inl e)"
  by (auto simp: check_def)

lemma bindr_simps [simp]: "bindr (Inr x) k = k x" "bindr (Inl e) k = Inl e"
  by (simp_all add: bindr_def)

lemma bindr_Inr [res_simps]: "bindr m k = Inr y \<longleftrightarrow> (\<exists>x. m = Inr x \<and> k x = Inr y)"
  by (auto simp: bindr_def split: sum.splits)

lemma bindr_assoc: "bindr (bindr m f) g = bindr m (\<lambda>x. bindr (f x) g)"
  by (simp add: bindr_def split: sum.splits)

lemma the_row_simps [simp]: "the_row (Some x) msg k = k x" "the_row None msg k = Inl msg"
  by (simp_all add: the_row_def)

lemma the_row_Inr [res_simps]: "the_row r msg k = Inr y \<longleftrightarrow> (\<exists>x. r = Some x \<and> k x = Inr y)"
  by (auto simp: the_row_def split: option.splits)

lemma case_prod_Inr [res_simps]:
  "(case p of (a, b) \<Rightarrow> f a b) = Inr y \<longleftrightarrow> (\<exists>a b. p = (a, b) \<and> f a b = Inr y)"
  by (cases p) simp

section \<open>Machine integers\<close>

text \<open>
  \<open>int64_t\<close>, \<open>uint64_t\<close>, \<open>uint32_t\<close>, \<open>uint16_t\<close> and \<open>uint8_t\<close> values are \<open>int\<close>s; every
  place where the code computes on them without a library check applies the matching
  wrap-around. (Signed overflow wraps in the WebAssembly the contracts compile to.)
\<close>

type_synonym int64 = int
type_synonym uint64 = int
type_synonym uint32 = int
type_synonym uint16 = int
type_synonym uint8 = int

definition i64 :: "int \<Rightarrow> int64" where
  "i64 x = (x + 9223372036854775808) mod 18446744073709551616 - 9223372036854775808"

definition u64 :: "int \<Rightarrow> uint64" where
  "u64 x = x mod 18446744073709551616"

definition u32 :: "int \<Rightarrow> uint32" where
  "u32 x = x mod 4294967296"

definition u16 :: "int \<Rightarrow> uint16" where
  "u16 x = x mod 65536"

definition in_i64 :: "int \<Rightarrow> bool" where
  "in_i64 x \<longleftrightarrow> - 9223372036854775808 \<le> x \<and> x < 9223372036854775808"

lemma i64_id [int_simps]: "in_i64 x \<Longrightarrow> i64 x = x"
  by (simp add: i64_def in_i64_def)

lemma in_i64_i64 [simp, intro]: "in_i64 (i64 x)"
proof -
  have "0 \<le> (x + 9223372036854775808) mod 18446744073709551616"
    and "(x + 9223372036854775808) mod 18446744073709551616 < 18446744073709551616"
    by simp_all
  then show ?thesis by (simp add: i64_def in_i64_def)
qed

lemma i64_0 [simp]: "i64 0 = 0"
  by (simp add: i64_def)

lemma u64_id [int_simps]: "0 \<le> x \<Longrightarrow> x < 18446744073709551616 \<Longrightarrow> u64 x = x"
  by (simp add: u64_def)

lemma u64_range [simp]: "0 \<le> u64 x" "u64 x < 18446744073709551616"
  by (simp_all add: u64_def)

lemma u32_id [int_simps]: "0 \<le> x \<Longrightarrow> x < 4294967296 \<Longrightarrow> u32 x = x"
  by (simp add: u32_def)

lemma u32_range [simp]: "0 \<le> u32 x" "u32 x < 4294967296"
  by (simp_all add: u32_def)

lemma i64_add_i64: "i64 (i64 x + y) = i64 (x + y)"
proof -
  have "i64 x = x - 18446744073709551616 * ((x + 9223372036854775808) div 18446744073709551616)"
    using minus_mod_eq_mult_div [of "x + 9223372036854775808" 18446744073709551616]
    by (simp add: i64_def)
  then have "i64 x + y + 9223372036854775808
      = (x + y + 9223372036854775808)
        + 18446744073709551616 * (- ((x + 9223372036854775808) div 18446744073709551616))"
    by simp
  then show ?thesis
    unfolding i64_def by (metis mod_mult_self2)
qed

text \<open>Integer division of C++ truncates towards zero; it is \<open>sdiv\<close> of the library.\<close>

lemma sdiv_pos [simp]: "0 \<le> (a::int) \<Longrightarrow> 0 < b \<Longrightarrow> a sdiv b = a div b"
  by (cases "a = 0") (auto simp: signed_divide_int_def sgn_if)

section \<open>Tables and sums over their rows\<close>

text \<open>
  The rows of an \<open>eosio::multi_index\<close> are a finite map from the primary key (and the scope,
  where the code uses one scope per account) to the row.
\<close>

definition fmsum :: "('k \<Rightarrow> 'v \<Rightarrow> int) \<Rightarrow> ('k, 'v) fmap \<Rightarrow> int" where
  "fmsum f m = (\<Sum>k\<in>fmdom' m. f k (the (fmlookup m k)))"

definition row_val :: "('k \<Rightarrow> 'v \<Rightarrow> int) \<Rightarrow> 'k \<Rightarrow> 'v option \<Rightarrow> int" where
  "row_val f k r = (case r of None \<Rightarrow> 0 | Some v \<Rightarrow> f k v)"

lemma row_val_simps [simp]: "row_val f k None = 0" "row_val f k (Some v) = f k v"
  by (simp_all add: row_val_def)

lemma fmsum_empty [simp]: "fmsum f fmempty = 0"
  by (simp add: fmsum_def)

lemma fmsum_split: "fmsum f m = row_val f k (fmlookup m k) + fmsum f (fmdrop k m)"
proof (cases "fmlookup m k")
  case None
  then have "fmdrop k m = m" by (intro fmdrop_idle') (simp add: fmdom'_notI)
  with None show ?thesis by simp
next
  case (Some v)
  then have "k \<in> fmdom' m" by (simp add: fmdom'I)
  then have "fmsum f m = f k v + (\<Sum>x\<in>fmdom' m - {k}. f x (the (fmlookup m x)))"
    using Some by (simp add: fmsum_def sum.remove [of _ k])
  also have "(\<Sum>x\<in>fmdom' m - {k}. f x (the (fmlookup m x))) = fmsum f (fmdrop k m)"
    by (simp add: fmsum_def)
  finally show ?thesis using Some by simp
qed

lemma fmsum_drop: "fmsum f (fmdrop k m) = fmsum f m - row_val f k (fmlookup m k)"
  using fmsum_split [of f m k] by simp

lemma fmsum_upd: "fmsum f (fmupd k v m) = fmsum f m - row_val f k (fmlookup m k) + f k v"
  using fmsum_split [of f "fmupd k v m" k] fmsum_drop [of f k m]
  by (simp add: fmdrop_fmupd_same)

lemma fmsum_nonneg: "(\<And>k v. fmlookup m k = Some v \<Longrightarrow> 0 \<le> f k v) \<Longrightarrow> 0 \<le> fmsum f m"
  unfolding fmsum_def by (rule sum_nonneg) (auto simp: fmlookup_dom'_iff)

lemma fmsum_cong:
  "(\<And>k v. fmlookup m k = Some v \<Longrightarrow> f k v = g k v) \<Longrightarrow> fmsum f m = fmsum g m"
  unfolding fmsum_def by (rule sum.cong) (auto simp: fmlookup_dom'_iff)

lemma fmsum_row_le:
  assumes "fmlookup m k = Some v" "\<And>k v. fmlookup m k = Some v \<Longrightarrow> 0 \<le> f k v"
  shows "f k v \<le> fmsum f m"
proof -
  have "0 \<le> fmsum f (fmdrop k m)"
    by (rule fmsum_nonneg) (auto intro: assms(2) split: if_splits)
  then show ?thesis using fmsum_split [of f m k] assms(1) by simp
qed

section \<open>Runs of a machine whose steps may fail\<close>

fun run_all :: "('e \<Rightarrow> 's \<Rightarrow> 's res) \<Rightarrow> 'e list \<Rightarrow> 's \<Rightarrow> 's res" where
  "run_all step [] s = Inr s"
| "run_all step (e # es) s = bindr (step e s) (run_all step es)"

lemma run_all_append: "run_all step (es @ fs) s = bindr (run_all step es s) (run_all step fs)"
  by (induction es arbitrary: s) (auto simp: bindr_def split: sum.splits)

lemma run_all_keeps:
  assumes "\<And>e s s'. step e s = Inr s' \<Longrightarrow> v s' = v s" "run_all step es s = Inr s'"
  shows "v s' = v s"
  using assms(2) by (induction es arbitrary: s) (auto simp: bindr_Inr dest: assms(1))

text \<open>
  Two interfaces of a contract. In the first the invariant relates the state to the actions run
  so far (and a step is \<open>good\<close> after the ones before it); in the second the actions keep an
  invariant of the state alone, whatever context (from the \<open>good\<close> ones) they run in.
\<close>

locale traced =
  fixes step :: "'e \<Rightarrow> 's \<Rightarrow> 's res"
    and good_after :: "'e list \<Rightarrow> 'e \<Rightarrow> bool"
    and hinv :: "'e list \<Rightarrow> 's \<Rightarrow> bool"
  assumes hist_step: "good_after h e \<Longrightarrow> hinv h s \<Longrightarrow> step e s = Inr s' \<Longrightarrow> hinv (h @ [e]) s'"
begin

lemma trace_inv_from:
  "(\<And>es1 e es2. es = es1 @ e # es2 \<Longrightarrow> good_after (h @ es1) e) \<Longrightarrow> hinv h s
   \<Longrightarrow> run_all step es s = Inr s' \<Longrightarrow> hinv (h @ es) s'"
proof (induction es arbitrary: h s)
  case (Cons e es)
  from Cons.prems(3) obtain s1 where s1: "step e s = Inr s1" "run_all step es s1 = Inr s'"
    by (auto simp: bindr_Inr)
  have "good_after (h @ []) e" by (rule Cons.prems(1)) simp
  then have "hinv (h @ [e]) s1" using hist_step [OF _ Cons.prems(2) s1(1)] by simp
  moreover have "good_after ((h @ [e]) @ es1) e'" if "es = es1 @ e' # es2" for es1 e' es2
    using Cons.prems(1) [of "e # es1" e' es2] that by simp
  ultimately have "hinv ((h @ [e]) @ es) s'" using Cons.IH s1(2) by blast
  then show ?case by simp
qed simp

lemma trace_inv:
  assumes "\<And>es1 e es2. es = es1 @ e # es2 \<Longrightarrow> good_after es1 e" "hinv [] s"
    and "run_all step es s = Inr s'"
  shows "hinv es s'"
  using trace_inv_from [of es "[]" s s'] assms by simp

end

locale machine =
  fixes step :: "'e \<Rightarrow> 's \<Rightarrow> 's res"
    and good :: "'e \<Rightarrow> bool"
    and inv :: "'s \<Rightarrow> bool"
  assumes step_inv: "good e \<Longrightarrow> inv s \<Longrightarrow> step e s = Inr s' \<Longrightarrow> inv s'"

sublocale machine \<subseteq> history: traced step "\<lambda>_ e. good e" "\<lambda>_ s. inv s"
  by unfold_locales (rule step_inv)

context machine begin

lemma run_inv:
  "(\<And>e. e \<in> set es \<Longrightarrow> good e) \<Longrightarrow> inv s \<Longrightarrow> run_all step es s = Inr s' \<Longrightarrow> inv s'"
  using history.trace_inv [of es s s'] by simp

end

end
