(* ===== verification/Chain.thy ===== *)
theory Chain
  imports Prelude "HOL-Library.Word"
begin

text \<open>
  What the contracts take from their host. \<open>chain\<close> is the context one action runs in: the
  authorisations and the block time the blockchain supplies, and the functions of the eosiolib
  (a library that is not part of this repository) the code calls. The library functions are
  parameters; the predicates \<open>asset_ops_ok\<close> and \<open>time_ops_ok\<close> name the documented behaviour of
  theirs that the code relies on, and \<open>ref_chain\<close> is a concrete context that has it.
\<close>

section \<open>Names, symbols and assets\<close>

type_synonym name = "64 word"
type_synonym symbol_code = uint64
type_synonym time_point = int64
type_synonym time_point_sec = uint32
type_synonym slot = uint32

datatype symbol = Symbol (sym_code: symbol_code) (precision: uint8)

record asset =
  amount :: int64
  symb :: symbol

datatype permission_level = Perm (actor: name) (permission: name)

abbreviation ast :: "int64 \<Rightarrow> symbol \<Rightarrow> asset" where
  "ast n s \<equiv> \<lparr>amount = n, symb = s\<rparr>"

text \<open>
  The account names and symbols the contracts fix; a name literal \<open>"..."_n\<close> is the 64-bit
  value the compiler computes for it.
\<close>

definition active_permission :: name where "active_permission = 3617214756542218240"
definition eosio_account :: name where "eosio_account = 6138663577826885632"
definition token_account :: name where "token_account = 6138663591592764928"
definition ram_account :: name where "ram_account = 6138663590285017088"
definition ramfee_account :: name where "ramfee_account = 6138663590285202592"
definition stake_account :: name where "stake_account = 6138663591134630912"
definition bpay_account :: name where "bpay_account = 6138663581940940800"
definition vpay_account :: name where "vpay_account = 6138663592678359040"
definition names_account :: name where "names_account = 6138663588137709568"
definition saving_account :: name where "saving_account = 6138663590826845888"
definition rex_account :: name where "rex_account = 6138663590357893120"
definition null_account :: name where "null_account = 6138663588472832000"
definition b1_account :: name where "b1_account = 4053239664633446400"

definition ramcore_symbol :: symbol where "ramcore_symbol = Symbol 19512273778065746 4"
definition ram_symbol :: symbol where "ram_symbol = Symbol 5062994 0"
definition rex_symbol :: symbol where "rex_symbol = Symbol 5784914 4"

lemmas account_defs = eosio_account_def token_account_def ram_account_def ramfee_account_def
  stake_account_def bpay_account_def vpay_account_def names_account_def saving_account_def
  rex_account_def null_account_def b1_account_def

lemma accounts_distinct:
  "distinct [eosio_account, token_account, ram_account, ramfee_account, stake_account,
     bpay_account, vpay_account, names_account, saving_account, rex_account, null_account,
     b1_account]"
  by (simp add: account_defs)

section \<open>The context of an action\<close>

record chain =
  self :: name
  has_auth :: "name \<Rightarrow> bool"
  is_account :: "name \<Rightarrow> bool"
  current_time :: uint64
  symbol_valid :: "symbol \<Rightarrow> bool"
  asset_valid :: "asset \<Rightarrow> bool"
  asset_new :: "int64 \<Rightarrow> symbol \<Rightarrow> asset res"
  asset_add :: "asset \<Rightarrow> asset \<Rightarrow> asset res"
  asset_sub :: "asset \<Rightarrow> asset \<Rightarrow> asset res"
  asset_neg :: "asset \<Rightarrow> asset"
  asset_le :: "asset \<Rightarrow> asset \<Rightarrow> bool res"
  to_time_point_sec :: "time_point \<Rightarrow> time_point_sec"
  to_block_timestamp :: "time_point \<Rightarrow> slot"
  suffix :: "name \<Rightarrow> name"

definition max_amount :: int where "max_amount = 4611686018427387903"

definition require_auth :: "('x) chain_scheme \<Rightarrow> name \<Rightarrow> 'a res \<Rightarrow> 'a res" where
  "require_auth c n k = check (has_auth c n) ''missing authority'' k"

definition asset_ops_ok :: "('x) chain_scheme \<Rightarrow> bool" where
  "asset_ops_ok c \<longleftrightarrow>
     (\<forall>n s r. asset_new c n s = Inr r \<longleftrightarrow> \<bar>n\<bar> \<le> max_amount \<and> symbol_valid c s \<and> r = ast n s)
   \<and> (\<forall>a b r. asset_add c a b = Inr r \<longleftrightarrow>
        symb a = symb b \<and> \<bar>amount a + amount b\<bar> \<le> max_amount
        \<and> r = ast (amount a + amount b) (symb a))
   \<and> (\<forall>a b r. asset_sub c a b = Inr r \<longleftrightarrow>
        symb a = symb b \<and> \<bar>amount a - amount b\<bar> \<le> max_amount
        \<and> r = ast (amount a - amount b) (symb a))
   \<and> (\<forall>a. asset_neg c a = ast (- amount a) (symb a))
   \<and> (\<forall>a b v. asset_le c a b = Inr v \<longleftrightarrow> symb a = symb b \<and> v = (amount a \<le> amount b))
   \<and> (\<forall>a. asset_valid c a \<longleftrightarrow> \<bar>amount a\<bar> \<le> max_amount \<and> symbol_valid c (symb a))"

definition time_ops_ok :: "('x) chain_scheme \<Rightarrow> bool" where
  "time_ops_ok c \<longleftrightarrow>
     (\<forall>t. 0 \<le> t \<longrightarrow> to_time_point_sec c t = u32 (t div 1000000))
   \<and> (\<forall>t. 0 \<le> to_block_timestamp c t \<and> to_block_timestamp c t < 4294967296)"

text \<open>What every component theory uses of the library's asset arithmetic.\<close>

lemma asset_newD [lib_simps]:
  "asset_ops_ok c \<Longrightarrow> asset_new c n s = Inr r \<longleftrightarrow> \<bar>n\<bar> \<le> max_amount \<and> symbol_valid c s \<and> r = ast n s"
  by (simp add: asset_ops_ok_def)

lemma asset_addD [lib_simps]:
  "asset_ops_ok c \<Longrightarrow> asset_add c a b = Inr r \<longleftrightarrow>
     symb a = symb b \<and> \<bar>amount a + amount b\<bar> \<le> max_amount \<and> r = ast (amount a + amount b) (symb a)"
  by (simp add: asset_ops_ok_def)

lemma asset_subD [lib_simps]:
  "asset_ops_ok c \<Longrightarrow> asset_sub c a b = Inr r \<longleftrightarrow>
     symb a = symb b \<and> \<bar>amount a - amount b\<bar> \<le> max_amount \<and> r = ast (amount a - amount b) (symb a)"
  by (simp add: asset_ops_ok_def)

lemma asset_negD [lib_simps]: "asset_ops_ok c \<Longrightarrow> asset_neg c a = ast (- amount a) (symb a)"
  by (simp add: asset_ops_ok_def)

lemma asset_leD [lib_simps]:
  "asset_ops_ok c \<Longrightarrow> asset_le c a b = Inr v \<longleftrightarrow> symb a = symb b \<and> v = (amount a \<le> amount b)"
  by (simp add: asset_ops_ok_def)

lemma asset_validD [lib_simps]:
  "asset_ops_ok c \<Longrightarrow> asset_valid c a \<longleftrightarrow> \<bar>amount a\<bar> \<le> max_amount \<and> symbol_valid c (symb a)"
  by (simp add: asset_ops_ok_def)

lemma require_auth_Inr [simp, res_simps]:
  "require_auth c n k = Inr y \<longleftrightarrow> has_auth c n \<and> k = Inr y"
  by (simp add: require_auth_def)

section \<open>A concrete context\<close>

definition ref_chain :: "name \<Rightarrow> name list \<Rightarrow> uint64 \<Rightarrow> chain" where
  "ref_chain me auths now =
     \<lparr>self = me, has_auth = (\<lambda>n. n \<in> set auths), is_account = (\<lambda>_. True), current_time = now,
      symbol_valid = (\<lambda>s. 0 < sym_code s),
      asset_valid = (\<lambda>a. \<bar>amount a\<bar> \<le> max_amount \<and> 0 < sym_code (symb a)),
      asset_new = (\<lambda>n s. if \<bar>n\<bar> \<le> max_amount \<and> 0 < sym_code s then Inr (ast n s) else Inl ''invalid asset''),
      asset_add = (\<lambda>a b. if symb a \<noteq> symb b then Inl ''different symbols''
        else if \<bar>amount a + amount b\<bar> \<le> max_amount then Inr (ast (amount a + amount b) (symb a))
        else Inl ''addition overflow''),
      asset_sub = (\<lambda>a b. if symb a \<noteq> symb b then Inl ''different symbols''
        else if \<bar>amount a - amount b\<bar> \<le> max_amount then Inr (ast (amount a - amount b) (symb a))
        else Inl ''subtraction overflow''),
      asset_neg = (\<lambda>a. ast (- amount a) (symb a)),
      asset_le = (\<lambda>a b. if symb a = symb b then Inr (amount a \<le> amount b) else Inl ''different symbols''),
      to_time_point_sec = (\<lambda>t. u32 (t div 1000000)),
      to_block_timestamp = (\<lambda>t. u32 ((t div 1000 - 946684800000) div 500)),
      suffix = (\<lambda>n. n)\<rparr>"

lemma ref_chain_sel [simp]:
  "self (ref_chain me auths now) = me"
  "has_auth (ref_chain me auths now) n \<longleftrightarrow> n \<in> set auths"
  "is_account (ref_chain me auths now) n"
  "current_time (ref_chain me auths now) = now"
  "symbol_valid (ref_chain me auths now) s \<longleftrightarrow> 0 < sym_code s"
  by (simp_all add: ref_chain_def)

lemma ref_chain_ok [simp]: "asset_ops_ok (ref_chain me auths now)" "time_ops_ok (ref_chain me auths now)"
  by (auto simp: asset_ops_ok_def time_ops_ok_def ref_chain_def)

end
