(* ===== verification/Msig.thy ===== *)
theory Msig
  imports Chain "HOL-Library.Multiset"
begin

text \<open>
  The contract eosio.msig (eosio.msig.hpp, eosio.msig.cpp): proposals, their approvals and the
  accounts' invalidations, one definition per action. The main result ties every approval that
  \<open>exec\<close> counts to the \<open>approve\<close> action that gave it.
\<close>

section \<open>State\<close>

type_synonym bytes = "8 word list"

record approval =
  level :: permission_level
  time :: time_point

record old_approvals_info =
  old_requested :: "permission_level list"
  old_provided :: "permission_level list"

record approvals_info =
  requested_approvals :: "approval list"
  provided_approvals :: "approval list"

text \<open>
  The tables are scoped by the proposer, which is the first part of the key. \<open>deferred\<close> holds
  the deferred transactions sent: sender id, payer and packed transaction.
\<close>

record msig_state =
  proposals :: "(name \<times> name, bytes) fmap"
  old_approvals :: "(name \<times> name, old_approvals_info) fmap"
  approvals :: "(name \<times> name, approvals_info) fmap"
  invals :: "(name, time_point) fmap"
  deferred :: "(int \<times> name \<times> bytes) list"

datatype msig_action =
    Propose name name "permission_level list" bytes
  | Approve name name permission_level "bytes option"
  | Unapprove name name permission_level
  | Cancel name name name
  | Exec name name name
  | Invalidate name

text \<open>
  What the host supplies beyond \<open>chain\<close>: the authority of one permission, the header of a
  packed transaction, whether the keys and permissions given authorise it, and its hash.
\<close>

record msig_chain = chain +
  has_perm :: "permission_level \<Rightarrow> bool"
  trx_expiration :: "bytes \<Rightarrow> time_point_sec res"
  trx_authorized :: "bytes \<Rightarrow> permission_level list \<Rightarrow> bool"
  sha256 :: "bytes \<Rightarrow> bytes"

definition current_time_point :: "('x) chain_scheme \<Rightarrow> time_point" where
  "current_time_point c = i64 (current_time c)"

definition empty_msig :: msig_state where
  "empty_msig = \<lparr>proposals = fmempty, old_approvals = fmempty, approvals = fmempty,
     invals = fmempty, deferred = []\<rparr>"

section \<open>Actions\<close>

text \<open>\<open>vector::erase\<close> at the iterator \<open>std::find_if\<close> returns.\<close>

fun erase_first :: "('a \<Rightarrow> bool) \<Rightarrow> 'a list \<Rightarrow> 'a list" where
  "erase_first P [] = []"
| "erase_first P (x # xs) = (if P x then xs else x # erase_first P xs)"

definition propose ::
  "msig_chain \<Rightarrow> name \<Rightarrow> name \<Rightarrow> permission_level list \<Rightarrow> bytes \<Rightarrow> msig_state \<Rightarrow> msig_state res" where
  "propose c proposer pname requested trx s =
     bindr (trx_expiration c trx) (\<lambda>expiration.
     require_auth c proposer (
     check (to_time_point_sec c (current_time_point c) \<le> expiration) ''transaction expired'' (
     check (fmlookup (proposals s) (proposer, pname) = None) ''proposal with the same name exists'' (
     check (trx_authorized c trx requested) ''transaction authorization failed'' (
     check (fmlookup (approvals s) (proposer, pname) = None) ''could not insert object'' (
     Inr (s\<lparr>proposals := fmupd (proposer, pname) trx (proposals s),
       approvals := fmupd (proposer, pname)
         \<lparr>requested_approvals = map (\<lambda>l. \<lparr>level = l, time = 0\<rparr>) requested,
          provided_approvals = []\<rparr> (approvals s)\<rparr>)))))))"

definition approve ::
  "msig_chain \<Rightarrow> name \<Rightarrow> name \<Rightarrow> permission_level \<Rightarrow> bytes option \<Rightarrow> msig_state \<Rightarrow> msig_state res" where
  "approve c proposer pname lev proposal_hash s =
     check (has_perm c lev) ''missing authority'' (
     bindr (case proposal_hash of
         None \<Rightarrow> Inr ()
       | Some h \<Rightarrow> the_row (fmlookup (proposals s) (proposer, pname)) ''proposal not found'' (\<lambda>prop.
           check (sha256 c prop = h) ''hash mismatch'' (Inr ()))) (\<lambda>_.
     case fmlookup (approvals s) (proposer, pname) of
       Some a \<Rightarrow>
         check (\<exists>x\<in>set (requested_approvals a). level x = lev)
           ''approval is not on the list of requested approvals'' (
         Inr (s\<lparr>approvals := fmupd (proposer, pname)
           (a\<lparr>provided_approvals := provided_approvals a @ [\<lparr>level = lev, time = current_time_point c\<rparr>],
              requested_approvals := erase_first (\<lambda>x. level x = lev) (requested_approvals a)\<rparr>)
           (approvals s)\<rparr>))
     | None \<Rightarrow>
         the_row (fmlookup (old_approvals s) (proposer, pname)) ''proposal not found'' (\<lambda>a.
         check (lev \<in> set (old_requested a)) ''approval is not on the list of requested approvals'' (
         Inr (s\<lparr>old_approvals := fmupd (proposer, pname)
           (a\<lparr>old_provided := old_provided a @ [lev],
              old_requested := erase_first (\<lambda>x. x = lev) (old_requested a)\<rparr>)
           (old_approvals s)\<rparr>)))))"

definition unapprove ::
  "msig_chain \<Rightarrow> name \<Rightarrow> name \<Rightarrow> permission_level \<Rightarrow> msig_state \<Rightarrow> msig_state res" where
  "unapprove c proposer pname lev s =
     check (has_perm c lev) ''missing authority'' (
     case fmlookup (approvals s) (proposer, pname) of
       Some a \<Rightarrow>
         check (\<exists>x\<in>set (provided_approvals a). level x = lev) ''no approval previously granted'' (
         Inr (s\<lparr>approvals := fmupd (proposer, pname)
           (a\<lparr>requested_approvals := requested_approvals a @ [\<lparr>level = lev, time = current_time_point c\<rparr>],
              provided_approvals := erase_first (\<lambda>x. level x = lev) (provided_approvals a)\<rparr>)
           (approvals s)\<rparr>))
     | None \<Rightarrow>
         the_row (fmlookup (old_approvals s) (proposer, pname)) ''proposal not found'' (\<lambda>a.
         check (lev \<in> set (old_provided a)) ''no approval previously granted'' (
         Inr (s\<lparr>old_approvals := fmupd (proposer, pname)
           (a\<lparr>old_requested := old_requested a @ [lev],
              old_provided := erase_first (\<lambda>x. x = lev) (old_provided a)\<rparr>)
           (old_approvals s)\<rparr>))))"

definition cancel :: "msig_chain \<Rightarrow> name \<Rightarrow> name \<Rightarrow> name \<Rightarrow> msig_state \<Rightarrow> msig_state res" where
  "cancel c proposer pname canceler s =
     require_auth c canceler (
     the_row (fmlookup (proposals s) (proposer, pname)) ''proposal not found'' (\<lambda>trx.
     bindr (if canceler \<noteq> proposer then
         bindr (trx_expiration c trx) (\<lambda>expiration.
         check (expiration < to_time_point_sec c (current_time_point c))
           ''cannot cancel until expiration'' (Inr ()))
       else Inr ()) (\<lambda>_.
     let s1 = s\<lparr>proposals := fmdrop (proposer, pname) (proposals s)\<rparr> in
     case fmlookup (approvals s1) (proposer, pname) of
       Some _ \<Rightarrow> Inr (s1\<lparr>approvals := fmdrop (proposer, pname) (approvals s1)\<rparr>)
     | None \<Rightarrow>
         check (fmlookup (old_approvals s1) (proposer, pname) \<noteq> None) ''proposal not found'' (
         Inr (s1\<lparr>old_approvals := fmdrop (proposer, pname) (old_approvals s1)\<rparr>)))))"

definition still_valid :: "msig_state \<Rightarrow> approval \<Rightarrow> bool" where
  "still_valid s p = (case fmlookup (invals s) (actor (level p)) of
     None \<Rightarrow> True | Some last_invalidation_time \<Rightarrow> last_invalidation_time < time p)"

definition msig_exec :: "msig_chain \<Rightarrow> name \<Rightarrow> name \<Rightarrow> name \<Rightarrow> msig_state \<Rightarrow> msig_state res" where
  "msig_exec c proposer pname executer s =
     require_auth c executer (
     the_row (fmlookup (proposals s) (proposer, pname)) ''proposal not found'' (\<lambda>trx.
     bindr (trx_expiration c trx) (\<lambda>expiration.
     check (to_time_point_sec c (current_time_point c) \<le> expiration) ''transaction expired'' (
     bindr (case fmlookup (approvals s) (proposer, pname) of
         Some a \<Rightarrow> Inr (map level (filter (still_valid s) (provided_approvals a)),
           s\<lparr>approvals := fmdrop (proposer, pname) (approvals s)\<rparr>)
       | None \<Rightarrow> the_row (fmlookup (old_approvals s) (proposer, pname)) ''proposal not found'' (\<lambda>a.
           Inr (filter (\<lambda>l. fmlookup (invals s) (actor l) = None) (old_provided a),
             s\<lparr>old_approvals := fmdrop (proposer, pname) (old_approvals s)\<rparr>))) (\<lambda>(counted, s1).
     check (trx_authorized c trx counted) ''transaction authorization failed'' (
     Inr (s1\<lparr>deferred := deferred s1 @ [(uint proposer * 18446744073709551616 + uint pname, executer, trx)],
       proposals := fmdrop (proposer, pname) (proposals s1)\<rparr>)))))))"

definition invalidate :: "msig_chain \<Rightarrow> name \<Rightarrow> msig_state \<Rightarrow> msig_state res" where
  "invalidate c acct s =
     require_auth c acct (
     Inr (s\<lparr>invals := fmupd acct (current_time_point c) (invals s)\<rparr>))"

fun apply_msig :: "msig_chain \<Rightarrow> msig_action \<Rightarrow> msig_state \<Rightarrow> msig_state res" where
  "apply_msig c (Propose p n req trx) s = propose c p n req trx s"
| "apply_msig c (Approve p n l h) s = approve c p n l h s"
| "apply_msig c (Unapprove p n l) s = unapprove c p n l s"
| "apply_msig c (Cancel p n who) s = cancel c p n who s"
| "apply_msig c (Exec p n who) s = msig_exec c p n who s"
| "apply_msig c (Invalidate a) s = invalidate c a s"

abbreviation msig_step :: "msig_chain \<times> msig_action \<Rightarrow> msig_state \<Rightarrow> msig_state res" where
  "msig_step \<equiv> \<lambda>(c, a). apply_msig c a"


section \<open>Lists of approvals\<close>

lemma mset_erase_first:
  "x \<in># mset xs \<Longrightarrow> P x \<Longrightarrow> \<exists>y. P y \<and> y \<in> set xs \<and> mset xs = add_mset y (mset (erase_first P xs))"
  by (induction xs) (auto simp: add_mset_commute)

lemma erase_first_mset:
  assumes "\<exists>x\<in>set xs. f x = l"
  shows "image_mset f (mset xs) = add_mset l (image_mset f (mset (erase_first (\<lambda>x. f x = l) xs)))"
proof -
  from assms obtain x where "x \<in># mset xs" "f x = l" by auto
  from mset_erase_first [OF this(1), of "\<lambda>x. f x = l"] this(2) show ?thesis by force
qed

lemma set_erase_first: "set (erase_first P xs) \<subseteq> set xs"
  by (induction xs) auto

definition levels :: "approvals_info \<Rightarrow> permission_level multiset" where
  "levels a = image_mset level (mset (requested_approvals a) + mset (provided_approvals a))"

definition old_levels :: "old_approvals_info \<Rightarrow> permission_level multiset" where
  "old_levels a = mset (old_requested a) + mset (old_provided a)"

lemma size_levels:
  "size (levels a) = length (requested_approvals a) + length (provided_approvals a)"
  by (simp add: levels_def)

section \<open>The history of a run\<close>

text \<open>
  \<open>granted es p n x\<close>: the actions \<open>es\<close> hold an \<open>approve\<close> of \<open>x\<close>'s level, carrying its authority
  and at its time, after which nobody executed or cancelled the proposal or, if its levels were
  requested once each, unapproved that level. (\<open>propose\<close> does not check this: of a level requested
  twice and approved twice, \<open>unapprove\<close> takes back one approval and leaves the other.)
\<close>

fun settles :: "name \<Rightarrow> name \<Rightarrow> msig_action \<Rightarrow> bool" where
  "settles p n (Exec p' n' _) \<longleftrightarrow> p' = p \<and> n' = n"
| "settles p n (Cancel p' n' _) \<longleftrightarrow> p' = p \<and> n' = n"
| "settles p n _ \<longleftrightarrow> False"

definition requested_once :: "(msig_chain \<times> msig_action) list \<Rightarrow> name \<Rightarrow> name \<Rightarrow> bool" where
  "requested_once es p n \<longleftrightarrow> (\<forall>c req trx. (c, Propose p n req trx) \<in> set es \<longrightarrow> distinct req)"

definition granted :: "(msig_chain \<times> msig_action) list \<Rightarrow> name \<Rightarrow> name \<Rightarrow> approval \<Rightarrow> bool" where
  "granted es p n x \<longleftrightarrow> (\<exists>es1 c h es2. es = es1 @ (c, Approve p n (level x) h) # es2
     \<and> has_perm c (level x) \<and> time x = current_time_point c
     \<and> (\<forall>e\<in>set es2. \<not> settles p n (snd e) \<and> (requested_once es p n \<longrightarrow> snd e \<noteq> Unapprove p n (level x))))"

definition row_good :: "(msig_chain \<times> msig_action) list \<Rightarrow> name \<Rightarrow> name \<Rightarrow> approvals_info \<Rightarrow> bool" where
  "row_good es p n a \<longleftrightarrow>
     (requested_once es p n \<longrightarrow> distinct (map level (requested_approvals a) @ map level (provided_approvals a)))
   \<and> (\<forall>x\<in>set (provided_approvals a). granted es p n x)"

definition hist_inv :: "(msig_chain \<times> msig_action) list \<Rightarrow> msig_state \<Rightarrow> bool" where
  "hist_inv es s \<longleftrightarrow>
     (\<forall>p n a. fmlookup (approvals s) (p, n) = Some a \<longrightarrow> row_good es p n a)
   \<and> (\<forall>p n. fmlookup (approvals s) (p, n) = None \<longleftrightarrow> fmlookup (proposals s) (p, n) = None)
   \<and> old_approvals s = fmempty
   \<and> (\<forall>c acct. (c, Invalidate acct) \<in> set es \<longrightarrow>
        (\<exists>t. fmlookup (invals s) acct = Some t \<and> current_time_point c \<le> t))"

definition in_order :: "(msig_chain \<times> msig_action) list \<Rightarrow> msig_chain \<times> msig_action \<Rightarrow> bool" where
  "in_order es e \<longleftrightarrow> (\<forall>e'\<in>set es. current_time_point (fst e') \<le> current_time_point (fst e))"

lemma requested_once_less: "requested_once (es @ es') p n \<Longrightarrow> requested_once es p n"
  by (auto simp: requested_once_def)

lemma granted_later:
  assumes "granted es p n x" "\<not> settles p n (snd e)"
    and "requested_once (es @ [e]) p n \<Longrightarrow> snd e \<noteq> Unapprove p n (level x)"
  shows "granted (es @ [e]) p n x"
proof -
  from assms(1) obtain es1 c h es2 where g: "es = es1 @ (c, Approve p n (level x) h) # es2" "has_perm c (level x)"
    "time x = current_time_point c"
    "\<forall>e\<in>set es2. \<not> settles p n (snd e) \<and> (requested_once es p n \<longrightarrow> snd e \<noteq> Unapprove p n (level x))"
    unfolding granted_def by blast
  have "\<forall>e'\<in>set (es2 @ [e]). \<not> settles p n (snd e') \<and> (requested_once (es @ [e]) p n \<longrightarrow> snd e' \<noteq> Unapprove p n (level x))"
    using g(4) assms(2,3) requested_once_less [of es "[e]" p n] by auto
  then show ?thesis unfolding granted_def
    by (intro exI [of _ es1] exI [of _ c] exI [of _ h] exI [of _ "es2 @ [e]"]) (use g(1-3) in simp)
qed

lemma granted_now:
  "has_perm c l \<Longrightarrow> granted (es @ [(c, Approve p n l h)]) p n \<lparr>level = l, time = current_time_point c\<rparr>"
  unfolding granted_def by fastforce

text \<open>What an action other than \<open>invalidate\<close> leaves in the invalidation table, and \<open>invalidate\<close> itself.\<close>

lemma hist_inv_invals:
  assumes inv: "hist_inv es s" and ord: "in_order es (c, a)"
    and upd: "\<And>k. fmlookup (invals s') k =
      (if a = Invalidate k then Some (current_time_point c) else fmlookup (invals s) k)"
    and e: "(c', Invalidate acct) \<in> set (es @ [(c, a)])"
  shows "\<exists>t. fmlookup (invals s') acct = Some t \<and> current_time_point c' \<le> t"
  using assms by (fastforce simp: hist_inv_def in_order_def)

lemma hist_inv_row:
  assumes "hist_inv es s" "fmlookup (approvals s) (p, n) = Some a"
  shows "requested_once es p n \<Longrightarrow> distinct (map level (requested_approvals a) @ map level (provided_approvals a))"
    "x \<in> set (provided_approvals a) \<Longrightarrow> granted es p n x"
  using assms by (auto simp: hist_inv_def row_good_def)

lemma hist_invI:
  assumes "hist_inv es s" "in_order es (c, a)"
    and "\<And>k. fmlookup (invals s') k =
      (if a = Invalidate k then Some (current_time_point c) else fmlookup (invals s) k)"
    and "\<And>p n. fmlookup (approvals s') (p, n) = None \<longleftrightarrow> fmlookup (proposals s') (p, n) = None"
    and "old_approvals s' = fmempty"
    and "\<And>p n r. fmlookup (approvals s') (p, n) = Some r \<Longrightarrow>
      row_good (es @ [(c, a)]) p n r"
  shows "hist_inv (es @ [(c, a)]) s'"
  unfolding hist_inv_def using assms(4-6) hist_inv_invals [OF assms(1-3)] by blast

lemma hist_inv_keep:
  assumes "hist_inv es s" "fmlookup (approvals s) (p, n) = Some r" "\<not> settles p n a" "\<And>l. a \<noteq> Unapprove p n l"
  shows "row_good (es @ [(c, a)]) p n r"
  unfolding row_good_def using hist_inv_row(1) [OF assms(1,2) requested_once_less] hist_inv_row(2) [OF assms(1,2)] assms(3,4)
  by (auto intro: granted_later)

lemma distinct_iff_mset_eq: "mset xs = mset ys \<Longrightarrow> distinct xs \<longleftrightarrow> distinct ys"
  by (metis distinct_count_atmost_1 set_mset_mset)

lemma distinct_move:
  assumes "distinct (map level xs @ map level ys)" "\<exists>x\<in>set xs. level x = l"
  shows "distinct (map level (erase_first (\<lambda>x. level x = l) xs) @ map level (ys @ [\<lparr>level = l, time = t\<rparr>]))"
proof -
  have "mset (map level xs) = add_mset l (mset (map level (erase_first (\<lambda>x. level x = l) xs)))"
    using erase_first_mset [OF assms(2)] by simp
  then show ?thesis
    using assms(1) by (subst distinct_iff_mset_eq [where ys = "map level xs @ map level ys"]) simp_all
qed

lemma distinct_swap: "distinct (xs @ ys) \<Longrightarrow> distinct (ys @ xs)"
  by auto

lemma hist_inv_consistent:
  assumes "hist_inv es s"
  shows "fmlookup (approvals s) (p, n) = None \<longleftrightarrow> fmlookup (proposals s) (p, n) = None"
    "old_approvals s = fmempty"
  using assms by (simp_all add: hist_inv_def)

lemma propose_hist:
  assumes inv: "hist_inv es s" and ord: "in_order es (c, Propose p n req trx)"
    and run: "propose c p n req trx s = Inr s'"
  shows "hist_inv (es @ [(c, Propose p n req trx)]) s'"
proof -
  from run have s': "s' = s\<lparr>proposals := fmupd (p, n) trx (proposals s),
       approvals := fmupd (p, n) \<lparr>requested_approvals = map (\<lambda>l. \<lparr>level = l, time = 0\<rparr>) req,
          provided_approvals = []\<rparr> (approvals s)\<rparr>"
    by (auto simp: propose_def res_simps)
  have "distinct req" if "requested_once (es @ [(c, Propose p n req trx)]) p n" using that by (auto simp: requested_once_def)
  then show ?thesis
    using hist_inv_consistent [OF inv] hist_inv_keep [OF inv, where a = "Propose p n req trx" and c = c]
    by (intro hist_invI [OF inv ord]) (auto simp: s' row_good_def comp_def split: if_splits)
qed

lemma approve_hist:
  assumes inv: "hist_inv es s" and ord: "in_order es (c, Approve p n l h)"
    and run: "approve c p n l h s = Inr s'"
  shows "hist_inv (es @ [(c, Approve p n l h)]) s'"
proof -
  note con = hist_inv_consistent [OF inv]
  from run con(2) obtain a where perm: "has_perm c l" and a: "fmlookup (approvals s) (p, n) = Some a"
    and req: "\<exists>x\<in>set (requested_approvals a). level x = l"
    and s': "s' = s\<lparr>approvals := fmupd (p, n)
       (a\<lparr>provided_approvals := provided_approvals a @ [\<lparr>level = l, time = current_time_point c\<rparr>],
          requested_approvals := erase_first (\<lambda>x. level x = l) (requested_approvals a)\<rparr>) (approvals s)\<rparr>"
    by (auto simp: approve_def res_simps split: option.splits)
  note keep = hist_inv_keep [OF inv, where a = "Approve p n l h" and c = c]
  show ?thesis
  proof (rule hist_invI [OF inv ord])
    fix p' n' r assume r: "fmlookup (approvals s') (p', n') = Some r"
    show "row_good (es @ [(c, Approve p n l h)]) p' n' r"
    proof (cases "p' = p \<and> n' = n")
      case True
      with r have "r = a\<lparr>provided_approvals := provided_approvals a @ [\<lparr>level = l, time = current_time_point c\<rparr>],
          requested_approvals := erase_first (\<lambda>x. level x = l) (requested_approvals a)\<rparr>"
        by (simp add: s')
      moreover have "distinct (map level (erase_first (\<lambda>x. level x = l) (requested_approvals a))
          @ map level (provided_approvals a @ [\<lparr>level = l, time = current_time_point c\<rparr>]))"
        if "requested_once (es @ [(c, Approve p n l h)]) p n"
        by (rule distinct_move [OF hist_inv_row(1) [OF inv a] req]) (rule requested_once_less [OF that])
      ultimately show ?thesis
        using keep [OF a] True granted_now [OF perm] by (simp add: row_good_def)
    next
      case False
      with r have "fmlookup (approvals s) (p', n') = Some r" by (auto simp: s' split: if_splits)
      then show ?thesis by (rule keep) simp_all
    qed
  qed (use con con(1) [of p n] a in \<open>auto simp: s' split: if_splits\<close>)
qed

lemma erase_first_gone:
  "distinct (map f xs) \<Longrightarrow> x \<in> set (erase_first (\<lambda>x. f x = l) xs) \<Longrightarrow> f x \<noteq> l"
  by (induction xs) (force split: if_splits simp: image_iff)+

lemma unapprove_hist:
  assumes inv: "hist_inv es s" and ord: "in_order es (c, Unapprove p n l)"
    and run: "unapprove c p n l s = Inr s'"
  shows "hist_inv (es @ [(c, Unapprove p n l)]) s'"
proof -
  note con = hist_inv_consistent [OF inv]
  from run con(2) obtain a where a: "fmlookup (approvals s) (p, n) = Some a"
    and prov: "\<exists>x\<in>set (provided_approvals a). level x = l"
    and s': "s' = s\<lparr>approvals := fmupd (p, n)
       (a\<lparr>requested_approvals := requested_approvals a @ [\<lparr>level = l, time = current_time_point c\<rparr>],
          provided_approvals := erase_first (\<lambda>x. level x = l) (provided_approvals a)\<rparr>) (approvals s)\<rparr>"
    by (auto simp: unapprove_def res_simps split: option.splits)
  note row = hist_inv_row [OF inv a]
  have "\<forall>x\<in>set (erase_first (\<lambda>x. level x = l) (provided_approvals a)). granted (es @ [(c, Unapprove p n l)]) p n x"
  proof
    fix x assume x: "x \<in> set (erase_first (\<lambda>x. level x = l) (provided_approvals a))"
    then have "level x \<noteq> l" if "requested_once (es @ [(c, Unapprove p n l)]) p n"
      using row(1) [OF requested_once_less [OF that]] by (intro erase_first_gone [of level]) auto
    moreover have "granted es p n x" using row(2) x set_erase_first by fastforce
    ultimately show "granted (es @ [(c, Unapprove p n l)]) p n x" by (intro granted_later) auto
  qed
  moreover have "distinct (map level (requested_approvals a @ [\<lparr>level = l, time = current_time_point c\<rparr>])
      @ map level (erase_first (\<lambda>x. level x = l) (provided_approvals a)))"
    if "requested_once (es @ [(c, Unapprove p n l)]) p n"
    using distinct_move [OF distinct_swap [OF row(1) [OF requested_once_less [OF that]]] prov] by auto
  ultimately have "row_good (es @ [(c, Unapprove p n l)]) p n
      (a\<lparr>requested_approvals := requested_approvals a @ [\<lparr>level = l, time = current_time_point c\<rparr>],
         provided_approvals := erase_first (\<lambda>x. level x = l) (provided_approvals a)\<rparr>)"
    unfolding row_good_def by simp
  then show ?thesis
    using con con(1) [of p n] a hist_inv_keep [OF inv, where a = "Unapprove p n l" and c = c]
    by (intro hist_invI [OF inv ord]) (auto simp: s' split: if_splits)
qed

lemma cancel_hist:
  assumes inv: "hist_inv es s" and ord: "in_order es (c, Cancel p n w)"
    and run: "cancel c p n w s = Inr s'"
  shows "hist_inv (es @ [(c, Cancel p n w)]) s'"
proof -
  note con = hist_inv_consistent [OF inv]
  from run con have s': "s' = s\<lparr>proposals := fmdrop (p, n) (proposals s), approvals := fmdrop (p, n) (approvals s)\<rparr>"
    by (auto simp: cancel_def Let_def res_simps split: option.splits if_splits)
  show ?thesis
    using con hist_inv_keep [OF inv, where a = "Cancel p n w" and c = c]
    by (intro hist_invI [OF inv ord]) (auto simp: s' split: if_splits)
qed

lemma msig_exec_parts:
  assumes con: "fmlookup (approvals s) (p, n) = None \<longleftrightarrow> fmlookup (proposals s) (p, n) = None"
    and run: "msig_exec c p n w s = Inr s'"
  obtains trx a e where "has_auth c w" "fmlookup (proposals s) (p, n) = Some trx"
    "fmlookup (approvals s) (p, n) = Some a" "trx_expiration c trx = Inr e"
    "to_time_point_sec c (current_time_point c) \<le> e"
    "trx_authorized c trx (map level (filter (still_valid s) (provided_approvals a)))"
    "s' = s\<lparr>proposals := fmdrop (p, n) (proposals s), approvals := fmdrop (p, n) (approvals s),
       deferred := deferred s @ [(uint p * 18446744073709551616 + uint n, w, trx)]\<rparr>"
  using run con that by (auto simp: msig_exec_def res_simps split: option.splits)

lemma msig_exec_hist:
  assumes inv: "hist_inv es s" and ord: "in_order es (c, Exec p n w)"
    and run: "msig_exec c p n w s = Inr s'"
  shows "hist_inv (es @ [(c, Exec p n w)]) s'"
proof -
  note con = hist_inv_consistent [OF inv]
  from msig_exec_parts [OF con(1) run] obtain trx
    where s': "s' = s\<lparr>proposals := fmdrop (p, n) (proposals s), approvals := fmdrop (p, n) (approvals s),
       deferred := deferred s @ [(uint p * 18446744073709551616 + uint n, w, trx)]\<rparr>" by metis
  show ?thesis
    using con hist_inv_keep [OF inv, where a = "Exec p n w" and c = c]
    by (intro hist_invI [OF inv ord]) (auto simp: s' split: if_splits)
qed

lemma invalidate_hist:
  assumes inv: "hist_inv es s" and ord: "in_order es (c, Invalidate acct)"
    and run: "invalidate c acct s = Inr s'"
  shows "hist_inv (es @ [(c, Invalidate acct)]) s'"
proof -
  from run have s': "s' = s\<lparr>invals := fmupd acct (current_time_point c) (invals s)\<rparr>"
    by (auto simp: invalidate_def)
  show ?thesis
    using hist_inv_consistent [OF inv] hist_inv_keep [OF inv, where a = "Invalidate acct" and c = c]
    by (intro hist_invI [OF inv ord]) (auto simp: s' split: if_splits)
qed

interpretation msig_history: traced msig_step in_order hist_inv
proof
  fix h e s s' assume "in_order h e" "hist_inv h s" "msig_step e s = Inr s'"
  then show "hist_inv (h @ [e]) s'"
    by (cases e; cases "snd e")
      (auto intro: propose_hist approve_hist unapprove_hist cancel_hist msig_exec_hist invalidate_hist)
qed

lemma hist_inv_empty: "hist_inv [] empty_msig"
  by (simp add: hist_inv_def empty_msig_def)

section \<open>Collecting the approvals of a proposal\<close>

abbreviation approve_all :: "name \<Rightarrow> name \<Rightarrow> (msig_chain \<times> permission_level) list \<Rightarrow> (msig_chain \<times> msig_action) list" where
  "approve_all p n \<equiv> map (\<lambda>(c, l). (c, Approve p n l None))"

definition stamp :: "msig_chain \<times> permission_level \<Rightarrow> approval" where
  "stamp = (\<lambda>(c, l). \<lparr>level = l, time = current_time_point c\<rparr>)"

lemma approve_all_runs:
  assumes "fmlookup (approvals s) (p, n) = Some a"
    and "mset (map level (requested_approvals a)) = mset (map snd apps)"
    and "\<forall>(c, l)\<in>set apps. has_perm c l"
  shows "\<exists>s'. run_all msig_step (approve_all p n apps) s = Inr s' \<and> invals s' = invals s
    \<and> proposals s' = proposals s
    \<and> (\<exists>r. fmlookup (approvals s') (p, n) = Some r
        \<and> provided_approvals r = provided_approvals a @ map stamp apps)"
  using assms
proof (induction apps arbitrary: s a)
  case (Cons x apps)
  obtain c l where x: "x = (c, l)" by fastforce
  have "l \<in># mset (map level (requested_approvals a))" using Cons.prems(2) x by simp
  then have req: "\<exists>y\<in>set (requested_approvals a). level y = l" by force
  let ?a = "a\<lparr>provided_approvals := provided_approvals a @ [\<lparr>level = l, time = current_time_point c\<rparr>],
     requested_approvals := erase_first (\<lambda>y. level y = l) (requested_approvals a)\<rparr>"
  let ?s = "s\<lparr>approvals := fmupd (p, n) ?a (approvals s)\<rparr>"
  have step: "approve c p n l None s = Inr ?s"
    using Cons.prems req x by (auto simp: approve_def check_def)
  have "mset (map level (requested_approvals ?a)) = mset (map snd apps)"
    using erase_first_mset [OF req] Cons.prems(2) x by simp
  from Cons.IH [of ?s ?a, OF _ this] Cons.prems(3)
  show ?case using step by (auto simp: x stamp_def)
qed auto

lemma exec_when_approved:
  assumes "has_auth c w" "fmlookup (proposals s) (p, n) = Some trx" "trx_expiration c trx = Inr e"
    "to_time_point_sec c (current_time_point c) \<le> e" "fmlookup (approvals s) (p, n) = Some a"
    "trx_authorized c trx (map level (filter (still_valid s) (provided_approvals a)))"
  shows "succeeds (msig_exec c p n w s)"
  using assms by (simp add: msig_exec_def require_auth_def)

section \<open>Properties\<close>

text \<open>A run whose contexts come in the order of their block times; in an orderly one, no proposal requests a level twice.\<close>

definition timely :: "(msig_chain \<times> msig_action) list \<Rightarrow> bool" where
  "timely es \<longleftrightarrow> sorted (map (\<lambda>e. current_time_point (fst e)) es)"

definition orderly :: "(msig_chain \<times> msig_action) list \<Rightarrow> bool" where
  "orderly es \<longleftrightarrow> sorted (map (\<lambda>e. current_time_point (fst e)) es)
     \<and> (\<forall>e\<in>set es. case snd e of Propose _ _ req _ \<Rightarrow> distinct req | _ \<Rightarrow> True)"

lemma timely_in_order: "timely (es1 @ e # es2) \<Longrightarrow> in_order es1 e"
  by (auto simp: timely_def in_order_def sorted_append)

lemma timely_hist: "timely es \<Longrightarrow> run_all msig_step es empty_msig = Inr s \<Longrightarrow> hist_inv es s"
  by (rule msig_history.trace_inv [OF _ hist_inv_empty]) (auto dest: timely_in_order)

lemma orderly_hist: "orderly es \<Longrightarrow> run_all msig_step es empty_msig = Inr s \<Longrightarrow> hist_inv es s"
  by (rule timely_hist) (simp_all add: orderly_def timely_def)

text \<open>An approval that is still valid was not followed by an invalidation of its actor.\<close>

lemma still_valid_no_invalidate:
  assumes inv: "hist_inv es s" and ord: "timely es" and v: "still_valid s x"
    and es: "es = es1 @ (c, a) # es2" and t: "time x = current_time_point c" and e: "e \<in> set es2"
  shows "snd e \<noteq> Invalidate (actor (level x))"
proof
  assume "snd e = Invalidate (actor (level x))"
  then have "(fst e, Invalidate (actor (level x))) \<in> set es" using e es by (metis (no_types, lifting)
      UnCI list.set_intros(2) prod.collapse set_append)
  with inv obtain t' where t': "fmlookup (invals s) (actor (level x)) = Some t'"
      "current_time_point (fst e) \<le> t'"
    unfolding hist_inv_def by blast
  have "current_time_point c \<le> current_time_point (fst e)"
    using ord e es by (auto simp: timely_def sorted_append)
  with v t t' show False by (simp add: still_valid_def)
qed

definition ex_msig_ctx :: "name \<Rightarrow> int \<Rightarrow> msig_chain" where
  "ex_msig_ctx n now = chain.extend (ref_chain 0 [n] now)
     \<lparr>has_perm = (\<lambda>l. actor l = n), trx_expiration = (\<lambda>b. if b = [] then Inl ''read'' else Inr (uint (hd b))),
      trx_authorized = (\<lambda>b ls. 2 \<le> length ls \<or> b = [1]), sha256 = (\<lambda>b. b)\<rparr>"

abbreviation ex_l :: "name \<Rightarrow> permission_level" where "ex_l n \<equiv> Perm n active_permission"

definition ex_msig_run :: "(msig_chain \<times> msig_action) list" where
  "ex_msig_run =
     [(ex_msig_ctx 1 1000000, Propose 1 7 [ex_l 2, ex_l 3, ex_l 4] [200, 5]),
      (ex_msig_ctx 2 2000000, Approve 1 7 (ex_l 2) None),
      (ex_msig_ctx 3 2000000, Approve 1 7 (ex_l 3) (Some [200, 5])),
      (ex_msig_ctx 4 3000000, Approve 1 7 (ex_l 4) None),
      (ex_msig_ctx 2 4000000, Invalidate 2)]"

definition ex_msig_state :: msig_state where
  "ex_msig_state = \<lparr>proposals = fmupd (1, 7) [200, 5] fmempty, old_approvals = fmempty,
     approvals = fmupd (1, 7) \<lparr>requested_approvals = [], provided_approvals =
       [\<lparr>level = ex_l 2, time = 2000000\<rparr>, \<lparr>level = ex_l 3, time = 2000000\<rparr>,
        \<lparr>level = ex_l 4, time = 3000000\<rparr>]\<rparr> fmempty,
     invals = fmupd 2 4000000 fmempty, deferred = []\<rparr>"

lemmas ex_msig_simps = ex_msig_ctx_def ref_chain_def chain.defs current_time_point_def i64_def u32_def

lemma ex_msig_run: "run_all msig_step ex_msig_run empty_msig = Inr ex_msig_state"
  by (simp add: ex_msig_run_def ex_msig_state_def empty_msig_def propose_def approve_def
      invalidate_def require_auth_def ex_msig_simps)

lemma ex_msig_timely: "timely ex_msig_run"
  by (simp add: timely_def ex_msig_run_def ex_msig_simps)

lemma ex_msig_orderly: "orderly ex_msig_run"
  by (simp add: orderly_def ex_msig_run_def ex_msig_simps)

text \<open>
  C6: An execution rests on live approvals only. Whatever run in the order of time led to the state,
  when \<open>exec\<close> succeeds the host has authorised exactly the proposed transaction with a list of levels
  each of which was approved, under its own authority, for this proposal, and after that approval
  nobody executed or cancelled the proposal or invalidated the actor; and, if the proposal requested
  each level once (which \<open>propose\<close> does not check), nobody withdrew that approval.
\<close>

theorem exec_rests_on_live_approvals:
  assumes "timely es" and "run_all msig_step es empty_msig = Inr s"
    and "msig_exec c p n w s = Inr s'"
  shows "\<exists>trx counted. fmlookup (proposals s) (p, n) = Some trx \<and> trx_authorized c trx counted
    \<and> deferred s' = deferred s @ [(uint p * 2 ^ 64 + uint n, w, trx)]
    \<and> fmlookup (proposals s') (p, n) = None \<and> fmlookup (approvals s') (p, n) = None
    \<and> (\<forall>l\<in>set counted. \<exists>es1 c' h es2. es = es1 @ (c', Approve p n l h) # es2 \<and> has_perm c' l
        \<and> (\<forall>e\<in>set es2. \<not> settles p n (snd e) \<and> snd e \<noteq> Invalidate (actor l)
            \<and> (requested_once es p n \<longrightarrow> snd e \<noteq> Unapprove p n l)))"
proof -
  have inv: "hist_inv es s" by (rule timely_hist [OF assms(1,2)])
  from msig_exec_parts [OF hist_inv_consistent(1) [OF inv] assms(3)] obtain trx a where
    trx: "fmlookup (proposals s) (p, n) = Some trx" and a: "fmlookup (approvals s) (p, n) = Some a"
    and auth: "trx_authorized c trx (map level (filter (still_valid s) (provided_approvals a)))"
    and s': "s' = s\<lparr>proposals := fmdrop (p, n) (proposals s), approvals := fmdrop (p, n) (approvals s),
       deferred := deferred s @ [(uint p * 18446744073709551616 + uint n, w, trx)]\<rparr>" by metis
  have "\<exists>es1 c' h es2. es = es1 @ (c', Approve p n (level x) h) # es2 \<and> has_perm c' (level x)
      \<and> (\<forall>e\<in>set es2. \<not> settles p n (snd e) \<and> snd e \<noteq> Invalidate (actor (level x))
          \<and> (requested_once es p n \<longrightarrow> snd e \<noteq> Unapprove p n (level x)))"
    if x: "x \<in> set (provided_approvals a)" "still_valid s x" for x
    using hist_inv_row(2) [OF inv a x(1)] still_valid_no_invalidate [OF inv assms(1) x(2)]
    unfolding granted_def by metis
  then have "\<forall>l\<in>set (map level (filter (still_valid s) (provided_approvals a))).
      \<exists>es1 c' h es2. es = es1 @ (c', Approve p n l h) # es2 \<and> has_perm c' l
      \<and> (\<forall>e\<in>set es2. \<not> settles p n (snd e) \<and> snd e \<noteq> Invalidate (actor l)
          \<and> (requested_once es p n \<longrightarrow> snd e \<noteq> Unapprove p n l))"
    by auto
  moreover have "deferred s' = deferred s @ [(uint p * 2 ^ 64 + uint n, w, trx)]"
    "fmlookup (proposals s') (p, n) = None" "fmlookup (approvals s') (p, n) = None"
    by (simp_all add: s')
  ultimately show ?thesis using trx auth by blast
qed

theorem exec_rests_on_live_approvals_witness:
  "\<exists>s'. msig_exec (ex_msig_ctx 9 5000000) 1 7 9 ex_msig_state = Inr s'
     \<and> deferred s' = [(18446744073709551623, 9, [200, 5])] \<and> fmlookup (approvals s') (1, 7) = None"
proof -
  obtain s' where s': "msig_exec (ex_msig_ctx 9 5000000) 1 7 9 ex_msig_state = Inr s'"
    by (auto simp: msig_exec_def ex_msig_state_def require_auth_def still_valid_def ex_msig_simps)
  from exec_rests_on_live_approvals [OF ex_msig_timely ex_msig_run s'] s' show ?thesis
    by (auto simp: ex_msig_state_def)
qed

text \<open>
  C7: Giving or withdrawing an approval moves a level between the two lists of its proposal and
  loses nothing: the levels of every proposal, and so the size of its row, stay what they were,
  in the current and in the legacy table, and no other table changes.
\<close>

theorem approvals_only_move:
  assumes "apply_msig c (Approve p n l h) s = Inr s' \<or> apply_msig c (Unapprove p n l) s = Inr s'"
  shows "map_option levels (fmlookup (approvals s') k) = map_option levels (fmlookup (approvals s) k)
    \<and> map_option old_levels (fmlookup (old_approvals s') k) = map_option old_levels (fmlookup (old_approvals s) k)
    \<and> proposals s' = proposals s \<and> invals s' = invals s \<and> deferred s' = deferred s"
proof (cases "fmlookup (approvals s) (p, n)")
  case (Some a)
  let ?er = "erase_first (\<lambda>x. level x = l)"
  from assms Some consider
      "\<exists>x\<in>set (requested_approvals a). level x = l" "s' = s\<lparr>approvals := fmupd (p, n)
        (a\<lparr>provided_approvals := provided_approvals a @ [\<lparr>level = l, time = current_time_point c\<rparr>],
           requested_approvals := ?er (requested_approvals a)\<rparr>) (approvals s)\<rparr>"
    | "\<exists>x\<in>set (provided_approvals a). level x = l" "s' = s\<lparr>approvals := fmupd (p, n)
        (a\<lparr>requested_approvals := requested_approvals a @ [\<lparr>level = l, time = current_time_point c\<rparr>],
           provided_approvals := ?er (provided_approvals a)\<rparr>) (approvals s)\<rparr>"
    by (simp add: approve_def unapprove_def res_simps) blast
  then show ?thesis
    using erase_first_mset [of "requested_approvals a" level l]
      erase_first_mset [of "provided_approvals a" level l] Some
    by cases (auto simp: levels_def)
next
  case None
  have e: "l \<in> set xs \<Longrightarrow> mset xs = add_mset l (mset (erase_first (\<lambda>x. x = l) xs))" for xs
    using erase_first_mset [of xs "\<lambda>x. x" l] by simp
  from assms None show ?thesis
    by (auto simp: approve_def unapprove_def res_simps old_levels_def e split: option.splits)
qed

theorem approvals_only_move_witness:
  "\<exists>s'. apply_msig (ex_msig_ctx 3 5000000) (Unapprove 1 7 (ex_l 3)) ex_msig_state = Inr s'
     \<and> map_option levels (fmlookup (approvals s') (1, 7)) = Some {#ex_l 2, ex_l 3, ex_l 4#}"
proof -
  obtain s' where s': "apply_msig (ex_msig_ctx 3 5000000) (Unapprove 1 7 (ex_l 3)) ex_msig_state = Inr s'"
    by (auto simp: unapprove_def ex_msig_state_def ex_msig_simps)
  from approvals_only_move [OF disjI2 [OF s'], of "(1, 7)"] s' show ?thesis
    by (auto simp: ex_msig_state_def levels_def)
qed

text \<open>
  C8: A fully approved proposal executes. After a proposal, its levels can be approved in any
  order by holders of their authority; every approval succeeds, and then anyone can execute the
  transaction before it expires, provided the levels together authorise it and nobody has
  invalidated an approval.
\<close>

theorem approved_proposal_executes:
  assumes "propose c0 p n req trx s = Inr s0" and "mset (map snd apps) = mset req"
    and "\<forall>(c, l)\<in>set apps. has_perm c l \<and> still_valid s (stamp (c, l))"
    and "has_auth c w" and "trx_authorized c trx (map snd apps)"
    and "trx_expiration c trx = Inr e" and "to_time_point_sec c (current_time_point c) \<le> e"
  shows "succeeds (run_all msig_step (approve_all p n apps @ [(c, Exec p n w)]) s0)"
proof -
  from assms(1) have s0: "s0 = s\<lparr>proposals := fmupd (p, n) trx (proposals s),
       approvals := fmupd (p, n) \<lparr>requested_approvals = map (\<lambda>l. \<lparr>level = l, time = 0\<rparr>) req,
          provided_approvals = []\<rparr> (approvals s)\<rparr>"
    by (auto simp: propose_def res_simps)
  have perms: "\<forall>(c, l)\<in>set apps. has_perm c l" using assms(3) by auto
  have "\<exists>s'. run_all msig_step (approve_all p n apps) s0 = Inr s' \<and> invals s' = invals s0
    \<and> proposals s' = proposals s0
    \<and> (\<exists>r. fmlookup (approvals s') (p, n) = Some r
        \<and> provided_approvals r = [] @ map stamp apps)"
    using approve_all_runs [of s0 p n "\<lparr>requested_approvals = map (\<lambda>l. \<lparr>level = l, time = 0\<rparr>) req,
          provided_approvals = []\<rparr>" apps] assms(2) perms
    by (simp add: s0 comp_def)
  then obtain s1 r where s1: "run_all msig_step (approve_all p n apps) s0 = Inr s1"
      "invals s1 = invals s" "fmlookup (proposals s1) (p, n) = Some trx"
      "fmlookup (approvals s1) (p, n) = Some r" "provided_approvals r = map stamp apps"
    by (auto simp: s0)
  have "filter (still_valid s1) (map stamp apps) = map stamp apps"
    using assms(3) s1(2) by (auto simp: still_valid_def filter_id_conv)
  moreover have "map level (map stamp apps) = map snd apps" by (auto simp: stamp_def)
  ultimately have "succeeds (msig_exec c p n w s1)"
    using assms(5) by (intro exec_when_approved [OF assms(4) s1(3) assms(6,7) s1(4)]) (simp only: s1(5))
  then show ?thesis using s1(1) by (auto simp: run_all_append)
qed

theorem approved_proposal_executes_witness:
  "\<exists>s0. propose (ex_msig_ctx 1 1000000) 1 8 [ex_l 2, ex_l 3] [200] ex_msig_state = Inr s0
     \<and> succeeds (run_all msig_step (approve_all 1 8 [(ex_msig_ctx 3 5000000, ex_l 3),
         (ex_msig_ctx 2 6000000, ex_l 2)] @ [(ex_msig_ctx 9 7000000, Exec 1 8 9)]) s0)"
proof -
  obtain s0 where s0: "propose (ex_msig_ctx 1 1000000) 1 8 [ex_l 2, ex_l 3] [200] ex_msig_state = Inr s0"
    by (auto simp: propose_def ex_msig_state_def require_auth_def ex_msig_simps)
  show ?thesis
    by (rule exI, rule conjI, rule s0, rule approved_proposal_executes [OF s0, where e = 200])
      (auto simp: stamp_def still_valid_def ex_msig_state_def ex_msig_simps)
qed

text \<open>
  C9: Who may cancel: in a state reached by an orderly run, \<open>cancel\<close> succeeds exactly when the
  canceler has signed, the proposal exists, and the canceler is the proposer or the proposed
  transaction has expired.
\<close>

theorem cancel_succeeds_iff:
  assumes "orderly es" and "run_all msig_step es empty_msig = Inr s"
  shows "succeeds (cancel c p n w s) \<longleftrightarrow> has_auth c w
    \<and> (\<exists>trx. fmlookup (proposals s) (p, n) = Some trx
        \<and> (w = p \<or> (\<exists>e. trx_expiration c trx = Inr e \<and> e < to_time_point_sec c (current_time_point c))))"
proof -
  have "fmlookup (approvals s) (p, n) \<noteq> None" if "fmlookup (proposals s) (p, n) = Some trx" for trx
    using hist_inv_consistent(1) [OF orderly_hist [OF assms], of p n] that by simp
  then show ?thesis
    by (auto simp: cancel_def Let_def res_simps split: option.splits)
qed

theorem cancel_succeeds_iff_witness:
  "\<not> succeeds (cancel (ex_msig_ctx 9 5000000) 1 7 9 ex_msig_state)
   \<and> succeeds (cancel (ex_msig_ctx 9 500000000) 1 7 9 ex_msig_state)
   \<and> succeeds (cancel (ex_msig_ctx 1 5000000) 1 7 1 ex_msig_state)"
  unfolding cancel_succeeds_iff [OF ex_msig_orderly ex_msig_run]
  by (simp add: ex_msig_state_def ex_msig_simps)

end
