(* ===== verification/Proposals.thy ===== *)
theory Proposals
  imports Msig
begin

text \<open>
  A proposal as a private matter of its proposer: what is done to one proposal shows nowhere else in
  the tables of eosio.msig, and when the proposer cancels it nothing of it is left.
\<close>

definition forget :: "name \<times> name \<Rightarrow> msig_state \<Rightarrow> msig_state" where
  "forget k s = s\<lparr>proposals := fmdrop k (proposals s), approvals := fmdrop k (approvals s)\<rparr>"

text \<open>The actions on one proposal; \<open>ends\<close> those that remove it.\<close>

fun about :: "name \<times> name \<Rightarrow> msig_action \<Rightarrow> bool" where
  "about k (Propose p n _ _) \<longleftrightarrow> k = (p, n)"
| "about k (Approve p n _ _) \<longleftrightarrow> k = (p, n)"
| "about k (Unapprove p n _) \<longleftrightarrow> k = (p, n)"
| "about k (Cancel p n _) \<longleftrightarrow> k = (p, n)"
| "about k (Exec p n _) \<longleftrightarrow> k = (p, n)"
| "about k (Invalidate _) \<longleftrightarrow> False"

fun ends :: "name \<times> name \<Rightarrow> msig_action \<Rightarrow> bool" where
  "ends k (Cancel p n _) \<longleftrightarrow> k = (p, n)"
| "ends k (Exec p n _) \<longleftrightarrow> k = (p, n)"
| "ends k _ \<longleftrightarrow> False"

definition pending_row :: "name \<times> name \<Rightarrow> msig_state \<Rightarrow> bool" where
  "pending_row k s \<longleftrightarrow> fmlookup (proposals s) k \<noteq> None \<and> fmlookup (approvals s) k \<noteq> None"

lemma forget_sel [simp]:
  "proposals (forget k s) = fmdrop k (proposals s)" "approvals (forget k s) = fmdrop k (approvals s)"
  "old_approvals (forget k s) = old_approvals s" "invals (forget k s) = invals s" "deferred (forget k s) = deferred s"
  "still_valid (forget k s) = still_valid s"
  by (simp_all add: forget_def still_valid_def fun_eq_iff)

lemma forget_eqI:
  "fmdrop k (proposals s) = fmdrop k (proposals t) \<Longrightarrow> fmdrop k (approvals s) = fmdrop k (approvals t)
     \<Longrightarrow> old_approvals s = old_approvals t \<Longrightarrow> invals s = invals t \<Longrightarrow> deferred s = deferred t \<Longrightarrow> forget k s = forget k t"
  by (cases s; cases t) (simp add: forget_def)

text \<open>An action on the proposal that keeps it.\<close>

lemma own_step:
  assumes "apply_msig c a s = Inr s'" "about k a" "\<not> ends k a" "pending_row k s"
  shows "forget k s' = forget k s \<and> pending_row k s'"
  using assms
  by (cases a)
    (auto simp: propose_def approve_def unapprove_def pending_row_def res_simps forget_def fmdrop_fmupd_same split: option.splits if_splits)

text \<open>An action on another proposal, with and without the row.\<close>

lemma fmdrop_upd_other: "i \<noteq> k \<Longrightarrow> fmdrop k (fmupd i v m) = fmupd i v (fmdrop k m)"
  by (rule fmap_ext) auto

lemma fmdrop_swap: "fmdrop i (fmdrop k m) = fmdrop k (fmdrop i m)"
  by (rule fmap_ext) auto

lemma other_step:
  assumes "apply_msig c a s = Inr s'" "\<not> about k a" "pending_row k s"
  shows "apply_msig c a (forget k s) = Inr (forget k s') \<and> pending_row k s'"
proof (cases a)
  case (Propose p n req trx)
  then show ?thesis using assms
    by (auto simp: propose_def pending_row_def res_simps forget_def fmdrop_upd_other)
next
  case (Approve p n l h)
  then show ?thesis using assms
    by (auto simp: approve_def pending_row_def res_simps forget_def fmdrop_upd_other split: option.splits if_splits)
next
  case (Unapprove p n l)
  then show ?thesis using assms
    by (auto simp: unapprove_def pending_row_def res_simps forget_def fmdrop_upd_other split: option.splits if_splits)
next
  case (Cancel p n w)
  then show ?thesis using assms
    by (auto simp: cancel_def Let_def pending_row_def res_simps forget_def fmdrop_swap split: option.splits if_splits)
next
  case (Exec p n w)
  have v: "still_valid (s\<lparr>proposals := x, approvals := y\<rparr>) = still_valid s" for x y
    by (simp add: still_valid_def fun_eq_iff)
  show ?thesis using Exec assms
    by (auto simp: msig_exec_def pending_row_def res_simps forget_def fmdrop_swap v split: option.splits if_splits)
next
  case (Invalidate x)
  then show ?thesis using assms by (auto simp: invalidate_def pending_row_def forget_def)
qed

lemma step_forgets:
  assumes "apply_msig c a s = Inr s'" "\<not> ends k a" "pending_row k s"
  shows "pending_row k s' \<and> (if about k a then forget k s' = forget k s else apply_msig c a (forget k s) = Inr (forget k s'))"
  using own_step [OF assms(1) _ assms(2,3)] other_step [OF assms(1) _ assms(3)] by auto

lemma run_forgets:
  "run_all msig_step es s = Inr s' \<Longrightarrow> \<forall>e\<in>set es. \<not> ends k (snd e) \<Longrightarrow> pending_row k s
     \<Longrightarrow> pending_row k s' \<and> run_all msig_step (filter (\<lambda>e. \<not> about k (snd e)) es) (forget k s) = Inr (forget k s')"
proof (induction es arbitrary: s)
  case (Cons e es)
  from Cons.prems(1) obtain s1 where s1: "apply_msig (fst e) (snd e) s = Inr s1" and r: "run_all msig_step es s1 = Inr s'"
    by (cases e) (auto simp: bindr_Inr)
  from step_forgets [OF s1] Cons.prems(2,3)
  have st: "pending_row k s1" "if about k (snd e) then forget k s1 = forget k s else apply_msig (fst e) (snd e) (forget k s) = Inr (forget k s1)"
    by auto
  from Cons.IH [OF r _ st(1)] Cons.prems(2) st(2) show ?case by (cases e) (auto split: if_splits)
qed simp

lemma propose_forgets:
  assumes "propose c p n req trx s = Inr s1" shows "forget (p, n) s1 = s \<and> pending_row (p, n) s1"
proof -
  have d: "fmdrop k m = m" if "fmlookup m k = None" for k :: "name \<times> name" and m :: "(name \<times> name, 'v) fmap"
    using that by (intro fmap_ext) auto
  show ?thesis using assms by (auto simp: propose_def res_simps forget_def pending_row_def fmdrop_fmupd_same d)
qed

lemma cancel_forgets:
  "pending_row (p, n) s \<Longrightarrow> has_auth c p \<Longrightarrow> cancel c p n p s = Inr (forget (p, n) s)"
  by (auto simp: cancel_def require_auth_def pending_row_def forget_def)

text \<open>
  C35: Proposing and cancelling are inverse, whatever happens in between: take any sequence of
  actions that starts with a proposal and does not execute or cancel it. The proposer can then
  always cancel it, and the tables are exactly those the same sequence leaves without every action
  on the proposal: they neither show that it was there nor were influenced by it.
\<close>

theorem cancel_undoes_propose:
  assumes "run_all msig_step ((c, Propose p n req trx) # es) s = Inr s2"
    and "\<forall>e\<in>set es. \<not> ends (p, n) (snd e)" "has_auth d p"
  shows "\<exists>s'. apply_msig d (Cancel p n p) s2 = Inr s'
    \<and> run_all msig_step (filter (\<lambda>e. \<not> about (p, n) (snd e)) es) s = Inr s'"
proof -
  from assms(1) obtain s1 where p: "propose c p n req trx s = Inr s1" and r: "run_all msig_step es s1 = Inr s2"
    by (auto simp: bindr_Inr)
  from propose_forgets [OF p] run_forgets [OF r assms(2)] have f: "pending_row (p, n) s2"
    "run_all msig_step (filter (\<lambda>e. \<not> about (p, n) (snd e)) es) s = Inr (forget (p, n) s2)" by auto
  from cancel_forgets [OF f(1) assms(3)] f(2) show ?thesis by auto
qed

theorem cancel_undoes_propose_witness:
  "\<exists>s2 s'. run_all msig_step [(ex_msig_ctx 1 1000000, Propose 1 8 [ex_l 2, ex_l 3] [200]),
       (ex_msig_ctx 3 5000000, Approve 1 8 (ex_l 3) None), (ex_msig_ctx 2 5000000, Invalidate 2)] ex_msig_state = Inr s2
     \<and> apply_msig (ex_msig_ctx 1 6000000) (Cancel 1 8 1) s2 = Inr s'
     \<and> invalidate (ex_msig_ctx 2 5000000) 2 ex_msig_state = Inr s'"
proof -
  let ?es = "[(ex_msig_ctx 3 5000000, Approve 1 8 (ex_l 3) None), (ex_msig_ctx 2 5000000, Invalidate 2)]"
  obtain s2 where s2: "run_all msig_step ((ex_msig_ctx 1 1000000, Propose 1 8 [ex_l 2, ex_l 3] [200]) # ?es) ex_msig_state = Inr s2"
    by (auto simp: propose_def approve_def invalidate_def ex_msig_state_def require_auth_def ex_msig_simps)
  have "has_auth (ex_msig_ctx 1 6000000) 1" by (simp add: ex_msig_simps)
  from cancel_undoes_propose [OF s2 _ this] s2 show ?thesis by (auto simp: bindr_Inr)
qed

end
