(* ===== verification/Token.thy ===== *)
theory Token
  imports Chain
begin

text \<open>
  The contract eosio.token (eosio.token.hpp, eosio.token.cpp): its two tables, one definition
  per action and per balance helper, the dispatch of an action together with the inline action
  it sends, and the ledger invariant: the supply of every token is the sum of its balances.
\<close>

section \<open>State\<close>

record account =
  balance :: asset

record currency_stats =
  cur_supply :: asset
  max_supply :: asset
  issuer :: name

datatype token_action =
    Create name asset
  | Issue name asset string
  | Retire asset string
  | Transfer name name asset string
  | Open name symbol name
  | Close name symbol

text \<open>
  \<open>accounts\<close> has one scope per owner and \<open>stats\<close> one scope per symbol code; the scope is part of
  the key. \<open>inlines\<close> collects the inline actions an action sends (with the permissions it
  gives them), \<open>notified\<close> the accounts passed to \<open>require_recipient\<close>.
\<close>

record token_state =
  accounts :: "(name \<times> symbol_code, account) fmap"
  stats :: "(symbol_code, currency_stats) fmap"
  inlines :: "(permission_level list \<times> token_action) list"
  notified :: "name list"

definition empty_token_state :: token_state where
  "empty_token_state = \<lparr>accounts = fmempty, stats = fmempty, inlines = [], notified = []\<rparr>"

section \<open>Actions\<close>

definition get_supply :: "token_state \<Rightarrow> symbol_code \<Rightarrow> asset res" where
  "get_supply s code = the_row (fmlookup (stats s) code) ''unable to find key'' (\<lambda>st. Inr (cur_supply st))"

definition get_balance :: "token_state \<Rightarrow> name \<Rightarrow> symbol_code \<Rightarrow> asset res" where
  "get_balance s owner code =
     the_row (fmlookup (accounts s) (owner, code)) ''unable to find key'' (\<lambda>ac. Inr (balance ac))"

definition create :: "chain \<Rightarrow> name \<Rightarrow> asset \<Rightarrow> token_state \<Rightarrow> token_state res" where
  "create c issr maximum_supply s =
     require_auth c (self c) (
     let sy = symb maximum_supply in
     check (symbol_valid c sy) ''invalid symbol name'' (
     check (asset_valid c maximum_supply) ''invalid supply'' (
     check (0 < amount maximum_supply) ''max-supply must be positive'' (
     check (fmlookup (stats s) (sym_code sy) = None) ''token with symbol already exists'' (
     Inr (s\<lparr>stats := fmupd (sym_code sy)
        \<lparr>cur_supply = ast 0 sy, max_supply = maximum_supply, issuer = issr\<rparr> (stats s)\<rparr>))))))"

definition sub_balance :: "chain \<Rightarrow> name \<Rightarrow> asset \<Rightarrow> token_state \<Rightarrow> token_state res" where
  "sub_balance c owner quant s =
     (let k = (owner, sym_code (symb quant)) in
     the_row (fmlookup (accounts s) k) ''no balance object found'' (\<lambda>from.
     check (amount quant \<le> amount (balance from)) ''overdrawn balance'' (
     bindr (asset_sub c (balance from) quant) (\<lambda>b.
     Inr (s\<lparr>accounts := fmupd k \<lparr>balance = b\<rparr> (accounts s)\<rparr>)))))"

definition add_balance :: "chain \<Rightarrow> name \<Rightarrow> asset \<Rightarrow> token_state \<Rightarrow> token_state res" where
  "add_balance c owner quant s =
     (let k = (owner, sym_code (symb quant)) in
     case fmlookup (accounts s) k of
       None \<Rightarrow> Inr (s\<lparr>accounts := fmupd k \<lparr>balance = quant\<rparr> (accounts s)\<rparr>)
     | Some to \<Rightarrow>
         bindr (asset_add c (balance to) quant) (\<lambda>b.
         Inr (s\<lparr>accounts := fmupd k \<lparr>balance = b\<rparr> (accounts s)\<rparr>)))"

definition issue :: "chain \<Rightarrow> name \<Rightarrow> asset \<Rightarrow> string \<Rightarrow> token_state \<Rightarrow> token_state res" where
  "issue c to quant memo s =
     (let sy = symb quant in
     check (symbol_valid c sy) ''invalid symbol name'' (
     check (length memo \<le> 256) ''memo has more than 256 bytes'' (
     the_row (fmlookup (stats s) (sym_code sy))
       ''token with symbol does not exist, create token before issue'' (\<lambda>st.
     require_auth c (issuer st) (
     check (asset_valid c quant) ''invalid quantity'' (
     check (0 < amount quant) ''must issue positive quantity'' (
     check (symb quant = symb (cur_supply st)) ''symbol precision mismatch'' (
     check (amount quant \<le> i64 (amount (max_supply st) - amount (cur_supply st)))
       ''quantity exceeds available supply'' (
     bindr (asset_add c (cur_supply st) quant) (\<lambda>sup.
     let s1 = s\<lparr>stats := fmupd (sym_code sy) (st\<lparr>cur_supply := sup\<rparr>) (stats s)\<rparr> in
     bindr (add_balance c (issuer st) quant s1) (\<lambda>s2.
     Inr (if to \<noteq> issuer st
       then s2\<lparr>inlines := inlines s2 @
         [([Perm (issuer st) active_permission], Transfer (issuer st) to quant memo)]\<rparr>
       else s2))))))))))))"

definition retire :: "chain \<Rightarrow> asset \<Rightarrow> string \<Rightarrow> token_state \<Rightarrow> token_state res" where
  "retire c quant memo s =
     (let sy = symb quant in
     check (symbol_valid c sy) ''invalid symbol name'' (
     check (length memo \<le> 256) ''memo has more than 256 bytes'' (
     the_row (fmlookup (stats s) (sym_code sy)) ''token with symbol does not exist'' (\<lambda>st.
     require_auth c (issuer st) (
     check (asset_valid c quant) ''invalid quantity'' (
     check (0 < amount quant) ''must retire positive quantity'' (
     check (symb quant = symb (cur_supply st)) ''symbol precision mismatch'' (
     bindr (asset_sub c (cur_supply st) quant) (\<lambda>sup.
     let s1 = s\<lparr>stats := fmupd (sym_code sy) (st\<lparr>cur_supply := sup\<rparr>) (stats s)\<rparr> in
     sub_balance c (issuer st) quant s1)))))))))"

definition transfer :: "chain \<Rightarrow> name \<Rightarrow> name \<Rightarrow> asset \<Rightarrow> string \<Rightarrow> token_state \<Rightarrow> token_state res" where
  "transfer c from to quant memo s =
     check (from \<noteq> to) ''cannot transfer to self'' (
     require_auth c from (
     check (is_account c to) ''to account does not exist'' (
     the_row (fmlookup (stats s) (sym_code (symb quant))) ''unable to find key'' (\<lambda>st.
     let s1 = s\<lparr>notified := notified s @ [from, to]\<rparr> in
     check (asset_valid c quant) ''invalid quantity'' (
     check (0 < amount quant) ''must transfer positive quantity'' (
     check (symb quant = symb (cur_supply st)) ''symbol precision mismatch'' (
     check (length memo \<le> 256) ''memo has more than 256 bytes'' (
     bindr (sub_balance c from quant s1) (add_balance c to quant)))))))))"

definition open_row :: "chain \<Rightarrow> name \<Rightarrow> symbol \<Rightarrow> name \<Rightarrow> token_state \<Rightarrow> token_state res" where
  "open_row c owner sy ram_payer s =
     require_auth c ram_payer (
     the_row (fmlookup (stats s) (sym_code sy)) ''symbol does not exist'' (\<lambda>st.
     check (symb (cur_supply st) = sy) ''symbol precision mismatch'' (
     case fmlookup (accounts s) (owner, sym_code sy) of
       None \<Rightarrow> bindr (asset_new c 0 sy) (\<lambda>z.
         Inr (s\<lparr>accounts := fmupd (owner, sym_code sy) \<lparr>balance = z\<rparr> (accounts s)\<rparr>))
     | Some _ \<Rightarrow> Inr s)))"

definition close_row :: "chain \<Rightarrow> name \<Rightarrow> symbol \<Rightarrow> token_state \<Rightarrow> token_state res" where
  "close_row c owner sy s =
     require_auth c owner (
     the_row (fmlookup (accounts s) (owner, sym_code sy))
       ''Balance row already deleted or never existed. Action won't have any effect.'' (\<lambda>row.
     check (amount (balance row) = 0) ''Cannot close because the balance is not zero.'' (
     Inr (s\<lparr>accounts := fmdrop (owner, sym_code sy) (accounts s)\<rparr>))))"

fun apply_token :: "chain \<Rightarrow> token_action \<Rightarrow> token_state \<Rightarrow> token_state res" where
  "apply_token c (Create issr m) s = create c issr m s"
| "apply_token c (Issue to q memo) s = issue c to q memo s"
| "apply_token c (Retire q memo) s = retire c q memo s"
| "apply_token c (Transfer from to q memo) s = transfer c from to q memo s"
| "apply_token c (Open owner sy payer) s = open_row c owner sy payer s"
| "apply_token c (Close owner sy) s = close_row c owner sy s"

text \<open>
  An action runs with its inline actions: each runs after it, with the permissions the sender
  gave it, and a failure of one undoes them all. Only \<open>issue\<close> sends one, a \<open>transfer\<close>,
  which sends none (\<open>transfer_inlines\<close>).
\<close>

definition with_auth :: "chain \<Rightarrow> permission_level list \<Rightarrow> chain" where
  "with_auth c ps = c\<lparr>has_auth := \<lambda>n. n \<in> actor ` set ps\<rparr>"

fun run_inlines ::
  "chain \<Rightarrow> (permission_level list \<times> token_action) list \<Rightarrow> token_state \<Rightarrow> token_state res" where
  "run_inlines c [] s = Inr s"
| "run_inlines c ((ps, a) # as) s =
     bindr (apply_token (with_auth c ps) a s) (run_inlines c as)"

definition exec_token :: "chain \<Rightarrow> token_action \<Rightarrow> token_state \<Rightarrow> token_state res" where
  "exec_token c a s =
     bindr (apply_token c a (s\<lparr>inlines := []\<rparr>)) (\<lambda>s1.
     run_inlines c (inlines s1) (s1\<lparr>inlines := []\<rparr>))"

abbreviation token_step :: "chain \<times> token_action \<Rightarrow> token_state \<Rightarrow> token_state res" where
  "token_step \<equiv> \<lambda>(c, a). exec_token c a"

section \<open>The ledger invariant\<close>

definition bal_of :: "symbol_code \<Rightarrow> name \<times> symbol_code \<Rightarrow> account \<Rightarrow> int" where
  "bal_of code k row = (if snd k = code then amount (balance row) else 0)"

definition total_balance :: "symbol_code \<Rightarrow> token_state \<Rightarrow> int" where
  "total_balance code s = fmsum (bal_of code) (accounts s)"

definition bal :: "symbol_code \<Rightarrow> token_state \<Rightarrow> name \<Rightarrow> int" where
  "bal code s n = row_val (bal_of code) (n, code) (fmlookup (accounts s) (n, code))"

definition stat_ok :: "token_state \<Rightarrow> symbol_code \<Rightarrow> currency_stats \<Rightarrow> bool" where
  "stat_ok s code st \<longleftrightarrow>
     sym_code (symb (cur_supply st)) = code \<and> symb (max_supply st) = symb (cur_supply st)
   \<and> 0 \<le> amount (cur_supply st) \<and> amount (cur_supply st) \<le> amount (max_supply st)
   \<and> amount (max_supply st) \<le> max_amount \<and> amount (cur_supply st) = total_balance code s"

definition row_ok :: "token_state \<Rightarrow> symbol_code \<Rightarrow> account \<Rightarrow> bool" where
  "row_ok s code row \<longleftrightarrow> 0 \<le> amount (balance row)
   \<and> (\<exists>st. fmlookup (stats s) code = Some st \<and> symb (balance row) = symb (cur_supply st))"

definition rows_ok :: "token_state \<Rightarrow> bool" where
  "rows_ok s \<longleftrightarrow> 
     (\<forall>n code row. fmlookup (accounts s) (n, code) = Some row \<longrightarrow> row_ok s code row)"

definition ledger_inv :: "token_state \<Rightarrow> bool" where
  "ledger_inv s \<longleftrightarrow>
     (\<forall>code st. fmlookup (stats s) code = Some st \<longrightarrow> stat_ok s code st) \<and> rows_ok s"

lemma ledger_invD:
  "ledger_inv s \<Longrightarrow> fmlookup (stats s) code = Some st \<Longrightarrow> stat_ok s code st"
  "ledger_inv s \<Longrightarrow> fmlookup (accounts s) (n, code) = Some row \<Longrightarrow> row_ok s code row"
  by (auto simp: ledger_inv_def rows_ok_def)

lemma ledger_inv_empty: "ledger_inv empty_token_state"
  by (simp add: ledger_inv_def rows_ok_def empty_token_state_def)

section \<open>Moving value between rows\<close>

lemma sub_balance_Inr:
  assumes "asset_ops_ok c"
  shows "sub_balance c owner q s = Inr s' \<longleftrightarrow>
    (\<exists>row. fmlookup (accounts s) (owner, sym_code (symb q)) = Some row
      \<and> amount q \<le> amount (balance row) \<and> symb (balance row) = symb q
      \<and> \<bar>amount (balance row) - amount q\<bar> \<le> max_amount
      \<and> s' = s\<lparr>accounts := fmupd (owner, sym_code (symb q))
          \<lparr>balance = ast (amount (balance row) - amount q) (symb q)\<rparr> (accounts s)\<rparr>)"
  using assms by (auto simp: sub_balance_def Let_def res_simps lib_simps)

lemma add_balance_Inr:
  assumes "asset_ops_ok c"
  shows "add_balance c owner q s = Inr s' \<longleftrightarrow>
    (case fmlookup (accounts s) (owner, sym_code (symb q)) of
      None \<Rightarrow> s' = s\<lparr>accounts := fmupd (owner, sym_code (symb q)) \<lparr>balance = q\<rparr> (accounts s)\<rparr>
    | Some row \<Rightarrow> symb (balance row) = symb q \<and> \<bar>amount (balance row) + amount q\<bar> \<le> max_amount
        \<and> s' = s\<lparr>accounts := fmupd (owner, sym_code (symb q))
            \<lparr>balance = ast (amount (balance row) + amount q) (symb q)\<rparr> (accounts s)\<rparr>)"
  using assms by (auto simp: add_balance_def Let_def res_simps lib_simps split: option.splits)

text \<open>
  The interface of a set of balances: taking a quantity from one owner and giving it to one.
  The token balances and the REX funds both provide it.
\<close>

locale purse =
  fixes ok :: "'c \<Rightarrow> bool"
    and take_from :: "'c \<Rightarrow> name \<Rightarrow> 'q \<Rightarrow> 's \<Rightarrow> 's res"
    and give_to :: "'c \<Rightarrow> name \<Rightarrow> 'q \<Rightarrow> 's \<Rightarrow> 's res"
    and total :: "'s \<Rightarrow> int"
    and worth :: "'q \<Rightarrow> int"
  assumes take_total: "ok c \<Longrightarrow> take_from c n q s = Inr s' \<Longrightarrow> total s' = total s - worth q"
    and give_total: "ok c \<Longrightarrow> give_to c n q s = Inr s' \<Longrightarrow> total s' = total s + worth q"
begin

lemma move_total:
  assumes "ok c" "bindr (take_from c n q s) (give_to c m q) = Inr s'"
  shows "total s' = total s"
proof -
  from assms(2) obtain s1 where "take_from c n q s = Inr s1" "give_to c m q s1 = Inr s'"
    by (auto simp: bindr_Inr)
  with assms(1) show ?thesis using take_total give_total by fastforce
qed

end

abbreviation worth_in :: "symbol_code \<Rightarrow> asset \<Rightarrow> int" where
  "worth_in code q \<equiv> (if sym_code (symb q) = code then amount q else 0)"

interpretation token_purse:
  purse asset_ops_ok sub_balance add_balance "total_balance code" "worth_in code" for code
proof
  fix c :: chain and n q s s'
  assume ok: "asset_ops_ok c"
  show "total_balance code s' = total_balance code s - worth_in code q"
    if "sub_balance c n q s = Inr s'"
    using that ok by (auto simp: sub_balance_Inr total_balance_def fmsum_upd bal_of_def)
  show "total_balance code s' = total_balance code s + worth_in code q"
    if "add_balance c n q s = Inr s'"
    using that ok by (auto simp: add_balance_Inr total_balance_def fmsum_upd bal_of_def split: option.splits)
qed

lemma sub_balance_stats: "sub_balance c n q s = Inr s' \<Longrightarrow> stats s' = stats s \<and> inlines s' = inlines s"
  by (auto simp: sub_balance_def Let_def res_simps lib_simps)

lemma add_balance_stats: "add_balance c n q s = Inr s' \<Longrightarrow> stats s' = stats s \<and> inlines s' = inlines s"
  by (auto simp: add_balance_def Let_def res_simps lib_simps split: option.splits)

lemma sub_balance_rows:
  "asset_ops_ok c \<Longrightarrow> rows_ok s \<Longrightarrow> sub_balance c n q s = Inr s' \<Longrightarrow> rows_ok s'"
  by (fastforce simp: sub_balance_Inr rows_ok_def row_ok_def split: if_splits)

lemma add_balance_rows:
  assumes "asset_ops_ok c" "rows_ok s" "add_balance c n q s = Inr s'" "0 \<le> amount q"
    "fmlookup (stats s) (sym_code (symb q)) = Some st" "symb (cur_supply st) = symb q"
  shows "rows_ok s'"
  using assms by (auto simp: add_balance_Inr rows_ok_def row_ok_def split: if_splits option.splits)

section \<open>Every action preserves the ledger invariant\<close>

lemma ledger_inv_cong:
  assumes "ledger_inv s" "stats s' = stats s" "rows_ok s'"
    "\<And>code. total_balance code s' = total_balance code s"
  shows "ledger_inv s'"
proof -
  have "stat_ok s' code = stat_ok s code" for code
    using assms(4) by (simp add: stat_ok_def fun_eq_iff)
  with assms(1-3) show ?thesis by (simp add: ledger_inv_def)
qed

lemma total_balance_unused:
  assumes "rows_ok s" "fmlookup (stats s) code = None" shows "total_balance code s = 0"
proof -
  have "total_balance code s = fmsum (\<lambda>_ _. 0) (accounts s)"
    unfolding total_balance_def
    by (rule fmsum_cong) (use assms in \<open>fastforce simp: rows_ok_def row_ok_def bal_of_def\<close>)
  then show ?thesis by (simp add: fmsum_def)
qed

lemma total_balance_only_accounts [simp]:
  "total_balance code (s\<lparr>stats := x\<rparr>) = total_balance code s"
  "total_balance code (s\<lparr>notified := n\<rparr>) = total_balance code s"
  "total_balance code (s\<lparr>inlines := l\<rparr>) = total_balance code s"
  by (simp_all add: total_balance_def)

lemma rows_ok_only [simp]:
  "rows_ok (s\<lparr>notified := n\<rparr>) = rows_ok s" "rows_ok (s\<lparr>inlines := l\<rparr>) = rows_ok s"
  by (simp_all add: rows_ok_def row_ok_def)

lemma ledger_inv_only [simp]:
  "ledger_inv (s\<lparr>notified := n\<rparr>) = ledger_inv s" "ledger_inv (s\<lparr>inlines := l\<rparr>) = ledger_inv s"
  by (simp_all add: ledger_inv_def stat_ok_def)

text \<open>Changing the supply of a token together with the sum of its balances.\<close>

lemma ledger_inv_supply:
  assumes inv: "ledger_inv s" and st: "fmlookup (stats s) code = Some st"
    and s': "stats s' = fmupd code (st\<lparr>cur_supply := ast n (symb (cur_supply st))\<rparr>) (stats s)" "rows_ok s'"
    and tot: "\<And>k. total_balance k s' = total_balance k s + (if k = code then n - amount (cur_supply st) else 0)"
    and n: "0 \<le> n" "n \<le> amount (max_supply st)"
  shows "ledger_inv s'"
proof -
  have "stat_ok s' k x" if "fmlookup (stats s') k = Some x" for k x
    using that ledger_invD(1) [OF inv, of k] ledger_invD(1) [OF inv st] s' tot [of k] n
    by (auto simp: stat_ok_def split: if_splits)
  with s' show ?thesis by (auto simp: ledger_inv_def)
qed

lemma create_inv:
  assumes "asset_ops_ok c" "ledger_inv s" "create c i m s = Inr s'"
  shows "ledger_inv s'"
proof -
  let ?k = "sym_code (symb m)"
  from assms have s': "s' = s\<lparr>stats := fmupd ?k \<lparr>cur_supply = ast 0 (symb m), max_supply = m, issuer = i\<rparr> (stats s)\<rparr>"
    and m: "0 < amount m" "amount m \<le> max_amount" and new: "fmlookup (stats s) ?k = None"
    by (auto simp: create_def Let_def res_simps lib_simps)
  have rows: "rows_ok s" using assms(2) by (simp add: ledger_inv_def)
  have "rows_ok s'"
    using rows new by (fastforce simp: s' rows_ok_def row_ok_def)
  moreover have "stat_ok s' k x" if "fmlookup (stats s') k = Some x" for k x
    using that ledger_invD(1) [OF assms(2), of k x] m total_balance_unused [OF rows new]
    by (auto simp: s' stat_ok_def split: if_splits)
  ultimately show ?thesis by (auto simp: ledger_inv_def)
qed

lemma rows_ok_stat:
  assumes "rows_ok s" "fmlookup (stats s) code = Some st" "symb (cur_supply st') = symb (cur_supply st)"
  shows "rows_ok (s\<lparr>stats := fmupd code st' (stats s)\<rparr>)"
proof -
  have "row_ok s k row \<Longrightarrow> row_ok (s\<lparr>stats := fmupd code st' (stats s)\<rparr>) k row" for k row
    using assms(2,3) by (auto simp: row_ok_def)
  with assms(1) show ?thesis by (simp add: rows_ok_def)
qed

lemma issue_parts:
  assumes ok: "asset_ops_ok c" and run: "issue c to q memo s = Inr s'"
  obtains st s2 where "fmlookup (stats s) (sym_code (symb q)) = Some st" "has_auth c (issuer st)"
    "0 < amount q" "symb (cur_supply st) = symb q"
    "amount q \<le> i64 (amount (max_supply st) - amount (cur_supply st))"
    "add_balance c (issuer st) q (s\<lparr>stats := fmupd (sym_code (symb q))
       (st\<lparr>cur_supply := ast (amount (cur_supply st) + amount q) (symb q)\<rparr>) (stats s)\<rparr>) = Inr s2"
    "s' = (if to \<noteq> issuer st then s2\<lparr>inlines := inlines s2 @
       [([Perm (issuer st) active_permission], Transfer (issuer st) to q memo)]\<rparr> else s2)"
proof -
  from run obtain st s2 where r: "fmlookup (stats s) (sym_code (symb q)) = Some st" "has_auth c (issuer st)"
    "0 < amount q" "symb (cur_supply st) = symb q"
    "amount q \<le> i64 (amount (max_supply st) - amount (cur_supply st))"
    "add_balance c (issuer st) q (s\<lparr>stats := fmupd (sym_code (symb q))
       (st\<lparr>cur_supply := ast (amount (cur_supply st) + amount q) (symb (cur_supply st))\<rparr>) (stats s)\<rparr>) = Inr s2"
    "s' = (if to \<noteq> issuer st then s2\<lparr>inlines := inlines s2 @
       [([Perm (issuer st) active_permission], Transfer (issuer st) to q memo)]\<rparr> else s2)"
    unfolding issue_def Let_def res_simps lib_simps [OF ok] by blast
  show ?thesis by (rule that [OF r(1-5) r(6) [unfolded r(4)] r(7)])
qed

lemma retire_parts:
  assumes ok: "asset_ops_ok c" and run: "retire c q memo s = Inr s'"
  obtains st where "fmlookup (stats s) (sym_code (symb q)) = Some st" "has_auth c (issuer st)"
    "0 < amount q" "symb (cur_supply st) = symb q"
    "sub_balance c (issuer st) q (s\<lparr>stats := fmupd (sym_code (symb q))
       (st\<lparr>cur_supply := ast (amount (cur_supply st) - amount q) (symb q)\<rparr>) (stats s)\<rparr>) = Inr s'"
proof -
  from run obtain st where r: "fmlookup (stats s) (sym_code (symb q)) = Some st" "has_auth c (issuer st)"
    "0 < amount q" "symb (cur_supply st) = symb q"
    "sub_balance c (issuer st) q (s\<lparr>stats := fmupd (sym_code (symb q))
       (st\<lparr>cur_supply := ast (amount (cur_supply st) - amount q) (symb (cur_supply st))\<rparr>) (stats s)\<rparr>) = Inr s'"
    unfolding retire_def Let_def res_simps lib_simps [OF ok] by blast
  show ?thesis by (rule that [OF r(1-4) r(5) [unfolded r(4)]])
qed

lemma issue_inv:
  assumes ok: "asset_ops_ok c" and inv: "ledger_inv s" and run: "issue c to q memo s = Inr s'"
  shows "ledger_inv s'"
proof -
  let ?k = "sym_code (symb q)"
  from issue_parts [OF ok run] obtain st s2 where st: "fmlookup (stats s) ?k = Some st"
    and q: "0 < amount q" "symb (cur_supply st) = symb q"
    and le: "amount q \<le> i64 (amount (max_supply st) - amount (cur_supply st))"
    and s2: "add_balance c (issuer st) q
      (s\<lparr>stats := fmupd ?k (st\<lparr>cur_supply := ast (amount (cur_supply st) + amount q) (symb q)\<rparr>) (stats s)\<rparr>) = Inr s2"
    and s': "s' = (if to \<noteq> issuer st then s2\<lparr>inlines := inlines s2 @
         [([Perm (issuer st) active_permission], Transfer (issuer st) to q memo)]\<rparr> else s2)" .
  let ?st = "st\<lparr>cur_supply := ast (amount (cur_supply st) + amount q) (symb q)\<rparr>"
  let ?s1 = "s\<lparr>stats := fmupd ?k ?st (stats s)\<rparr>"
  have so: "0 \<le> amount (cur_supply st)" "amount (cur_supply st) \<le> amount (max_supply st)"
      "amount (max_supply st) \<le> max_amount"
    using ledger_invD(1) [OF inv st] by (simp_all add: stat_ok_def)
  with le have le': "amount q \<le> amount (max_supply st) - amount (cur_supply st)"
    by (simp add: i64_id in_i64_def max_amount_def)
  have "rows_ok ?s1"
    using inv q st by (intro rows_ok_stat [where st = st]) (simp_all add: ledger_inv_def)
  then have "rows_ok s2"
    by (rule add_balance_rows [OF ok _ s2, where st = ?st]) (use q in auto)
  moreover have "stats s2 = stats ?s1" using add_balance_stats [OF s2] by simp
  moreover have "total_balance k s2 = total_balance k s + worth_in k q" for k
    using token_purse.give_total [OF ok s2, of k] by simp
  ultimately have "ledger_inv s2"
    using q le' so
    by (intro ledger_inv_supply [OF inv st, where n = "amount (cur_supply st) + amount q"]) simp_all
  then show ?thesis using s' by auto
qed

lemma retire_inv:
  assumes ok: "asset_ops_ok c" and inv: "ledger_inv s" and run: "retire c q memo s = Inr s'"
  shows "ledger_inv s'"
proof -
  let ?k = "sym_code (symb q)"
  from retire_parts [OF ok run] obtain st where st: "fmlookup (stats s) ?k = Some st"
    and q: "0 < amount q" "symb (cur_supply st) = symb q"
    and s': "sub_balance c (issuer st) q
      (s\<lparr>stats := fmupd ?k (st\<lparr>cur_supply := ast (amount (cur_supply st) - amount q) (symb q)\<rparr>) (stats s)\<rparr>) = Inr s'" .
  let ?s1 = "s\<lparr>stats := fmupd ?k (st\<lparr>cur_supply := ast (amount (cur_supply st) - amount q) (symb q)\<rparr>) (stats s)\<rparr>"
  have so: "amount (cur_supply st) \<le> amount (max_supply st)"
      "amount (cur_supply st) = total_balance ?k s"
    using ledger_invD(1) [OF inv st] by (simp_all add: stat_ok_def)
  have "rows_ok ?s1"
    using inv q st by (intro rows_ok_stat [where st = st]) (simp_all add: ledger_inv_def)
  then have rows: "rows_ok s'" by (rule sub_balance_rows [OF ok _ s'])
  have tot: "total_balance k s' = total_balance k s - worth_in k q" for k
    using token_purse.take_total [OF ok s', of k] by simp
  have "0 \<le> total_balance ?k s'"
    unfolding total_balance_def
    by (rule fmsum_nonneg) (use rows in \<open>auto simp: rows_ok_def row_ok_def bal_of_def\<close>)
  then have "0 \<le> amount (cur_supply st) - amount q" using tot [of ?k] so(2) by simp
  then show ?thesis
    using tot rows q so(1) sub_balance_stats [OF s']
    by (intro ledger_inv_supply [OF inv st, where n = "amount (cur_supply st) - amount q"]) simp_all
qed

lemma transfer_inv:
  assumes ok: "asset_ops_ok c" and inv: "ledger_inv s" and run: "transfer c f t q memo s = Inr s'"
  shows "ledger_inv s'"
proof -
  let ?s1 = "s\<lparr>notified := notified s @ [f, t]\<rparr>"
  from run obtain st s2 where st: "fmlookup (stats s) (sym_code (symb q)) = Some st"
    and q: "0 < amount q" "symb q = symb (cur_supply st)"
    and s2: "sub_balance c f q ?s1 = Inr s2" and s': "add_balance c t q s2 = Inr s'"
    by (auto simp: transfer_def Let_def res_simps lib_simps)
  have "rows_ok ?s1" using inv by (simp add: ledger_inv_def)
  then have "rows_ok s2" by (rule sub_balance_rows [OF ok _ s2])
  then have "rows_ok s'"
    by (rule add_balance_rows [OF ok _ s']) (use q st sub_balance_stats [OF s2] in auto)
  moreover have "total_balance k s' = total_balance k s" for k
    using token_purse.move_total [OF ok, of f q ?s1 t s' k] s2 s' by simp
  ultimately show ?thesis
    using sub_balance_stats [OF s2] add_balance_stats [OF s']
    by (intro ledger_inv_cong [OF inv]) auto
qed

lemma open_row_inv:
  assumes "asset_ops_ok c" "ledger_inv s" "open_row c owner sy p s = Inr s'"
  shows "ledger_inv s'"
proof (cases "fmlookup (accounts s) (owner, sym_code sy)")
  case None
  with assms(1,3) obtain st where st: "fmlookup (stats s) (sym_code sy) = Some st" "symb (cur_supply st) = sy"
    and s': "s' = s\<lparr>accounts := fmupd (owner, sym_code sy) \<lparr>balance = ast 0 sy\<rparr> (accounts s)\<rparr>"
    by (auto simp: open_row_def res_simps lib_simps)
  have "rows_ok s'"
    using assms(2) st by (auto simp: s' ledger_inv_def rows_ok_def row_ok_def split: if_splits)
  then show ?thesis
    using None by (intro ledger_inv_cong [OF assms(2)])
      (auto simp: s' total_balance_def fmsum_upd bal_of_def)
next
  case Some
  with assms show ?thesis by (auto simp: open_row_def res_simps lib_simps)
qed

lemma close_row_inv:
  assumes "ledger_inv s" "close_row c owner sy s = Inr s'"
  shows "ledger_inv s'"
proof -
  from assms obtain row where row: "fmlookup (accounts s) (owner, sym_code sy) = Some row"
    "amount (balance row) = 0"
    and s': "s' = s\<lparr>accounts := fmdrop (owner, sym_code sy) (accounts s)\<rparr>"
    by (auto simp: close_row_def res_simps)
  have "rows_ok s'"
    using assms(1) by (auto simp: s' ledger_inv_def rows_ok_def row_ok_def split: if_splits)
  then show ?thesis
    using row by (intro ledger_inv_cong [OF assms(1)])
      (auto simp: s' total_balance_def fmsum_drop bal_of_def)
qed

lemma apply_token_inv:
  "asset_ops_ok c \<Longrightarrow> ledger_inv s \<Longrightarrow> apply_token c a s = Inr s' \<Longrightarrow> ledger_inv s'"
  by (cases a)
    (auto intro: create_inv issue_inv retire_inv transfer_inv open_row_inv close_row_inv)

lemma with_auth_ops [simp]: "asset_ops_ok (with_auth c ps) = asset_ops_ok c"
  by (simp add: with_auth_def asset_ops_ok_def)

lemma run_inlines_inv:
  "asset_ops_ok c \<Longrightarrow> ledger_inv s \<Longrightarrow> run_inlines c as s = Inr s' \<Longrightarrow> ledger_inv s'"
proof (induction as arbitrary: s)
  case (Cons x as)
  obtain ps a where "x = (ps, a)" by fastforce
  with Cons show ?case by (auto simp: bindr_Inr) (metis apply_token_inv with_auth_ops)
qed simp

lemma exec_token_inv:
  assumes "asset_ops_ok c" "ledger_inv s" "exec_token c a s = Inr s'"
  shows "ledger_inv s'"
proof -
  from assms(3) obtain s1 where s1: "apply_token c a (s\<lparr>inlines := []\<rparr>) = Inr s1"
    and s': "run_inlines c (inlines s1) (s1\<lparr>inlines := []\<rparr>) = Inr s'"
    by (auto simp: exec_token_def bindr_Inr)
  have "ledger_inv s1" by (rule apply_token_inv [OF assms(1) _ s1]) (simp add: assms(2))
  then show ?thesis by (intro run_inlines_inv [OF assms(1) _ s']) simp
qed

interpretation token_machine:
  machine token_step "\<lambda>(c, a). asset_ops_ok c" ledger_inv
  by unfold_locales (auto intro: exec_token_inv)

section \<open>What the actions do to balances and supplies\<close>

lemma bal_unfold:
  "bal code s n = (case fmlookup (accounts s) (n, code) of None \<Rightarrow> 0 | Some row \<Rightarrow> amount (balance row))"
  by (simp add: bal_def bal_of_def split: option.splits)

lemma bal_only [simp]:
  "bal code (s\<lparr>stats := x\<rparr>) = bal code s" "bal code (s\<lparr>notified := y\<rparr>) = bal code s"
  "bal code (s\<lparr>inlines := l\<rparr>) = bal code s"
  by (simp_all add: fun_eq_iff bal_unfold)

lemma bal_nonneg: "ledger_inv s \<Longrightarrow> 0 \<le> bal code s n"
  by (auto simp: bal_unfold ledger_inv_def rows_ok_def row_ok_def split: option.splits)

lemma sub_balance_bal:
  assumes "asset_ops_ok c" "sub_balance c f q s = Inr s'"
  shows "bal code s' n = bal code s n - (if n = f then worth_in code q else 0)"
  using assms by (auto simp: sub_balance_Inr bal_unfold)

lemma add_balance_bal:
  assumes "asset_ops_ok c" "add_balance c t q s = Inr s'"
  shows "bal code s' n = bal code s n + (if n = t then worth_in code q else 0)"
  using assms by (auto simp: add_balance_Inr bal_unfold split: option.splits)

lemma transfer_bal:
  assumes "asset_ops_ok c" "transfer c f t q memo s = Inr s'"
  shows "bal code s' n = bal code s n - (if n = f then worth_in code q else 0)
    + (if n = t then worth_in code q else 0)"
proof -
  from assms(2) obtain s2
    where "sub_balance c f q (s\<lparr>notified := notified s @ [f, t]\<rparr>) = Inr s2" "add_balance c t q s2 = Inr s'"
    by (auto simp: transfer_def Let_def res_simps)
  then show ?thesis
    using sub_balance_bal [OF assms(1)] add_balance_bal [OF assms(1)] by simp
qed

lemma bal_two_le_supply:
  assumes inv: "ledger_inv s" and st: "fmlookup (stats s) code = Some st" and "m \<noteq> n"
  shows "bal code s m + bal code s n \<le> amount (cur_supply st)"
proof -
  let ?f = "bal_of code"
  have nn: "0 \<le> ?f k v" if "fmlookup (accounts s) k = Some v" for k v
    using that ledger_invD(2) [OF inv, of "fst k" "snd k" v] by (auto simp: bal_of_def row_ok_def)
  have "0 \<le> fmsum ?f (fmdrop (n, code) (fmdrop (m, code) (accounts s)))"
    by (rule fmsum_nonneg) (auto intro: nn split: if_splits)
  then have "bal code s m + bal code s n \<le> total_balance code s"
    using \<open>m \<noteq> n\<close> by (simp add: bal_def total_balance_def fmsum_drop)
  then show ?thesis using ledger_invD(1) [OF inv st] by (simp add: stat_ok_def)
qed

lemma bal_row:
  assumes "ledger_inv s" "fmlookup (accounts s) (n, code) = Some row"
    "fmlookup (stats s) code = Some st"
  shows "amount (balance row) = bal code s n" "symb (balance row) = symb (cur_supply st)"
  using ledger_invD(2) [OF assms(1,2)] assms(2,3) by (auto simp: bal_unfold row_ok_def)

lemma transfer_moves:
  assumes ok: "asset_ops_ok c" and inv: "ledger_inv s"
    and st: "fmlookup (stats s) (sym_code (symb q)) = Some st" "symb q = symb (cur_supply st)"
    and q: "0 < amount q" "amount q \<le> bal (sym_code (symb q)) s f" and ne: "f \<noteq> t"
  shows "succeeds (bindr (sub_balance c f q s) (add_balance c t q))"
proof -
  let ?k = "sym_code (symb q)"
  have le: "bal ?k s f + bal ?k s t \<le> max_amount"
    using bal_two_le_supply [OF inv st(1) ne] ledger_invD(1) [OF inv st(1)]
    by (auto simp: stat_ok_def)
  note nn = bal_nonneg [OF inv, of ?k]
  from q obtain row where row: "fmlookup (accounts s) (f, ?k) = Some row"
    by (cases "fmlookup (accounts s) (f, ?k)") (auto simp: bal_unfold)
  note r = bal_row [OF inv row st(1)]
  have "\<exists>s2. sub_balance c f q s = Inr s2
      \<and> fmlookup (accounts s2) (t, ?k) = fmlookup (accounts s) (t, ?k)"
    using row r q st(2) le nn [of t] ne by (auto simp: sub_balance_Inr [OF ok])
  then obtain s2 where s2: "sub_balance c f q s = Inr s2"
      "fmlookup (accounts s2) (t, ?k) = fmlookup (accounts s) (t, ?k)" by blast
  have "succeeds (add_balance c t q s2)"
  proof (cases "fmlookup (accounts s) (t, ?k)")
    case None
    then show ?thesis using s2(2) by (simp add: add_balance_Inr [OF ok])
  next
    case (Some row')
    note bal_row [OF inv this st(1)]
    then show ?thesis using s2(2) Some q st(2) le nn [of t] nn [of f]
      by (simp add: add_balance_Inr [OF ok])
  qed
  with s2(1) show ?thesis by simp
qed

lemma drop_needs_auth:
  assumes ok: "asset_ops_ok c" and run: "exec_token c a s = Inr s'" and inv: "ledger_inv s"
    and drop: "bal code s' n < bal code s n"
  shows "has_auth c n"
proof -
  from run obtain s1 where s1: "apply_token c a (s\<lparr>inlines := []\<rparr>) = Inr s1"
    and s': "run_inlines c (inlines s1) (s1\<lparr>inlines := []\<rparr>) = Inr s'"
    by (auto simp: exec_token_def bindr_Inr)
  show ?thesis
  proof (cases a)
    case (Create i m)
    with s1 s' drop show ?thesis by (auto simp: create_def Let_def res_simps)
  next
    case (Issue to q memo)
    let ?s0 = "s\<lparr>inlines := []\<rparr>"
    from Issue s1 have "issue c to q memo ?s0 = Inr s1" by simp
    from issue_parts [OF ok this] obtain st s2 where q: "0 < amount q" and auth: "has_auth c (issuer st)"
      and s2: "add_balance c (issuer st) q (?s0\<lparr>stats := fmupd (sym_code (symb q))
        (st\<lparr>cur_supply := ast (amount (cur_supply st) + amount q) (symb q)\<rparr>) (stats ?s0)\<rparr>) = Inr s2"
      and e1: "s1 = (if to \<noteq> issuer st then s2\<lparr>inlines := inlines s2 @
         [([Perm (issuer st) active_permission], Transfer (issuer st) to q memo)]\<rparr> else s2)"
      by blast
    have b2: "bal code s2 n = bal code s n + (if n = issuer st then worth_in code q else 0)"
      using add_balance_bal [OF ok s2, of code n] by (simp only: bal_only)
    have "inlines s2 = []" using add_balance_stats [OF s2] by simp
    show ?thesis
    proof (cases "to = issuer st")
      case True
      with b2 q drop s' e1 \<open>inlines s2 = []\<close> show ?thesis by (auto split: if_splits)
    next
      case False
      then have "transfer (with_auth c [Perm (issuer st) active_permission]) (issuer st) to q memo
          (s2\<lparr>inlines := []\<rparr>) = Inr s'"
        using s' e1 \<open>inlines s2 = []\<close> by (auto simp: bindr_Inr)
      from transfer_bal [OF _ this, of code n] b2 q drop ok auth show ?thesis
        by (auto split: if_splits)
    qed
  next
    case (Retire q memo)
    let ?s0 = "s\<lparr>inlines := []\<rparr>"
    from Retire s1 have "retire c q memo ?s0 = Inr s1" by simp
    from retire_parts [OF ok this] obtain st where auth: "has_auth c (issuer st)" and q: "0 < amount q"
      and b: "sub_balance c (issuer st) q (?s0\<lparr>stats := fmupd (sym_code (symb q))
        (st\<lparr>cur_supply := ast (amount (cur_supply st) - amount q) (symb q)\<rparr>) (stats ?s0)\<rparr>) = Inr s1"
      by blast
    have "inlines s1 = []" using sub_balance_stats [OF b] by simp
    with s' sub_balance_bal [OF ok b, of code n] auth drop show ?thesis
      by (auto simp: bal_unfold split: if_splits)
  next
    case (Transfer f t q memo)
    with s1 have t: "transfer c f t q memo (s\<lparr>inlines := []\<rparr>) = Inr s1" by simp
    then have auth: "has_auth c f" and q: "0 < amount q" by (auto simp: transfer_def Let_def res_simps)
    have "inlines s1 = []"
      using t by (auto simp: transfer_def Let_def res_simps dest!: sub_balance_stats add_balance_stats)
    with s' transfer_bal [OF ok t, of code n] auth q drop show ?thesis
      by (auto simp: bal_unfold split: if_splits)
  next
    case (Open ow sy p)
    with s1 s' drop inv ok show ?thesis
      by (auto simp: open_row_def res_simps lib_simps bal_unfold split: option.splits if_splits)
  next
    case (Close ow sy)
    with s1 s' drop show ?thesis
      by (auto simp: close_row_def res_simps bal_unfold split: option.splits if_splits)
  qed
qed

lemma exec_issue:
  assumes ok: "asset_ops_ok c" and run: "exec_token c (Issue to q memo) s = Inr s'"
  shows "\<exists>st. fmlookup (stats s) (sym_code (symb q)) = Some st \<and> has_auth c (issuer st)
    \<and> stats s' = fmupd (sym_code (symb q))
        (st\<lparr>cur_supply := ast (amount (cur_supply st) + amount q) (symb q)\<rparr>) (stats s)
    \<and> (\<forall>code n. bal code s' n = bal code s n + (if n = to then worth_in code q else 0))"
proof -
  from run obtain s1 where s1: "issue c to q memo (s\<lparr>inlines := []\<rparr>) = Inr s1"
    and s': "run_inlines c (inlines s1) (s1\<lparr>inlines := []\<rparr>) = Inr s'"
    by (auto simp: exec_token_def bindr_Inr)
  let ?s0 = "s\<lparr>inlines := []\<rparr>"
  let ?k = "sym_code (symb q)" and ?up = "\<lambda>st. st\<lparr>cur_supply := ast (amount (cur_supply st) + amount q) (symb q)\<rparr>"
  from issue_parts [OF ok s1] obtain st s2 where st: "fmlookup (stats ?s0) ?k = Some st"
    and auth: "has_auth c (issuer st)" and sy: "symb (cur_supply st) = symb q"
    and s2: "add_balance c (issuer st) q (?s0\<lparr>stats := fmupd ?k (?up st) (stats ?s0)\<rparr>) = Inr s2"
    and e1: "s1 = (if to \<noteq> issuer st then s2\<lparr>inlines := inlines s2 @
         [([Perm (issuer st) active_permission], Transfer (issuer st) to q memo)]\<rparr> else s2)"
    by blast
  have i2: "inlines s2 = []" "stats s2 = fmupd ?k (?up st) (stats s)"
    using add_balance_stats [OF s2] by simp_all
  have b2: "bal code s2 n = bal code s n + (if n = issuer st then worth_in code q else 0)" for code n
    using add_balance_bal [OF ok s2, of code n] by (simp only: bal_only)
  show ?thesis
  proof (cases "to = issuer st")
    case True
    with s' e1 i2 have "stats s' = stats s2" "bal code s' n = bal code s2 n" for code n by auto
    with i2 b2 st auth True show ?thesis by simp
  next
    case False
    let ?c = "with_auth c [Perm (issuer st) active_permission]"
    have t: "transfer ?c (issuer st) to q memo (s2\<lparr>inlines := []\<rparr>) = Inr s'"
      using False s' e1 i2 by (auto simp: bindr_Inr)
    then have "stats s' = stats s2"
      by (auto simp: transfer_def Let_def res_simps dest!: sub_balance_stats add_balance_stats)
    moreover have "bal code s' n = bal code s n + (if n = to then worth_in code q else 0)" for code n
      using transfer_bal [OF _ t, of code n] ok b2 [of code n] False by auto
    ultimately show ?thesis using st auth i2 by simp
  qed
qed

text \<open>What an action does to a balance; a \<open>retire\<close> is left out, as it acts on the issuer's.\<close>

fun token_flow :: "symbol_code \<Rightarrow> name \<Rightarrow> token_action \<Rightarrow> int" where
  "token_flow code n (Transfer f t q memo) =
     (if n = t then worth_in code q else 0) - (if n = f then worth_in code q else 0)"
| "token_flow code n (Issue t q memo) = (if n = t then worth_in code q else 0)"
| "token_flow code n _ = 0"

lemma exec_token_flow:
  assumes ok: "asset_ops_ok c" and run: "exec_token c a s = Inr s'" and "\<And>q memo. a \<noteq> Retire q memo"
  shows "bal code s' n = bal code s n + token_flow code n a"
proof -
  from run obtain s1 where s1: "apply_token c a (s\<lparr>inlines := []\<rparr>) = Inr s1"
    and s': "run_inlines c (inlines s1) (s1\<lparr>inlines := []\<rparr>) = Inr s'"
    by (auto simp: exec_token_def bindr_Inr)
  show ?thesis
  proof (cases a)
    case (Create i m)
    with s1 s' show ?thesis by (auto simp: create_def Let_def res_simps)
  next
    case (Issue to q memo)
    from exec_issue [OF ok run [unfolded Issue]] Issue show ?thesis by auto
  next
    case (Transfer f t q memo)
    with s1 have t: "transfer c f t q memo (s\<lparr>inlines := []\<rparr>) = Inr s1" by simp
    then have "inlines s1 = []"
      by (auto simp: transfer_def Let_def res_simps dest!: sub_balance_stats add_balance_stats)
    with s' have "s' = s1\<lparr>inlines := []\<rparr>" by simp
    then show ?thesis using transfer_bal [OF ok t, of code n] by (simp only: bal_only Transfer) simp
  next
    case (Open ow sy p)
    with s1 s' ok show ?thesis
      by (auto simp: open_row_def res_simps lib_simps bal_unfold split: option.splits if_splits)
  next
    case (Close ow sy)
    with s1 s' show ?thesis
      by (auto simp: close_row_def res_simps bal_unfold split: option.splits if_splits)
  qed (use assms(3) in blast)
qed

lemma exec_transfer_positive:
  "asset_ops_ok c \<Longrightarrow> exec_token c (Transfer f t q memo) s = Inr s' \<Longrightarrow>
     0 < amount q \<and> amount q \<le> max_amount \<and> f \<noteq> t \<and> has_auth c f
     \<and> (\<exists>st. fmlookup (stats s) (sym_code (symb q)) = Some st \<and> symb (cur_supply st) = symb q)"
  by (auto simp: exec_token_def transfer_def Let_def res_simps lib_simps)

section \<open>Properties\<close>

definition ex_sy :: symbol where "ex_sy = Symbol 5459781 4"

abbreviation ex_alice :: name where "ex_alice \<equiv> 3773036822876127232"
abbreviation ex_bob :: name where "ex_bob \<equiv> 4399453885987553280"

definition ex_ctx :: "name \<Rightarrow> chain" where "ex_ctx n = ref_chain token_account [n] 0"

lemma ex_ctx_ok [simp]: "asset_ops_ok (ex_ctx n)"
  by (simp add: ex_ctx_def)

definition ex_run :: "(chain \<times> token_action) list" where
  "ex_run =
     [(ex_ctx token_account, Create ex_alice (ast 1000 ex_sy)),
      (ex_ctx ex_alice, Issue ex_bob (ast 100 ex_sy) ''''),
      (ex_ctx ex_alice, Issue ex_alice (ast 50 ex_sy) ''''),
      (ex_ctx ex_bob, Transfer ex_bob ex_alice (ast 30 ex_sy) ''''),
      (ex_ctx ex_alice, Retire (ast 20 ex_sy) '''')]"

definition ex_state :: token_state where
  "ex_state =
     \<lparr>accounts = fmupd (ex_alice, 5459781) \<lparr>balance = ast 60 ex_sy\<rparr>
        (fmupd (ex_bob, 5459781) \<lparr>balance = ast 70 ex_sy\<rparr> fmempty),
      stats = fmupd 5459781 \<lparr>cur_supply = ast 130 ex_sy, max_supply = ast 1000 ex_sy, issuer = ex_alice\<rparr> fmempty,
      inlines = [], notified = [ex_alice, ex_bob, ex_bob, ex_alice]\<rparr>"

lemma ex_run_state: "run_all token_step ex_run empty_token_state = Inr ex_state"
  by (simp add: ex_run_def ex_state_def empty_token_state_def exec_token_def create_def issue_def
      retire_def transfer_def sub_balance_def add_balance_def ex_ctx_def ref_chain_def ex_sy_def
      with_auth_def max_amount_def i64_def require_auth_def Let_def fmupd_reorder_neq
      token_account_def)

lemma ex_state_inv: "ledger_inv ex_state"
proof -
  have "\<And>e. e \<in> set ex_run \<Longrightarrow> case e of (c, a) \<Rightarrow> asset_ops_ok c" by (auto simp: ex_run_def)
  from token_machine.run_inv [OF this ledger_inv_empty ex_run_state] show ?thesis by blast
qed

lemma ex_state_bal [simp]:
  "bal 5459781 ex_state ex_alice = 60" "bal 5459781 ex_state ex_bob = 70"
  "fmlookup (stats ex_state) 5459781 =
     Some \<lparr>cur_supply = ast 130 ex_sy, max_supply = ast 1000 ex_sy, issuer = ex_alice\<rparr>"
  by (simp_all add: bal_unfold ex_state_def)

text \<open>
  C1: Whatever actions run, in whatever contexts, starting from the empty contract: for every
  token the recorded supply is the sum of all balances of that token and does not exceed its
  maximum supply, and no balance is negative.
\<close>

theorem token_supply_conserved:
  assumes "\<forall>(c, a) \<in> set as. asset_ops_ok c"
    and "run_all token_step as empty_token_state = Inr s"
    and "fmlookup (stats s) code = Some st"
  shows "amount (cur_supply st) = total_balance code s
    \<and> amount (cur_supply st) \<le> amount (max_supply st) \<and> (\<forall>n. 0 \<le> bal code s n)"
proof -
  have "ledger_inv s"
    by (rule token_machine.run_inv [OF _ ledger_inv_empty assms(2)]) (use assms(1) in auto)
  then show ?thesis using ledger_invD(1) [OF _ assms(3)] bal_nonneg by (auto simp: stat_ok_def)
qed

theorem token_supply_conserved_witness:
  "run_all token_step ex_run empty_token_state = Inr ex_state
   \<and> total_balance 5459781 ex_state = 130 \<and> 0 \<le> bal 5459781 ex_state ex_bob"
proof -
  have "\<forall>(c, a) \<in> set ex_run. asset_ops_ok c" by (simp add: ex_run_def)
  from token_supply_conserved [OF this ex_run_state, of 5459781] show ?thesis
    by (simp add: ex_run_state)
qed

text \<open>
  C2: A transfer succeeds exactly when every guard of the code holds and the sender's balance
  covers the quantity: given the ledger invariant, the additions on the way never overflow.
\<close>

theorem transfer_succeeds_iff:
  assumes ok: "asset_ops_ok c" and inv: "ledger_inv s"
  shows "succeeds (transfer c f t q memo s) \<longleftrightarrow>
    f \<noteq> t \<and> has_auth c f \<and> is_account c t \<and> asset_valid c q \<and> 0 < amount q
    \<and> length memo \<le> 256
    \<and> (\<exists>st. fmlookup (stats s) (sym_code (symb q)) = Some st \<and> symb q = symb (cur_supply st))
    \<and> amount q \<le> bal (sym_code (symb q)) s f"
    (is "?L \<longleftrightarrow> ?R")
proof
  assume ?L
  then obtain s' st s2 where r: "f \<noteq> t" "has_auth c f" "is_account c t" "asset_valid c q"
      "0 < amount q" "length memo \<le> 256" "fmlookup (stats s) (sym_code (symb q)) = Some st"
      "symb q = symb (cur_supply st)"
      "sub_balance c f q (s\<lparr>notified := notified s @ [f, t]\<rparr>) = Inr s2"
    unfolding transfer_def Let_def res_simps by blast
  from r(9) have "amount q \<le> bal (sym_code (symb q)) s f"
    by (auto simp: sub_balance_Inr [OF ok] bal_unfold)
  with r show ?R by blast
next
  assume r: ?R
  then obtain st where st: "fmlookup (stats s) (sym_code (symb q)) = Some st" "symb q = symb (cur_supply st)"
    by blast
  have "succeeds (bindr (sub_balance c f q (s\<lparr>notified := notified s @ [f, t]\<rparr>)) (add_balance c t q))"
    by (rule transfer_moves [OF ok]) (use inv r st in auto)
  with r st show ?L by (simp add: transfer_def require_auth_def)
qed

theorem transfer_succeeds_iff_witness:
  "succeeds (transfer (ex_ctx ex_bob) ex_bob ex_alice (ast 70 ex_sy) [] ex_state)"
  using transfer_succeeds_iff [OF ex_ctx_ok ex_state_inv, where f = ex_bob and t = ex_alice
      and q = "ast 70 ex_sy" and memo = "[]"]
  by (simp add: ex_ctx_def ref_chain_def ex_sy_def max_amount_def)

text \<open>
  C3: The effect of a successful transfer: the sender loses the quantity, the receiver gains
  it, and no other balance of any token changes, nor does any supply.
\<close>

theorem transfer_effect:
  assumes "asset_ops_ok c" and "transfer c f t q memo s = Inr s'"
  shows "bal code s' n = bal code s n
      + (if sym_code (symb q) = code then (if n = t then amount q else 0) - (if n = f then amount q else 0) else 0)
    \<and> stats s' = stats s \<and> notified s' = notified s @ [f, t] \<and> inlines s' = inlines s"
proof -
  from assms(2) obtain s2 where s2: "sub_balance c f q (s\<lparr>notified := notified s @ [f, t]\<rparr>) = Inr s2"
    and s': "add_balance c t q s2 = Inr s'"
    by (auto simp: transfer_def Let_def res_simps)
  have "notified s' = notified s @ [f, t]"
    using s2 s' by (auto simp: sub_balance_Inr [OF assms(1)] add_balance_Inr [OF assms(1)] split: option.splits)
  then show ?thesis
    using sub_balance_stats [OF s2] add_balance_stats [OF s'] transfer_bal [OF assms, of code n] by auto
qed

theorem transfer_effect_witness:
  "\<exists>s'. transfer (ex_ctx ex_bob) ex_bob ex_alice (ast 70 ex_sy) [] ex_state = Inr s'
     \<and> bal 5459781 s' ex_bob = 0 \<and> bal 5459781 s' ex_alice = 130"
proof -
  obtain s' where "transfer (ex_ctx ex_bob) ex_bob ex_alice (ast 70 ex_sy) [] ex_state = Inr s'"
    using transfer_moves [OF ex_ctx_ok ex_state_inv, of "ast 70 ex_sy"]
    by (auto simp: transfer_def ex_ctx_def ref_chain_def ex_sy_def max_amount_def sub_balance_def
      add_balance_def ex_state_def Let_def require_auth_def)
  with transfer_effect [OF ex_ctx_ok this, of 5459781 ex_bob]
    transfer_effect [OF ex_ctx_ok this, of 5459781 ex_alice]
  show ?thesis by (auto simp: ex_sy_def)
qed

text \<open>
  C4: Nobody loses tokens without authorising it: if an action, with the inline action it
  sends, lowers an account's balance, the action carries that account's authority.
\<close>

theorem balance_drop_authorised:
  assumes ok: "asset_ops_ok c" and run: "exec_token c a s = Inr s'" and inv: "ledger_inv s"
    and drop: "bal code s' n < bal code s n"
  shows "has_auth c n"
  by (rule drop_needs_auth [OF ok run inv drop])

theorem balance_drop_authorised_witness:
  "\<exists>s'. exec_token (ex_ctx ex_bob) (Transfer ex_bob ex_alice (ast 70 ex_sy) []) ex_state = Inr s'
     \<and> bal 5459781 s' ex_bob < bal 5459781 ex_state ex_bob \<and> has_auth (ex_ctx ex_bob) ex_bob"
proof -
  let ?a = "Transfer ex_bob ex_alice (ast 70 ex_sy) []"
  obtain s' where r: "exec_token (ex_ctx ex_bob) ?a ex_state = Inr s'" and b: "bal 5459781 s' ex_bob = 0"
    by (auto simp: exec_token_def transfer_def ex_ctx_def ref_chain_def ex_sy_def max_amount_def
      sub_balance_def add_balance_def ex_state_def Let_def require_auth_def bal_unfold)
  from b have d: "bal 5459781 s' ex_bob < bal 5459781 ex_state ex_bob" by simp
  show ?thesis using r d balance_drop_authorised [OF ex_ctx_ok r ex_state_inv d] by blast
qed

text \<open>
  C5: Issuing: the supply grows by the quantity, which ends up in the account \<open>to\<close>; every
  other balance, the issuer's included, is what it was, and the issuer has authorised it.
\<close>

theorem issue_effect:
  assumes ok: "asset_ops_ok c" and run: "exec_token c (Issue to q memo) s = Inr s'"
  shows "\<exists>st. fmlookup (stats s) (sym_code (symb q)) = Some st \<and> has_auth c (issuer st)
    \<and> stats s' = fmupd (sym_code (symb q))
        (st\<lparr>cur_supply := ast (amount (cur_supply st) + amount q) (symb q)\<rparr>) (stats s)
    \<and> (\<forall>code n. bal code s' n = bal code s n + (if n = to then worth_in code q else 0))"
  by (rule exec_issue [OF ok run])

theorem issue_effect_witness:
  "\<exists>s'. exec_token (ex_ctx ex_alice) (Issue ex_bob (ast 5 ex_sy) []) ex_state = Inr s'
     \<and> bal 5459781 s' ex_bob = 75 \<and> bal 5459781 s' ex_alice = 60"
proof -
  let ?a = "Issue ex_bob (ast 5 ex_sy) []"
  obtain s' where r: "exec_token (ex_ctx ex_alice) ?a ex_state = Inr s'"
    by (auto simp: exec_token_def issue_def transfer_def ex_ctx_def ref_chain_def ex_sy_def max_amount_def
      sub_balance_def add_balance_def ex_state_def Let_def require_auth_def with_auth_def i64_def)
  show ?thesis using r issue_effect [OF ex_ctx_ok r] by (auto simp: ex_sy_def)
qed

end
