(* ===== verification/Float64.thy ===== *)
theory Float64
  imports Prelude "HOL-Library.Log_Nat"
begin

text \<open>
  The C++ type \<open>double\<close>: IEEE 754 binary64 with rounding to nearest, ties to even. A finite
  value is the rational number it denotes, so the two zeros are one value (the contracts never
  observe the sign of a zero). Every operation rounds its exact result once; conversions to
  \<open>int64_t\<close> truncate and fail on a value out of range, as the WebAssembly instruction does.
\<close>

section \<open>Rounding\<close>

definition ilog2 :: "rat \<Rightarrow> int" where
  "ilog2 x = (case quotient_of x of (p, q) \<Rightarrow>
     let k = bitlen p - bitlen q in if 2 powi k \<le> x then k else k - 1)"

definition rne :: "rat \<Rightarrow> int" where
  "rne x = (let f = \<lfloor>x\<rfloor>; d = x - of_int f in
     if d < 1 / 2 then f else if 1 / 2 < d then f + 1 else if even f then f else f + 1)"

definition ulp_exp :: "rat \<Rightarrow> int" where
  "ulp_exp x = max (ilog2 \<bar>x\<bar> - 52) (- 1074)"

definition rnd :: "rat \<Rightarrow> rat" where
  "rnd x = (if x = 0 then 0
     else let u = 2 powi ulp_exp x in of_int (rne (x / u)) * u)"

lemma powi2_pos [simp]: "0 < (2::rat) powi k"
  by (simp add: zero_less_power_int)

lemma powi2_le_iff [simp]: "(2::rat) powi a \<le> 2 powi b \<longleftrightarrow> a \<le> b"
  by (meson leD linorder_le_less_linear one_less_numeral_iff power_int_increasing power_int_strict_increasing
      semiring_norm(76) one_le_numeral)

lemma powi2_less_iff [simp]: "(2::rat) powi a < 2 powi b \<longleftrightarrow> a < b"
  by (simp add: less_le_not_le)

lemma powi2_add: "(2::rat) powi (a + b) = 2 powi a * 2 powi b"
  by (simp add: power_int_add)

lemma powi2_nat: "0 \<le> k \<Longrightarrow> (2::rat) powi k = of_int (2 ^ nat k)"
  by (simp add: power_int_def)

lemma bitlen_rat_bounds:
  assumes "0 < p" shows "2 powi (bitlen p - 1) \<le> rat_of_int p" "rat_of_int p < 2 powi bitlen p"
proof -
  from assms have b: "2 ^ nat (bitlen p - 1) \<le> p" "p < 2 ^ nat (bitlen p)"
    using bitlen_bounds by auto
  have "0 < bitlen p" using assms bitlen_nonneg [of p] bitlen_eq_zero_iff [of p] by linarith
  then show "2 powi (bitlen p - 1) \<le> rat_of_int p" "rat_of_int p < 2 powi bitlen p"
    using b by (simp_all add: powi2_nat del: of_int_power)
qed

lemma ilog2_bounds:
  assumes "0 < x" shows "2 powi ilog2 x \<le> x" "x < 2 powi (ilog2 x + 1)"
proof -
  obtain p q where pq: "quotient_of x = (p, q)" by fastforce
  then have q: "0 < q" and x: "x = of_int p / of_int q"
    by (auto dest: quotient_of_denom_pos quotient_of_div)
  with assms have p: "0 < p" by (simp add: zero_less_divide_iff)
  let ?k = "bitlen p - bitlen q"
  note bp = bitlen_rat_bounds [OF p] and bq = bitlen_rat_bounds [OF q]
  have "2 powi (?k - 1) * rat_of_int q \<le> 2 powi (?k - 1) * 2 powi bitlen q"
    using bq by (intro mult_left_mono) auto
  also have "\<dots> = 2 powi (bitlen p - 1)" by (simp flip: powi2_add)
  finally have lo: "2 powi (?k - 1) \<le> x"
    using bp q by (simp add: x pos_le_divide_eq)
  have "rat_of_int p < 2 powi (?k + 1) * 2 powi (bitlen q - 1)"
    using bp by (simp flip: powi2_add)
  also have "\<dots> \<le> 2 powi (?k + 1) * rat_of_int q" using bq by (intro mult_left_mono) auto
  finally have hi: "x < 2 powi (?k + 1)"
    using q by (simp add: x pos_divide_less_eq)
  show "2 powi ilog2 x \<le> x" "x < 2 powi (ilog2 x + 1)"
    using lo hi by (auto simp: ilog2_def pq Let_def)
qed

lemma ilog2_unique:
  assumes "2 powi e \<le> x" "x < 2 powi (e + 1)" shows "ilog2 x = e"
proof -
  have "0 < x" using assms(1) powi2_pos less_le_trans by blast
  note b = ilog2_bounds [OF this]
  from b(1) assms(2) have "2 powi ilog2 x < (2::rat) powi (e + 1)" by (rule le_less_trans)
  moreover from assms(1) b(2) have "2 powi e < (2::rat) powi (ilog2 x + 1)" by (rule le_less_trans)
  ultimately show ?thesis by simp
qed

lemma ilog2_mono: "0 < x \<Longrightarrow> x \<le> y \<Longrightarrow> ilog2 x \<le> ilog2 y"
proof -
  assume "0 < x" "x \<le> y"
  then have "2 powi ilog2 x \<le> x" "y < 2 powi (ilog2 y + 1)"
    using ilog2_bounds [of x] ilog2_bounds [of y] by auto
  with \<open>x \<le> y\<close> have "(2::rat) powi ilog2 x < 2 powi (ilog2 y + 1)" by linarith
  then show ?thesis by simp
qed

lemma rne_of_int [simp]: "rne (of_int n) = n"
  by (simp add: rne_def)

lemma rne_error: "\<bar>of_int (rne x) - x\<bar> \<le> 1 / 2"
proof -
  have "of_int \<lfloor>x\<rfloor> \<le> x" "x < of_int \<lfloor>x\<rfloor> + 1" by linarith+
  then show ?thesis by (auto simp: rne_def Let_def)
qed

lemma rne_mono:
  assumes "x \<le> y" shows "rne x \<le> rne y"
proof (cases "\<lfloor>x\<rfloor> = \<lfloor>y\<rfloor>")
  case True
  with assms show ?thesis by (auto simp: rne_def Let_def)
next
  case False
  with assms have "\<lfloor>x\<rfloor> + 1 \<le> \<lfloor>y\<rfloor>" by (metis floor_mono less_le zless_imp_add1_zle)
  moreover have "rne x \<le> \<lfloor>x\<rfloor> + 1" "\<lfloor>y\<rfloor> \<le> rne y" by (auto simp: rne_def Let_def)
  ultimately show ?thesis by linarith
qed

lemma rne_minus: "rne (- x) = - rne x"
proof (cases "x = of_int \<lfloor>x\<rfloor>")
  case True
  then show ?thesis by (metis rne_of_int of_int_minus)
next
  case False
  then have "\<lfloor>- x\<rfloor> = - \<lfloor>x\<rfloor> - 1"
    by (intro floor_unique) (simp_all, linarith+)
  then show ?thesis using False by (auto simp: rne_def Let_def)
qed

lemma rnd_0 [simp]: "rnd 0 = 0"
  by (simp add: rnd_def)

lemma ulp_exp_minus [simp]: "ulp_exp (- x) = ulp_exp x"
  by (simp add: ulp_exp_def)

lemma rnd_minus: "rnd (- x) = - rnd x"
  by (simp add: rnd_def Let_def rne_minus)

lemma rnd_error: "x \<noteq> 0 \<Longrightarrow> \<bar>rnd x - x\<bar> \<le> 2 powi ulp_exp x / 2"
proof -
  assume x: "x \<noteq> 0"
  let ?u = "(2::rat) powi ulp_exp x"
  have "rnd x - x = (of_int (rne (x / ?u)) - x / ?u) * ?u"
    using x by (simp add: rnd_def Let_def algebra_simps)
  then have "\<bar>rnd x - x\<bar> = \<bar>of_int (rne (x / ?u)) - x / ?u\<bar> * ?u"
    by (simp add: abs_mult)
  also have "\<dots> \<le> 1 / 2 * ?u" by (intro mult_right_mono rne_error) simp
  finally show ?thesis by simp
qed

text \<open>A bound that is itself on the grid of \<open>x\<close> is not crossed by rounding.\<close>

lemma rnd_grid_le:
  assumes "x \<noteq> 0" "ulp_exp x \<le> e" "x \<le> of_int n * 2 powi e"
  shows "rnd x \<le> of_int n * 2 powi e"
proof -
  let ?u = "(2::rat) powi ulp_exp x" and ?m = "n * 2 ^ nat (e - ulp_exp x)"
  have "(2::rat) powi e = 2 powi (e - ulp_exp x) * ?u" by (simp flip: powi2_add)
  then have eq: "of_int n * 2 powi e = of_int ?m * ?u"
    using assms(2) by (simp add: powi2_nat)
  with assms(3) have "x / ?u \<le> of_int ?m" by (simp add: pos_divide_le_eq)
  then have "rne (x / ?u) \<le> ?m" using rne_mono rne_of_int by metis
  then have "of_int (rne (x / ?u)) * ?u \<le> of_int ?m * ?u"
    by (intro mult_right_mono) (simp_all del: of_int_mult)
  also have "\<dots> = of_int n * 2 powi e" by (rule eq [symmetric])
  finally show ?thesis using assms(1) by (simp add: rnd_def Let_def)
qed

lemma rnd_grid_ge:
  assumes "x \<noteq> 0" "ulp_exp x \<le> e" "of_int n * 2 powi e \<le> x"
  shows "of_int n * 2 powi e \<le> rnd x"
proof -
  have "rnd (- x) \<le> of_int (- n) * 2 powi e"
    by (rule rnd_grid_le) (use assms in auto)
  then show ?thesis by (simp add: rnd_minus)
qed

lemma rnd_grid_eq:
  assumes "ulp_exp (of_int n * 2 powi e) \<le> e"
  shows "rnd (of_int n * 2 powi e) = of_int n * 2 powi e"
proof (cases "n = 0")
  case False
  then show ?thesis using assms by (intro antisym rnd_grid_le rnd_grid_ge) auto
qed simp

lemma rnd_nonneg: "0 \<le> x \<Longrightarrow> 0 \<le> rnd x"
  using rnd_grid_ge [of x "ulp_exp x" 0] by (cases "x = 0") auto

lemma rnd_mono_pos:
  assumes "0 < x" "x \<le> y" shows "rnd x \<le> rnd y"
proof (cases "ulp_exp x = ulp_exp y")
  case True
  have "rne (x / 2 powi ulp_exp y) \<le> rne (y / 2 powi ulp_exp y)"
    using assms by (intro rne_mono divide_right_mono) auto
  then show ?thesis using assms True by (simp add: rnd_def Let_def)
next
  case False
  have "ilog2 x \<le> ilog2 y" using assms by (rule ilog2_mono)
  with False assms have u: "ulp_exp x < ulp_exp y" "ulp_exp y = ilog2 y - 52" "ilog2 x < ilog2 y"
    by (auto simp: ulp_exp_def)
  let ?b = "(2::rat) powi ilog2 y"
  have "x < 2 powi (ilog2 x + 1)" using ilog2_bounds assms by blast
  also have "\<dots> \<le> ?b" using u by simp
  finally have "rnd x \<le> of_int 1 * ?b" using assms u by (intro rnd_grid_le) auto
  moreover have b: "of_int (2 ^ 52) * 2 powi (ulp_exp y) = ?b"
    using powi2_add [of 52 "ilog2 y - 52"] by (simp add: u(2))
  moreover have "of_int (2 ^ 52) * 2 powi (ulp_exp y) \<le> rnd y"
    using ilog2_bounds [of y] assms b by (intro rnd_grid_ge) auto
  ultimately show ?thesis by linarith
qed

lemma rnd_mono: "x \<le> y \<Longrightarrow> rnd x \<le> rnd y"
proof (cases "0 < x")
  case True
  assume "x \<le> y" then show ?thesis using True by (rule rnd_mono_pos [rotated])
next
  case nx: False
  assume xy: "x \<le> y"
  show ?thesis
  proof (cases "y < 0")
    case True
    then have "rnd (- y) \<le> rnd (- x)" using xy by (intro rnd_mono_pos) auto
    then show ?thesis by (simp add: rnd_minus)
  next
    case False
    then have "0 \<le> rnd y" by (intro rnd_nonneg) simp
    moreover have "0 \<le> rnd (- x)" using nx by (intro rnd_nonneg) simp
    ultimately show ?thesis by (simp add: rnd_minus)
  qed
qed

text \<open>Values with at most 53 significant bits are not changed by rounding.\<close>

lemma rnd_repr:
  assumes "\<bar>n\<bar> < 2 ^ 53" "- 1074 \<le> e"
  shows "rnd (of_int n * 2 powi e) = of_int n * 2 powi e"
proof (cases "n = 0")
  case False
  let ?x = "of_int n * (2::rat) powi e"
  have "0 < \<bar>?x\<bar>" using False by simp
  have "2 powi ilog2 \<bar>?x\<bar> \<le> \<bar>?x\<bar>" using ilog2_bounds False by simp
  also have "\<dots> < 2 powi 53 * 2 powi e"
    using assms(1) by (simp add: abs_mult of_int_less_iff [of "\<bar>n\<bar>", where ?'a = rat, symmetric] del: of_int_less_iff)
  also have "\<dots> = 2 powi (53 + e)" by (rule powi2_add [symmetric])
  finally have "ilog2 \<bar>?x\<bar> < 53 + e" by simp
  then show ?thesis using assms(2) by (intro rnd_grid_eq) (simp add: ulp_exp_def)
qed simp

lemma rnd_of_int:
  assumes "\<bar>n\<bar> \<le> 2 ^ 53" shows "rnd (of_int n) = of_int n"
proof (cases "\<bar>n\<bar> = 2 ^ 53")
  case True
  then consider "n = 2 ^ 53" | "n = - (2 ^ 53)" by linarith
  then show ?thesis
    using rnd_repr [of "2 ^ 52" 1] rnd_repr [of "- (2 ^ 52)" 1] by cases simp_all
next
  case False
  with assms show ?thesis using rnd_repr [of n 0] by simp
qed

text \<open>The relative error of one rounding is at most \<open>2\<^sup>-\<^sup>5\<^sup>3\<close> in the normal range.\<close>

lemma rnd_rel_error:
  assumes "2 powi (- 1022) \<le> \<bar>x\<bar>"
  shows "\<bar>rnd x - x\<bar> \<le> \<bar>x\<bar> * 2 powi (- 53)"
proof -
  have x: "0 < \<bar>x\<bar>" using assms powi2_pos less_le_trans by blast
  note b = ilog2_bounds [OF this]
  from assms b(2) have "(2::rat) powi (- 1022) < 2 powi (ilog2 \<bar>x\<bar> + 1)" by (rule le_less_trans)
  then have "- 1022 < ilog2 \<bar>x\<bar> + 1" by (rule powi2_less_iff [THEN iffD1])
  then have "ulp_exp x = ilog2 \<bar>x\<bar> - 52" by (simp add: ulp_exp_def)
  then have "\<bar>rnd x - x\<bar> \<le> 2 powi (ilog2 \<bar>x\<bar> - 52) / 2" using rnd_error x by force
  also have "\<dots> = 2 powi (ilog2 \<bar>x\<bar>) * 2 powi (- 53)"
    by (simp add: power_int_diff power_int_minus)
  also have "\<dots> \<le> \<bar>x\<bar> * 2 powi (- 53)" using b(1) by (intro mult_right_mono) auto
  finally show ?thesis .
qed

section \<open>Values and operations\<close>

datatype double = Fin rat | PInf | NInf | NaN

definition mk :: "rat \<Rightarrow> double" where
  "mk x = (let r = rnd x in
     if 2 ^ 1024 \<le> r then PInf else if r \<le> - (2 ^ 1024) then NInf else Fin r)"

definition to_double :: "int \<Rightarrow> double" where
  "to_double n = mk (of_int n)"

fun dneg :: "double \<Rightarrow> double" where
  "dneg (Fin a) = Fin (- a)"
| "dneg PInf = NInf"
| "dneg NInf = PInf"
| "dneg NaN = NaN"

fun dadd :: "double \<Rightarrow> double \<Rightarrow> double" where
  "dadd (Fin a) (Fin b) = mk (a + b)"
| "dadd NaN _ = NaN"
| "dadd _ NaN = NaN"
| "dadd PInf NInf = NaN"
| "dadd NInf PInf = NaN"
| "dadd PInf _ = PInf"
| "dadd _ PInf = PInf"
| "dadd NInf _ = NInf"
| "dadd _ NInf = NInf"

definition dsub :: "double \<Rightarrow> double \<Rightarrow> double" where
  "dsub a b = dadd a (dneg b)"

definition inf_times :: "bool \<Rightarrow> rat \<Rightarrow> double" where
  "inf_times neg b = (if b = 0 then NaN else if (b < 0) = neg then PInf else NInf)"

fun dmul :: "double \<Rightarrow> double \<Rightarrow> double" where
  "dmul (Fin a) (Fin b) = mk (a * b)"
| "dmul NaN _ = NaN"
| "dmul _ NaN = NaN"
| "dmul PInf (Fin b) = inf_times False b"
| "dmul NInf (Fin b) = inf_times True b"
| "dmul (Fin a) PInf = inf_times False a"
| "dmul (Fin a) NInf = inf_times True a"
| "dmul PInf PInf = PInf"
| "dmul NInf NInf = PInf"
| "dmul _ _ = NInf"

fun ddiv :: "double \<Rightarrow> double \<Rightarrow> double" where
  "ddiv (Fin a) (Fin b) =
     (if b = 0 then (if a = 0 then NaN else if 0 < a then PInf else NInf) else mk (a / b))"
| "ddiv NaN _ = NaN"
| "ddiv _ NaN = NaN"
| "ddiv (Fin _) _ = Fin 0"
| "ddiv PInf (Fin b) = (if b < 0 then NInf else PInf)"
| "ddiv NInf (Fin b) = (if b < 0 then PInf else NInf)"
| "ddiv _ _ = NaN"

fun dabs :: "double \<Rightarrow> double" where
  "dabs (Fin a) = Fin \<bar>a\<bar>"
| "dabs NaN = NaN"
| "dabs _ = PInf"

text \<open>The comparisons of the code: every comparison with \<open>NaN\<close> is false.\<close>

fun dlt :: "double \<Rightarrow> double \<Rightarrow> bool" where
  "dlt (Fin a) (Fin b) \<longleftrightarrow> a < b"
| "dlt NaN _ \<longleftrightarrow> False"
| "dlt _ NaN \<longleftrightarrow> False"
| "dlt NInf b \<longleftrightarrow> b \<noteq> NInf"
| "dlt _ NInf \<longleftrightarrow> False"
| "dlt a PInf \<longleftrightarrow> a \<noteq> PInf"
| "dlt PInf _ \<longleftrightarrow> False"

definition dle :: "double \<Rightarrow> double \<Rightarrow> bool" where
  "dle a b \<longleftrightarrow> dlt a b \<or> (a = b \<and> a \<noteq> NaN)"

definition trunc_rat :: "rat \<Rightarrow> int" where
  "trunc_rat r = (if 0 \<le> r then \<lfloor>r\<rfloor> else \<lceil>r\<rceil>)"

fun to_int64 :: "double \<Rightarrow> int64 res" where
  "to_int64 (Fin r) = check (in_i64 (trunc_rat r)) ''f64 to i64: overflow'' (Inr (trunc_rat r))"
| "to_int64 _ = Inl ''f64 to i64: unrepresentable''"

section \<open>A linear order, for the keys of secondary indices\<close>

text \<open>Database keys are ordered by value; \<open>NaN\<close> is put last to make the order total.\<close>

instantiation double :: linorder
begin

definition less_double :: "double \<Rightarrow> double \<Rightarrow> bool" where
  "less_double a b \<longleftrightarrow> dlt a b \<or> (a \<noteq> NaN \<and> b = NaN)"

definition less_eq_double :: "double \<Rightarrow> double \<Rightarrow> bool" where
  "less_eq_double a b \<longleftrightarrow> a = b \<or> a < b"

instance
proof
  fix x y z :: double
  show "(x < y) = (x \<le> y \<and> \<not> y \<le> x)"
    by (cases x; cases y) (auto simp: less_double_def less_eq_double_def)
  show "x \<le> x" by (simp add: less_eq_double_def)
  show "x \<le> y \<Longrightarrow> y \<le> z \<Longrightarrow> x \<le> z"
    by (cases x; cases y; cases z) (auto simp: less_double_def less_eq_double_def)
  show "x \<le> y \<Longrightarrow> y \<le> x \<Longrightarrow> x = y"
    by (cases x; cases y) (auto simp: less_double_def less_eq_double_def)
  show "x \<le> y \<or> y \<le> x"
    by (cases x; cases y) (auto simp: less_double_def less_eq_double_def)
qed

end

lemma less_double_Fin [simp]: "Fin a < Fin b \<longleftrightarrow> a < b" "Fin a \<le> Fin b \<longleftrightarrow> a \<le> b"
  by (auto simp: less_double_def less_eq_double_def)

section \<open>Lemmas on the operations\<close>

lemma rnd_lt_overflow:
  assumes "\<bar>x\<bar> \<le> of_int n" "\<bar>n\<bar> \<le> 2 ^ 53 * 2 ^ k" "k \<le> 900"
  shows "\<bar>rnd x\<bar> < 2 ^ 1024"
proof -
  have step: "rnd y \<le> 2 powi (53 + int k)" if "y \<le> of_int n" for y
  proof -
    have "y \<le> of_int (2 ^ 53 * 2 ^ k)"
      using that assms(2) by (meson abs_ge_self dual_order.trans of_int_le_iff)
    also have "\<dots> = of_int (2 ^ 52) * 2 powi (1 + int k)"
      by (simp add: power_int_def nat_add_distrib)
    finally have "rnd y \<le> rnd (of_int (2 ^ 52) * 2 powi (1 + int k))" by (rule rnd_mono)
    also have "\<dots> = of_int (2 ^ 52) * 2 powi (1 + int k)" by (rule rnd_repr) auto
    also have "\<dots> = 2 powi (53 + int k)"
      by (simp add: power_int_def nat_add_distrib power_add)
    finally show ?thesis .
  qed
  have "rnd x \<le> 2 powi (53 + int k)" "- rnd x \<le> 2 powi (53 + int k)"
    using step [of x] step [of "- x"] assms(1) by (auto simp: rnd_minus)
  moreover have "(2::rat) powi (53 + int k) < 2 powi 1024"
    using assms(3) by (intro powi2_less_iff [THEN iffD2]) simp
  ultimately have "\<bar>rnd x\<bar> < 2 powi 1024" by linarith
  then show ?thesis by simp
qed

lemma mk_Fin: "\<bar>rnd x\<bar> < 2 ^ 1024 \<Longrightarrow> mk x = Fin (rnd x)"
  by (auto simp: mk_def Let_def)

lemma to_double_exact: "\<bar>n\<bar> \<le> 2 ^ 53 \<Longrightarrow> to_double n = Fin (of_int n)"
  using rnd_lt_overflow [of "of_int n" "\<bar>n\<bar>" 0] by (simp add: to_double_def mk_Fin rnd_of_int)

lemma to_double_Fin:
  assumes "\<bar>n\<bar> \<le> 2 ^ 64" shows "to_double n = Fin (rnd (of_int n))"
  using rnd_lt_overflow [of "of_int n" "\<bar>n\<bar>" 11] assms by (simp add: to_double_def mk_Fin)

lemma trunc_rat_of_int [simp]: "trunc_rat (of_int n) = n"
  by (simp add: trunc_rat_def)

lemma trunc_rat_mono:
  assumes "a \<le> b" shows "trunc_rat a \<le> trunc_rat b"
proof (cases "0 \<le> a \<or> b < 0")
  case True
  with assms show ?thesis by (auto simp: trunc_rat_def floor_mono ceiling_mono)
next
  case False
  then have "trunc_rat a \<le> 0" "0 \<le> trunc_rat b" by (simp_all add: trunc_rat_def)
  then show ?thesis by (rule order_trans)
qed

lemma trunc_rat_nonneg: "0 \<le> a \<Longrightarrow> 0 \<le> trunc_rat a"
  by (simp add: trunc_rat_def)

lemma to_int64_Inr [res_simps]:
  "to_int64 d = Inr n \<longleftrightarrow> (\<exists>r. d = Fin r \<and> in_i64 (trunc_rat r) \<and> n = trunc_rat r)"
  by (cases d) auto

text \<open>Values that are not below zero; \<open>NaN\<close> counts, as no conversion of it succeeds.\<close>

fun dge0 :: "double \<Rightarrow> bool" where
  "dge0 (Fin a) \<longleftrightarrow> 0 \<le> a"
| "dge0 NInf \<longleftrightarrow> False"
| "dge0 _ \<longleftrightarrow> True"

lemma dge0_mk: "0 \<le> x \<Longrightarrow> dge0 (mk x)"
proof -
  assume "0 \<le> x"
  then have "\<not> rnd x \<le> - (2 ^ 1024)" "0 \<le> rnd x" using rnd_nonneg [of x] by (auto simp: not_le intro: less_le_trans [of _ 0])
  then show ?thesis by (auto simp: mk_def Let_def)
qed

lemma dge0_to_double [simp]: "0 \<le> n \<Longrightarrow> dge0 (to_double n)"
  by (simp add: to_double_def dge0_mk)

lemma dge0_dmul [simp]: "dge0 a \<Longrightarrow> dge0 b \<Longrightarrow> dge0 (dmul a b)"
  by (cases a; cases b) (auto simp: dge0_mk inf_times_def)

lemma dge0_dadd [simp]: "dge0 a \<Longrightarrow> dge0 b \<Longrightarrow> dge0 (dadd a b)"
  by (cases a; cases b) (auto simp: dge0_mk)

lemma dge0_ddiv [simp]: "dge0 a \<Longrightarrow> dge0 b \<Longrightarrow> dge0 (ddiv a b)"
  by (cases a; cases b) (auto simp: dge0_mk)

lemma to_int64_nonneg: "to_int64 d = Inr n \<Longrightarrow> dge0 d \<Longrightarrow> 0 \<le> n"
  by (auto simp: to_int64_Inr trunc_rat_nonneg)

lemma to_int64_in_range: "to_int64 d = Inr n \<Longrightarrow> in_i64 n"
  by (auto simp: to_int64_Inr)

end
