(* ===== verification/SysState.thy ===== *)
theory SysState
  imports Token Float64
begin

text \<open>
  The state of the contract eosio.system: the tables declared in eosio.system.hpp and at the top
  of delegate_bandwidth.cpp, the three global singletons, the host state the contract sets
  (resource limits, privileges, parameters, proposed schedules, deferred transactions), the
  inline actions it sends, and the token contract it reads and those actions act on. Fields that
  repeat the primary key of their row (\<open>owner\<close>, \<open>from\<close>, ...) are in the key of the table, and the
  \<open>version\<close> fields, which are always 0, are left out.
\<close>

unbundle bit_operations_syntax

type_synonym bytes = "8 word list"
type_synonym public_key = bytes

section \<open>Rows\<close>

record name_bid =
  high_bidder :: name
  high_bid :: int64
  last_bid_time :: time_point

text \<open>\<open>blockchain_parameters\<close> is a structure of the eosiolib; the contract reads one field of it.\<close>

record blockchain_parameters =
  max_authority_depth :: uint16
  other_parameters :: "int list"

record eosio_global_state =
  blockchain_params :: blockchain_parameters
  max_ram_size :: uint64
  total_ram_bytes_reserved :: uint64
  total_ram_stake :: int64
  last_producer_schedule_update :: slot
  last_pervote_bucket_fill :: time_point
  pervote_bucket :: int64
  perblock_bucket :: int64
  total_unpaid_blocks :: uint32
  total_activated_stake :: int64
  thresh_activated_stake_time :: time_point
  last_producer_schedule_size :: uint16
  total_producer_vote_weight :: double
  last_name_close :: slot

record eosio_global_state2 =
  new_ram_per_block :: uint16
  last_ram_increase :: slot
  last_block_num :: slot
  total_producer_votepay_share :: double
  revision :: uint8

record eosio_global_state3 =
  last_vpay_state_update :: time_point
  total_vpay_share_change_rate :: double

record producer_info =
  total_votes :: double
  producer_key :: public_key
  is_active :: bool
  url :: string
  unpaid_blocks :: uint32
  last_claim_time :: time_point
  location :: uint16

record producer_info2 =
  votepay_share :: double
  last_votepay_share_update :: time_point

record voter_info =
  v_proxy :: name
  v_producers :: "name list"
  staked :: int64
  last_vote_weight :: double
  proxied_vote_weight :: double
  is_proxy :: bool
  flags1 :: "32 word"

definition default_voter :: voter_info where
  "default_voter = \<lparr>v_proxy = 0, v_producers = [], staked = 0, last_vote_weight = Fin 0,
     proxied_vote_weight = Fin 0, is_proxy = False, flags1 = 0\<rparr>"

definition ram_managed :: "32 word" where "ram_managed = 1"
definition net_managed :: "32 word" where "net_managed = 2"
definition cpu_managed :: "32 word" where "cpu_managed = 4"

definition has_field :: "32 word \<Rightarrow> 32 word \<Rightarrow> bool" where
  "has_field flags field \<longleftrightarrow> flags AND field \<noteq> 0"

definition set_field :: "32 word \<Rightarrow> 32 word \<Rightarrow> bool \<Rightarrow> 32 word" where
  "set_field flags field value = (if value then flags OR field else flags AND NOT field)"

record rex_pool =
  total_lent :: asset
  total_unlent :: asset
  total_rent :: asset
  total_lendable :: asset
  total_rex :: asset
  namebid_proceeds :: asset
  next_loan_num :: uint64

record rex_balance =
  vote_stake :: asset
  rex_bal :: asset
  matured_rex :: int64
  rex_maturities :: "(time_point_sec \<times> int64) list"

record rex_loan =
  loan_from :: name
  loan_receiver :: name
  loan_payment :: asset
  loan_balance :: asset
  total_staked :: asset
  expiration :: time_point

record rex_order =
  rex_requested :: asset
  proceeds :: asset
  stake_change :: asset
  order_time :: time_point
  is_open :: bool

record user_resources =
  net_weight :: asset
  cpu_weight :: asset
  ram_bytes :: int64

record delegated_bandwidth =
  dbw_net :: asset
  dbw_cpu :: asset

record refund_request =
  request_time :: time_point_sec
  net_amount :: asset
  cpu_amount :: asset

definition res_empty :: "user_resources \<Rightarrow> bool" where
  "res_empty r \<longleftrightarrow> amount (net_weight r) = 0 \<and> amount (cpu_weight r) = 0 \<and> ram_bytes r = 0"

definition dbw_empty :: "delegated_bandwidth \<Rightarrow> bool" where
  "dbw_empty d \<longleftrightarrow> amount (dbw_net d) = 0 \<and> amount (dbw_cpu d) = 0"

definition refund_empty :: "refund_request \<Rightarrow> bool" where
  "refund_empty r \<longleftrightarrow> amount (net_amount r) = 0 \<and> amount (cpu_amount r) = 0"

record connector =
  c_balance :: asset
  c_weight :: double

record exchange_state =
  ex_supply :: asset
  base :: connector
  quote :: connector

section \<open>Effects on the outside\<close>

text \<open>
  Inline actions: to the token contract, with the permissions they are given, and the result
  actions of \<open>rex.results\<close> (rex.results.hpp), which do nothing but appear in the trace.
\<close>

datatype inline_action =
    ToToken "permission_level list" token_action
  | BuyResult asset
  | SellResult asset
  | OrderResult name asset
  | RentResult asset

datatype deferred_action = DeferredRefund name uint32 | DeferredBidRefund name name uint32

type_synonym limits = "int64 \<times> int64 \<times> int64"

record sys_state =
  voters :: "(name, voter_info) fmap"
  producers :: "(name, producer_info) fmap"
  producers2 :: "(name, producer_info2) fmap"
  gstate :: eosio_global_state
  gstate2 :: eosio_global_state2
  gstate3 :: eosio_global_state3
  rammarket :: "exchange_state option"
  rexpool :: "rex_pool option"
  rexfunds :: "(name, asset) fmap"
  rexbalance :: "(name, rex_balance) fmap"
  rexorders :: "(name, rex_order) fmap"
  cpu_loans :: "(uint64, rex_loan) fmap"
  net_loans :: "(uint64, rex_loan) fmap"
  userres :: "(name, user_resources) fmap"
  delband :: "(name \<times> name, delegated_bandwidth) fmap"
  refunds :: "(name, refund_request) fmap"
  namebids :: "(name, name_bid) fmap"
  bidrefunds :: "(name \<times> name, asset) fmap"
  abihash :: "(name, bytes) fmap"
  res_limits :: "name \<Rightarrow> limits"
  privileged :: "name \<Rightarrow> bool"
  active_params :: "blockchain_parameters option"
  proposed :: "((name \<times> public_key) list) list"
  pending :: "(int, deferred_action) fmap"
  outbox :: "inline_action list"
  tokens :: token_state

text \<open>
  What the host and the C++ library supply beyond \<open>chain\<close>: \<open>std::pow\<close>, the clock in seconds,
  the epoch of block timestamps in milliseconds, the default public key, the result of proposing
  a schedule, the hash, and the text of a name.
\<close>

record sys_chain = chain +
  pow_fn :: "double \<Rightarrow> double \<Rightarrow> double"
  now_seconds :: uint32
  block_timestamp_epoch :: int64
  default_key :: public_key
  set_proposed_producers :: "(name \<times> public_key) list \<Rightarrow> int64"
  sha256_of :: "bytes \<Rightarrow> bytes"
  name_to_string :: "name \<Rightarrow> string"

definition now_tp :: "('x) chain_scheme \<Rightarrow> time_point" where
  "now_tp c = i64 (current_time c)"

definition now_sec :: "('x) chain_scheme \<Rightarrow> time_point_sec" where
  "now_sec c = to_time_point_sec c (now_tp c)"

definition current_block_time :: "('x) chain_scheme \<Rightarrow> slot" where
  "current_block_time c = to_block_timestamp c (now_tp c)"

section \<open>Access to the core symbol\<close>

definition with_core :: "sys_state \<Rightarrow> (symbol \<Rightarrow> 'a res) \<Rightarrow> 'a res" where
  "with_core s k = the_row (rammarket s) ''system contract must first be initialized''
     (\<lambda>m. k (symb (c_balance (quote m))))"

definition core_asset :: "sys_chain \<Rightarrow> sys_state \<Rightarrow> int64 \<Rightarrow> (asset \<Rightarrow> 'a res) \<Rightarrow> 'a res" where
  "core_asset c s n k = with_core s (\<lambda>sy. bindr (asset_new c n sy) k)"

definition core_sym :: "sys_state \<Rightarrow> symbol option" where
  "core_sym s = map_option (\<lambda>m. symb (c_balance (quote m))) (rammarket s)"

lemma with_core_Inr [res_simps]: "with_core s k = Inr y \<longleftrightarrow> (\<exists>sy. core_sym s = Some sy \<and> k sy = Inr y)"
  by (auto simp: with_core_def core_sym_def the_row_Inr)

lemma with_core_Some [simp]: "core_sym s = Some sy \<Longrightarrow> with_core s k = k sy"
  by (auto simp: with_core_def core_sym_def)

lemma core_asset_Inr [res_simps]:
  "core_asset c s n k = Inr y \<longleftrightarrow> (\<exists>sy a. core_sym s = Some sy \<and> asset_new c n sy = Inr a \<and> k a = Inr y)"
  by (auto simp: core_asset_def res_simps)

lemma core_sym_cong: "rammarket s' = rammarket s \<Longrightarrow> core_sym s' = core_sym s"
  by (simp add: core_sym_def)

section \<open>Secondary indices and 128-bit products\<close>

text \<open>Rows in the order of a secondary key; rows with equal keys are in the order of the primary key.\<close>

definition index_by :: "('k::linorder \<Rightarrow> 'v \<Rightarrow> 'o::linorder) \<Rightarrow> ('k, 'v) fmap \<Rightarrow> ('k \<times> 'v) list" where
  "index_by f m = sort_key (\<lambda>(k, v). f k v) (sorted_list_of_fmap m)"

definition first_by :: "('k::linorder \<Rightarrow> 'v \<Rightarrow> 'o::linorder) \<Rightarrow> ('k, 'v) fmap \<Rightarrow> ('k \<times> 'v) option" where
  "first_by f m = (case index_by f m of [] \<Rightarrow> None | kv # _ \<Rightarrow> Some kv)"

text \<open>\<open>(uint128_t(a) * b) / d\<close>, narrowed to \<open>int64_t\<close>; a division by zero traps.\<close>

definition u128 :: "int \<Rightarrow> int" where
  "u128 x = x mod 340282366920938463463374607431768211456"

definition muldiv :: "int64 \<Rightarrow> int64 \<Rightarrow> int64 \<Rightarrow> int64 res" where
  "muldiv a b d = check (u128 d \<noteq> 0) ''divide by zero'' (Inr (i64 (u128 (u128 a * u128 b) div u128 d)))"

end
