(* ===== verification/RexPool.thy ===== *)
theory RexPool
  imports SysState
begin

text \<open>
  The parts of rex.cpp that do not touch votes: the REX pool and its prices, REX funds, loans'
  effect on the pool, filling of sell orders, REX balances with their maturity and savings
  buckets, and resource limits.
\<close>

section \<open>Prices\<close>

definition get_bancor_output :: "int64 \<Rightarrow> int64 \<Rightarrow> int64 \<Rightarrow> int64 res" where
  "get_bancor_output conin conout inp =
     (let F0 = to_double conin; T0 = to_double conout; I = to_double inp in
     bindr (to_int64 (ddiv (dmul I T0) (dadd I F0))) (\<lambda>out.
     Inr (if out < 0 then 0 else out)))"

section \<open>Resource limits\<close>

definition set_limits :: "name \<Rightarrow> limits \<Rightarrow> sys_state \<Rightarrow> sys_state" where
  "set_limits n l s = s\<lparr>res_limits := (res_limits s)(n := l)\<rparr>"

definition managed :: "32 word \<Rightarrow> name \<Rightarrow> sys_state \<Rightarrow> bool" where
  "managed field n s = (case fmlookup (voters s) n of None \<Rightarrow> False | Some v \<Rightarrow> has_field (flags1 v) field)"

text \<open>
  Setting the limits of an account from its totals: a managed resource keeps its limit, and
  nothing is set when both bandwidths are managed. \<open>ram\<close> gives the new RAM limit from the old.
\<close>

definition refresh_limits :: "name \<Rightarrow> (int64 \<Rightarrow> int64) \<Rightarrow> user_resources \<Rightarrow> sys_state \<Rightarrow> sys_state" where
  "refresh_limits n ram tot s =
     (let net_m = managed net_managed n s; cpu_m = managed cpu_managed n s in
     if net_m \<and> cpu_m then s else
       case res_limits s n of (ram_limit, net, cpu) \<Rightarrow>
         set_limits n (ram ram_limit, if net_m then net else amount (net_weight tot),
           if cpu_m then cpu else amount (cpu_weight tot)) s)"

definition store_totals :: "name \<Rightarrow> user_resources \<Rightarrow> sys_state \<Rightarrow> sys_state" where
  "store_totals n tot s =
     s\<lparr>userres := if res_empty tot then fmdrop n (userres s) else fmupd n tot (userres s)\<rparr>"

definition update_resource_limits ::
  "sys_chain \<Rightarrow> name \<Rightarrow> int64 \<Rightarrow> int64 \<Rightarrow> sys_state \<Rightarrow> sys_state res" where
  "update_resource_limits c receiver delta_net delta_cpu s =
     (if delta_cpu = 0 \<and> delta_net = 0 then Inr s else
     bindr (case fmlookup (userres s) receiver of
         None \<Rightarrow>
           check (0 \<le> delta_net \<and> 0 \<le> delta_cpu) ''logic error, should not occur'' (
           core_asset c s delta_net (\<lambda>n.
           core_asset c s delta_cpu (\<lambda>p.
           Inr \<lparr>net_weight = n, cpu_weight = p, ram_bytes = 0\<rparr>)))
       | Some tot \<Rightarrow>
           Inr (tot\<lparr>net_weight := (net_weight tot)\<lparr>amount := i64 (amount (net_weight tot) + delta_net)\<rparr>,
                    cpu_weight := (cpu_weight tot)\<lparr>amount := i64 (amount (cpu_weight tot) + delta_cpu)\<rparr>\<rparr>)) (\<lambda>tot.
     check (0 \<le> amount (net_weight tot)) ''insufficient staked total net bandwidth'' (
     check (0 \<le> amount (cpu_weight tot)) ''insufficient staked total cpu bandwidth'' (
     Inr (store_totals receiver tot (refresh_limits receiver (\<lambda>ram. ram) tot s))))))"

section \<open>REX funds\<close>

definition transfer_from_fund :: "sys_chain \<Rightarrow> name \<Rightarrow> asset \<Rightarrow> sys_state \<Rightarrow> sys_state res" where
  "transfer_from_fund c owner amt s =
     with_core s (\<lambda>sy.
     check (0 < amount amt \<and> symb amt = sy) ''must transfer positive amount from REX fund'' (
     the_row (fmlookup (rexfunds s) owner) ''must deposit to REX fund first'' (\<lambda>fund.
     bindr (asset_le c amt fund) (\<lambda>enough.
     check enough ''insufficient funds'' (
     Inr (s\<lparr>rexfunds := fmupd owner (fund\<lparr>amount := i64 (amount fund - amount amt)\<rparr>) (rexfunds s)\<rparr>))))))"

definition transfer_to_fund :: "sys_chain \<Rightarrow> name \<Rightarrow> asset \<Rightarrow> sys_state \<Rightarrow> sys_state res" where
  "transfer_to_fund c owner amt s =
     with_core s (\<lambda>sy.
     check (0 < amount amt \<and> symb amt = sy) ''must transfer positive amount to REX fund'' (
     Inr (s\<lparr>rexfunds := fmupd owner (case fmlookup (rexfunds s) owner of
         None \<Rightarrow> amt
       | Some fund \<Rightarrow> fund\<lparr>amount := i64 (amount fund + amount amt)\<rparr>) (rexfunds s)\<rparr>)))"

section \<open>The pool\<close>

definition rex_system_initialized :: "sys_state \<Rightarrow> bool" where
  "rex_system_initialized s \<longleftrightarrow> rexpool s \<noteq> None"

definition rex_available :: "sys_state \<Rightarrow> bool" where
  "rex_available s \<longleftrightarrow> (case rexpool s of None \<Rightarrow> False | Some p \<Rightarrow> 0 < amount (total_rex p))"

definition by_time :: "name \<Rightarrow> rex_order \<Rightarrow> uint64" where
  "by_time k r = (if is_open r then u64 (order_time r) else 18446744073709551615)"

definition rex_loans_available :: "sys_state \<Rightarrow> bool" where
  "rex_loans_available s \<longleftrightarrow> rex_available s \<and>
     (case first_by by_time (rexorders s) of None \<Rightarrow> True | Some (_, order) \<Rightarrow> \<not> is_open order)"

definition with_pool :: "sys_state \<Rightarrow> (rex_pool \<Rightarrow> 'a res) \<Rightarrow> 'a res" where
  "with_pool s k = the_row (rexpool s) ''cannot pass end iterator to modify'' k"

definition add_loan_to_rex_pool :: "asset \<Rightarrow> int64 \<Rightarrow> bool \<Rightarrow> rex_pool \<Rightarrow> rex_pool" where
  "add_loan_to_rex_pool pay rented_tokens new_loan rt =
     (let rent = i64 (amount (total_rent rt) + amount pay);
          unlent1 = i64 (amount (total_unlent rt) - rented_tokens);
          lent = i64 (amount (total_lent rt) + rented_tokens);
          unlent = i64 (unlent1 + amount pay) in
     rt\<lparr>total_rent := (total_rent rt)\<lparr>amount := rent\<rparr>,
        total_unlent := (total_unlent rt)\<lparr>amount := unlent\<rparr>,
        total_lent := (total_lent rt)\<lparr>amount := lent\<rparr>,
        total_lendable := (total_lendable rt)\<lparr>amount := i64 (unlent + lent)\<rparr>,
        next_loan_num := if new_loan then u64 (next_loan_num rt + 1) else next_loan_num rt\<rparr>)"

definition remove_loan_from_rex_pool :: "rex_loan \<Rightarrow> rex_pool \<Rightarrow> rex_pool res" where
  "remove_loan_from_rex_pool loan rt =
     bindr (get_bancor_output (amount (total_unlent rt)) (amount (total_rent rt)) (amount (total_staked loan)))
       (\<lambda>delta_total_rent.
     let unlent = i64 (amount (total_unlent rt) + amount (total_staked loan));
         lent = i64 (amount (total_lent rt) - amount (total_staked loan)) in
     Inr (rt\<lparr>total_rent := (total_rent rt)\<lparr>amount := i64 (amount (total_rent rt) - delta_total_rent)\<rparr>,
        total_unlent := (total_unlent rt)\<lparr>amount := unlent\<rparr>,
        total_lent := (total_lent rt)\<lparr>amount := lent\<rparr>,
        total_lendable := (total_lendable rt)\<lparr>amount := i64 (unlent + lent)\<rparr>\<rparr>))"

definition thirty_days :: int64 where "thirty_days = 2592000000000"

definition update_renewed_loan :: "rex_loan \<Rightarrow> int64 \<Rightarrow> int64 \<times> rex_loan" where
  "update_renewed_loan loan rented_tokens =
     (i64 (rented_tokens - amount (total_staked loan)),
      loan\<lparr>total_staked := (total_staked loan)\<lparr>amount := rented_tokens\<rparr>,
        expiration := i64 (expiration loan + thirty_days),
        loan_balance := (loan_balance loan)\<lparr>amount := i64 (amount (loan_balance loan) - amount (loan_payment loan))\<rparr>\<rparr>)"

definition channel_to_rex :: "sys_chain \<Rightarrow> name \<Rightarrow> asset \<Rightarrow> sys_state \<Rightarrow> sys_state" where
  "channel_to_rex c from amt s =
     (case rexpool s of
        Some rp \<Rightarrow>
          if 0 < amount (total_rex rp) then
            s\<lparr>rexpool := Some (rp\<lparr>total_unlent := (total_unlent rp)\<lparr>amount := i64 (amount (total_unlent rp) + amount amt)\<rparr>,
                total_lendable := (total_lendable rp)\<lparr>amount := i64 (amount (total_lendable rp) + amount amt)\<rparr>\<rparr>),
              outbox := outbox s @ [ToToken [Perm from active_permission]
                (Transfer from rex_account amt (''transfer from '' @ name_to_string c from @ '' to eosio.rex''))]\<rparr>
          else s
      | None \<Rightarrow> s)"

definition channel_namebid_to_rex :: "int64 \<Rightarrow> sys_state \<Rightarrow> sys_state" where
  "channel_namebid_to_rex highest_bid s =
     (case rexpool s of
        Some rp \<Rightarrow>
          if 0 < amount (total_rex rp) then
            s\<lparr>rexpool := Some (rp\<lparr>namebid_proceeds :=
              (namebid_proceeds rp)\<lparr>amount := i64 (amount (namebid_proceeds rp) + highest_bid)\<rparr>\<rparr>)\<rparr>
          else s
      | None \<Rightarrow> s)"

text \<open>Buying: what the payment adds to the pool, and the REX it buys.\<close>

definition rex_ratio :: int64 where "rex_ratio = 10000"

definition add_to_rex_pool :: "sys_chain \<Rightarrow> asset \<Rightarrow> sys_state \<Rightarrow> (asset \<times> sys_state) res" where
  "add_to_rex_pool c pay s =
     core_asset c s 200000000 (\<lambda>init_total_rent.
     bindr (asset_new c 0 rex_symbol) (\<lambda>rex_received.
     case rexpool s of
       None \<Rightarrow>
         core_asset c s 0 (\<lambda>zero.
         bindr (asset_sub c pay zero) (\<lambda>unlent.
         let received = rex_received\<lparr>amount := i64 (amount pay * rex_ratio)\<rparr> in
         Inr (received, s\<lparr>rexpool := Some \<lparr>total_lent = zero, total_unlent = unlent,
           total_rent = init_total_rent, total_lendable = pay, total_rex = received,
           namebid_proceeds = zero, next_loan_num = 0\<rparr>\<rparr>)))
     | Some rp \<Rightarrow>
         if \<not> 0 < amount (total_rex rp) then
           let received = rex_received\<lparr>amount := i64 (amount pay * rex_ratio)\<rparr> in
           Inr (received, s\<lparr>rexpool := Some (rp\<lparr>
             total_lendable := (total_lendable rp)\<lparr>amount := amount pay\<rparr>,
             total_lent := (total_lent rp)\<lparr>amount := 0\<rparr>,
             total_unlent := (total_unlent rp)\<lparr>amount := i64 (amount pay - 0)\<rparr>,
             total_rent := (total_rent rp)\<lparr>amount := amount init_total_rent\<rparr>,
             total_rex := (total_rex rp)\<lparr>amount := amount received\<rparr>\<rparr>)\<rparr>)
         else
           check (0 < amount (total_lendable rp)) ''lendable REX pool is empty'' (
           let S0 = amount (total_lendable rp); S1 = i64 (S0 + amount pay); R0 = amount (total_rex rp) in
           bindr (muldiv S1 R0 S0) (\<lambda>R1.
           let unlent = i64 (S1 - amount (total_lent rp)) in
           check (0 \<le> unlent) ''programmer error, this should never go negative'' (
           Inr (rex_received\<lparr>amount := i64 (R1 - R0)\<rparr>, s\<lparr>rexpool := Some (rp\<lparr>
             total_lendable := (total_lendable rp)\<lparr>amount := S1\<rparr>,
             total_rex := (total_rex rp)\<lparr>amount := R1\<rparr>,
             total_unlent := (total_unlent rp)\<lparr>amount := unlent\<rparr>\<rparr>)\<rparr>))))))"

section \<open>Maturity and savings buckets of a REX balance\<close>

definition end_of_days :: time_point_sec where "end_of_days = 4294967295"

definition seconds_per_day :: uint32 where "seconds_per_day = 86400"

definition get_rex_maturity :: "('x) chain_scheme \<Rightarrow> time_point_sec" where
  "get_rex_maturity c = (let now = now_sec c; r = now mod seconds_per_day in
     u32 (now - r + 5 * seconds_per_day))"

fun mature :: "time_point_sec \<Rightarrow> int64 \<Rightarrow> (time_point_sec \<times> int64) list \<Rightarrow> int64 \<times> (time_point_sec \<times> int64) list" where
  "mature now m [] = (m, [])"
| "mature now m ((t, r) # bs) = (if t \<le> now then mature now (i64 (m + r)) bs else (m, (t, r) # bs))"

definition process_rex_maturities :: "('x) chain_scheme \<Rightarrow> rex_balance \<Rightarrow> rex_balance" where
  "process_rex_maturities c rb = (case mature (now_sec c) (matured_rex rb) (rex_maturities rb) of
     (m, bs) \<Rightarrow> rb\<lparr>matured_rex := m, rex_maturities := bs\<rparr>)"

definition add_bucket :: "time_point_sec \<Rightarrow> int64 \<Rightarrow> rex_balance \<Rightarrow> rex_balance" where
  "add_bucket t r rb = (let bs = rex_maturities rb in
     rb\<lparr>rex_maturities :=
       if bs \<noteq> [] \<and> fst (last bs) = t then butlast bs @ [(t, i64 (snd (last bs) + r))]
       else bs @ [(t, r)]\<rparr>)"

definition read_rex_savings :: "rex_balance \<Rightarrow> int64 \<times> rex_balance" where
  "read_rex_savings rb = (let bs = rex_maturities rb in
     if bs \<noteq> [] \<and> fst (last bs) = end_of_days then (snd (last bs), rb\<lparr>rex_maturities := butlast bs\<rparr>)
     else (0, rb))"

definition put_rex_savings :: "int64 \<Rightarrow> rex_balance \<Rightarrow> rex_balance" where
  "put_rex_savings rex rb = (if rex = 0 then rb else add_bucket end_of_days rex rb)"

definition consolidate_rex_balance :: "('x) chain_scheme \<Rightarrow> asset \<Rightarrow> rex_balance \<Rightarrow> rex_balance" where
  "consolidate_rex_balance c rex_in_sell_order rb0 =
     (case read_rex_savings rb0 of (rex_in_savings, rb) \<Rightarrow>
     let total = foldl (\<lambda>t b. i64 (t + snd b)) (i64 (matured_rex rb - amount rex_in_sell_order)) (rex_maturities rb);
         rb1 = rb\<lparr>matured_rex := amount rex_in_sell_order,
           rex_maturities := if 0 < total then [(get_rex_maturity c, total)] else []\<rparr> in
     put_rex_savings rex_in_savings rb1)"

definition add_to_rex_balance ::
  "sys_chain \<Rightarrow> name \<Rightarrow> asset \<Rightarrow> asset \<Rightarrow> sys_state \<Rightarrow> (asset \<times> sys_state) res" where
  "add_to_rex_balance c owner pay rex_received s =
     core_asset c s 0 (\<lambda>zero.
     bindr (case fmlookup (rexbalance s) owner of
         None \<Rightarrow> Inr (zero, zero\<lparr>amount := amount pay\<rparr>,
           \<lparr>vote_stake = pay, rex_bal = rex_received, matured_rex = 0, rex_maturities = []\<rparr>)
       | Some rb \<Rightarrow>
           with_pool s (\<lambda>rp.
           let bal = i64 (amount (rex_bal rb) + amount rex_received) in
           bindr (muldiv bal (amount (total_lendable rp)) (amount (total_rex rp))) (\<lambda>stake.
           Inr (zero\<lparr>amount := amount (vote_stake rb)\<rparr>, zero\<lparr>amount := stake\<rparr>,
             rb\<lparr>rex_bal := (rex_bal rb)\<lparr>amount := bal\<rparr>,
                vote_stake := (vote_stake rb)\<lparr>amount := stake\<rparr>\<rparr>)))) (\<lambda>(init_rex_stake, current_rex_stake, rb).
     case read_rex_savings rb of (rex_in_savings, rb1) \<Rightarrow>
     let rb2 = process_rex_maturities c rb1;
         rb3 = add_bucket (get_rex_maturity c) (amount rex_received) rb2;
         rb4 = put_rex_savings rex_in_savings rb3 in
     bindr (asset_sub c current_rex_stake init_rex_stake) (\<lambda>delta.
     Inr (delta, s\<lparr>rexbalance := fmupd owner rb4 (rexbalance s)\<rparr>))))"

section \<open>Selling\<close>

record rex_order_outcome =
  success :: bool
  out_proceeds :: asset
  out_stake_change :: asset

definition fill_rex_order ::
  "sys_chain \<Rightarrow> name \<Rightarrow> asset \<Rightarrow> sys_state \<Rightarrow> (rex_order_outcome \<times> sys_state) res" where
  "fill_rex_order c owner rex s =
     with_pool s (\<lambda>rp.
     the_row (fmlookup (rexbalance s) owner) ''cannot pass end iterator to modify'' (\<lambda>rb.
     let S0 = amount (total_lendable rp); R0 = amount (total_rex rp) in
     bindr (muldiv (amount rex) S0 R0) (\<lambda>p.
     let R1 = i64 (R0 - amount rex); S1 = i64 (S0 - p) in
     core_asset c s p (\<lambda>proc.
     core_asset c s 0 (\<lambda>change.
     let unlent_lower_bound = i64 (u128 (2 * u128 (amount (total_lent rp))) div 10);
         available_unlent = i64 (amount (total_unlent rp) - unlent_lower_bound) in
     if p \<le> available_unlent then
       bindr (muldiv (amount (rex_bal rb)) S0 R0) (\<lambda>current_stake_value.
       let rp1 = rp\<lparr>total_rex := (total_rex rp)\<lparr>amount := R1\<rparr>,
             total_lendable := (total_lendable rp)\<lparr>amount := S1\<rparr>,
             total_unlent := (total_unlent rp)\<lparr>amount := i64 (S1 - amount (total_lent rp))\<rparr>\<rparr>;
           stake = i64 (current_stake_value - p);
           rb1 = rb\<lparr>vote_stake := (vote_stake rb)\<lparr>amount := stake\<rparr>,
             rex_bal := (rex_bal rb)\<lparr>amount := i64 (amount (rex_bal rb) - amount rex)\<rparr>,
             matured_rex := i64 (matured_rex rb - amount rex)\<rparr> in
       Inr (\<lparr>success = True, out_proceeds = proc,
              out_stake_change = change\<lparr>amount := i64 (stake - amount (vote_stake rb))\<rparr>\<rparr>,
            s\<lparr>rexpool := Some rp1, rexbalance := fmupd owner rb1 (rexbalance s)\<rparr>))
     else
       Inr (\<lparr>success = False, out_proceeds = proc\<lparr>amount := 0\<rparr>, out_stake_change = change\<rparr>, s))))))"

section \<open>Votes of a REX owner\<close>

definition check_voting_requirement :: "name \<Rightarrow> string \<Rightarrow> sys_state \<Rightarrow> 'a res \<Rightarrow> 'a res" where
  "check_voting_requirement owner msg s k =
     check (case fmlookup (voters s) owner of None \<Rightarrow> False
       | Some v \<Rightarrow> v_proxy v \<noteq> 0 \<or> 21 \<le> length (v_producers v)) msg k"

definition update_rex_stake :: "sys_chain \<Rightarrow> name \<Rightarrow> sys_state \<Rightarrow> sys_state res" where
  "update_rex_stake c voter s =
     bindr (case (fmlookup (rexbalance s) voter, rexpool s) of
         (Some rb, Some rp) \<Rightarrow>
           if 0 < amount (total_rex rp) then
             core_asset c s 0 (\<lambda>current.
             bindr (muldiv (amount (rex_bal rb)) (amount (total_lendable rp)) (amount (total_rex rp))) (\<lambda>stake.
             Inr (i64 (stake - amount (vote_stake rb)),
               s\<lparr>rexbalance := fmupd voter (rb\<lparr>vote_stake := (vote_stake rb)\<lparr>amount := stake\<rparr>\<rparr>) (rexbalance s)\<rparr>)))
           else Inr (0, s)
       | _ \<Rightarrow> Inr (0, s)) (\<lambda>(delta_stake, s1).
     Inr (if delta_stake \<noteq> 0 then
         (case fmlookup (voters s1) voter of
            None \<Rightarrow> s1
          | Some v \<Rightarrow> s1\<lparr>voters := fmupd voter (v\<lparr>staked := i64 (staked v + delta_stake)\<rparr>) (voters s1)\<rparr>)
       else s1))"

end
