(* ===== verification/Voting.thy ===== *)
theory Voting
  imports RexPool
begin

text \<open>
  voting.cpp: producers and their vote totals, vote-pay shares, proxies, and the recursive
  propagation of a changed vote weight along a chain of proxies. The recursion gets as fuel one
  more than the number of voters; \<open>Proxies\<close> shows that this is always enough.
\<close>

definition min_activated_stake :: int64 where "min_activated_stake = 1500000000000"
definition useconds_per_day :: int64 where "useconds_per_day = 86400000000"
definition seconds_per_year :: uint32 where "seconds_per_year = 31449600"

section \<open>Producers\<close>

definition by_votes :: "name \<Rightarrow> producer_info \<Rightarrow> double" where
  "by_votes k p = (if is_active p then dneg (total_votes p) else total_votes p)"

definition deactivate :: "sys_chain \<Rightarrow> producer_info \<Rightarrow> producer_info" where
  "deactivate c p = p\<lparr>producer_key := default_key c, is_active := False\<rparr>"

text \<open>
  The update of the total vote-pay share: it grows at the recorded rate with the time since the
  last update, then by the delta given, and is kept from dropping below zero.
\<close>

definition elapsed_seconds :: "time_point \<Rightarrow> time_point \<Rightarrow> double" where
  "elapsed_seconds ct t = ddiv (to_double (i64 (ct - t))) (Fin 1000000)"

definition add_clipped :: "double \<Rightarrow> double \<Rightarrow> double" where
  "add_clipped x delta = (if dlt delta (Fin 0) \<and> dlt x (dneg delta) then Fin 0 else dadd x delta)"

definition update_total_votepay_share :: "time_point \<Rightarrow> double \<Rightarrow> double \<Rightarrow> sys_state \<Rightarrow> double \<times> sys_state" where
  "update_total_votepay_share ct additional_shares_delta shares_rate_delta s =
     (let g3 = gstate3 s;
          delta0 = (if last_vpay_state_update g3 < ct
            then dmul (total_vpay_share_change_rate g3) (elapsed_seconds ct (last_vpay_state_update g3))
            else Fin 0);
          delta = dadd delta0 additional_shares_delta;
          sum_shares = add_clipped (total_producer_votepay_share (gstate2 s)) delta;
          rate = add_clipped (total_vpay_share_change_rate g3) shares_rate_delta in
     (sum_shares, s\<lparr>gstate2 := (gstate2 s)\<lparr>total_producer_votepay_share := sum_shares\<rparr>,
        gstate3 := \<lparr>last_vpay_state_update = ct, total_vpay_share_change_rate = rate\<rparr>\<rparr>))"

definition update_producer_votepay_share ::
  "time_point \<Rightarrow> double \<Rightarrow> bool \<Rightarrow> producer_info2 \<Rightarrow> double \<times> producer_info2" where
  "update_producer_votepay_share ct shares_rate reset_to_zero p =
     (let delta = (if dlt (Fin 0) shares_rate \<and> last_votepay_share_update p < ct
            then dmul shares_rate (elapsed_seconds ct (last_votepay_share_update p)) else Fin 0);
          new_share = dadd (votepay_share p) delta in
     (new_share, \<lparr>votepay_share = if reset_to_zero then Fin 0 else new_share, last_votepay_share_update = ct\<rparr>))"

definition regproducer :: "sys_chain \<Rightarrow> name \<Rightarrow> public_key \<Rightarrow> string \<Rightarrow> uint16 \<Rightarrow> sys_state \<Rightarrow> sys_state res" where
  "regproducer c producer key u loc s =
     check (length u < 512) ''url too long'' (
     check (key \<noteq> default_key c) ''public key should not be the default value'' (
     require_auth c producer (
     let ct = now_tp c in
     case fmlookup (producers s) producer of
       Some info \<Rightarrow>
         let info1 = info\<lparr>producer_key := key, is_active := True, url := u, location := loc,
               last_claim_time := if last_claim_time info = 0 then ct else last_claim_time info\<rparr>;
             s1 = s\<lparr>producers := fmupd producer info1 (producers s)\<rparr> in
         Inr (case fmlookup (producers2 s1) producer of
             Some _ \<Rightarrow> s1
           | None \<Rightarrow> snd (update_total_votepay_share ct (Fin 0) (total_votes info1)
               (s1\<lparr>producers2 := fmupd producer
                  \<lparr>votepay_share = Fin 0, last_votepay_share_update = ct\<rparr> (producers2 s1)\<rparr>)))
     | None \<Rightarrow>
         check (fmlookup (producers2 s) producer = None) ''could not insert object'' (
         Inr (s\<lparr>producers := fmupd producer
             \<lparr>total_votes = Fin 0, producer_key = key, is_active = True, url = u, unpaid_blocks = 0,
              last_claim_time = ct, location = loc\<rparr> (producers s),
           producers2 := fmupd producer
             \<lparr>votepay_share = Fin 0, last_votepay_share_update = ct\<rparr> (producers2 s)\<rparr>)))))"

definition unregprod :: "sys_chain \<Rightarrow> name \<Rightarrow> sys_state \<Rightarrow> sys_state res" where
  "unregprod c producer s =
     require_auth c producer (
     the_row (fmlookup (producers s) producer) ''producer not found'' (\<lambda>p.
     Inr (s\<lparr>producers := fmupd producer (deactivate c p) (producers s)\<rparr>)))"

text \<open>
  The schedule: the first rows of the vote index, at most 21, up to the first that is not active
  or has no votes, sorted by name (the names are distinct, so key and location never decide).
\<close>

definition top_producers :: "sys_state \<Rightarrow> (name \<times> producer_info) list" where
  "top_producers s = takeWhile (\<lambda>(_, p). dlt (Fin 0) (total_votes p) \<and> is_active p)
     (take 21 (index_by by_votes (producers s)))"

definition update_elected_producers :: "sys_chain \<Rightarrow> slot \<Rightarrow> sys_state \<Rightarrow> sys_state" where
  "update_elected_producers c block_time s =
     (let s1 = s\<lparr>gstate := (gstate s)\<lparr>last_producer_schedule_update := block_time\<rparr>\<rparr>;
          top = top_producers s1 in
     if int (length top) < last_producer_schedule_size (gstate s1) then s1
     else
       let schedule = map (\<lambda>(n, p). (n, producer_key p)) (sort_key fst top);
           s2 = s1\<lparr>proposed := proposed s1 @ [schedule]\<rparr> in
       if 0 \<le> set_proposed_producers c schedule
       then s2\<lparr>gstate := (gstate s2)\<lparr>last_producer_schedule_size := u16 (int (length top))\<rparr>\<rparr>
       else s2)"

section \<open>Votes\<close>

definition stake2vote :: "sys_chain \<Rightarrow> int64 \<Rightarrow> double" where
  "stake2vote c stake =
     (let weeks = i64 (now_seconds c - block_timestamp_epoch c sdiv 1000) sdiv (seconds_per_day * 7);
          weight = ddiv (to_double weeks) (Fin 52) in
     dmul (to_double stake) (pow_fn c (Fin 2) weight))"

text \<open>
  The change of one producer's votes, with its vote-pay share: \<open>clip\<close> tells the two loops apart
  (\<open>update_votes\<close> resets a negative total to zero, \<open>propagate_weight_change\<close> does not). The two
  accumulators are \<open>delta_change_rate\<close> and \<open>total_inactive_vpay_share\<close>.
\<close>

definition change_producer_votes ::
  "sys_chain \<Rightarrow> bool \<Rightarrow> name \<Rightarrow> double \<Rightarrow> producer_info \<Rightarrow> double \<times> double \<times> sys_state \<Rightarrow> double \<times> double \<times> sys_state" where
  "change_producer_votes c clip n delta pr acc =
     (case acc of (delta_change_rate, total_inactive, s) \<Rightarrow>
     let ct = now_tp c;
         init_total_votes = total_votes pr;
         votes = dadd init_total_votes delta;
         votes1 = (if clip \<and> dlt votes (Fin 0) then Fin 0 else votes);
         s1 = s\<lparr>producers := fmupd n (pr\<lparr>total_votes := votes1\<rparr>) (producers s),
           gstate := (gstate s)\<lparr>total_producer_vote_weight := dadd (total_producer_vote_weight (gstate s)) delta\<rparr>\<rparr> in
     case fmlookup (producers2 s1) n of
       None \<Rightarrow> (delta_change_rate, total_inactive, s1)
     | Some prod2 \<Rightarrow>
         let last_claim_plus_3days = i64 (last_claim_time pr + 3 * useconds_per_day);
             crossed_threshold = (last_claim_plus_3days \<le> ct);
             updated_after_threshold = (last_claim_plus_3days \<le> last_votepay_share_update prod2) in
         case update_producer_votepay_share ct (if updated_after_threshold then Fin 0 else init_total_votes)
             (crossed_threshold \<and> \<not> updated_after_threshold) prod2 of (new_votepay_share, prod2') \<Rightarrow>
         let s2 = s1\<lparr>producers2 := fmupd n prod2' (producers2 s1)\<rparr> in
         if \<not> crossed_threshold then (dadd delta_change_rate delta, total_inactive, s2)
         else if \<not> updated_after_threshold
           then (dsub delta_change_rate init_total_votes, dadd total_inactive new_votepay_share, s2)
         else (delta_change_rate, total_inactive, s2))"

definition finish_votepay :: "sys_chain \<Rightarrow> double \<times> double \<times> sys_state \<Rightarrow> sys_state" where
  "finish_votepay c acc = (case acc of (delta_change_rate, total_inactive, s) \<Rightarrow>
     snd (update_total_votepay_share (now_tp c) (dneg total_inactive) delta_change_rate s))"

definition propagate_to_producer ::
  "sys_chain \<Rightarrow> double \<Rightarrow> name \<Rightarrow> double \<times> double \<times> sys_state \<Rightarrow> (double \<times> double \<times> sys_state) res" where
  "propagate_to_producer c delta n acc =
     the_row (fmlookup (producers (snd (snd acc))) n) ''producer not found'' (\<lambda>pr.
     Inr (change_producer_votes c False n delta pr acc))"

definition set_voter :: "name \<Rightarrow> voter_info \<Rightarrow> sys_state \<Rightarrow> sys_state" where
  "set_voter n v s = s\<lparr>voters := fmupd n v (voters s)\<rparr>"

definition voter_weight :: "sys_chain \<Rightarrow> voter_info \<Rightarrow> double" where
  "voter_weight c v = (let w = stake2vote c (staked v) in
     if is_proxy v then dadd w (proxied_vote_weight v) else w)"

fun propagate :: "nat \<Rightarrow> sys_chain \<Rightarrow> name \<Rightarrow> sys_state \<Rightarrow> sys_state res" where
  "propagate 0 c n s = Inl ''out of fuel''"
| "propagate (Suc fuel) c n s =
     the_row (fmlookup (voters s) n) ''proxy not found'' (\<lambda>v.
     check (v_proxy v = 0 \<or> \<not> is_proxy v) ''account registered as a proxy is not allowed to use a proxy'' (
     let new_weight = voter_weight c v; change = dsub new_weight (last_vote_weight v) in
     bindr (if dlt (Fin 1) (dabs change) then
         if v_proxy v \<noteq> 0 then
           the_row (fmlookup (voters s) (v_proxy v)) ''proxy not found'' (\<lambda>p.
           propagate fuel c (v_proxy v)
             (set_voter (v_proxy v) (p\<lparr>proxied_vote_weight := dadd (proxied_vote_weight p) change\<rparr>) s))
         else
           bindr (run_all (propagate_to_producer c change) (v_producers v) (Fin 0, Fin 0, s)) (\<lambda>acc.
           Inr (finish_votepay c acc))
       else Inr s) (\<lambda>s1.
     the_row (fmlookup (voters s1) n) ''proxy not found'' (\<lambda>v1.
     Inr (set_voter n (v1\<lparr>last_vote_weight := new_weight\<rparr>) s1)))))"

definition propagate_weight_change :: "sys_chain \<Rightarrow> name \<Rightarrow> sys_state \<Rightarrow> sys_state res" where
  "propagate_weight_change c n s = propagate (Suc (card (fmdom' (voters s)))) c n s"

text \<open>\<open>flat_map<name, pair<double, bool>>\<close> of the vote changes, kept sorted by name.\<close>

definition bump :: "(double \<Rightarrow> double) \<Rightarrow> bool \<Rightarrow> name \<Rightarrow> (name, double \<times> bool) fmap \<Rightarrow> (name, double \<times> bool) fmap" where
  "bump f new p m = (case fmlookup m p of
     None \<Rightarrow> fmupd p (f (Fin 0), new) m | Some (d, _) \<Rightarrow> fmupd p (f d, new) m)"

definition vote_for ::
  "sys_chain \<Rightarrow> bool \<Rightarrow> name \<times> double \<times> bool \<Rightarrow> double \<times> double \<times> sys_state \<Rightarrow> (double \<times> double \<times> sys_state) res" where
  "vote_for c voting pd acc = (case pd of (n, delta, is_new) \<Rightarrow>
     case fmlookup (producers (snd (snd acc))) n of
       Some pr \<Rightarrow>
         check (\<not> voting \<or> is_active pr \<or> \<not> is_new) ''producer is not currently registered'' (
         Inr (change_producer_votes c True n delta pr acc))
     | None \<Rightarrow> check (\<not> is_new) ''producer is not registered'' (Inr acc))"

definition strictly_sorted :: "name list \<Rightarrow> bool" where
  "strictly_sorted ps \<longleftrightarrow> (\<forall>i<length ps - 1. ps ! i < ps ! Suc i)"

definition check_vote_input :: "name \<Rightarrow> name \<Rightarrow> name list \<Rightarrow> 'a res \<Rightarrow> 'a res" where
  "check_vote_input voter_name proxy prods k =
     (if proxy \<noteq> 0 then
        check (prods = []) ''cannot vote for producers and proxy at same time'' (
        check (voter_name \<noteq> proxy) ''cannot proxy to self'' k)
      else
        check (length prods \<le> 30) ''attempt to vote for too many producers'' (
        check (strictly_sorted prods) ''producer votes must be unique and sorted'' k))"

text \<open>The first vote activates the stake.\<close>

definition activate_stake :: "sys_chain \<Rightarrow> voter_info \<Rightarrow> sys_state \<Rightarrow> sys_state" where
  "activate_stake c v s =
     (if dle (last_vote_weight v) (Fin 0) then
        let g = gstate s; stake = i64 (total_activated_stake g + staked v) in
        s\<lparr>gstate := g\<lparr>total_activated_stake := stake,
          thresh_activated_stake_time :=
            if min_activated_stake \<le> stake \<and> thresh_activated_stake_time g = 0 then now_tp c
            else thresh_activated_stake_time g\<rparr>\<rparr>
      else s)"

text \<open>Taking back the votes cast before: from the old proxy, or as negative changes.\<close>

definition undo_votes ::
  "sys_chain \<Rightarrow> voter_info \<Rightarrow> sys_state \<Rightarrow> ((name, double \<times> bool) fmap \<times> sys_state) res" where
  "undo_votes c v s =
     (if dlt (Fin 0) (last_vote_weight v) then
        if v_proxy v \<noteq> 0 then
          the_row (fmlookup (voters s) (v_proxy v)) ''old proxy not found'' (\<lambda>p.
          bindr (propagate_weight_change c (v_proxy v)
            (set_voter (v_proxy v) (p\<lparr>proxied_vote_weight := dsub (proxied_vote_weight p) (last_vote_weight v)\<rparr>) s)) (\<lambda>s1.
          Inr (fmempty, s1)))
        else Inr (fold (bump (\<lambda>d. dsub d (last_vote_weight v)) False) (v_producers v) fmempty, s)
      else Inr (fmempty, s))"

definition cast_votes ::
  "sys_chain \<Rightarrow> bool \<Rightarrow> name \<Rightarrow> name list \<Rightarrow> double \<Rightarrow> (name, double \<times> bool) fmap \<times> sys_state
   \<Rightarrow> ((name, double \<times> bool) fmap \<times> sys_state) res" where
  "cast_votes c voting proxy prods new_vote_weight ds = (case ds of (deltas, s) \<Rightarrow>
     if proxy \<noteq> 0 then
       the_row (fmlookup (voters s) proxy) ''invalid proxy specified'' (\<lambda>p.
       check (\<not> voting \<or> is_proxy p) ''proxy not found'' (
       if dle (Fin 0) new_vote_weight then
         bindr (propagate_weight_change c proxy
           (set_voter proxy (p\<lparr>proxied_vote_weight := dadd (proxied_vote_weight p) new_vote_weight\<rparr>) s)) (\<lambda>s1.
         Inr (deltas, s1))
       else Inr (deltas, s)))
     else
       Inr (if dle (Fin 0) new_vote_weight
         then fold (bump (\<lambda>d. dadd d new_vote_weight) True) prods deltas else deltas, s))"

definition update_votes :: "sys_chain \<Rightarrow> name \<Rightarrow> name \<Rightarrow> name list \<Rightarrow> bool \<Rightarrow> sys_state \<Rightarrow> sys_state res" where
  "update_votes c voter_name proxy prods voting s =
     check_vote_input voter_name proxy prods (
     the_row (fmlookup (voters s) voter_name) ''user must stake before they can vote'' (\<lambda>v.
     check (proxy = 0 \<or> \<not> is_proxy v) ''account registered as a proxy is not allowed to use a proxy'' (
     let s1 = activate_stake c v s; new_vote_weight = voter_weight c v in
     bindr (undo_votes c v s1) (\<lambda>ds.
     bindr (cast_votes c voting proxy prods new_vote_weight ds) (\<lambda>(deltas, s2).
     bindr (run_all (vote_for c voting) (sorted_list_of_fmap deltas) (Fin 0, Fin 0, s2)) (\<lambda>acc.
     let s3 = finish_votepay c acc in
     the_row (fmlookup (voters s3) voter_name) ''cannot pass end iterator to modify'' (\<lambda>v3.
     Inr (set_voter voter_name
       (v3\<lparr>last_vote_weight := new_vote_weight, v_producers := prods, v_proxy := proxy\<rparr>) s3))))))))"

definition voteproducer :: "sys_chain \<Rightarrow> name \<Rightarrow> name \<Rightarrow> name list \<Rightarrow> sys_state \<Rightarrow> sys_state res" where
  "voteproducer c voter_name proxy prods s =
     require_auth c voter_name (
     bindr (update_rex_stake c voter_name s) (\<lambda>s1.
     bindr (update_votes c voter_name proxy prods True s1) (\<lambda>s2.
     case fmlookup (rexbalance s2) voter_name of
       Some rb \<Rightarrow>
         if 0 < amount (rex_bal rb) then
           check_voting_requirement voter_name
             ''voter holding REX tokens must vote for at least 21 producers or for a proxy'' s2 (Inr s2)
         else Inr s2
     | None \<Rightarrow> Inr s2)))"

definition regproxy :: "sys_chain \<Rightarrow> name \<Rightarrow> bool \<Rightarrow> sys_state \<Rightarrow> sys_state res" where
  "regproxy c proxy isproxy s =
     require_auth c proxy (
     case fmlookup (voters s) proxy of
       Some v \<Rightarrow>
         check (isproxy \<noteq> is_proxy v) ''action has no effect'' (
         check (\<not> isproxy \<or> v_proxy v = 0) ''account that uses a proxy is not allowed to become a proxy'' (
         propagate_weight_change c proxy (set_voter proxy (v\<lparr>is_proxy := isproxy\<rparr>) s)))
     | None \<Rightarrow> Inr (set_voter proxy (default_voter\<lparr>is_proxy := isproxy\<rparr>) s))"

end
