(* ===== verification/Stake.thy ===== *)
theory Stake
  imports Voting
begin

text \<open>
  The staking part of delegate_bandwidth.cpp: the voting power of an account, delegating and
  undelegating bandwidth (\<open>changebw\<close>), and refunds after the staking delay.
\<close>

definition refund_delay_sec :: uint32 where "refund_delay_sec = 259200"
definition ram_gift_bytes :: int64 where "ram_gift_bytes = 1400"

definition validate_b1_vesting :: "sys_chain \<Rightarrow> int64 \<Rightarrow> 'a res \<Rightarrow> 'a res" where
  "validate_b1_vesting c stake k =
     (let base_time = 1527811200; max_claimable = 1000000000000 in
     bindr (to_int64 (ddiv (dmul (to_double max_claimable) (to_double (i64 (now_seconds c - base_time))))
         (to_double (u32 (10 * seconds_per_year))))) (\<lambda>claimable.
     check (i64 (max_claimable - claimable) \<le> stake) ''b1 can only claim their tokens over 10 years'' k))"

definition update_voting_power :: "sys_chain \<Rightarrow> name \<Rightarrow> asset \<Rightarrow> sys_state \<Rightarrow> sys_state res" where
  "update_voting_power c voter total_update s =
     (let v = (case fmlookup (voters s) voter of
            None \<Rightarrow> default_voter\<lparr>staked := amount total_update\<rparr>
          | Some v \<Rightarrow> v\<lparr>staked := i64 (staked v + amount total_update)\<rparr>);
          s1 = set_voter voter v s;
          votes = (if v_producers v \<noteq> [] \<or> v_proxy v \<noteq> 0
            then update_votes c voter (v_proxy v) (v_producers v) False s1 else Inr s1) in
     check (0 \<le> staked v) ''stake for voting cannot be negative'' (
     if voter = b1_account then validate_b1_vesting c (staked v) votes else votes))"

section \<open>The tables of \<open>changebw\<close>\<close>

definition update_delband ::
  "sys_chain \<Rightarrow> name \<Rightarrow> name \<Rightarrow> asset \<Rightarrow> asset \<Rightarrow> sys_state \<Rightarrow> sys_state res" where
  "update_delband c from receiver net_delta cpu_delta s =
     bindr (case fmlookup (delband s) (from, receiver) of
         None \<Rightarrow> Inr \<lparr>dbw_net = net_delta, dbw_cpu = cpu_delta\<rparr>
       | Some d \<Rightarrow>
           bindr (asset_add c (dbw_net d) net_delta) (\<lambda>n.
           bindr (asset_add c (dbw_cpu d) cpu_delta) (\<lambda>p.
           Inr \<lparr>dbw_net = n, dbw_cpu = p\<rparr>))) (\<lambda>d.
     check (0 \<le> amount (dbw_net d)) ''insufficient staked net bandwidth'' (
     check (0 \<le> amount (dbw_cpu d)) ''insufficient staked cpu bandwidth'' (
     Inr (s\<lparr>delband := if dbw_empty d then fmdrop (from, receiver) (delband s)
       else fmupd (from, receiver) d (delband s)\<rparr>))))"

definition update_totals :: "sys_chain \<Rightarrow> name \<Rightarrow> asset \<Rightarrow> asset \<Rightarrow> sys_state \<Rightarrow> sys_state res" where
  "update_totals c receiver net_delta cpu_delta s =
     bindr (case fmlookup (userres s) receiver of
         None \<Rightarrow> Inr \<lparr>net_weight = net_delta, cpu_weight = cpu_delta, ram_bytes = 0\<rparr>
       | Some tot \<Rightarrow>
           bindr (asset_add c (net_weight tot) net_delta) (\<lambda>n.
           bindr (asset_add c (cpu_weight tot) cpu_delta) (\<lambda>p.
           Inr (tot\<lparr>net_weight := n, cpu_weight := p\<rparr>)))) (\<lambda>tot.
     check (0 \<le> amount (net_weight tot)) ''insufficient staked total net bandwidth'' (
     check (0 \<le> amount (cpu_weight tot)) ''insufficient staked total cpu bandwidth'' (
     Inr (store_totals receiver tot (refresh_limits receiver
       (\<lambda>ram. if managed ram_managed receiver s then ram else max (i64 (ram_bytes tot + ram_gift_bytes)) ram)
       tot s)))))"

text \<open>
  \<open>r.net_amount -= net_balance\<close> with its clipping at zero: the first result is the balance left
  to pay from the sender's tokens, the second the refund left.
\<close>

definition pay_from_refund :: "sys_chain \<Rightarrow> asset \<Rightarrow> asset \<Rightarrow> (asset \<times> asset) res" where
  "pay_from_refund c refund_amount owed =
     bindr (asset_sub c refund_amount owed) (\<lambda>r.
     Inr (if amount r < 0 then (asset_neg c r, r\<lparr>amount := 0\<rparr>) else (owed\<lparr>amount := 0\<rparr>, r)))"

definition update_refund ::
  "sys_chain \<Rightarrow> name \<Rightarrow> asset \<Rightarrow> asset \<Rightarrow> sys_state \<Rightarrow> (asset \<times> asset \<times> bool \<times> sys_state) res" where
  "update_refund c from net_balance cpu_balance s =
     (case fmlookup (refunds s) from of
       Some req \<Rightarrow>
         let t = (if amount net_balance < 0 \<or> amount cpu_balance < 0 then now_sec c else request_time req) in
         bindr (pay_from_refund c (net_amount req) net_balance) (\<lambda>(net_left, net).
         bindr (pay_from_refund c (cpu_amount req) cpu_balance) (\<lambda>(cpu_left, cpu).
         check (0 \<le> amount net) ''negative net refund amount'' (
         check (0 \<le> amount cpu) ''negative cpu refund amount'' (
         let r = \<lparr>request_time = t, net_amount = net, cpu_amount = cpu\<rparr> in
         Inr (if refund_empty r
           then (net_left, cpu_left, False, s\<lparr>refunds := fmdrop from (refunds s)\<rparr>)
           else (net_left, cpu_left, True, s\<lparr>refunds := fmupd from r (refunds s)\<rparr>))))))
     | None \<Rightarrow>
         if amount net_balance < 0 \<or> amount cpu_balance < 0 then
           core_asset c s 0 (\<lambda>zero.
           let net = (if amount net_balance < 0 then asset_neg c net_balance else zero);
               cpu = (if amount cpu_balance < 0 then asset_neg c cpu_balance else zero) in
           Inr (if amount net_balance < 0 then net_balance\<lparr>amount := 0\<rparr> else net_balance,
                if amount cpu_balance < 0 then cpu_balance\<lparr>amount := 0\<rparr> else cpu_balance,
                True, s\<lparr>refunds := fmupd from \<lparr>request_time = now_sec c, net_amount = net, cpu_amount = cpu\<rparr> (refunds s)\<rparr>))
         else Inr (net_balance, cpu_balance, False, s))"

definition stake_or_refund ::
  "sys_chain \<Rightarrow> name \<Rightarrow> name \<Rightarrow> name \<Rightarrow> bool \<Rightarrow> asset \<Rightarrow> asset \<Rightarrow> sys_state \<Rightarrow> sys_state res" where
  "stake_or_refund c source_stake_from from receiver transf net_delta cpu_delta s =
     (let is_undelegating = (i64 (amount net_delta + amount cpu_delta) < 0);
          is_delegating_to_self = (\<not> transf \<and> from = receiver) in
     bindr (if is_delegating_to_self \<or> is_undelegating
       then update_refund c from net_delta cpu_delta s
       else Inr (net_delta, cpu_delta, False, s)) (\<lambda>(net_balance, cpu_balance, need_deferred_trx, s1).
     let s2 = s1\<lparr>pending := if need_deferred_trx
         then fmupd (uint from) (DeferredRefund from refund_delay_sec) (pending s1)
         else fmdrop (uint from) (pending s1)\<rparr> in
     bindr (asset_add c net_balance cpu_balance) (\<lambda>transfer_amount.
     Inr (if 0 < amount transfer_amount then
         s2\<lparr>outbox := outbox s2 @ [ToToken [Perm source_stake_from active_permission]
           (Transfer source_stake_from stake_account transfer_amount ''stake bandwidth'')]\<rparr>
       else s2))))"

definition changebw ::
  "sys_chain \<Rightarrow> name \<Rightarrow> name \<Rightarrow> asset \<Rightarrow> asset \<Rightarrow> bool \<Rightarrow> sys_state \<Rightarrow> sys_state res" where
  "changebw c source_stake_from receiver net_delta cpu_delta transf s =
     require_auth c source_stake_from (
     check (amount net_delta \<noteq> 0 \<or> amount cpu_delta \<noteq> 0) ''should stake non-zero amount'' (
     bindr (asset_add c net_delta cpu_delta) (\<lambda>sum.
     check (max (i64 \<bar>amount net_delta\<bar>) (i64 \<bar>amount cpu_delta\<bar>) \<le> i64 \<bar>amount sum\<bar>)
       ''net and cpu deltas cannot be opposite signs'' (
     let from = (if transf then receiver else source_stake_from) in
     bindr (update_delband c from receiver net_delta cpu_delta s) (\<lambda>s1.
     bindr (update_totals c receiver net_delta cpu_delta s1) (\<lambda>s2.
     bindr (if stake_account \<noteq> source_stake_from
       then stake_or_refund c source_stake_from from receiver transf net_delta cpu_delta s2
       else Inr s2) (\<lambda>s3.
     bindr (update_rex_stake c from s3) (\<lambda>s4.
     bindr (asset_add c net_delta cpu_delta) (\<lambda>total_update.
     update_voting_power c from total_update s4)))))))))"

section \<open>Actions\<close>

definition delegatebw ::
  "sys_chain \<Rightarrow> name \<Rightarrow> name \<Rightarrow> asset \<Rightarrow> asset \<Rightarrow> bool \<Rightarrow> sys_state \<Rightarrow> sys_state res" where
  "delegatebw c from receiver net cpu transf s =
     core_asset c s 0 (\<lambda>zero_asset.
     bindr (asset_le c zero_asset cpu) (\<lambda>ok1.
     check ok1 ''must stake a positive amount'' (
     bindr (asset_le c zero_asset net) (\<lambda>ok2.
     check ok2 ''must stake a positive amount'' (
     check (0 < i64 (amount net + amount cpu)) ''must stake a positive amount'' (
     check (\<not> transf \<or> from \<noteq> receiver) ''cannot use transfer flag if delegating to self'' (
     changebw c from receiver net cpu transf s)))))))"

definition undelegatebw :: "sys_chain \<Rightarrow> name \<Rightarrow> name \<Rightarrow> asset \<Rightarrow> asset \<Rightarrow> sys_state \<Rightarrow> sys_state res" where
  "undelegatebw c from receiver net cpu s =
     core_asset c s 0 (\<lambda>zero_asset.
     bindr (asset_le c zero_asset cpu) (\<lambda>ok1.
     check ok1 ''must unstake a positive amount'' (
     bindr (asset_le c zero_asset net) (\<lambda>ok2.
     check ok2 ''must unstake a positive amount'' (
     check (0 < i64 (amount cpu + amount net)) ''must unstake a positive amount'' (
     check (min_activated_stake \<le> total_activated_stake (gstate s))
       ''cannot undelegate bandwidth until the chain is activated (at least 15% of all tokens participate in voting)'' (
     changebw c from receiver (asset_neg c net) (asset_neg c cpu) False s)))))))"

definition refund :: "sys_chain \<Rightarrow> name \<Rightarrow> sys_state \<Rightarrow> sys_state res" where
  "refund c owner s =
     require_auth c owner (
     the_row (fmlookup (refunds s) owner) ''refund request not found'' (\<lambda>req.
     check (i64 (request_time req * 1000000 + refund_delay_sec * 1000000) \<le> now_tp c)
       ''refund is not available yet'' (
     bindr (asset_add c (net_amount req) (cpu_amount req)) (\<lambda>q.
     Inr (s\<lparr>outbox := outbox s @ [ToToken [Perm stake_account active_permission, Perm owner active_permission]
           (Transfer stake_account owner q ''unstake'')],
         refunds := fmdrop owner (refunds s)\<rparr>)))))"

end
