(* ===== verification/Rex.thy ===== *)
theory Rex
  imports Stake
begin

text \<open>
  The actions of rex.cpp and the two procedures they share: \<open>update_rex_account\<close>, which completes
  a filled sell order, and \<open>runrex\<close>, the maintenance of expired loans and queued sell orders.
\<close>

section \<open>A REX owner's account\<close>

text \<open>A filled order of the owner adds its results to the amounts, and is removed.\<close>

definition settle_order ::
  "asset \<Rightarrow> name \<Rightarrow> asset \<Rightarrow> asset \<Rightarrow> sys_state \<Rightarrow> asset \<times> asset \<times> asset \<times> sys_state" where
  "settle_order zero_rex owner proc delta_stake s =
     (case fmlookup (rexorders s) owner of
        None \<Rightarrow> (proc, delta_stake, zero_rex, s)
      | Some ord \<Rightarrow>
          if is_open ord then (proc, delta_stake, zero_rex\<lparr>amount := amount (rex_requested ord)\<rparr>, s)
          else (proc\<lparr>amount := i64 (amount proc + amount (proceeds ord))\<rparr>,
            delta_stake\<lparr>amount := i64 (amount delta_stake + amount (stake_change ord))\<rparr>, zero_rex,
            s\<lparr>rexorders := fmdrop owner (rexorders s)\<rparr>))"

definition update_rex_account ::
  "sys_chain \<Rightarrow> name \<Rightarrow> asset \<Rightarrow> asset \<Rightarrow> bool \<Rightarrow> sys_state \<Rightarrow> (asset \<times> sys_state) res" where
  "update_rex_account c owner proc delta_stake force_vote_update s =
     bindr (asset_new c 0 rex_symbol) (\<lambda>zero_rex.
     case settle_order zero_rex owner proc delta_stake s of (to_fund, to_stake, rex_in_sell_order, s1) \<Rightarrow>
     bindr (if 0 < amount to_fund then transfer_to_fund c owner to_fund s1 else Inr s1) (\<lambda>s2.
     bindr (if force_vote_update \<or> amount to_stake \<noteq> 0 then update_voting_power c owner to_stake s2
       else Inr s2) (\<lambda>s3.
     Inr (rex_in_sell_order, s3))))"

section \<open>Maintenance\<close>

datatype loan_kind = CpuLoan | NetLoan

fun loans_of :: "loan_kind \<Rightarrow> sys_state \<Rightarrow> (uint64, rex_loan) fmap" where
  "loans_of CpuLoan s = cpu_loans s"
| "loans_of NetLoan s = net_loans s"

fun set_loans :: "loan_kind \<Rightarrow> (uint64, rex_loan) fmap \<Rightarrow> sys_state \<Rightarrow> sys_state" where
  "set_loans CpuLoan m s = s\<lparr>cpu_loans := m\<rparr>"
| "set_loans NetLoan m s = s\<lparr>net_loans := m\<rparr>"

fun limits_for :: "loan_kind \<Rightarrow> sys_chain \<Rightarrow> name \<Rightarrow> int64 \<Rightarrow> sys_state \<Rightarrow> sys_state res" where
  "limits_for CpuLoan c receiver delta s = update_resource_limits c receiver 0 delta s"
| "limits_for NetLoan c receiver delta s = update_resource_limits c receiver delta 0 s"

definition by_expr :: "uint64 \<Rightarrow> rex_loan \<Rightarrow> uint64" where
  "by_expr k l = u64 (expiration l)"

definition process_expired_loan ::
  "sys_chain \<Rightarrow> loan_kind \<Rightarrow> uint64 \<Rightarrow> rex_loan \<Rightarrow> sys_state \<Rightarrow> (bool \<times> int64 \<times> sys_state) res" where
  "process_expired_loan c kind num loan s =
     with_pool s (\<lambda>rp.
     bindr (remove_loan_from_rex_pool loan rp) (\<lambda>rp1.
     let s1 = s\<lparr>rexpool := Some rp1\<rparr> in
     bindr (get_bancor_output (amount (total_rent rp1)) (amount (total_unlent rp1)) (amount (loan_payment loan)))
       (\<lambda>rented_tokens.
     bindr (asset_le c (loan_payment loan) (loan_balance loan)) (\<lambda>funded.
     if funded \<and> amount (loan_payment loan) < rented_tokens \<and> rex_loans_available s1 then
       case update_renewed_loan loan rented_tokens of (delta_stake, loan') \<Rightarrow>
       Inr (False, delta_stake, set_loans kind (fmupd num loan' (loans_of kind s1))
         (s1\<lparr>rexpool := Some (add_loan_to_rex_pool (loan_payment loan) rented_tokens False rp1)\<rparr>))
     else
       bindr (if 0 < amount (loan_balance loan)
         then transfer_to_fund c (loan_from loan) (loan_balance loan) s1 else Inr s1) (\<lambda>s2.
       Inr (True, i64 (- amount (total_staked loan)), s2))))))"

definition run_loan :: "sys_chain \<Rightarrow> loan_kind \<Rightarrow> uint64 \<Rightarrow> rex_loan \<Rightarrow> sys_state \<Rightarrow> sys_state res" where
  "run_loan c kind num loan s =
     bindr (process_expired_loan c kind num loan s) (\<lambda>(delete_loan, delta_stake, s1).
     bindr (if delta_stake \<noteq> 0 then limits_for kind c (loan_receiver loan) delta_stake s1 else Inr s1) (\<lambda>s2.
     Inr (if delete_loan then set_loans kind (fmdrop num (loans_of kind s2)) s2 else s2)))"

fun run_loans :: "nat \<Rightarrow> sys_chain \<Rightarrow> loan_kind \<Rightarrow> sys_state \<Rightarrow> sys_state res" where
  "run_loans 0 c kind s = Inr s"
| "run_loans (Suc i) c kind s =
     (case first_by by_expr (loans_of kind s) of
        None \<Rightarrow> Inr s
      | Some (num, loan) \<Rightarrow>
          if now_tp c < expiration loan then Inr s
          else bindr (run_loan c kind num loan s) (run_loans i c kind))"

definition run_order :: "sys_chain \<Rightarrow> name \<Rightarrow> rex_order \<Rightarrow> sys_state \<Rightarrow> sys_state res" where
  "run_order c owner ord s =
     (case fmlookup (rexbalance s) owner of
        None \<Rightarrow> Inr s
      | Some _ \<Rightarrow>
          bindr (fill_rex_order c owner (rex_requested ord) s) (\<lambda>(result, s1).
          Inr (if success result then
              s1\<lparr>rexorders := fmupd owner
                   (ord\<lparr>proceeds := (proceeds ord)\<lparr>amount := amount (out_proceeds result)\<rparr>,
                        stake_change := (stake_change ord)\<lparr>amount := amount (out_stake_change result)\<rparr>,
                        is_open := False\<rparr>) (rexorders s1),
                 outbox := outbox s1 @ [OrderResult owner (out_proceeds result)]\<rparr>
            else s1)))"

text \<open>
  The loop over the order index. Filling an order changes no other order and moves the filled one
  behind all open ones, so the rows the iterator visits are those of the index at the start.
\<close>

fun run_orders :: "sys_chain \<Rightarrow> name list \<Rightarrow> sys_state \<Rightarrow> sys_state res" where
  "run_orders c [] s = Inr s"
| "run_orders c (owner # owners) s =
     (case fmlookup (rexorders s) owner of
        None \<Rightarrow> Inr s
      | Some ord \<Rightarrow> if is_open ord then bindr (run_order c owner ord s) (run_orders c owners) else Inr s)"

definition channel_proceeds :: "sys_chain \<Rightarrow> sys_state \<Rightarrow> sys_state" where
  "channel_proceeds c s = (case rexpool s of
     None \<Rightarrow> s
   | Some rp \<Rightarrow>
       if 0 < amount (namebid_proceeds rp) then
         let s1 = channel_to_rex c names_account (namebid_proceeds rp) s in
         s1\<lparr>rexpool := map_option (\<lambda>rt. rt\<lparr>namebid_proceeds := (namebid_proceeds rt)\<lparr>amount := 0\<rparr>\<rparr>) (rexpool s1)\<rparr>
       else s)"

definition runrex :: "sys_chain \<Rightarrow> nat \<Rightarrow> sys_state \<Rightarrow> sys_state res" where
  "runrex c mx s =
     check (rex_system_initialized s) ''rex system not initialized yet'' (
     bindr (run_loans mx c CpuLoan (channel_proceeds c s)) (\<lambda>s1.
     bindr (run_loans mx c NetLoan s1) (\<lambda>s2.
     run_orders c (take mx (map fst (index_by by_time (rexorders s2)))) s2)))"

section \<open>Funds\<close>

definition send_transfer :: "permission_level list \<Rightarrow> name \<Rightarrow> name \<Rightarrow> asset \<Rightarrow> string \<Rightarrow> sys_state \<Rightarrow> sys_state" where
  "send_transfer ps from to q memo s = s\<lparr>outbox := outbox s @ [ToToken ps (Transfer from to q memo)]\<rparr>"

definition deposit :: "sys_chain \<Rightarrow> name \<Rightarrow> asset \<Rightarrow> sys_state \<Rightarrow> sys_state res" where
  "deposit c owner amt s =
     require_auth c owner (
     with_core s (\<lambda>sy.
     check (symb amt = sy) ''must deposit core token'' (
     check (0 < amount amt) ''must deposit a positive amount'' (
     transfer_to_fund c owner amt
       (send_transfer [Perm owner active_permission] owner rex_account amt ''deposit to REX fund'' s)))))"

definition withdraw :: "sys_chain \<Rightarrow> name \<Rightarrow> asset \<Rightarrow> sys_state \<Rightarrow> sys_state res" where
  "withdraw c owner amt s =
     require_auth c owner (
     with_core s (\<lambda>sy.
     check (symb amt = sy) ''must withdraw core token'' (
     check (0 < amount amt) ''must withdraw a positive amount'' (
     core_asset c s 0 (\<lambda>zero.
     bindr (update_rex_account c owner zero zero False s) (\<lambda>(_, s1).
     bindr (transfer_from_fund c owner amt s1) (\<lambda>s2.
     Inr (send_transfer [Perm rex_account active_permission] rex_account owner amt
       ''withdraw from REX fund'' s2))))))))"

section \<open>Buying and selling REX\<close>

definition send_result :: "inline_action \<Rightarrow> sys_state \<Rightarrow> sys_state" where
  "send_result a s = s\<lparr>outbox := outbox s @ [a]\<rparr>"

definition voting_msg :: string where
  "voting_msg = ''must vote for at least 21 producers or for a proxy before buying REX''"

definition buyrex :: "sys_chain \<Rightarrow> name \<Rightarrow> asset \<Rightarrow> sys_state \<Rightarrow> sys_state res" where
  "buyrex c from amt s =
     require_auth c from (
     with_core s (\<lambda>sy.
     check (symb amt = sy) ''asset must be core token'' (
     check (0 < amount amt) ''must use positive amount'' (
     check_voting_requirement from voting_msg s (
     bindr (transfer_from_fund c from amt s) (\<lambda>s1.
     bindr (add_to_rex_pool c amt s1) (\<lambda>(rex_received, s2).
     bindr (add_to_rex_balance c from amt rex_received s2) (\<lambda>(delta_rex_stake, s3).
     bindr (runrex c 2 s3) (\<lambda>s4.
     core_asset c s4 0 (\<lambda>zero.
     bindr (update_rex_account c from zero delta_rex_stake False s4) (\<lambda>(_, s5).
     Inr (send_result (BuyResult rex_received) s5))))))))))))"

definition unstaketorex :: "sys_chain \<Rightarrow> name \<Rightarrow> name \<Rightarrow> asset \<Rightarrow> asset \<Rightarrow> sys_state \<Rightarrow> sys_state res" where
  "unstaketorex c owner receiver from_net from_cpu s =
     require_auth c owner (
     with_core s (\<lambda>sy.
     check (symb from_net = sy \<and> symb from_cpu = sy) ''asset must be core token'' (
     check (0 \<le> amount from_net \<and> 0 \<le> amount from_cpu \<and> (0 < amount from_net \<or> 0 < amount from_cpu))
       ''must unstake a positive amount to buy rex'' (
     check_voting_requirement owner voting_msg s (
     the_row (fmlookup (delband s) (owner, receiver)) ''delegated bandwidth record does not exist'' (\<lambda>d.
     check (amount from_net \<le> amount (dbw_net d)) ''amount exceeds tokens staked for net'' (
     check (amount from_cpu \<le> amount (dbw_cpu d)) ''amount exceeds tokens staked for cpu'' (
     let d1 = d\<lparr>dbw_net := (dbw_net d)\<lparr>amount := i64 (amount (dbw_net d) - amount from_net)\<rparr>,
           dbw_cpu := (dbw_cpu d)\<lparr>amount := i64 (amount (dbw_cpu d) - amount from_cpu)\<rparr>\<rparr>;
         s1 = s\<lparr>delband := if dbw_empty d1 then fmdrop (owner, receiver) (delband s)
           else fmupd (owner, receiver) d1 (delband s)\<rparr> in
     bindr (update_resource_limits c receiver (i64 (- amount from_net)) (i64 (- amount from_cpu)) s1) (\<lambda>s2.
     bindr (asset_add c from_net from_cpu) (\<lambda>pay.
     bindr (add_to_rex_pool c pay (send_transfer [Perm stake_account active_permission] stake_account rex_account
       pay ''buy REX with staked tokens'' s2)) (\<lambda>(rex_received, s3).
     bindr (add_to_rex_balance c owner pay rex_received s3) (\<lambda>(_, s4).
     bindr (runrex c 2 s4) (\<lambda>s5.
     core_asset c s5 0 (\<lambda>zero.
     bindr (update_rex_account c owner zero zero True s5) (\<lambda>(_, s6).
     Inr (send_result (BuyResult rex_received) s6))))))))))))))))"

definition queue_order :: "sys_chain \<Rightarrow> name \<Rightarrow> asset \<Rightarrow> sys_state \<Rightarrow> (rex_order \<times> sys_state) res" where
  "queue_order c from rex s =
     bindr (case fmlookup (rexorders s) from of
         None \<Rightarrow> core_asset c s 0 (\<lambda>zero.
           Inr \<lparr>rex_requested = rex, proceeds = zero, stake_change = zero,
             order_time = now_tp c, is_open = True\<rparr>)
       | Some ord \<Rightarrow> Inr (ord\<lparr>rex_requested :=
           (rex_requested ord)\<lparr>amount := i64 (amount (rex_requested ord) + amount rex)\<rparr>\<rparr>)) (\<lambda>ord.
     Inr (ord, s\<lparr>rexorders := fmupd from ord (rexorders s)\<rparr>))"

definition sellrex :: "sys_chain \<Rightarrow> name \<Rightarrow> asset \<Rightarrow> sys_state \<Rightarrow> sys_state res" where
  "sellrex c from rex s =
     require_auth c from (
     bindr (runrex c 2 s) (\<lambda>s1.
     the_row (fmlookup (rexbalance s1) from) ''user must first buyrex'' (\<lambda>rb.
     check (0 < amount rex \<and> symb rex = symb (rex_bal rb)) ''asset must be a positive amount of (REX, 4)'' (
     let rb1 = process_rex_maturities c rb; s2 = s1\<lparr>rexbalance := fmupd from rb1 (rexbalance s1)\<rparr> in
     check (amount rex \<le> matured_rex rb1) ''insufficient available rex'' (
     bindr (fill_rex_order c from rex s2) (\<lambda>(current_order, s3).
     check (\<not> (success current_order \<and> amount (out_proceeds current_order) = 0)) ''proceeds are negligible'' (
     bindr (update_rex_account c from (out_proceeds current_order) (out_stake_change current_order) False s3)
       (\<lambda>(in_order, s4).
     bindr (if success current_order then Inr (in_order, s4)
       else check (from \<noteq> b1_account) ''b1 sellrex orders should not be queued'' (
         bindr (queue_order c from rex s4) (\<lambda>(ord, s5).
         Inr (in_order\<lparr>amount := amount (rex_requested ord)\<rparr>, s5)))) (\<lambda>(pending_sell_order, s5).
     the_row (fmlookup (rexbalance s5) from) ''user must first buyrex'' (\<lambda>rb2.
     check (amount pending_sell_order \<le> matured_rex rb2)
       ''insufficient funds for current and scheduled orders'' (
     Inr (if success current_order then send_result (SellResult (out_proceeds current_order)) s5 else s5))))))))))))"

definition cnclrexorder :: "sys_chain \<Rightarrow> name \<Rightarrow> sys_state \<Rightarrow> sys_state res" where
  "cnclrexorder c owner s =
     require_auth c owner (
     the_row (fmlookup (rexorders s) owner) ''no sellrex order is scheduled'' (\<lambda>ord.
     check (is_open ord) ''sellrex order has been filled and cannot be canceled'' (
     Inr (s\<lparr>rexorders := fmdrop owner (rexorders s)\<rparr>))))"

section \<open>Loans\<close>

definition rent_rex ::
  "sys_chain \<Rightarrow> loan_kind \<Rightarrow> name \<Rightarrow> name \<Rightarrow> asset \<Rightarrow> asset \<Rightarrow> sys_state \<Rightarrow> (int64 \<times> sys_state) res" where
  "rent_rex c kind from receiver pay fund s =
     bindr (runrex c 2 s) (\<lambda>s1.
     check (rex_loans_available s1) ''rex loans are currently not available'' (
     with_core s1 (\<lambda>sy.
     check (symb pay = sy \<and> symb fund = sy) ''must use core token'' (
     check (0 < amount pay \<and> 0 \<le> amount fund) ''must use positive asset amount'' (
     bindr (asset_add c pay fund) (\<lambda>q.
     bindr (transfer_from_fund c from q s1) (\<lambda>s2.
     with_pool s2 (\<lambda>rp.
     bindr (get_bancor_output (amount (total_rent rp)) (amount (total_unlent rp)) (amount pay)) (\<lambda>rented_tokens.
     check (amount pay < rented_tokens) ''loan price does not favor renting'' (
     let rp1 = add_loan_to_rex_pool pay rented_tokens True rp;
         s3 = s2\<lparr>rexpool := Some rp1\<rparr> in
     check (fmlookup (loans_of kind s3) (next_loan_num rp1) = None) ''could not insert object'' (
     core_asset c s3 rented_tokens (\<lambda>staked_tokens.
     let loan = \<lparr>loan_from = from, loan_receiver = receiver, loan_payment = pay, loan_balance = fund,
           total_staked = staked_tokens, expiration = i64 (now_tp c + thirty_days)\<rparr> in
     Inr (rented_tokens, send_result (RentResult staked_tokens)
       (set_loans kind (fmupd (next_loan_num rp1) loan (loans_of kind s3)) s3))))))))))))))"

definition rentrex :: "loan_kind \<Rightarrow> sys_chain \<Rightarrow> name \<Rightarrow> name \<Rightarrow> asset \<Rightarrow> asset \<Rightarrow> sys_state \<Rightarrow> sys_state res" where
  "rentrex kind c from receiver pay fund s =
     require_auth c from (
     bindr (rent_rex c kind from receiver pay fund s) (\<lambda>(rented_tokens, s1).
     limits_for kind c receiver rented_tokens s1))"

abbreviation "rentcpu \<equiv> rentrex CpuLoan"
abbreviation "rentnet \<equiv> rentrex NetLoan"

definition fund_rex_loan :: "loan_kind \<Rightarrow> sys_chain \<Rightarrow> name \<Rightarrow> uint64 \<Rightarrow> asset \<Rightarrow> sys_state \<Rightarrow> sys_state res" where
  "fund_rex_loan kind c from num pay s =
     with_core s (\<lambda>sy.
     check (symb pay = sy) ''must use core token'' (
     bindr (transfer_from_fund c from pay s) (\<lambda>s1.
     the_row (fmlookup (loans_of kind s1) num) ''loan not found'' (\<lambda>loan.
     check (loan_from loan = from) ''user must be loan creator'' (
     check (now_tp c < expiration loan) ''loan has already expired'' (
     Inr (set_loans kind (fmupd num
       (loan\<lparr>loan_balance := (loan_balance loan)\<lparr>amount := i64 (amount (loan_balance loan) + amount pay)\<rparr>\<rparr>)
       (loans_of kind s1)) s1)))))))"

text \<open>The actions \<open>fundcpuloan\<close> and \<open>fundnetloan\<close>, \<open>defcpuloan\<close> and \<open>defnetloan\<close>.\<close>

definition fundloan :: "loan_kind \<Rightarrow> sys_chain \<Rightarrow> name \<Rightarrow> uint64 \<Rightarrow> asset \<Rightarrow> sys_state \<Rightarrow> sys_state res" where
  "fundloan kind c from num pay s = require_auth c from (fund_rex_loan kind c from num pay s)"

definition defund_rex_loan :: "loan_kind \<Rightarrow> sys_chain \<Rightarrow> name \<Rightarrow> uint64 \<Rightarrow> asset \<Rightarrow> sys_state \<Rightarrow> sys_state res" where
  "defund_rex_loan kind c from num amt s =
     with_core s (\<lambda>sy.
     check (symb amt = sy) ''must use core token'' (
     the_row (fmlookup (loans_of kind s) num) ''loan not found'' (\<lambda>loan.
     check (loan_from loan = from) ''user must be loan creator'' (
     check (now_tp c < expiration loan) ''loan has already expired'' (
     bindr (asset_le c amt (loan_balance loan)) (\<lambda>enough.
     check enough ''insufficent loan balance'' (
     transfer_to_fund c from amt (set_loans kind (fmupd num
       (loan\<lparr>loan_balance := (loan_balance loan)\<lparr>amount := i64 (amount (loan_balance loan) - amount amt)\<rparr>\<rparr>)
       (loans_of kind s)) s))))))))"

definition defloan :: "loan_kind \<Rightarrow> sys_chain \<Rightarrow> name \<Rightarrow> uint64 \<Rightarrow> asset \<Rightarrow> sys_state \<Rightarrow> sys_state res" where
  "defloan kind c from num amt s = require_auth c from (defund_rex_loan kind c from num amt s)"

section \<open>Administration and upkeep\<close>

definition updaterex :: "sys_chain \<Rightarrow> name \<Rightarrow> sys_state \<Rightarrow> sys_state res" where
  "updaterex c owner s =
     require_auth c owner (
     bindr (runrex c 2 s) (\<lambda>s1.
     the_row (fmlookup (rexbalance s1) owner) ''account has no REX balance'' (\<lambda>rb.
     with_pool s1 (\<lambda>rp.
     core_asset c s1 0 (\<lambda>zero.
     bindr (if 0 < amount (total_rex rp)
       then muldiv (amount (rex_bal rb)) (amount (total_lendable rp)) (amount (total_rex rp)) else Inr 0) (\<lambda>stake.
     let current_stake = zero\<lparr>amount := stake\<rparr>;
         s2 = s1\<lparr>rexbalance := fmupd owner (rb\<lparr>vote_stake := current_stake\<rparr>) (rexbalance s1)\<rparr> in
     bindr (asset_sub c current_stake (vote_stake rb)) (\<lambda>change.
     bindr (update_rex_account c owner zero change True s2) (\<lambda>(_, s3).
     the_row (fmlookup (rexbalance s3) owner) ''account has no REX balance'' (\<lambda>rb3.
     Inr (s3\<lparr>rexbalance := fmupd owner (process_rex_maturities c rb3) (rexbalance s3)\<rparr>))))))))))"

definition setrex :: "sys_chain \<Rightarrow> asset \<Rightarrow> sys_state \<Rightarrow> sys_state res" where
  "setrex c q s =
     require_auth c eosio_account (
     check (0 < amount q) ''balance must be set to have a positive amount'' (
     with_core s (\<lambda>sy.
     check (symb q = sy) ''balance symbol must be core symbol'' (
     the_row (rexpool s) ''rex system is not initialized'' (\<lambda>rp.
     Inr (s\<lparr>rexpool := Some (rp\<lparr>total_rent := q\<rparr>)\<rparr>))))))"

definition rexexec :: "sys_chain \<Rightarrow> name \<Rightarrow> uint16 \<Rightarrow> sys_state \<Rightarrow> sys_state res" where
  "rexexec c user mx s = require_auth c user (runrex c (nat mx) s)"

definition consolidate :: "sys_chain \<Rightarrow> name \<Rightarrow> sys_state \<Rightarrow> sys_state res" where
  "consolidate c owner s =
     require_auth c owner (
     bindr (runrex c 2 s) (\<lambda>s1.
     the_row (fmlookup (rexbalance s1) owner) ''account has no REX balance'' (\<lambda>_.
     core_asset c s1 0 (\<lambda>zero.
     bindr (update_rex_account c owner zero zero False s1) (\<lambda>(rex_in_sell_order, s2).
     the_row (fmlookup (rexbalance s2) owner) ''account has no REX balance'' (\<lambda>rb.
     Inr (s2\<lparr>rexbalance := fmupd owner (consolidate_rex_balance c rex_in_sell_order rb) (rexbalance s2)\<rparr>)))))))"

text \<open>
  The loop of \<open>mvtosavings\<close> over the buckets, the last first: each step empties its bucket or
  reaches the amount, so the loop is a recursion over the (reversed) list.
\<close>

fun take_buckets :: "int64 \<Rightarrow> int64 \<Rightarrow> (time_point_sec \<times> int64) list \<Rightarrow> int64 \<times> (time_point_sec \<times> int64) list" where
  "take_buckets amt moved [] = (moved, [])"
| "take_buckets amt moved ((t, r) # bs) =
     (if moved < amt then
        let d = min (i64 (amt - moved)) r; r' = i64 (r - d); moved' = i64 (moved + d) in
        if r' = 0 then take_buckets amt moved' bs else (moved', (t, r') # bs)
      else (moved, (t, r) # bs))"

definition move_to_savings :: "int64 \<Rightarrow> int64 \<Rightarrow> rex_balance \<Rightarrow> rex_balance res" where
  "move_to_savings amt in_order rb =
     (case take_buckets amt 0 (rev (rex_maturities rb)) of (moved, bs) \<Rightarrow>
     let rb1 = rb\<lparr>rex_maturities := rev bs\<rparr> in
     if moved < amt then
       let d = i64 (amt - moved); rb2 = rb1\<lparr>matured_rex := i64 (matured_rex rb1 - d)\<rparr> in
       check (in_order \<le> matured_rex rb2) ''logic error in mvtosavings'' (
       check (i64 (moved + d) = amt) ''programmer error in mvtosavings'' (Inr rb2))
     else check (moved = amt) ''programmer error in mvtosavings'' (Inr rb1))"

definition mvtosavings :: "sys_chain \<Rightarrow> name \<Rightarrow> asset \<Rightarrow> sys_state \<Rightarrow> sys_state res" where
  "mvtosavings c owner rex s =
     require_auth c owner (
     bindr (runrex c 2 s) (\<lambda>s1.
     the_row (fmlookup (rexbalance s1) owner) ''account has no REX balance'' (\<lambda>rb0.
     check (0 < amount rex \<and> symb rex = symb (rex_bal rb0)) ''asset must be a positive amount of (REX, 4)'' (
     core_asset c s1 0 (\<lambda>zero.
     bindr (update_rex_account c owner zero zero False s1) (\<lambda>(rex_in_sell_order, s2).
     the_row (fmlookup (rexbalance s2) owner) ''account has no REX balance'' (\<lambda>rb1.
     case read_rex_savings rb1 of (rex_in_savings, rb2) \<Rightarrow>
     check (i64 (i64 (amount rex + amount rex_in_sell_order) + rex_in_savings) \<le> amount (rex_bal rb2))
       ''insufficient REX balance'' (
     bindr (move_to_savings (amount rex) (amount rex_in_sell_order) (process_rex_maturities c rb2)) (\<lambda>rb3.
     Inr (s2\<lparr>rexbalance := fmupd owner (put_rex_savings (i64 (rex_in_savings + amount rex)) rb3)
       (rexbalance s2)\<rparr>))))))))))"

definition mvfrsavings :: "sys_chain \<Rightarrow> name \<Rightarrow> asset \<Rightarrow> sys_state \<Rightarrow> sys_state res" where
  "mvfrsavings c owner rex s =
     require_auth c owner (
     bindr (runrex c 2 s) (\<lambda>s1.
     the_row (fmlookup (rexbalance s1) owner) ''account has no REX balance'' (\<lambda>rb0.
     check (0 < amount rex \<and> symb rex = symb (rex_bal rb0)) ''asset must be a positive amount of (REX, 4)'' (
     case read_rex_savings rb0 of (rex_in_savings, rb1) \<Rightarrow>
     check (amount rex \<le> rex_in_savings) ''insufficient REX in savings'' (
     let rb2 = add_bucket (get_rex_maturity c) (amount rex) (process_rex_maturities c rb1);
         rb3 = put_rex_savings (i64 (rex_in_savings - amount rex)) rb2;
         s2 = s1\<lparr>rexbalance := fmupd owner rb3 (rexbalance s1)\<rparr> in
     core_asset c s2 0 (\<lambda>zero.
     bindr (update_rex_account c owner zero zero False s2) (\<lambda>(_, s3). Inr s3)))))))"

definition closerex :: "sys_chain \<Rightarrow> name \<Rightarrow> sys_state \<Rightarrow> sys_state res" where
  "closerex c owner s =
     require_auth c owner (
     bindr (if rex_system_initialized s then runrex c 2 s else Inr s) (\<lambda>s1.
     core_asset c s1 0 (\<lambda>zero.
     bindr (update_rex_account c owner zero zero False s1) (\<lambda>(_, s2).
     let no_loans = (\<lambda>m. \<forall>num\<in>fmdom' m. loan_from (the (fmlookup m num)) \<noteq> owner);
         no_outstanding_rex_fund = (case fmlookup (rexfunds s2) owner of
           None \<Rightarrow> False | Some fund \<Rightarrow> amount fund = 0);
         s3 = (if no_loans (cpu_loans s2) \<and> no_loans (net_loans s2) \<and> no_outstanding_rex_fund
           then s2\<lparr>rexfunds := fmdrop owner (rexfunds s2)\<rparr> else s2) in
     case fmlookup (rexbalance s3) owner of
       None \<Rightarrow> Inr s3
     | Some rb \<Rightarrow>
         check (amount (rex_bal rb) = 0) ''account has remaining REX balance, must sell first'' (
         Inr (s3\<lparr>rexbalance := fmdrop owner (rexbalance s3)\<rparr>))))))"

end
