(* ===== verification/Ram.thy ===== *)
theory Ram
  imports Rex
begin

text \<open>
  exchange_state.cpp, the Bancor market of RAM, and the RAM part of delegate_bandwidth.cpp and
  eosio.system.cpp: buying and selling RAM, and the growth of its supply.
\<close>

section \<open>The market\<close>

definition convert_to_exchange :: "sys_chain \<Rightarrow> asset \<Rightarrow> connector \<Rightarrow> asset \<Rightarrow> (asset \<times> connector \<times> asset) res" where
  "convert_to_exchange c sply con inp =
     (let R = to_double (amount sply); C = to_double (i64 (amount (c_balance con) + amount inp));
          F = c_weight con; T = to_double (amount inp); one = Fin 1;
          E = dmul (dneg R) (dsub one (pow_fn c (dadd one (ddiv T C)) F)) in
     bindr (to_int64 E) (\<lambda>issued.
     bindr (asset_new c issued (symb sply)) (\<lambda>out.
     Inr (sply\<lparr>amount := i64 (amount sply + issued)\<rparr>,
       con\<lparr>c_balance := (c_balance con)\<lparr>amount := i64 (amount (c_balance con) + amount inp)\<rparr>\<rparr>, out))))"

definition convert_from_exchange :: "sys_chain \<Rightarrow> asset \<Rightarrow> connector \<Rightarrow> asset \<Rightarrow> (asset \<times> connector \<times> asset) res" where
  "convert_from_exchange c sply con inp =
     check (symb inp = symb sply) ''unexpected asset symbol input'' (
     let R = to_double (i64 (amount sply - amount inp)); C = to_double (amount (c_balance con));
         F = ddiv (Fin 1) (c_weight con); E = to_double (amount inp); one = Fin 1;
         T = dmul C (dsub (pow_fn c (dadd one (ddiv E R)) F) one) in
     bindr (to_int64 T) (\<lambda>out.
     bindr (asset_new c out (symb (c_balance con))) (\<lambda>res.
     Inr (sply\<lparr>amount := i64 (amount sply - amount inp)\<rparr>,
       con\<lparr>c_balance := (c_balance con)\<lparr>amount := i64 (amount (c_balance con) - out)\<rparr>\<rparr>, res))))"

text \<open>One turn of \<open>convert\<close>: into or out of the exchange's own token.\<close>

definition convert_step :: "sys_chain \<Rightarrow> exchange_state \<Rightarrow> asset \<Rightarrow> symbol \<Rightarrow> (asset \<times> exchange_state) res" where
  "convert_step c es from to =
     (if symb from \<noteq> symb (ex_supply es) then
        if symb from = symb (c_balance (base es)) then
          bindr (convert_to_exchange c (ex_supply es) (base es) from) (\<lambda>(sply, con, out).
          Inr (out, es\<lparr>ex_supply := sply, base := con\<rparr>))
        else if symb from = symb (c_balance (quote es)) then
          bindr (convert_to_exchange c (ex_supply es) (quote es) from) (\<lambda>(sply, con, out).
          Inr (out, es\<lparr>ex_supply := sply, quote := con\<rparr>))
        else Inl ''invalid sell''
      else
        if to = symb (c_balance (base es)) then
          bindr (convert_from_exchange c (ex_supply es) (base es) from) (\<lambda>(sply, con, out).
          Inr (out, es\<lparr>ex_supply := sply, base := con\<rparr>))
        else if to = symb (c_balance (quote es)) then
          bindr (convert_from_exchange c (ex_supply es) (quote es) from) (\<lambda>(sply, con, out).
          Inr (out, es\<lparr>ex_supply := sply, quote := con\<rparr>))
        else Inl ''invalid conversion'')"

fun convert_n :: "nat \<Rightarrow> sys_chain \<Rightarrow> exchange_state \<Rightarrow> asset \<Rightarrow> symbol \<Rightarrow> (asset \<times> exchange_state) res" where
  "convert_n 0 c es from to = Inl ''out of fuel''"
| "convert_n (Suc n) c es from to =
     bindr (convert_step c es from to) (\<lambda>(out, es1).
     if to \<noteq> symb out then convert_n n c es1 out to else Inr (out, es1))"

text \<open>Two turns are enough: the first yields exchange tokens, the second the symbol asked for.\<close>

definition convert :: "sys_chain \<Rightarrow> exchange_state \<Rightarrow> asset \<Rightarrow> symbol \<Rightarrow> (asset \<times> exchange_state) res" where
  "convert = convert_n 2"

section \<open>The supply of RAM\<close>

definition free_ram :: "eosio_global_state \<Rightarrow> uint64" where
  "free_ram g = u64 (max_ram_size g - total_ram_bytes_reserved g)"

definition with_market :: "sys_state \<Rightarrow> (exchange_state \<Rightarrow> 'a res) \<Rightarrow> 'a res" where
  "with_market s k = the_row (rammarket s) ''cannot pass end iterator to modify'' k"

definition add_base :: "int \<Rightarrow> exchange_state \<Rightarrow> exchange_state" where
  "add_base d m = m\<lparr>base := (base m)\<lparr>c_balance :=
     (c_balance (base m))\<lparr>amount := i64 (amount (c_balance (base m)) + d)\<rparr>\<rparr>\<rparr>"

definition setram :: "sys_chain \<Rightarrow> uint64 \<Rightarrow> sys_state \<Rightarrow> sys_state res" where
  "setram c new_max s =
     require_auth c (self c) (
     let g = gstate s in
     check (max_ram_size g < new_max) ''ram may only be increased'' (
     check (new_max < 1125899906842624) ''ram size is unrealistic'' (
     check (total_ram_bytes_reserved g < new_max) ''attempt to set max below reserved'' (
     let delta = i64 (i64 new_max - i64 (max_ram_size g)) in
     with_market s (\<lambda>m.
     Inr (s\<lparr>rammarket := Some (add_base delta m), gstate := g\<lparr>max_ram_size := new_max\<rparr>\<rparr>))))))"

text \<open>The new RAM is a product of a \<open>uint32_t\<close> and a \<open>uint16_t\<close>, taken in 32 bits.\<close>

definition update_ram_supply :: "sys_chain \<Rightarrow> sys_state \<Rightarrow> sys_state res" where
  "update_ram_supply c s =
     (let cbt = current_block_time c; g2 = gstate2 s; g = gstate s in
     if cbt \<le> last_ram_increase g2 then Inr s
     else
       let new_ram = u32 (u32 (cbt - last_ram_increase g2) * new_ram_per_block g2) in
       with_market s (\<lambda>m.
       Inr (s\<lparr>rammarket := Some (add_base new_ram m),
         gstate := g\<lparr>max_ram_size := u64 (max_ram_size g + new_ram)\<rparr>,
         gstate2 := g2\<lparr>last_ram_increase := cbt\<rparr>\<rparr>)))"

definition setramrate :: "sys_chain \<Rightarrow> uint16 \<Rightarrow> sys_state \<Rightarrow> sys_state res" where
  "setramrate c bytes_per_block s =
     require_auth c (self c) (
     bindr (update_ram_supply c s) (\<lambda>s1.
     Inr (s1\<lparr>gstate2 := (gstate2 s1)\<lparr>new_ram_per_block := bytes_per_block\<rparr>\<rparr>)))"

section \<open>Buying and selling RAM\<close>

definition ram_fee :: "int64 \<Rightarrow> int64" where
  "ram_fee n = i64 (n + 199) sdiv 200"

definition set_ram_limit :: "name \<Rightarrow> int64 \<Rightarrow> sys_state \<Rightarrow> sys_state" where
  "set_ram_limit n ram s = (if managed ram_managed n s then s else
     case res_limits s n of (_, net, cpu) \<Rightarrow> set_limits n (i64 (ram + ram_gift_bytes), net, cpu) s)"

text \<open>The price goes to the RAM account, the fee to the fee account and from there to REX.\<close>

definition pay_ram :: "sys_chain \<Rightarrow> name \<Rightarrow> asset \<Rightarrow> asset \<Rightarrow> sys_state \<Rightarrow> sys_state" where
  "pay_ram c payer price fee s =
     (let s1 = send_transfer [Perm payer active_permission, Perm ram_account active_permission]
           payer ram_account price ''buy ram'' s in
     if 0 < amount fee then channel_to_rex c ramfee_account fee
       (send_transfer [Perm payer active_permission] payer ramfee_account fee ''ram fee'' s1)
     else s1)"

text \<open>The quota of the receiver, in a row of its own or a new one.\<close>

definition credit_ram :: "sys_chain \<Rightarrow> name \<Rightarrow> int64 \<Rightarrow> sys_state \<Rightarrow> sys_state res" where
  "credit_ram c receiver bytes_out s =
     bindr (case fmlookup (userres s) receiver of
         None \<Rightarrow> core_asset c s 0 (\<lambda>zero.
           Inr \<lparr>net_weight = zero, cpu_weight = zero, ram_bytes = bytes_out\<rparr>)
       | Some r \<Rightarrow> Inr (r\<lparr>ram_bytes := i64 (ram_bytes r + bytes_out)\<rparr>)) (\<lambda>r.
     Inr (set_ram_limit receiver (ram_bytes r) (s\<lparr>userres := fmupd receiver r (userres s)\<rparr>)))"

definition buyram :: "sys_chain \<Rightarrow> name \<Rightarrow> name \<Rightarrow> asset \<Rightarrow> sys_state \<Rightarrow> sys_state res" where
  "buyram c payer receiver quant s0 =
     require_auth c payer (
     bindr (update_ram_supply c s0) (\<lambda>s.
     with_core s (\<lambda>sy.
     check (symb quant = sy) ''must buy ram with core token'' (
     check (0 < amount quant) ''must purchase a positive amount'' (
     let fee = quant\<lparr>amount := ram_fee (amount quant)\<rparr>;
         quant_after_fee = quant\<lparr>amount := i64 (amount quant - amount fee)\<rparr>;
         s2 = pay_ram c payer quant_after_fee fee s in
     with_market s2 (\<lambda>market.
     bindr (convert c market quant_after_fee ram_symbol) (\<lambda>(out, market1).
     check (0 < amount out) ''must reserve a positive amount'' (
     let g = gstate s2 in
     credit_ram c receiver (amount out) (s2\<lparr>rammarket := Some market1, gstate := g\<lparr>
       total_ram_bytes_reserved := u64 (total_ram_bytes_reserved g + u64 (amount out)),
       total_ram_stake := i64 (total_ram_stake g + amount quant_after_fee)\<rparr>\<rparr>)))))))))"

definition buyrambytes :: "sys_chain \<Rightarrow> name \<Rightarrow> name \<Rightarrow> uint32 \<Rightarrow> sys_state \<Rightarrow> sys_state res" where
  "buyrambytes c payer receiver bytes s =
     with_market s (\<lambda>tmp.
     bindr (asset_new c bytes ram_symbol) (\<lambda>q.
     with_core s (\<lambda>sy.
     bindr (convert c tmp q sy) (\<lambda>(eosout, _).
     buyram c payer receiver eosout s))))"

text \<open>The proceeds go to the seller, who pays the fee from them.\<close>

definition pay_seller :: "sys_chain \<Rightarrow> name \<Rightarrow> asset \<Rightarrow> sys_state \<Rightarrow> sys_state res" where
  "pay_seller c account tokens_out s =
     (let s1 = send_transfer [Perm ram_account active_permission, Perm account active_permission]
           ram_account account tokens_out ''sell ram'' s;
         fee = ram_fee (amount tokens_out) in
     if 0 < fee then
       core_asset c s1 fee (\<lambda>fee_q.
       Inr (channel_to_rex c ramfee_account fee_q
         (send_transfer [Perm account active_permission] account ramfee_account fee_q ''sell ram fee'' s1)))
     else Inr s1)"

definition sellram :: "sys_chain \<Rightarrow> name \<Rightarrow> int64 \<Rightarrow> sys_state \<Rightarrow> sys_state res" where
  "sellram c account bytes s0 =
     require_auth c account (
     bindr (update_ram_supply c s0) (\<lambda>s.
     check (0 < bytes) ''cannot sell negative byte'' (
     the_row (fmlookup (userres s) account) ''no resource row'' (\<lambda>r.
     check (bytes \<le> ram_bytes r) ''insufficient quota'' (
     with_market s (\<lambda>market.
     bindr (asset_new c bytes ram_symbol) (\<lambda>q.
     with_core s (\<lambda>sy.
     bindr (convert c market q sy) (\<lambda>(tokens_out, market1).
     check (1 < amount tokens_out) ''token amount received from selling ram is too low'' (
     let g = gstate s; stake = i64 (total_ram_stake g - amount tokens_out) in
     check (0 \<le> stake) ''error, attempt to unstake more tokens than previously staked'' (
     let r1 = r\<lparr>ram_bytes := i64 (ram_bytes r - bytes)\<rparr> in
     pay_seller c account tokens_out (set_ram_limit account (ram_bytes r1) (s\<lparr>rammarket := Some market1,
       gstate := g\<lparr>total_ram_bytes_reserved := u64 (total_ram_bytes_reserved g - u64 bytes),
         total_ram_stake := stake\<rparr>,
       userres := fmupd account r1 (userres s)\<rparr>)))))))))))))"

end
