(* ===== verification/Names.thy ===== *)
theory Names
  imports Ram
begin

text \<open>
  Account names in eosio.system.cpp: the auction of premium names, the refund of an outbid
  bidder, the rules for a new account, and the hash of an account's ABI.
\<close>

text \<open>\<open>has_dot\<close>: whether one of the twelve 5-bit characters of a name is the dot (zero).\<close>

fun has_zero_char :: "nat \<Rightarrow> name \<Rightarrow> bool" where
  "has_zero_char 0 tmp \<longleftrightarrow> False"
| "has_zero_char (Suc i) tmp \<longleftrightarrow> tmp AND 31 = 0 \<or> has_zero_char i (drop_bit 5 tmp)"

definition has_dot :: "name \<Rightarrow> bool" where
  "has_dot n = has_zero_char 12 (drop_bit 4 n)"

definition add_bid_refund :: "sys_chain \<Rightarrow> name \<Rightarrow> name \<Rightarrow> int64 \<Rightarrow> sys_state \<Rightarrow> sys_state res" where
  "add_bid_refund c newname bidder n s =
     core_asset c s n (\<lambda>q.
     bindr (case fmlookup (bidrefunds s) (newname, bidder) of
         None \<Rightarrow> Inr q
       | Some r \<Rightarrow> asset_add c r q) (\<lambda>r.
     Inr (s\<lparr>bidrefunds := fmupd (newname, bidder) r (bidrefunds s)\<rparr>)))"

definition bidname :: "sys_chain \<Rightarrow> name \<Rightarrow> name \<Rightarrow> asset \<Rightarrow> sys_state \<Rightarrow> sys_state res" where
  "bidname c bidder newname bid s =
     require_auth c bidder (
     check (suffix c newname = newname) ''you can only bid on top-level suffix'' (
     check (newname \<noteq> 0) ''the empty name is not a valid account name to bid on'' (
     check (newname AND 15 = 0) ''13 character names are not valid account names to bid on'' (
     check (newname AND 496 = 0)
       ''accounts with 12 character names and no dots can be created without bidding required'' (
     check (\<not> is_account c newname) ''account already exists'' (
     with_core s (\<lambda>sy.
     check (symb bid = sy) ''asset must be system token'' (
     check (0 < amount bid) ''insufficient bid'' (
     let s1 = send_transfer [Perm bidder active_permission] bidder names_account bid
           (''bid name '' @ name_to_string c newname) s;
         row = \<lparr>high_bidder = bidder, high_bid = amount bid, last_bid_time = now_tp c\<rparr> in
     case fmlookup (namebids s1) newname of
       None \<Rightarrow> Inr (s1\<lparr>namebids := fmupd newname row (namebids s1)\<rparr>)
     | Some current \<Rightarrow>
         check (0 < high_bid current) ''this auction has already closed'' (
         check (high_bid current sdiv 10 < i64 (amount bid - high_bid current)) ''must increase bid by 10%'' (
         check (high_bidder current \<noteq> bidder) ''account is already highest bidder'' (
         bindr (add_bid_refund c newname (high_bidder current) (high_bid current) s1) (\<lambda>s2.
         Inr (s2\<lparr>pending := fmupd (uint newname * 18446744073709551616 + uint (high_bidder current))
             (DeferredBidRefund (high_bidder current) newname 0) (pending s2),
           namebids := fmupd newname row (namebids s2)\<rparr>))))))))))))))"

definition bidrefund :: "sys_chain \<Rightarrow> name \<Rightarrow> name \<Rightarrow> sys_state \<Rightarrow> sys_state res" where
  "bidrefund c bidder newname s =
     the_row (fmlookup (bidrefunds s) (newname, bidder)) ''refund not found'' (\<lambda>q.
     Inr (send_transfer [Perm names_account active_permission, Perm bidder active_permission]
         names_account bidder q (''refund bid on name '' @ name_to_string c newname)
       (s\<lparr>bidrefunds := fmdrop (newname, bidder) (bidrefunds s)\<rparr>)))"

definition newaccount :: "sys_chain \<Rightarrow> name \<Rightarrow> name \<Rightarrow> sys_state \<Rightarrow> sys_state res" where
  "newaccount c creator newact s =
     bindr (if creator \<noteq> self c \<and> has_dot newact then
         if suffix c newact = newact then
           the_row (fmlookup (namebids s) newact) ''no active bid for name'' (\<lambda>current.
           check (high_bidder current = creator) ''only highest bidder can claim'' (
           check (high_bid current < 0) ''auction for name is not closed yet'' (
           Inr (s\<lparr>namebids := fmdrop newact (namebids s)\<rparr>))))
         else check (creator = suffix c newact) ''only suffix may create this account'' (Inr s)
       else Inr s) (\<lambda>s1.
     check (fmlookup (userres s1) newact = None) ''could not insert object'' (
     core_asset c s1 0 (\<lambda>zero.
     Inr (set_limits newact (0, 0, 0) (s1\<lparr>userres := fmupd newact
       \<lparr>net_weight = zero, cpu_weight = zero, ram_bytes = 0\<rparr> (userres s1)\<rparr>)))))"

definition setabi :: "sys_chain \<Rightarrow> name \<Rightarrow> bytes \<Rightarrow> sys_state \<Rightarrow> sys_state res" where
  "setabi c acnt abi s = Inr (s\<lparr>abihash := fmupd acnt (sha256_of c abi) (abihash s)\<rparr>)"

end
