(* ===== verification/Admin.thy ===== *)
theory Admin
  imports Names
begin

text \<open>
  The administrative actions of eosio.system.cpp: parameters, privileges, the resource limits of
  an account (set directly, or managed per resource), removal of producers, revisions and \<open>init\<close>.
\<close>

definition setparams :: "sys_chain \<Rightarrow> blockchain_parameters \<Rightarrow> sys_state \<Rightarrow> sys_state res" where
  "setparams c params s =
     require_auth c (self c) (
     check (3 \<le> max_authority_depth params) ''max_authority_depth should be at least 3'' (
     Inr (s\<lparr>gstate := (gstate s)\<lparr>blockchain_params := params\<rparr>, active_params := Some params\<rparr>)))"

definition setpriv :: "sys_chain \<Rightarrow> name \<Rightarrow> uint8 \<Rightarrow> sys_state \<Rightarrow> sys_state res" where
  "setpriv c account ispriv s =
     require_auth c (self c) (
     Inr (s\<lparr>privileged := (privileged s)(account := ispriv \<noteq> 0)\<rparr>))"

definition setalimits :: "sys_chain \<Rightarrow> name \<Rightarrow> int64 \<Rightarrow> int64 \<Rightarrow> int64 \<Rightarrow> sys_state \<Rightarrow> sys_state res" where
  "setalimits c account ram net cpu s =
     require_auth c (self c) (
     check (fmlookup (userres s) account = None) ''only supports unlimited accounts'' (
     check (\<not> (managed ram_managed account s \<or> managed net_managed account s \<or> managed cpu_managed account s))
       ''cannot use setalimits on an account with managed resources'' (
     Inr (set_limits account (ram, net, cpu) s))))"

definition set_managed :: "32 word \<Rightarrow> bool \<Rightarrow> name \<Rightarrow> sys_state \<Rightarrow> sys_state" where
  "set_managed field value account s =
     (let v = (case fmlookup (voters s) account of None \<Rightarrow> default_voter | Some v \<Rightarrow> v) in
     set_voter account (v\<lparr>flags1 := set_field (flags1 v) field value\<rparr>) s)"

definition setacctram :: "sys_chain \<Rightarrow> name \<Rightarrow> int64 option \<Rightarrow> sys_state \<Rightarrow> sys_state res" where
  "setacctram c account ram_opt s =
     require_auth c (self c) (
     case res_limits s account of (_, current_net, current_cpu) \<Rightarrow>
     case ram_opt of
       None \<Rightarrow>
         check (managed ram_managed account s) ''RAM of account is already unmanaged'' (
         let ram = (case fmlookup (userres s) account of
           None \<Rightarrow> ram_gift_bytes | Some r \<Rightarrow> i64 (ram_gift_bytes + ram_bytes r)) in
         Inr (set_limits account (ram, current_net, current_cpu) (set_managed ram_managed False account s)))
     | Some ram \<Rightarrow>
         check (0 \<le> ram) ''not allowed to set RAM limit to unlimited'' (
         Inr (set_limits account (ram, current_net, current_cpu) (set_managed ram_managed True account s))))"

definition setacctnet :: "sys_chain \<Rightarrow> name \<Rightarrow> int64 option \<Rightarrow> sys_state \<Rightarrow> sys_state res" where
  "setacctnet c account net_opt s =
     require_auth c (self c) (
     case res_limits s account of (current_ram, _, current_cpu) \<Rightarrow>
     case net_opt of
       None \<Rightarrow>
         check (managed net_managed account s) ''Network bandwidth of account is already unmanaged'' (
         let net = (case fmlookup (userres s) account of None \<Rightarrow> 0 | Some r \<Rightarrow> amount (net_weight r)) in
         Inr (set_limits account (current_ram, net, current_cpu) (set_managed net_managed False account s)))
     | Some net \<Rightarrow>
         check (- 1 \<le> net) ''invalid value for net_weight'' (
         Inr (set_limits account (current_ram, net, current_cpu) (set_managed net_managed True account s))))"

definition setacctcpu :: "sys_chain \<Rightarrow> name \<Rightarrow> int64 option \<Rightarrow> sys_state \<Rightarrow> sys_state res" where
  "setacctcpu c account cpu_opt s =
     require_auth c (self c) (
     case res_limits s account of (current_ram, current_net, _) \<Rightarrow>
     case cpu_opt of
       None \<Rightarrow>
         check (managed cpu_managed account s) ''CPU bandwidth of account is already unmanaged'' (
         let cpu = (case fmlookup (userres s) account of None \<Rightarrow> 0 | Some r \<Rightarrow> amount (cpu_weight r)) in
         Inr (set_limits account (current_ram, current_net, cpu) (set_managed cpu_managed False account s)))
     | Some cpu \<Rightarrow>
         check (- 1 \<le> cpu) ''invalid value for cpu_weight'' (
         Inr (set_limits account (current_ram, current_net, cpu) (set_managed cpu_managed True account s))))"

definition rmvproducer :: "sys_chain \<Rightarrow> name \<Rightarrow> sys_state \<Rightarrow> sys_state res" where
  "rmvproducer c producer s =
     require_auth c (self c) (
     the_row (fmlookup (producers s) producer) ''producer not found'' (\<lambda>p.
     Inr (s\<lparr>producers := fmupd producer (deactivate c p) (producers s)\<rparr>)))"

definition updtrevision :: "sys_chain \<Rightarrow> uint8 \<Rightarrow> sys_state \<Rightarrow> sys_state res" where
  "updtrevision c rvsn s =
     require_auth c (self c) (
     check (revision (gstate2 s) < 255) ''can not increment revision'' (
     check (rvsn = revision (gstate2 s) + 1) ''can only increment revision by one'' (
     check (rvsn \<le> 1) ''specified revision is not yet supported by the code'' (
     Inr (s\<lparr>gstate2 := (gstate2 s)\<lparr>revision := rvsn\<rparr>\<rparr>)))))"

definition init :: "sys_chain \<Rightarrow> uint32 \<Rightarrow> symbol \<Rightarrow> sys_state \<Rightarrow> sys_state res" where
  "init c version core s =
     require_auth c (self c) (
     check (version = 0) ''unsupported version for init action'' (
     check (rammarket s = None) ''system contract has already been initialized'' (
     bindr (get_supply (tokens s) (sym_code core)) (\<lambda>system_token_supply.
     check (symb system_token_supply = core) ''specified core symbol does not exist (precision mismatch)'' (
     check (0 < amount system_token_supply) ''system token supply must be greater than 0'' (
     Inr (s\<lparr>rammarket := Some \<lparr>ex_supply = ast 100000000000000 ramcore_symbol,
           base = \<lparr>c_balance = ast (i64 (free_ram (gstate s))) ram_symbol, c_weight = Fin (1 / 2)\<rparr>,
           quote = \<lparr>c_balance = ast (amount system_token_supply sdiv 1000) core, c_weight = Fin (1 / 2)\<rparr>\<rparr>,
         outbox := outbox s @ [ToToken [Perm (self c) active_permission] (Open rex_account core (self c))]\<rparr>)))))))"

end
