(* ===== verification/Pay.thy ===== *)
theory Pay
  imports Admin
begin

text \<open>
  producer_pay.cpp: the bookkeeping of every block, with the election of the schedule once a
  minute and the closing of the highest name auction once a day, and the claim of rewards.
\<close>

definition min_pervote_daily_pay :: int64 where "min_pervote_daily_pay = 1000000"
definition continuous_rate :: double where "continuous_rate = mk (4879 / 100000)"
definition blocks_per_day :: uint32 where "blocks_per_day = 172800"
definition useconds_per_year :: int64 where "useconds_per_year = 31449600000000"

definition by_high_bid :: "name \<Rightarrow> name_bid \<Rightarrow> uint64" where
  "by_high_bid k b = u64 (- high_bid b)"

text \<open>The first row at or after \<open>numeric_limits<uint64_t>::max()/2\<close> in the index of bids.\<close>

definition highest_bid :: "sys_state \<Rightarrow> (name \<times> name_bid) option" where
  "highest_bid s = (case dropWhile (\<lambda>(k, b). by_high_bid k b < 9223372036854775807)
       (index_by by_high_bid (namebids s)) of [] \<Rightarrow> None | kb # _ \<Rightarrow> Some kb)"

definition close_highest_bid :: "sys_chain \<Rightarrow> slot \<Rightarrow> sys_state \<Rightarrow> sys_state" where
  "close_highest_bid c timestamp s =
     (case highest_bid s of
        None \<Rightarrow> s
      | Some (n, highest) \<Rightarrow>
          if 0 < high_bid highest
             \<and> useconds_per_day < i64 (now_tp c - last_bid_time highest)
             \<and> 0 < thresh_activated_stake_time (gstate s)
             \<and> 14 * useconds_per_day < i64 (now_tp c - thresh_activated_stake_time (gstate s))
          then
            let s1 = channel_namebid_to_rex (high_bid highest)
                  (s\<lparr>gstate := (gstate s)\<lparr>last_name_close := timestamp\<rparr>\<rparr>) in
            s1\<lparr>namebids := fmupd n (highest\<lparr>high_bid := i64 (- high_bid highest)\<rparr>) (namebids s1)\<rparr>
          else s)"

definition count_block :: "sys_chain \<Rightarrow> name \<Rightarrow> sys_state \<Rightarrow> sys_state" where
  "count_block c producer s =
     (case fmlookup (producers s) producer of
        None \<Rightarrow> s
      | Some p \<Rightarrow> s\<lparr>gstate := (gstate s)\<lparr>total_unpaid_blocks := u32 (total_unpaid_blocks (gstate s) + 1)\<rparr>,
          producers := fmupd producer (p\<lparr>unpaid_blocks := u32 (unpaid_blocks p + 1)\<rparr>) (producers s)\<rparr>)"

definition onblock :: "sys_chain \<Rightarrow> slot \<Rightarrow> name \<Rightarrow> sys_state \<Rightarrow> sys_state res" where
  "onblock c timestamp producer s =
     require_auth c (self c) (
     let s1 = s\<lparr>gstate2 := (gstate2 s)\<lparr>last_block_num := timestamp\<rparr>\<rparr> in
     if total_activated_stake (gstate s1) < min_activated_stake then Inr s1
     else
       let s2 = (if last_pervote_bucket_fill (gstate s1) = 0
             then s1\<lparr>gstate := (gstate s1)\<lparr>last_pervote_bucket_fill := now_tp c\<rparr>\<rparr> else s1);
           s3 = count_block c producer s2 in
       if 120 < u32 (timestamp - last_producer_schedule_update (gstate s3)) then
         let s4 = update_elected_producers c timestamp s3 in
         Inr (if blocks_per_day < u32 (timestamp - last_name_close (gstate s4))
           then close_highest_bid c timestamp s4 else s4)
       else Inr s3)"

section \<open>Rewards\<close>

text \<open>The tokens issued since the last fill, split between savings and the two buckets.\<close>

definition inflation :: "int64 \<Rightarrow> int64 \<Rightarrow> int64 res" where
  "inflation sply usecs = to_int64 (ddiv (dmul (dmul continuous_rate (to_double sply)) (to_double usecs))
     (to_double useconds_per_year))"

definition fill_buckets :: "sys_chain \<Rightarrow> asset \<Rightarrow> sys_state \<Rightarrow> sys_state res" where
  "fill_buckets c token_supply s =
     (let g = gstate s; ct = now_tp c; usecs = i64 (ct - last_pervote_bucket_fill g) in
     if 0 < usecs \<and> 0 < last_pervote_bucket_fill g then
       bindr (inflation (amount token_supply) usecs) (\<lambda>new_tokens.
       let to_producers = new_tokens sdiv 5;
           to_savings = i64 (new_tokens - to_producers);
           to_per_block_pay = to_producers sdiv 4;
           to_per_vote_pay = i64 (to_producers - to_per_block_pay);
           me = [Perm (self c) active_permission] in
       core_asset c s new_tokens (\<lambda>q_new.
       core_asset c s to_savings (\<lambda>q_savings.
       core_asset c s to_per_block_pay (\<lambda>q_block.
       core_asset c s to_per_vote_pay (\<lambda>q_vote.
       Inr (s\<lparr>outbox := outbox s @
           [ToToken me (Issue (self c) q_new ''issue tokens for producer pay and savings''),
            ToToken me (Transfer (self c) saving_account q_savings ''unallocated inflation''),
            ToToken me (Transfer (self c) bpay_account q_block ''fund per-block bucket''),
            ToToken me (Transfer (self c) vpay_account q_vote ''fund per-vote bucket'')],
         gstate := g\<lparr>pervote_bucket := i64 (pervote_bucket g + to_per_vote_pay),
           perblock_bucket := i64 (perblock_bucket g + to_per_block_pay),
           last_pervote_bucket_fill := ct\<rparr>\<rparr>))))))
     else Inr s)"

definition block_pay :: "eosio_global_state \<Rightarrow> producer_info \<Rightarrow> int64" where
  "block_pay g p = (if 0 < total_unpaid_blocks g
     then i64 (perblock_bucket g * unpaid_blocks p) sdiv total_unpaid_blocks g else 0)"

text \<open>The pay per vote: by vote-pay share from revision 1 on, by vote weight before.\<close>

definition vote_pay ::
  "sys_chain \<Rightarrow> bool \<Rightarrow> double \<Rightarrow> producer_info \<Rightarrow> sys_state \<Rightarrow> (int64 \<times> sys_state) res" where
  "vote_pay c crossed_threshold new_votepay_share p s =
     bindr (if 0 < revision (gstate2 s) then
         case update_total_votepay_share (now_tp c) (Fin 0) (Fin 0) s of (total_votepay_share, s1) \<Rightarrow>
         if dlt (Fin 0) total_votepay_share \<and> \<not> crossed_threshold then
           bindr (to_int64 (ddiv (dmul new_votepay_share (to_double (pervote_bucket (gstate s1))))
             total_votepay_share)) (\<lambda>pay.
           Inr (if pervote_bucket (gstate s1) < pay then pervote_bucket (gstate s1) else pay, s1))
         else Inr (0, s1)
       else if dlt (Fin 0) (total_producer_vote_weight (gstate s)) then
         bindr (to_int64 (ddiv (dmul (to_double (pervote_bucket (gstate s))) (total_votes p))
           (total_producer_vote_weight (gstate s)))) (\<lambda>pay. Inr (pay, s))
       else Inr (0, s)) (\<lambda>(pay, s1).
     Inr (if pay < min_pervote_daily_pay then 0 else pay, s1))"

definition pay_producer :: "sys_chain \<Rightarrow> name \<Rightarrow> name \<Rightarrow> int64 \<Rightarrow> string \<Rightarrow> sys_state \<Rightarrow> sys_state res" where
  "pay_producer c bucket owner n memo s =
     (if 0 < n then core_asset c s n (\<lambda>q.
        Inr (send_transfer [Perm bucket active_permission, Perm owner active_permission] bucket owner q memo s))
      else Inr s)"

text \<open>
  The producer's vote-pay share: whether its row (a new one, when it has none) was updated after
  the threshold of three days, the new share, and the row with the share reset.
\<close>

definition past_threshold :: "sys_chain \<Rightarrow> producer_info \<Rightarrow> bool" where
  "past_threshold c p \<longleftrightarrow> i64 (last_claim_time p + 3 * useconds_per_day) \<le> now_tp c"

definition claim_share :: "sys_chain \<Rightarrow> name \<Rightarrow> producer_info \<Rightarrow> sys_state \<Rightarrow> bool \<times> double \<times> sys_state" where
  "claim_share c owner p s =
     (let ct = now_tp c;
          (updated_after_threshold, p2) = (case fmlookup (producers2 s) owner of
             Some p2 \<Rightarrow> (i64 (last_claim_time p + 3 * useconds_per_day) \<le> last_votepay_share_update p2, p2)
           | None \<Rightarrow> (True, \<lparr>votepay_share = Fin 0, last_votepay_share_update = ct\<rparr>));
          (new_votepay_share, p2') = update_producer_votepay_share ct
            (if updated_after_threshold then Fin 0 else total_votes p) True p2 in
     (updated_after_threshold, new_votepay_share, s\<lparr>producers2 := fmupd owner p2' (producers2 s)\<rparr>))"

text \<open>Taking the two payments and the producer's blocks out of the global counters, and its row.\<close>

definition settle_claim ::
  "sys_chain \<Rightarrow> name \<Rightarrow> producer_info \<Rightarrow> bool \<Rightarrow> double \<Rightarrow> int64 \<Rightarrow> int64 \<Rightarrow> sys_state \<Rightarrow> sys_state" where
  "settle_claim c owner p updated_after_threshold new_votepay_share per_block_pay per_vote_pay s =
     (let g = gstate s;
          s1 = s\<lparr>gstate := g\<lparr>pervote_bucket := i64 (pervote_bucket g - per_vote_pay),
            perblock_bucket := i64 (perblock_bucket g - per_block_pay),
            total_unpaid_blocks := u32 (total_unpaid_blocks g - unpaid_blocks p)\<rparr>\<rparr>;
          s2 = snd (update_total_votepay_share (now_tp c) (dneg new_votepay_share)
            (if updated_after_threshold then total_votes p else Fin 0) s1) in
     s2\<lparr>producers := fmupd owner (p\<lparr>last_claim_time := now_tp c, unpaid_blocks := 0\<rparr>) (producers s2)\<rparr>)"

definition claimrewards :: "sys_chain \<Rightarrow> name \<Rightarrow> sys_state \<Rightarrow> sys_state res" where
  "claimrewards c owner s =
     require_auth c owner (
     the_row (fmlookup (producers s) owner) ''unable to find key'' (\<lambda>p.
     check (is_active p) ''producer does not have an active key'' (
     check (min_activated_stake \<le> total_activated_stake (gstate s))
       ''cannot claim rewards until the chain is activated (at least 15% of all tokens participate in voting)'' (
     check (useconds_per_day < i64 (now_tp c - last_claim_time p)) ''already claimed rewards within past day'' (
     with_core s (\<lambda>sy.
     bindr (get_supply (tokens s) (sym_code sy)) (\<lambda>token_supply.
     bindr (fill_buckets c token_supply s) (\<lambda>s1.
     case claim_share c owner p s1 of (updated_after_threshold, new_votepay_share, s2) \<Rightarrow>
     let per_block_pay = block_pay (gstate s1) p in
     bindr (vote_pay c (past_threshold c p) new_votepay_share p s2) (\<lambda>(per_vote_pay, s3).
     let s4 = settle_claim c owner p updated_after_threshold new_votepay_share per_block_pay per_vote_pay s3 in
     bindr (pay_producer c bpay_account owner per_block_pay ''producer block pay'' s4)
       (pay_producer c vpay_account owner per_vote_pay ''producer vote pay''))))))))))"

end
