(* ===== verification/Contract.thy ===== *)
theory Contract
  imports Pay
begin

text \<open>
  The contract eosio.system as a whole: the dispatch of its actions (EOSIO_DISPATCH in
  eosio.system.cpp), and the execution of an action together with the inline actions it sends to
  the token contract, which run after it, in order, and whose failure undoes it.
\<close>

datatype (plugins only: size) sys_action =
    Init uint32 symbol
  | OnBlock slot name
  | SetALimits name int64 int64 int64
  | SetAcctRam name "int64 option"
  | SetAcctNet name "int64 option"
  | SetAcctCpu name "int64 option"
  | DelegateBw name name asset asset bool
  | SetRex asset
  | Deposit name asset
  | Withdraw name asset
  | BuyRex name asset
  | UnstakeToRex name name asset asset
  | SellRex name asset
  | CnclRexOrder name
  | RentCpu name name asset asset
  | RentNet name name asset asset
  | FundCpuLoan name uint64 asset
  | FundNetLoan name uint64 asset
  | DefCpuLoan name uint64 asset
  | DefNetLoan name uint64 asset
  | UpdateRex name
  | RexExec name uint16
  | Consolidate name
  | MvToSavings name asset
  | MvFrSavings name asset
  | CloseRex name
  | UndelegateBw name name asset asset
  | BuyRam name name asset
  | BuyRamBytes name name uint32
  | SellRam name int64
  | Refund name
  | RegProducer name public_key string uint16
  | UnregProd name
  | SetRam uint64
  | SetRamRate uint16
  | VoteProducer name name "name list"
  | RegProxy name bool
  | SetParams blockchain_parameters
  | ClaimRewards name
  | SetPriv name uint8
  | RmvProducer name
  | UpdtRevision uint8
  | BidName name name asset
  | BidRefund name name
  | NewAccount name name
  | SetAbi name bytes

primrec apply_sys :: "sys_chain \<Rightarrow> sys_action \<Rightarrow> sys_state \<Rightarrow> sys_state res" where
  "apply_sys c (Init v core) s = init c v core s"
| "apply_sys c (OnBlock t p) s = onblock c t p s"
| "apply_sys c (SetALimits a ram net cpu) s = setalimits c a ram net cpu s"
| "apply_sys c (SetAcctRam a v) s = setacctram c a v s"
| "apply_sys c (SetAcctNet a v) s = setacctnet c a v s"
| "apply_sys c (SetAcctCpu a v) s = setacctcpu c a v s"
| "apply_sys c (DelegateBw f r n p t) s = delegatebw c f r n p t s"
| "apply_sys c (SetRex q) s = setrex c q s"
| "apply_sys c (Deposit n q) s = deposit c n q s"
| "apply_sys c (Withdraw n q) s = withdraw c n q s"
| "apply_sys c (BuyRex n q) s = buyrex c n q s"
| "apply_sys c (UnstakeToRex n r q p) s = unstaketorex c n r q p s"
| "apply_sys c (SellRex n q) s = sellrex c n q s"
| "apply_sys c (CnclRexOrder n) s = cnclrexorder c n s"
| "apply_sys c (RentCpu f r q p) s = rentcpu c f r q p s"
| "apply_sys c (RentNet f r q p) s = rentnet c f r q p s"
| "apply_sys c (FundCpuLoan n k q) s = fundloan CpuLoan c n k q s"
| "apply_sys c (FundNetLoan n k q) s = fundloan NetLoan c n k q s"
| "apply_sys c (DefCpuLoan n k q) s = defloan CpuLoan c n k q s"
| "apply_sys c (DefNetLoan n k q) s = defloan NetLoan c n k q s"
| "apply_sys c (UpdateRex n) s = updaterex c n s"
| "apply_sys c (RexExec n mx) s = rexexec c n mx s"
| "apply_sys c (Consolidate n) s = consolidate c n s"
| "apply_sys c (MvToSavings n q) s = mvtosavings c n q s"
| "apply_sys c (MvFrSavings n q) s = mvfrsavings c n q s"
| "apply_sys c (CloseRex n) s = closerex c n s"
| "apply_sys c (UndelegateBw f r n p) s = undelegatebw c f r n p s"
| "apply_sys c (BuyRam p r q) s = buyram c p r q s"
| "apply_sys c (BuyRamBytes p r n) s = buyrambytes c p r n s"
| "apply_sys c (SellRam a n) s = sellram c a n s"
| "apply_sys c (Refund n) s = refund c n s"
| "apply_sys c (RegProducer n k u l) s = regproducer c n k u l s"
| "apply_sys c (UnregProd n) s = unregprod c n s"
| "apply_sys c (SetRam n) s = setram c n s"
| "apply_sys c (SetRamRate n) s = setramrate c n s"
| "apply_sys c (VoteProducer n p ps) s = voteproducer c n p ps s"
| "apply_sys c (RegProxy n b) s = regproxy c n b s"
| "apply_sys c (SetParams p) s = setparams c p s"
| "apply_sys c (ClaimRewards n) s = claimrewards c n s"
| "apply_sys c (SetPriv n b) s = setpriv c n b s"
| "apply_sys c (RmvProducer n) s = rmvproducer c n s"
| "apply_sys c (UpdtRevision n) s = updtrevision c n s"
| "apply_sys c (BidName b n q) s = bidname c b n q s"
| "apply_sys c (BidRefund b n) s = bidrefund c b n s"
| "apply_sys c (NewAccount k n) s = newaccount c k n s"
| "apply_sys c (SetAbi n b) s = setabi c n b s"

text \<open>The context in which the token contract runs an inline action with the permissions \<open>ps\<close>.\<close>

definition token_ctx :: "sys_chain \<Rightarrow> permission_level list \<Rightarrow> chain" where
  "token_ctx c ps = with_auth ((chain.truncate c)\<lparr>self := token_account\<rparr>) ps"

fun run_outbox :: "sys_chain \<Rightarrow> inline_action list \<Rightarrow> token_state \<Rightarrow> token_state res" where
  "run_outbox c [] t = Inr t"
| "run_outbox c (ToToken ps a # as) t = bindr (exec_token (token_ctx c ps) a t) (run_outbox c as)"
| "run_outbox c (_ # as) t = run_outbox c as t"

definition exec_sys :: "sys_chain \<Rightarrow> sys_action \<Rightarrow> sys_state \<Rightarrow> sys_state res" where
  "exec_sys c a s =
     bindr (apply_sys c a (s\<lparr>outbox := []\<rparr>)) (\<lambda>s1.
     bindr (run_outbox c (outbox s1) (tokens s1)) (\<lambda>t.
     Inr (s1\<lparr>outbox := [], tokens := t\<rparr>)))"

text \<open>What happens on the chain: actions of the system contract and of the token contract.\<close>

datatype event = Sys sys_chain sys_action | Tok chain token_action

fun world_step :: "event \<Rightarrow> sys_state \<Rightarrow> sys_state res" where
  "world_step (Sys c a) s = exec_sys c a s"
| "world_step (Tok c a) s = bindr (exec_token c a (tokens s)) (\<lambda>t. Inr (s\<lparr>tokens := t\<rparr>))"

text \<open>The contract before \<open>init\<close>; the constructor takes the default global state from the host.\<close>

definition genesis :: "blockchain_parameters \<Rightarrow> (name \<Rightarrow> limits) \<Rightarrow> token_state \<Rightarrow> sys_state" where
  "genesis params lims t =
     \<lparr>voters = fmempty, producers = fmempty, producers2 = fmempty,
      gstate = \<lparr>blockchain_params = params, max_ram_size = 68719476736, total_ram_bytes_reserved = 0,
        total_ram_stake = 0, last_producer_schedule_update = 0, last_pervote_bucket_fill = 0,
        pervote_bucket = 0, perblock_bucket = 0, total_unpaid_blocks = 0, total_activated_stake = 0,
        thresh_activated_stake_time = 0, last_producer_schedule_size = 0,
        total_producer_vote_weight = Fin 0, last_name_close = 0\<rparr>,
      gstate2 = \<lparr>new_ram_per_block = 0, last_ram_increase = 0, last_block_num = 0,
        total_producer_votepay_share = Fin 0, revision = 0\<rparr>,
      gstate3 = \<lparr>last_vpay_state_update = 0, total_vpay_share_change_rate = Fin 0\<rparr>,
      rammarket = None, rexpool = None, rexfunds = fmempty, rexbalance = fmempty, rexorders = fmempty,
      cpu_loans = fmempty, net_loans = fmempty, userres = fmempty, delband = fmempty, refunds = fmempty,
      namebids = fmempty, bidrefunds = fmempty, abihash = fmempty, res_limits = lims,
      privileged = (\<lambda>_. False), active_params = None, proposed = [], pending = fmempty,
      outbox = [], tokens = t\<rparr>"

end
