(* ===== verification/Frame.thy ===== *)
theory Frame
  imports Contract
begin

text \<open>
  What voting leaves alone. \<open>view\<close> is the part of the state in which tokens, REX, RAM, bandwidth
  and names are accounted for; every procedure that only moves votes keeps it. The proofs about
  the money of the contract use these facts instead of the definitions in \<open>Voting\<close>.
\<close>

named_theorems frames \<open>procedures that keep the view of the state\<close>

definition rb_view :: "rex_balance \<Rightarrow> asset \<times> int64 \<times> (time_point_sec \<times> int64) list" where
  "rb_view rb = (rex_bal rb, matured_rex rb, rex_maturities rb)"

definition unpaid_sum :: "sys_state \<Rightarrow> int" where
  "unpaid_sum s = fmsum (\<lambda>_ p. unpaid_blocks p) (producers s)"

definition g_view where
  "g_view g = (max_ram_size g, total_ram_bytes_reserved g, total_ram_stake g, pervote_bucket g,
     perblock_bucket g, total_unpaid_blocks g)"

definition view where
  "view s = (rammarket s, rexpool s, rexfunds s, fmmap rb_view (rexbalance s), rexorders s, cpu_loans s,
     net_loans s, userres s, delband s, refunds s, namebids s, bidrefunds s, outbox s, tokens s,
     g_view (gstate s), unpaid_sum s)"

lemma viewD:
  assumes "view s' = view s"
  shows "rammarket s' = rammarket s" "rexpool s' = rexpool s" "rexfunds s' = rexfunds s"
    "fmmap rb_view (rexbalance s') = fmmap rb_view (rexbalance s)" "rexorders s' = rexorders s"
    "cpu_loans s' = cpu_loans s" "net_loans s' = net_loans s" "userres s' = userres s"
    "delband s' = delband s" "refunds s' = refunds s" "namebids s' = namebids s"
    "bidrefunds s' = bidrefunds s" "outbox s' = outbox s" "tokens s' = tokens s"
    "g_view (gstate s') = g_view (gstate s)" "unpaid_sum s' = unpaid_sum s"
  using assms by (simp_all add: view_def)

lemma view_set_voter [simp]: "view (set_voter n v s) = view s"
  by (simp add: view_def set_voter_def unpaid_sum_def)

lemma view_total_share: "update_total_votepay_share ct a r s = (d, s') \<Longrightarrow> view s' = view s"
  by (auto simp: update_total_votepay_share_def view_def unpaid_sum_def Let_def)

lemma view_total_share_snd [simp]: "view (snd (update_total_votepay_share ct a r s)) = view s"
  by (auto simp: update_total_votepay_share_def view_def unpaid_sum_def Let_def)

lemma view_finish_votepay [simp]: "view (finish_votepay c acc) = view (snd (snd acc))"
  by (auto simp: finish_votepay_def split: prod.splits)

lemma view_change_producer_votes:
  assumes "fmlookup (producers (snd (snd acc))) n = Some pr"
  shows "view (snd (snd (change_producer_votes c clip n delta pr acc))) = view (snd (snd acc))"
  using assms
  by (auto simp: change_producer_votes_def view_def g_view_def unpaid_sum_def Let_def fmsum_upd
      split: prod.splits option.splits)

lemma view_propagate_to_producer:
  "propagate_to_producer c delta n acc = Inr acc' \<Longrightarrow> view (snd (snd acc')) = view (snd (snd acc))"
  by (auto simp: propagate_to_producer_def the_row_Inr view_change_producer_votes)

lemma view_vote_for:
  "vote_for c voting pd acc = Inr acc' \<Longrightarrow> view (snd (snd acc')) = view (snd (snd acc))"
  by (auto simp: vote_for_def view_change_producer_votes split: prod.splits option.splits)

lemma view_propagate: "propagate f c n s = Inr s' \<Longrightarrow> view s' = view s"
proof (induction f arbitrary: n s s')
  case (Suc f)
  have loop: "view s1 = view s"
    if "run_all (propagate_to_producer c d) ps (Fin 0, Fin 0, s) = Inr (x, y, s1)" for d ps x y s s1
    using run_all_keeps [where v = "\<lambda>a. view (snd (snd a))", OF view_propagate_to_producer that] by simp
  from Suc.prems show ?case
    by (auto simp: res_simps Let_def dest!: loop Suc.IH split: if_splits)
qed simp

lemma view_propagate_weight_change [frames]:
  "propagate_weight_change c n s = Inr s' \<Longrightarrow> view s' = view s"
  unfolding propagate_weight_change_def by (rule view_propagate)

lemma view_activate_stake [simp]: "view (activate_stake c v s) = view s"
  by (simp add: activate_stake_def view_def g_view_def unpaid_sum_def Let_def)

lemma view_undo_votes: "undo_votes c v s = Inr (d, s') \<Longrightarrow> view s' = view s"
  by (auto simp: undo_votes_def res_simps dest!: view_propagate_weight_change split: if_splits)

lemma view_cast_votes: "cast_votes c voting p ps w (d, s) = Inr (d', s') \<Longrightarrow> view s' = view s"
  by (auto simp: cast_votes_def res_simps dest!: view_propagate_weight_change split: if_splits)

lemma check_vote_input_Inr [res_simps]:
  "check_vote_input v p ps k = Inr y \<longleftrightarrow>
     (if p \<noteq> 0 then ps = [] \<and> v \<noteq> p else length ps \<le> 30 \<and> strictly_sorted ps) \<and> k = Inr y"
  by (auto simp: check_vote_input_def)

lemma view_update_votes [frames]: "update_votes c n p ps voting s = Inr s' \<Longrightarrow> view s' = view s"
proof -
  assume "update_votes c n p ps voting s = Inr s'"
  then obtain v d1 s1 d2 s2 acc v3 where
    u: "undo_votes c v (activate_stake c v s) = Inr (d1, s1)"
    and k: "cast_votes c voting p ps (voter_weight c v) (d1, s1) = Inr (d2, s2)"
    and r: "run_all (vote_for c voting) (sorted_list_of_fmap d2) (Fin 0, Fin 0, s2) = Inr acc"
    and s': "s' = set_voter n (v3\<lparr>last_vote_weight := voter_weight c v, v_producers := ps, v_proxy := p\<rparr>)
      (finish_votepay c acc)"
    unfolding update_votes_def Let_def res_simps by fast
  show ?thesis
    using view_undo_votes [OF u] view_cast_votes [OF k] s'
      run_all_keeps [where v = "\<lambda>a. view (snd (snd a))", OF view_vote_for r] by simp
qed

lemma validate_b1_vesting_Inr: "validate_b1_vesting c st k = Inr y \<Longrightarrow> k = Inr y"
  by (auto simp: validate_b1_vesting_def Let_def res_simps)

lemma view_update_voting_power [frames]: "update_voting_power c n q s = Inr s' \<Longrightarrow> view s' = view s"
  by (auto simp: update_voting_power_def Let_def dest!: validate_b1_vesting_Inr view_update_votes
      split: if_splits)

lemma fmupd_same: "fmlookup m k = Some v \<Longrightarrow> fmupd k v m = m"
  by (rule fmap_ext) auto

lemma view_restake:
  assumes "fmlookup (rexbalance s) n = Some rb"
  shows "view (s\<lparr>rexbalance := fmupd n (rb\<lparr>vote_stake := q\<rparr>) (rexbalance s)\<rparr>) = view s"
  using assms fmupd_same [of "fmmap rb_view (rexbalance s)" n "rb_view rb"]
  by (simp add: view_def unpaid_sum_def fmmap_fmupd) (simp add: rb_view_def)

lemma view_voters [simp]: "view (s\<lparr>voters := v\<rparr>) = view s"
  by (simp add: view_def unpaid_sum_def)

lemma view_update_rex_stake [frames]: "update_rex_stake c n s = Inr s' \<Longrightarrow> view s' = view s"
  by (auto simp: update_rex_stake_def res_simps view_restake split: option.splits if_splits)

lemma view_regproxy [frames]: "regproxy c n b s = Inr s' \<Longrightarrow> view s' = view s"
  by (auto simp: regproxy_def dest!: view_propagate_weight_change split: option.splits)

lemma check_voting_requirement_Inr [res_simps]:
  "check_voting_requirement n msg s k = Inr y \<longleftrightarrow>
     (\<exists>v. fmlookup (voters s) n = Some v \<and> (v_proxy v \<noteq> 0 \<or> 21 \<le> length (v_producers v))) \<and> k = Inr y"
  by (auto simp: check_voting_requirement_def split: option.splits)

lemma view_voteproducer [frames]: "voteproducer c n p ps s = Inr s' \<Longrightarrow> view s' = view s"
  by (auto simp: voteproducer_def res_simps dest!: view_update_rex_stake view_update_votes
      split: option.splits if_splits)

end
