(* ===== verification/Escrow.thy ===== *)
theory Escrow
  imports Frame
begin

text \<open>
  Money held for others. The contract keeps tokens in accounts of its own (stake, RAM, names, pay
  buckets, REX) and records in its tables to whom they belong. The interface \<open>escrow\<close> is what
  such a pair of an account and a record of what it owes promises; from it follows, for every run
  of the chain, that the account always covers what it owes.
\<close>

section \<open>What the inline actions of an action move\<close>

fun inline_flow :: "symbol_code \<Rightarrow> name \<Rightarrow> inline_action \<Rightarrow> int" where
  "inline_flow code n (ToToken ps a) = token_flow code n a"
| "inline_flow code n _ = 0"

definition flows :: "symbol_code \<Rightarrow> name \<Rightarrow> inline_action list \<Rightarrow> int" where
  "flows code n as = sum_list (map (inline_flow code n) as)"

lemma flows_simps [simp]:
  "flows code n [] = 0" "flows code n (a # as) = inline_flow code n a + flows code n as"
  "flows code n (as @ bs) = flows code n as + flows code n bs"
  by (simp_all add: flows_def)

text \<open>The accounts that send tokens, and the conditions a send that succeeds fulfils.\<close>

fun sender :: "inline_action \<Rightarrow> name set" where
  "sender (ToToken ps (Transfer f t q memo)) = {f}"
| "sender _ = {}"

definition senders :: "inline_action list \<Rightarrow> name set" where
  "senders as = (\<Union>a\<in>set as. sender a)"

lemma senders_simps [simp]:
  "senders [] = {}" "senders (a # as) = sender a \<union> senders as"
  "senders (as @ bs) = senders as \<union> senders bs"
  by (simp_all add: senders_def)

fun sent :: "inline_action \<Rightarrow> bool" where
  "sent (ToToken ps (Transfer f t q memo)) \<longleftrightarrow> 0 < amount q \<and> amount q \<le> max_amount \<and> f \<noteq> t"
| "sent (ToToken ps (Issue t q memo)) \<longleftrightarrow> 0 < amount q \<and> amount q \<le> max_amount"
| "sent (ToToken ps (Open n sy p)) \<longleftrightarrow> True"
| "sent (ToToken ps _) \<longleftrightarrow> False"
| "sent _ \<longleftrightarrow> True"

definition all_sent :: "inline_action list \<Rightarrow> bool" where
  "all_sent as \<longleftrightarrow> (\<forall>a\<in>set as. sent a)"

lemma all_sent_simps [simp]:
  "all_sent []" "all_sent (a # as) \<longleftrightarrow> sent a \<and> all_sent as"
  "all_sent (as @ bs) \<longleftrightarrow> all_sent as \<and> all_sent bs"
  by (auto simp: all_sent_def)

lemma flow_nonneg: "sent a \<Longrightarrow> n \<notin> sender a \<Longrightarrow> 0 \<le> inline_flow code n a"
  by (cases a rule: sent.cases) auto

lemma flows_nonneg: "all_sent as \<Longrightarrow> n \<notin> senders as \<Longrightarrow> 0 \<le> flows code n as"
  by (induction as) (auto simp: flow_nonneg intro: add_nonneg_nonneg)

text \<open>The token actions the contract sends are transfers, issues and opens.\<close>

fun plain :: "inline_action \<Rightarrow> bool" where
  "plain (ToToken ps (Create i m)) \<longleftrightarrow> False"
| "plain (ToToken ps (Retire q memo)) \<longleftrightarrow> False"
| "plain (ToToken ps (Close n sy)) \<longleftrightarrow> False"
| "plain _ \<longleftrightarrow> True"

definition all_plain :: "inline_action list \<Rightarrow> bool" where
  "all_plain as \<longleftrightarrow> (\<forall>a\<in>set as. plain a)"

lemma all_plain_simps [simp]:
  "all_plain []" "all_plain (a # as) \<longleftrightarrow> plain a \<and> all_plain as"
  "all_plain (as @ bs) \<longleftrightarrow> all_plain as \<and> all_plain bs"
  by (auto simp: all_plain_def)

lemma token_ctx_ok [simp]: "asset_ops_ok c \<Longrightarrow> asset_ops_ok (token_ctx c ps)"
  by (simp add: token_ctx_def with_auth_def asset_ops_ok_def chain.defs)

lemma exec_issue_positive:
  assumes ok: "asset_ops_ok c" and "exec_token c (Issue t q memo) s = Inr s'"
  shows "0 < amount q \<and> amount q \<le> max_amount"
proof -
  from assms(2) obtain s1 where "issue c t q memo (s\<lparr>inlines := []\<rparr>) = Inr s1"
    by (auto simp: exec_token_def bindr_Inr)
  then have "asset_valid c q" "0 < amount q" unfolding issue_def Let_def res_simps by blast+
  then show ?thesis using lib_simps [OF ok] by auto
qed

lemma exec_plain_sent:
  assumes "asset_ops_ok c" "plain (ToToken ps a)" "exec_token c a t = Inr t'"
  shows "sent (ToToken ps a)"
proof (cases a)
  case (Issue to q memo)
  with exec_issue_positive [OF assms(1)] assms(3) show ?thesis by auto
next
  case (Transfer f to q memo)
  with exec_transfer_positive [OF assms(1)] assms(3) show ?thesis by auto
qed (use assms(2) in auto)

lemma run_outbox_flows:
  assumes ok: "asset_ops_ok c" and "all_plain as" "run_outbox c as t = Inr t'"
  shows "bal code t' n = bal code t n + flows code n as \<and> all_sent as"
  using assms(2,3)
proof (induction as arbitrary: t)
  case (Cons x as)
  show ?case
  proof (cases x)
    case (ToToken ps a)
    with Cons.prems obtain t1 where t1: "exec_token (token_ctx c ps) a t = Inr t1"
      "run_outbox c as t1 = Inr t'" and p: "plain (ToToken ps a)" "all_plain as"
      by (auto simp: bindr_Inr)
    have nr: "a \<noteq> Retire q memo" for q memo using p(1) by auto
    from exec_token_flow [OF token_ctx_ok [OF ok] t1(1) nr] Cons.IH [OF p(2) t1(2)]
      exec_plain_sent [OF token_ctx_ok [OF ok] p(1) t1(1)] ToToken
    show ?thesis by simp
  qed (use Cons in auto)
qed simp

lemma run_outbox_inv:
  "asset_ops_ok c \<Longrightarrow> ledger_inv t \<Longrightarrow> run_outbox c as t = Inr t' \<Longrightarrow> ledger_inv t'"
proof (induction as arbitrary: t)
  case (Cons x as)
  then show ?case by (cases x) (auto simp: bindr_Inr dest: exec_token_inv [OF token_ctx_ok])
qed simp

section \<open>Good contexts\<close>

text \<open>
  The accounts in which the contract keeps money sign nothing themselves: their permissions are
  used only for the inline actions of the contract.
\<close>

definition held_accounts :: "name set" where
  "held_accounts = {ram_account, ramfee_account, stake_account, bpay_account, vpay_account,
     names_account, rex_account}"

definition good_ctx :: "sys_chain \<Rightarrow> bool" where
  "good_ctx c \<longleftrightarrow> asset_ops_ok c \<and> time_ops_ok c \<and> self c = eosio_account
     \<and> (\<forall>n\<in>held_accounts. \<not> has_auth c n)"

text \<open>The core symbol is fixed, and is neither of the two symbols the RAM market uses itself.\<close>

fun good_action :: "symbol \<Rightarrow> sys_action \<Rightarrow> bool" where
  "good_action core (Init v sy) \<longleftrightarrow> sy = core"
| "good_action core _ \<longleftrightarrow> True"

fun good_event :: "symbol \<Rightarrow> event \<Rightarrow> bool" where
  "good_event core (Sys c a) \<longleftrightarrow> good_ctx c \<and> good_action core a"
| "good_event core (Tok c a) \<longleftrightarrow> asset_ops_ok c \<and> (\<forall>n\<in>held_accounts. \<not> has_auth c n)"

definition market_ok :: "symbol \<Rightarrow> sys_state \<Rightarrow> bool" where
  "market_ok core s \<longleftrightarrow> core \<noteq> ram_symbol \<and> core \<noteq> ramcore_symbol
     \<and> (\<forall>m. rammarket s = Some m \<longrightarrow> symb (ex_supply m) = ramcore_symbol \<and> in_i64 (amount (ex_supply m))
         \<and> symb (c_balance (base m)) = ram_symbol \<and> symb (c_balance (quote m)) = core)"

lemma market_ok_core: "market_ok core s \<Longrightarrow> core_sym s = Some sy \<Longrightarrow> sy = core"
  by (auto simp: market_ok_def core_sym_def)

section \<open>The interface\<close>

text \<open>
  \<open>owed\<close> is what the account \<open>acct\<close> owes and \<open>wf\<close> what the tables promise about it. An action
  whose inline actions succeed raises what is owed by no more than they bring in.
\<close>

definition covers :: "symbol \<Rightarrow> name \<Rightarrow> (sys_state \<Rightarrow> int) \<Rightarrow> sys_state \<Rightarrow> bool" where
  "covers core acct owed s \<longleftrightarrow> ledger_inv (tokens s) \<and> owed s \<le> bal (sym_code core) (tokens s) acct"

text \<open>A bound on the supply of the core token, which only its creation sets.\<close>

definition capped :: "int \<Rightarrow> symbol \<Rightarrow> token_state \<Rightarrow> bool" where
  "capped cap core t \<longleftrightarrow> (\<forall>st. fmlookup (stats t) (sym_code core) = Some st \<longrightarrow> amount (max_supply st) \<le> cap)"

fun creates_within :: "int \<Rightarrow> symbol \<Rightarrow> token_action \<Rightarrow> bool" where
  "creates_within cap core (Create i q) \<longleftrightarrow> (sym_code (symb q) = sym_code core \<longrightarrow> amount q \<le> cap)"
| "creates_within cap core _ \<longleftrightarrow> True"

lemma bal_le_cap:
  assumes "ledger_inv t" "capped cap core t" "0 \<le> cap" shows "bal (sym_code core) t n \<le> cap"
proof (cases "fmlookup (stats t) (sym_code core)")
  case None
  then have "fmlookup (accounts t) (n, sym_code core) = None"
    using ledger_invD(2) [OF assms(1), of n "sym_code core"]
    by (cases "fmlookup (accounts t) (n, sym_code core)") (auto simp: row_ok_def)
  then show ?thesis using assms(3) by (simp add: bal_unfold)
next
  case (Some st)
  have "bal (sym_code core) t n + bal (sym_code core) t (n + 1) \<le> amount (cur_supply st)"
    by (rule bal_two_le_supply [OF assms(1) Some]) simp
  then show ?thesis
    using ledger_invD(1) [OF assms(1) Some] bal_nonneg [OF assms(1), of "sym_code core" "n + 1"] assms(2) Some
    by (auto simp: stat_ok_def capped_def)
qed

lemma capped_always: "ledger_inv t \<Longrightarrow> capped max_amount core t"
  by (auto simp: capped_def stat_ok_def dest: ledger_invD(1))

lemma exec_token_capped:
  assumes "asset_ops_ok c" "capped cap core t" "exec_token c a t = Inr t'" "creates_within cap core a"
  shows "capped cap core t'"
proof (cases a)
  case (Issue to q memo)
  then have "exec_token c (Issue to q memo) t = Inr t'" using assms(3) by simp
  from exec_issue [OF assms(1) this] show ?thesis using assms(2) by (auto simp: capped_def split: if_splits)
next
  case (Create i q)
  with assms(2-4) show ?thesis by (auto simp: exec_token_def create_def Let_def res_simps capped_def split: if_splits)
next
  case (Retire q memo)
  with assms(2,3) show ?thesis
    by (auto simp: exec_token_def retire_def Let_def res_simps capped_def dest!: sub_balance_stats split: if_splits)
next
  case (Transfer f to q memo)
  with assms(2,3) show ?thesis
    by (auto simp: exec_token_def transfer_def Let_def res_simps capped_def dest!: sub_balance_stats add_balance_stats)
next
  case (Open n sy p)
  with assms(2,3) show ?thesis
    by (auto simp: exec_token_def open_row_def res_simps capped_def split: option.splits)
next
  case (Close n sy)
  with assms(2,3) show ?thesis by (auto simp: exec_token_def close_row_def res_simps capped_def)
qed

lemma run_outbox_capped:
  "asset_ops_ok c \<Longrightarrow> all_plain as \<Longrightarrow> capped cap core t \<Longrightarrow> run_outbox c as t = Inr t' \<Longrightarrow> capped cap core t'"
proof (induction as arbitrary: t)
  case (Cons x as)
  show ?case
  proof (cases x)
    case (ToToken ps a)
    with Cons.prems obtain t1 where t1: "exec_token (token_ctx c ps) a t = Inr t1" "run_outbox c as t1 = Inr t'"
      and p: "plain (ToToken ps a)" by (auto simp: bindr_Inr)
    have "creates_within cap core a" using p by (cases a) auto
    then show ?thesis
      using exec_token_capped [OF token_ctx_ok [OF Cons.prems(1)] Cons.prems(3) t1(1)] Cons.IH [OF Cons.prems(1) _ _ t1(2)]
        Cons.prems(2) by simp
  qed (use Cons in auto)
qed simp

text \<open>
  The interface of an escrow on a chain whose core token has at most \<open>cap\<close> units: an action (from
  the \<open>fair\<close> ones) may take for granted that the account ends up with no more than that.
\<close>

locale capped_escrow =
  fixes cap :: int
    and fair :: "sys_action \<Rightarrow> bool"
    and core :: symbol
    and acct :: name
    and wf :: "sys_state \<Rightarrow> bool"
    and owed :: "sys_state \<Rightarrow> int"
  assumes held: "acct \<in> held_accounts"
    and cap_nonneg: "0 \<le> cap"
    and effects_only [simp]: "owed (s\<lparr>outbox := l\<rparr>) = owed s" "owed (s\<lparr>tokens := t\<rparr>) = owed s"
      "wf (s\<lparr>outbox := l\<rparr>) = wf s" "wf (s\<lparr>tokens := t\<rparr>) = wf s"
    and action_owed: "good_ctx c \<Longrightarrow> good_action core a \<Longrightarrow> fair a \<Longrightarrow> wf s \<Longrightarrow> outbox s = []
      \<Longrightarrow> 0 \<le> bal (sym_code core) (tokens s) acct \<Longrightarrow> bal (sym_code core) (tokens s) acct \<le> cap
      \<Longrightarrow> owed s \<le> bal (sym_code core) (tokens s) acct
      \<Longrightarrow> apply_sys c a s = Inr s'
      \<Longrightarrow> all_plain (outbox s') \<and> tokens s' = tokens s
        \<and> (all_sent (outbox s') \<longrightarrow> bal (sym_code core) (tokens s) acct + flows (sym_code core) acct (outbox s') \<le> cap
          \<longrightarrow> wf s' \<and> owed s' \<le> owed s + flows (sym_code core) acct (outbox s'))"
begin

lemma action_covers:
  assumes "good_ctx c" "good_action core a" "fair a" "wf s \<and> covers core acct owed s \<and> outbox s = []"
    and "capped cap core (tokens s)" "world_step (Sys c a) s = Inr s'"
  shows "(wf s' \<and> covers core acct owed s' \<and> outbox s' = []) \<and> capped cap core (tokens s')"
proof -
  from assms(6) obtain s1 t where s1: "apply_sys c a (s\<lparr>outbox := []\<rparr>) = Inr s1"
    and t: "run_outbox c (outbox s1) (tokens s1) = Inr t" and s': "s' = s1\<lparr>outbox := [], tokens := t\<rparr>"
    by (auto simp: exec_sys_def res_simps)
  have ok: "asset_ops_ok c" using assms(1) by (simp add: good_ctx_def)
  have s: "s\<lparr>outbox := []\<rparr> = s" using assms(4) by simp
  have inv: "ledger_inv (tokens s)" and owed: "owed s \<le> bal (sym_code core) (tokens s) acct"
    using assms(4) by (auto simp: covers_def)
  have p: "all_plain (outbox s1)" "tokens s1 = tokens s"
    "all_sent (outbox s1) \<longrightarrow> bal (sym_code core) (tokens s) acct + flows (sym_code core) acct (outbox s1) \<le> cap
      \<longrightarrow> wf s1 \<and> owed s1 \<le> owed s + flows (sym_code core) acct (outbox s1)"
    using action_owed [OF assms(1-3) _ _ bal_nonneg [OF inv] bal_le_cap [OF inv assms(5) cap_nonneg] owed s1 [unfolded s]]
      assms(4) by auto
  have inv': "ledger_inv t" using run_outbox_inv [OF ok _ t] inv p(2) by simp
  have cap': "capped cap core t" using run_outbox_capped [OF ok p(1) _ t] assms(5) p(2) by simp
  have "wf s1 \<and> owed s1 \<le> bal (sym_code core) t acct"
    using run_outbox_flows [OF ok p(1) t, of "sym_code core" acct] p(2,3) owed bal_le_cap [OF inv' cap' cap_nonneg, of acct]
    by auto
  then show ?thesis using inv' cap' by (simp add: covers_def s')
qed

lemma token_covers:
  assumes "asset_ops_ok c" "\<not> has_auth c acct" "wf s \<and> covers core acct owed s \<and> outbox s = []"
    and "world_step (Tok c a) s = Inr s'"
  shows "wf s' \<and> covers core acct owed s' \<and> outbox s' = []"
proof -
  from assms(4) obtain t where t: "exec_token c a (tokens s) = Inr t" and s': "s' = s\<lparr>tokens := t\<rparr>"
    by (auto simp: res_simps)
  have inv: "ledger_inv (tokens s)" using assms(3) by (simp add: covers_def)
  have "bal (sym_code core) (tokens s) acct \<le> bal (sym_code core) t acct"
    using drop_needs_auth [OF assms(1) t inv, of "sym_code core" acct] assms(2) by fastforce
  then show ?thesis using assms(3) exec_token_inv [OF assms(1) inv t] by (auto simp: covers_def s')
qed

end

fun modest_event :: "int \<Rightarrow> (sys_action \<Rightarrow> bool) \<Rightarrow> symbol \<Rightarrow> event \<Rightarrow> bool" where
  "modest_event cap fair core (Sys c a) \<longleftrightarrow> good_event core (Sys c a) \<and> fair a"
| "modest_event cap fair core (Tok c a) \<longleftrightarrow> good_event core (Tok c a) \<and> creates_within cap core a"

sublocale capped_escrow \<subseteq> bounded: machine world_step "modest_event cap fair core"
  "\<lambda>s. (wf s \<and> covers core acct owed s \<and> outbox s = []) \<and> capped cap core (tokens s)"
proof unfold_locales
  fix e s s'
  assume e: "modest_event cap fair core e" "world_step e s = Inr s'"
    and i: "(wf s \<and> covers core acct owed s \<and> outbox s = []) \<and> capped cap core (tokens s)"
  show "(wf s' \<and> covers core acct owed s' \<and> outbox s' = []) \<and> capped cap core (tokens s')"
  proof (cases e)
    case (Sys c a)
    with e i show ?thesis by (intro action_covers [of c a s s']) auto
  next
    case (Tok c a)
    with e i have "capped cap core (tokens s')" by (auto simp: res_simps intro: exec_token_capped)
    then show ?thesis using token_covers [of c s a s'] e i Tok held by auto
  qed
qed

text \<open>Without such a bound, the range of an asset's amount is one, for any token and any action.\<close>

locale escrow = capped_escrow max_amount "\<lambda>_. True" core acct wf owed
  for core :: symbol and acct :: name and wf :: "sys_state \<Rightarrow> bool" and owed :: "sys_state \<Rightarrow> int"

sublocale escrow \<subseteq> chain: machine world_step "good_event core"
  "\<lambda>s. wf s \<and> covers core acct owed s \<and> outbox s = []"
proof unfold_locales
  fix e s s'
  assume e: "good_event core e" "world_step e s = Inr s'" and i: "wf s \<and> covers core acct owed s \<and> outbox s = []"
  then have "capped max_amount core (tokens s)" by (auto simp: covers_def intro: capped_always)
  then show "wf s' \<and> covers core acct owed s' \<and> outbox s' = []"
    using e i action_covers [of _ _ s s'] token_covers [of _ s _ s'] held by (cases e) auto
qed

text \<open>An invariant of the tables alone, which no action of the contract breaks.\<close>

locale steady =
  fixes core :: symbol
    and holds :: "sys_state \<Rightarrow> bool"
  assumes ignores [simp]: "holds (s\<lparr>outbox := l\<rparr>) = holds s" "holds (s\<lparr>tokens := t\<rparr>) = holds s"
    and action_keeps: "good_ctx c \<Longrightarrow> good_action core a \<Longrightarrow> holds s \<Longrightarrow> apply_sys c a s = Inr s' \<Longrightarrow> holds s'"
begin

lemma event_keeps:
  assumes "good_event core e" "holds s" "world_step e s = Inr s'" shows "holds s'"
proof (cases e)
  case (Sys c a)
  with assms(3) obtain s1 t where s1: "apply_sys c a (s\<lparr>outbox := []\<rparr>) = Inr s1" "s' = s1\<lparr>outbox := [], tokens := t\<rparr>"
    by (auto simp: exec_sys_def res_simps)
  have "holds s1" using action_keeps [OF _ _ _ s1(1)] assms(1,2) Sys by simp
  then have "holds (s1\<lparr>outbox := []\<rparr>\<lparr>tokens := t\<rparr>)" by (simp only: ignores)
  then show ?thesis by (simp add: s1(2))
next
  case (Tok c a)
  with assms show ?thesis by (auto simp: res_simps)
qed

end

sublocale steady \<subseteq> world: machine world_step "good_event core" holds
  by unfold_locales (rule event_keeps)

end
