(* ===== verification/Proxies.thy ===== *)
theory Proxies
  imports Frame
begin

text \<open>
  Who votes through whom. A voter points to its proxy, which may point further once it no longer
  is a registered proxy itself; the vote weights are propagated along these pointers by a
  recursion. This theory shows what each procedure does to the pointers.
\<close>

definition pview :: "voter_info \<Rightarrow> name \<times> bool" where
  "pview v = (v_proxy v, is_proxy v)"

definition pmap :: "sys_state \<Rightarrow> (name, name \<times> bool) fmap" where
  "pmap s = fmmap pview (voters s)"

lemma pmap_lookup: "fmlookup (voters s) n = Some v \<Longrightarrow> fmlookup (pmap s) n = Some (pview v)"
  by (simp add: pmap_def)

lemma pmap_cong: "voters s' = voters s \<Longrightarrow> pmap s' = pmap s"
  by (simp add: pmap_def)

lemma pmap_set_voter: "pmap (set_voter n v s) = fmupd n (pview v) (pmap s)"
  by (simp add: pmap_def set_voter_def fmmap_fmupd)

lemma pmap_set_same:
  assumes "fmlookup (pmap s) n = Some (pview v)" shows "pmap (set_voter n v s) = pmap s"
  using assms by (simp add: pmap_set_voter fmupd_same)

named_theorems pmaps \<open>procedures that keep the proxies of all voters\<close>

lemma pmap_fields [simp]:
  "pmap (s\<lparr>producers := p\<rparr>) = pmap s" "pmap (s\<lparr>producers2 := p2\<rparr>) = pmap s" "pmap (s\<lparr>gstate := g\<rparr>) = pmap s"
  "pmap (s\<lparr>gstate2 := g2\<rparr>) = pmap s" "pmap (s\<lparr>gstate3 := g3\<rparr>) = pmap s" "pmap (s\<lparr>rexbalance := b\<rparr>) = pmap s"
  by (simp_all add: pmap_def)

lemma pmap_total_share [simp]: "pmap (snd (update_total_votepay_share ct a r s)) = pmap s"
  by (simp add: update_total_votepay_share_def Let_def)

lemma pmap_finish [simp]: "pmap (finish_votepay c acc) = pmap (snd (snd acc))"
  by (auto simp: finish_votepay_def split: prod.splits)

lemma pmap_change_votes [simp]: "pmap (snd (snd (change_producer_votes c clip n d pr acc))) = pmap (snd (snd acc))"
  by (auto simp: change_producer_votes_def Let_def split: prod.splits option.splits)

lemma pmap_to_producer: "propagate_to_producer c d n acc = Inr acc' \<Longrightarrow> pmap (snd (snd acc')) = pmap (snd (snd acc))"
  by (auto simp: propagate_to_producer_def the_row_Inr)

lemma pmap_vote_for: "vote_for c voting pd acc = Inr acc' \<Longrightarrow> pmap (snd (snd acc')) = pmap (snd (snd acc))"
  by (auto simp: vote_for_def split: prod.splits option.splits)

lemma pmap_propagate: "propagate f c n s = Inr s' \<Longrightarrow> pmap s' = pmap s"
proof (induction f arbitrary: n s s')
  case (Suc f)
  have loop: "pmap s1 = pmap s"
    if "run_all (propagate_to_producer c d) ps (Fin 0, Fin 0, s) = Inr (x, y, s1)" for d ps x y s s1
    using run_all_keeps [where v = "\<lambda>a. pmap (snd (snd a))", OF pmap_to_producer that] by simp
  have set: "pmap (set_voter k (p\<lparr>proxied_vote_weight := w\<rparr>) s) = pmap s"
    "pmap (set_voter k (p\<lparr>last_vote_weight := w\<rparr>) s) = pmap s" if "fmlookup (voters s) k = Some p" for k p w s
    by (rule pmap_set_same; simp add: pmap_lookup [OF that] pview_def)+
  define m where "m v = (if dlt (Fin 1) (dabs (dsub (voter_weight c v) (last_vote_weight v))) then
         if v_proxy v \<noteq> 0 then
           the_row (fmlookup (voters s) (v_proxy v)) ''proxy not found'' (\<lambda>p.
           propagate f c (v_proxy v) (set_voter (v_proxy v)
             (p\<lparr>proxied_vote_weight := dadd (proxied_vote_weight p) (dsub (voter_weight c v) (last_vote_weight v))\<rparr>) s))
         else
           bindr (run_all (propagate_to_producer c (dsub (voter_weight c v) (last_vote_weight v)))
             (v_producers v) (Fin 0, Fin 0, s)) (\<lambda>acc. Inr (finish_votepay c acc))
       else Inr s)" for v
  from Suc.prems obtain v s1 v1 where m: "m v = Inr s1"
    and v1: "fmlookup (voters s1) n = Some v1" and s': "s' = set_voter n (v1\<lparr>last_vote_weight := voter_weight c v\<rparr>) s1"
    unfolding propagate.simps Let_def m_def [symmetric] res_simps by blast
  have "pmap s1 = pmap s"
    using m unfolding m_def by (auto simp: res_simps set dest!: loop Suc.IH split: if_splits)
  then show ?case using set(2) [OF v1] by (simp add: s')
qed simp

lemma pmap_propagate_weight [pmaps]: "propagate_weight_change c n s = Inr s' \<Longrightarrow> pmap s' = pmap s"
  unfolding propagate_weight_change_def by (rule pmap_propagate)

lemma pmap_activate [simp]: "pmap (activate_stake c v s) = pmap s"
  by (simp add: activate_stake_def Let_def)

lemma pmap_proxied: "fmlookup (voters s) k = Some p \<Longrightarrow> pmap (set_voter k (p\<lparr>proxied_vote_weight := w\<rparr>) s) = pmap s"
  by (rule pmap_set_same) (simp add: pmap_lookup pview_def)

lemma pmap_undo: "undo_votes c v s = Inr (d, s') \<Longrightarrow> pmap s' = pmap s"
  by (auto simp: undo_votes_def res_simps pmap_proxied dest!: pmap_propagate_weight split: if_splits)

lemma pmap_cast: "cast_votes c voting p ps w (d, s) = Inr (d', s') \<Longrightarrow> pmap s' = pmap s"
  by (auto simp: cast_votes_def res_simps pmap_proxied dest!: pmap_propagate_weight split: if_splits)

lemma cast_proxy:
  assumes "cast_votes c voting p ps w (d, s) = Inr (d', s')" "p \<noteq> 0"
  obtains pv where "fmlookup (voters s) p = Some pv" "voting \<longrightarrow> is_proxy pv"
  using assms by (auto simp: cast_votes_def res_simps split: if_splits)

text \<open>A vote sets the voter's pointer; a proxy it newly points to is a registered one.\<close>

lemma update_votes_parts:
  assumes "update_votes c n p ps voting s = Inr s'"
  obtains v d1 s1 d2 s2 acc v3 where "check_vote_input n p ps (Inr ()) = Inr ()"
    "fmlookup (voters s) n = Some v" "p = 0 \<or> \<not> is_proxy v"
    "undo_votes c v (activate_stake c v s) = Inr (d1, s1)"
    "cast_votes c voting p ps (voter_weight c v) (d1, s1) = Inr (d2, s2)"
    "run_all (vote_for c voting) (sorted_list_of_fmap d2) (Fin 0, Fin 0, s2) = Inr acc"
    "fmlookup (voters (finish_votepay c acc)) n = Some v3"
    "s' = set_voter n (v3\<lparr>last_vote_weight := voter_weight c v, v_producers := ps, v_proxy := p\<rparr>) (finish_votepay c acc)"
proof -
  have "check_vote_input n p ps k = Inr y \<longleftrightarrow> check_vote_input n p ps (Inr ()) = Inr () \<and> k = Inr y"
    for k :: "sys_state res" and y by (auto simp: check_vote_input_def)
  with assms show ?thesis using that unfolding update_votes_def Let_def by (auto simp: the_row_Inr bindr_Inr)
qed

lemma pmap_update_votes:
  assumes "update_votes c n p ps voting s = Inr s'"
  obtains b q where "fmlookup (pmap s) n = Some (q, b)" "pmap s' = fmupd n (p, b) (pmap s)" "p = 0 \<or> \<not> b"
    "p \<noteq> 0 \<Longrightarrow> n \<noteq> p \<and> (voting \<longrightarrow> (\<exists>r. fmlookup (pmap s) p = Some (r, True)))"
  using assms
proof (cases rule: update_votes_parts)
  case (1 v d1 s1 d2 s2 acc v3)
  have p1: "pmap s1 = pmap s" using pmap_undo [OF 1(4)] by simp
  have p2: "pmap s2 = pmap s" using pmap_cast [OF 1(5)] p1 by simp
  have p3: "pmap (finish_votepay c acc) = pmap s"
    using run_all_keeps [where v = "\<lambda>a. pmap (snd (snd a))", OF pmap_vote_for 1(6)] p2 by simp
  have v: "fmlookup (pmap s) n = Some (pview v)" by (rule pmap_lookup [OF 1(2)])
  have "pview v3 = pview v" using pmap_lookup [OF 1(7), unfolded p3] v by simp
  then have "pmap s' = fmupd n (p, is_proxy v) (pmap s)" unfolding 1(8) pmap_set_voter p3 by (simp add: pview_def)
  moreover have "n \<noteq> p \<and> (voting \<longrightarrow> (\<exists>r. fmlookup (pmap s) p = Some (r, True)))" if np: "p \<noteq> 0"
  proof -
    obtain pv where "fmlookup (voters s1) p = Some pv" "voting \<longrightarrow> is_proxy pv" by (rule cast_proxy [OF 1(5) np])
    then show ?thesis using 1(1) np pmap_lookup [of s1 p pv] by (auto simp: p1 pview_def check_vote_input_def)
  qed
  ultimately show ?thesis using v 1(3) by (intro that) (auto simp: pview_def)
qed

text \<open>Everything else leaves the pointers of all voters alone, and gives new voters none.\<close>

definition same_proxies :: "sys_state \<Rightarrow> sys_state \<Rightarrow> bool" where
  "same_proxies s s' \<longleftrightarrow> (\<forall>n. fmlookup (pmap s') n = fmlookup (pmap s) n
     \<or> fmlookup (pmap s) n = None \<and> fmlookup (pmap s') n = Some (0, False))"

lemma same_proxies_refl [simp]: "same_proxies s s"
  by (simp add: same_proxies_def)

lemma same_proxies_trans: "same_proxies s s1 \<Longrightarrow> same_proxies s1 s2 \<Longrightarrow> same_proxies s s2"
  unfolding same_proxies_def by (metis option.distinct(1))

lemma same_proxies_eq: "pmap s' = pmap s \<Longrightarrow> same_proxies s s'"
  by (simp add: same_proxies_def)

lemma same_proxies_voters [simp]: "voters s' = voters s \<Longrightarrow> same_proxies s s'"
  by (rule same_proxies_eq [OF pmap_cong])

lemma same_proxies_set:
  assumes "pview v = (case fmlookup (voters s) n of None \<Rightarrow> (0, False) | Some w \<Rightarrow> pview w)"
  shows "same_proxies s (set_voter n v s)"
proof (cases "fmlookup (voters s) n")
  case None
  then have "fmlookup (pmap s) n = None" by (simp add: pmap_def)
  with assms None show ?thesis unfolding same_proxies_def pmap_set_voter by simp
next
  case (Some w)
  with assms show ?thesis by (intro same_proxies_eq pmap_set_same) (simp add: pmap_lookup [OF Some])
qed

lemma proxies_update_voting_power:
  assumes "update_voting_power c n q s = Inr s'" shows "same_proxies s s'"
proof -
  define v where "v = (case fmlookup (voters s) n of
            None \<Rightarrow> default_voter\<lparr>staked := amount q\<rparr>
          | Some v \<Rightarrow> v\<lparr>staked := i64 (staked v + amount q)\<rparr>)"
  have "same_proxies s (set_voter n v s)"
    by (rule same_proxies_set) (simp add: v_def pview_def default_voter_def split: option.splits)
  moreover from assms have "s' = set_voter n v s \<or> update_votes c n (v_proxy v) (v_producers v) False (set_voter n v s) = Inr s'"
    unfolding update_voting_power_def Let_def v_def [symmetric]
    by (auto dest!: validate_b1_vesting_Inr split: if_splits)
  moreover have "same_proxies x y" if "update_votes c n (v_proxy v) ps False x = Inr y" "x = set_voter n v s" for x y ps
  proof (rule pmap_update_votes [OF that(1)])
    fix b q assume "fmlookup (pmap x) n = Some (q, b)" "pmap y = fmupd n (v_proxy v, b) (pmap x)"
    then show ?thesis by (intro same_proxies_eq) (auto simp: that(2) pmap_set_voter pview_def)
  qed
  ultimately show ?thesis using same_proxies_trans by blast
qed

lemma update_rex_stake_parts:
  assumes "update_rex_stake c n s = Inr s'"
  obtains d s1 where "s1 = s \<or> (\<exists>b. s1 = s\<lparr>rexbalance := b\<rparr>)"
    "s' = s1 \<or> (\<exists>v k. fmlookup (voters s1) n = Some v \<and> s' = set_voter n (v\<lparr>staked := k\<rparr>) s1)"
proof -
  define m where "m = (case (fmlookup (rexbalance s) n, rexpool s) of
         (Some rb, Some rp) \<Rightarrow>
           if 0 < amount (total_rex rp) then
             core_asset c s 0 (\<lambda>current.
             bindr (muldiv (amount (rex_bal rb)) (amount (total_lendable rp)) (amount (total_rex rp))) (\<lambda>stake.
             Inr (i64 (stake - amount (vote_stake rb)),
               s\<lparr>rexbalance := fmupd n (rb\<lparr>vote_stake := (vote_stake rb)\<lparr>amount := stake\<rparr>\<rparr>) (rexbalance s)\<rparr>)))
           else Inr (0, s)
       | _ \<Rightarrow> Inr (0, s))"
  from assms obtain d s1 where m: "m = Inr (d, s1)" and s': "s' = (if d \<noteq> 0 then
         (case fmlookup (voters s1) n of
            None \<Rightarrow> s1
          | Some v \<Rightarrow> s1\<lparr>voters := fmupd n (v\<lparr>staked := i64 (staked v + d)\<rparr>) (voters s1)\<rparr>)
       else s1)"
    unfolding update_rex_stake_def m_def [symmetric] bindr_Inr by auto
  show ?thesis
  proof (rule that)
    show "s1 = s \<or> (\<exists>b. s1 = s\<lparr>rexbalance := b\<rparr>)"
      using m unfolding m_def by (auto simp: res_simps split: option.splits if_splits)
    show "s' = s1 \<or> (\<exists>v k. fmlookup (voters s1) n = Some v \<and> s' = set_voter n (v\<lparr>staked := k\<rparr>) s1)"
      unfolding s' set_voter_def by (auto split: option.splits)
  qed
qed

lemma pmap_update_rex_stake: "update_rex_stake c n s = Inr s' \<Longrightarrow> pmap s' = pmap s"
proof (erule update_rex_stake_parts)
  fix s1
  assume s1: "s1 = s \<or> (\<exists>b. s1 = s\<lparr>rexbalance := b\<rparr>)"
    and s': "s' = s1 \<or> (\<exists>v k. fmlookup (voters s1) n = Some v \<and> s' = set_voter n (v\<lparr>staked := k\<rparr>) s1)"
  have "pmap (set_voter n (v\<lparr>staked := k\<rparr>) s1) = pmap s1" if "fmlookup (voters s1) n = Some v" for v k
    by (rule pmap_set_same) (simp add: pmap_lookup [OF that] pview_def)
  then show ?thesis using s1 s' by auto
qed

lemma proxies_set_managed: "same_proxies s (set_managed f b n s)"
  unfolding set_managed_def Let_def
  by (rule same_proxies_set) (simp add: pview_def default_voter_def split: option.splits)

end
