(* ===== verification/RexFrame.thy ===== *)
theory RexFrame
  imports Escrow Proxies
begin

text \<open>
  What REX leaves alone: the delegations and refunds, the name auctions, the RAM market and RAM
  quotas, the pay buckets, and the accounts its inline actions send from.
\<close>

definition ram_sum :: "sys_state \<Rightarrow> int" where
  "ram_sum s = fmsum (\<lambda>_ r. ram_bytes r) (userres s)"

definition nonrex where
  "nonrex s = (rammarket s, delband s, refunds s, namebids s, bidrefunds s, tokens s,
     g_view (gstate s), unpaid_sum s, ram_sum s)"

text \<open>Every procedure only adds to the inline actions.\<close>

definition sends :: "name set \<Rightarrow> sys_state \<Rightarrow> sys_state \<Rightarrow> bool" where
  "sends F s s' \<longleftrightarrow> (\<exists>l. outbox s' = outbox s @ l \<and> senders l \<subseteq> F \<and> all_plain l)"

lemma sends_refl: "outbox s' = outbox s \<Longrightarrow> sends F s s'"
  by (auto simp: sends_def intro: exI [of _ "[]"])

lemma sends_trans: "sends F s s1 \<Longrightarrow> sends G s1 s2 \<Longrightarrow> F \<union> G \<subseteq> H \<Longrightarrow> sends H s s2"
  unfolding sends_def by fastforce

lemma sends_mono: "sends F s s' \<Longrightarrow> F \<subseteq> H \<Longrightarrow> sends H s s'"
  unfolding sends_def by blast

lemma sendsD:
  assumes "sends F s s'"
  obtains l where "outbox s' = outbox s @ l" "senders l \<subseteq> F" "all_plain l"
  using assms by (auto simp: sends_def)

lemma sends_one: "outbox s' = outbox s @ [a] \<Longrightarrow> sender a \<subseteq> F \<Longrightarrow> plain a \<Longrightarrow> sends F s s'"
  by (auto simp: sends_def)

definition keeps :: "name set \<Rightarrow> sys_state \<Rightarrow> sys_state \<Rightarrow> bool" where
  "keeps F s s' \<longleftrightarrow> nonrex s' = nonrex s \<and> same_proxies s s' \<and> sends F s s'"

named_theorems keeps \<open>procedures of REX that keep the rest of the state\<close>

lemma keeps_refl [simp]: "keeps F s s"
  by (simp add: keeps_def sends_refl)

lemma keeps_trans: "keeps F s s1 \<Longrightarrow> keeps G s1 s2 \<Longrightarrow> F \<union> G \<subseteq> H \<Longrightarrow> keeps H s s2"
  unfolding keeps_def by (auto intro: sends_trans same_proxies_trans)

lemma keeps_then: "keeps F s s1 \<Longrightarrow> keeps F s1 s2 \<Longrightarrow> keeps F s s2"
  by (erule keeps_trans) auto

lemma keeps_mono: "keeps F s s' \<Longrightarrow> F \<subseteq> H \<Longrightarrow> keeps H s s'"
  unfolding keeps_def by (auto intro: sends_mono)

lemma keepsD:
  assumes "keeps F s s'"
  shows "rammarket s' = rammarket s" "delband s' = delband s" "refunds s' = refunds s"
    "namebids s' = namebids s" "bidrefunds s' = bidrefunds s" "tokens s' = tokens s"
    "g_view (gstate s') = g_view (gstate s)" "unpaid_sum s' = unpaid_sum s" "ram_sum s' = ram_sum s"
    "sends F s s'" "same_proxies s s'"
  using assms by (auto simp: keeps_def nonrex_def)

lemma view_keeps: "view s' = view s \<Longrightarrow> same_proxies s s' \<Longrightarrow> keeps F s s'"
  using viewD [of s' s] by (auto simp: keeps_def nonrex_def ram_sum_def intro: sends_refl)

lemma keeps_fields [simp]:
  "keeps F s (s\<lparr>rexpool := p\<rparr>)" "keeps F s (s\<lparr>rexfunds := f\<rparr>)" "keeps F s (s\<lparr>rexbalance := b\<rparr>)"
  "keeps F s (s\<lparr>rexorders := r\<rparr>)" "keeps F s (set_loans kind m s)"
  "keeps F s (s\<lparr>rexpool := p, rexbalance := b\<rparr>)"
  by (cases kind; simp add: keeps_def nonrex_def unpaid_sum_def ram_sum_def sends_refl)+

lemma keeps_send_result [simp]: "sender a \<subseteq> F \<Longrightarrow> plain a \<Longrightarrow> keeps F s (send_result a s)"
  by (auto simp: keeps_def nonrex_def unpaid_sum_def ram_sum_def send_result_def intro: sends_one)

lemma keeps_send_transfer [simp]: "f \<in> F \<Longrightarrow> keeps F s (send_transfer ps f t q memo s)"
  by (auto simp: keeps_def nonrex_def unpaid_sum_def ram_sum_def send_transfer_def intro: sends_one)

lemma refresh_limits_eq: "refresh_limits n f tot s = s\<lparr>res_limits := res_limits (refresh_limits n f tot s)\<rparr>"
  by (cases "res_limits s n") (simp add: refresh_limits_def set_limits_def Let_def)

definition new_totals :: "sys_chain \<Rightarrow> name \<Rightarrow> int64 \<Rightarrow> int64 \<Rightarrow> sys_state \<Rightarrow> user_resources \<Rightarrow> bool" where
  "new_totals c receiver dn dp s tot \<longleftrightarrow> (case fmlookup (userres s) receiver of
     None \<Rightarrow> 0 \<le> dn \<and> 0 \<le> dp \<and> core_asset c s dn (\<lambda>n. core_asset c s dp (\<lambda>p.
       Inr \<lparr>net_weight = n, cpu_weight = p, ram_bytes = 0\<rparr>)) = Inr tot
   | Some r \<Rightarrow> tot = r\<lparr>net_weight := (net_weight r)\<lparr>amount := i64 (amount (net_weight r) + dn)\<rparr>,
       cpu_weight := (cpu_weight r)\<lparr>amount := i64 (amount (cpu_weight r) + dp)\<rparr>\<rparr>)"

lemma update_resource_limits_parts:
  assumes "update_resource_limits c receiver dn dp s = Inr s'"
  obtains "dn = 0" "dp = 0" "s' = s"
  | tot l where "new_totals c receiver dn dp s tot" "0 \<le> amount (net_weight tot)" "0 \<le> amount (cpu_weight tot)"
      "s' = s\<lparr>res_limits := l, userres := if res_empty tot then fmdrop receiver (userres s)
        else fmupd receiver tot (userres s)\<rparr>"
proof (cases "dp = 0 \<and> dn = 0")
  case True
  with assms show ?thesis by (intro that(1)) (simp_all add: update_resource_limits_def)
next
  case False
  let ?m = "case fmlookup (userres s) receiver of
         None \<Rightarrow>
           check (0 \<le> dn \<and> 0 \<le> dp) ''logic error, should not occur'' (
           core_asset c s dn (\<lambda>n.
           core_asset c s dp (\<lambda>p.
           Inr \<lparr>net_weight = n, cpu_weight = p, ram_bytes = 0\<rparr>)))
       | Some tot \<Rightarrow>
           Inr (tot\<lparr>net_weight := (net_weight tot)\<lparr>amount := i64 (amount (net_weight tot) + dn)\<rparr>,
                    cpu_weight := (cpu_weight tot)\<lparr>amount := i64 (amount (cpu_weight tot) + dp)\<rparr>\<rparr>)"
  from assms False obtain tot where m: "?m = Inr tot"
    and n: "0 \<le> amount (net_weight tot)" "0 \<le> amount (cpu_weight tot)"
    and s': "s' = store_totals receiver tot (refresh_limits receiver (\<lambda>ram. ram) tot s)"
    unfolding update_resource_limits_def by (auto simp: bindr_Inr)
  have "new_totals c receiver dn dp s tot"
    using m by (auto simp: new_totals_def split: option.splits)
  then show ?thesis
    by (rule that(2) [OF _ n, where l = "res_limits (refresh_limits receiver (\<lambda>ram. ram) tot s)"])
      (subst s', subst refresh_limits_eq, simp add: store_totals_def)
qed

lemma new_totals_ram: "new_totals c r dn dp s tot \<Longrightarrow>
   ram_bytes tot = row_val (\<lambda>_ r. ram_bytes r) r (fmlookup (userres s) r)"
  by (auto simp: new_totals_def res_simps split: option.splits)

lemma keeps_limits [keeps]:
  assumes "update_resource_limits c r n p s = Inr s'" shows "keeps F s s'"
  using assms
proof (cases rule: update_resource_limits_parts)
  case (2 tot l)
  have "ram_sum s' = ram_sum s"
    using new_totals_ram [OF 2(1)] by (auto simp: 2(4) ram_sum_def fmsum_upd fmsum_drop res_empty_def)
  then show ?thesis by (simp add: keeps_def nonrex_def) (simp add: 2(4) unpaid_sum_def sends_refl)
qed simp

lemma keeps_from_fund [keeps]: "transfer_from_fund c n q s = Inr s' \<Longrightarrow> keeps F s s'"
  by (auto simp: transfer_from_fund_def res_simps)

lemma keeps_to_fund [keeps]: "transfer_to_fund c n q s = Inr s' \<Longrightarrow> keeps F s s'"
  by (auto simp: transfer_to_fund_def res_simps)

lemma keeps_channel [keeps]: "keeps {f} s (channel_to_rex c f q s)"
  by (auto simp: channel_to_rex_def keeps_def nonrex_def unpaid_sum_def ram_sum_def sends_refl
      intro: sends_one split: option.splits)

lemma keeps_add_pool [keeps]: "add_to_rex_pool c q s = Inr (r, s') \<Longrightarrow> keeps F s s'"
  by (auto simp: add_to_rex_pool_def res_simps Let_def split: option.splits if_splits)

lemma add_to_rex_balance_parts:
  assumes "add_to_rex_balance c n q r s = Inr (d, s')"
  obtains rb0 sav rb1 where "read_rex_savings rb0 = (sav, rb1)"
    "s' = s\<lparr>rexbalance := fmupd n (put_rex_savings sav (add_bucket (get_rex_maturity c) (amount r)
       (process_rex_maturities c rb1))) (rexbalance s)\<rparr>"
    "case fmlookup (rexbalance s) n of
       None \<Rightarrow> rb0 = \<lparr>vote_stake = q, rex_bal = r, matured_rex = 0, rex_maturities = []\<rparr>
     | Some rb \<Rightarrow> matured_rex rb0 = matured_rex rb \<and> rex_maturities rb0 = rex_maturities rb
         \<and> amount (rex_bal rb0) = i64 (amount (rex_bal rb) + amount r)"
proof -
  from assms [unfolded add_to_rex_balance_def] obtain zero i cur rb0 where
    k0: "(case fmlookup (rexbalance s) n of
         None \<Rightarrow> Inr (zero, zero\<lparr>amount := amount q\<rparr>, \<lparr>vote_stake = q, rex_bal = r, matured_rex = 0, rex_maturities = []\<rparr>)
       | Some rb \<Rightarrow> with_pool s (\<lambda>rp.
           let bal = i64 (amount (rex_bal rb) + amount r) in
           bindr (muldiv bal (amount (total_lendable rp)) (amount (total_rex rp))) (\<lambda>stake.
           Inr (zero\<lparr>amount := amount (vote_stake rb)\<rparr>, zero\<lparr>amount := stake\<rparr>,
             rb\<lparr>rex_bal := (rex_bal rb)\<lparr>amount := bal\<rparr>, vote_stake := (vote_stake rb)\<lparr>amount := stake\<rparr>\<rparr>))))
       = Inr (i, cur, rb0)"
    and k1: "(case read_rex_savings rb0 of (sav, rb1) \<Rightarrow>
     let rb2 = process_rex_maturities c rb1; rb3 = add_bucket (get_rex_maturity c) (amount r) rb2;
         rb4 = put_rex_savings sav rb3 in
     bindr (asset_sub c cur i) (\<lambda>delta. Inr (delta, s\<lparr>rexbalance := fmupd n rb4 (rexbalance s)\<rparr>))) = Inr (d, s')"
    unfolding bindr_Inr core_asset_Inr case_prod_Inr by blast
  obtain sav rb1 where sv: "read_rex_savings rb0 = (sav, rb1)" by fastforce
  show ?thesis
    by (rule that [OF sv]) (use k0 k1 in \<open>auto simp: sv with_pool_def res_simps Let_def split: option.splits\<close>)
qed

lemma keeps_add_balance [keeps]: "add_to_rex_balance c n q r s = Inr (d, s') \<Longrightarrow> keeps F s s'"
  by (auto simp: add_to_rex_balance_def res_simps Let_def split: option.splits)

lemma keeps_fill [keeps]: "fill_rex_order c n q s = Inr (d, s') \<Longrightarrow> keeps F s s'"
  by (auto simp: fill_rex_order_def with_pool_def res_simps Let_def split: if_splits)

lemma keeps_power [keeps]: "update_voting_power c n q s = Inr s' \<Longrightarrow> keeps F s s'"
  by (rule view_keeps [OF view_update_voting_power proxies_update_voting_power])

lemma update_rex_account_parts:
  assumes "update_rex_account c n p d b s = Inr (r, s')"
  obtains z to_fund to_stake s1 s2 where "asset_new c 0 rex_symbol = Inr z"
    "settle_order z n p d s = (to_fund, to_stake, r, s1)"
    "(if 0 < amount to_fund then transfer_to_fund c n to_fund s1 else Inr s1) = Inr s2"
    "(if b \<or> amount to_stake \<noteq> 0 then update_voting_power c n to_stake s2 else Inr s2) = Inr s'"
  using assms that unfolding update_rex_account_def res_simps by blast

lemma keeps_settle: "settle_order z n p d s = (q1, q2, r, s1) \<Longrightarrow> keeps F s s1"
  by (auto simp: settle_order_def split: option.splits if_splits)

lemma keeps_account [keeps]:
  assumes "update_rex_account c n p d b s = Inr (r, s')" shows "keeps F s s'"
proof -
  from update_rex_account_parts [OF assms] obtain z q1 q2 s1 s2 where
    "settle_order z n p d s = (q1, q2, r, s1)"
    "(if 0 < amount q1 then transfer_to_fund c n q1 s1 else Inr s1) = Inr s2"
    "(if b \<or> amount q2 \<noteq> 0 then update_voting_power c n q2 s2 else Inr s2) = Inr s'" .
  then have "keeps F s s1" "keeps F s1 s2" "keeps F s2 s'"
    by (auto intro: keeps_settle keeps_to_fund keeps_power split: if_splits)
  then show ?thesis by (meson keeps_then)
qed

section \<open>Maintenance\<close>

lemma process_expired_loan_parts:
  assumes "process_expired_loan c kind num loan s = Inr (del, delta, s')"
  obtains rp rp1 rented where "rexpool s = Some rp" "remove_loan_from_rex_pool loan rp = Inr rp1"
    "get_bancor_output (amount (total_rent rp1)) (amount (total_unlent rp1)) (amount (loan_payment loan)) = Inr rented"
    "\<not> del" "asset_le c (loan_payment loan) (loan_balance loan) = Inr True"
    "amount (loan_payment loan) < rented" "rex_loans_available (s\<lparr>rexpool := Some rp1\<rparr>)"
    "delta = fst (update_renewed_loan loan rented)"
    "s' = set_loans kind (fmupd num (snd (update_renewed_loan loan rented)) (loans_of kind s))
       (s\<lparr>rexpool := Some (add_loan_to_rex_pool (loan_payment loan) rented False rp1)\<rparr>)"
  | rp rp1 where "rexpool s = Some rp" "remove_loan_from_rex_pool loan rp = Inr rp1"
    "del" "delta = i64 (- amount (total_staked loan))"
    "(if 0 < amount (loan_balance loan)
      then transfer_to_fund c (loan_from loan) (loan_balance loan) (s\<lparr>rexpool := Some rp1\<rparr>)
      else Inr (s\<lparr>rexpool := Some rp1\<rparr>)) = Inr s'"
proof -
  have [simp]: "loans_of kind (s\<lparr>rexpool := x\<rparr>) = loans_of kind s" for x by (cases kind) simp_all
  from assms obtain rp rp1 rented funded where r: "rexpool s = Some rp" "remove_loan_from_rex_pool loan rp = Inr rp1"
    "get_bancor_output (amount (total_rent rp1)) (amount (total_unlent rp1)) (amount (loan_payment loan)) = Inr rented"
    "asset_le c (loan_payment loan) (loan_balance loan) = Inr funded"
    "(if funded \<and> amount (loan_payment loan) < rented \<and> rex_loans_available (s\<lparr>rexpool := Some rp1\<rparr>) then
       case update_renewed_loan loan rented of (delta_stake, loan') \<Rightarrow>
       Inr (False, delta_stake, set_loans kind (fmupd num loan' (loans_of kind (s\<lparr>rexpool := Some rp1\<rparr>)))
         ((s\<lparr>rexpool := Some rp1\<rparr>)\<lparr>rexpool := Some (add_loan_to_rex_pool (loan_payment loan) rented False rp1)\<rparr>))
     else
       bindr (if 0 < amount (loan_balance loan)
         then transfer_to_fund c (loan_from loan) (loan_balance loan) (s\<lparr>rexpool := Some rp1\<rparr>)
         else Inr (s\<lparr>rexpool := Some rp1\<rparr>)) (\<lambda>s2.
       Inr (True, i64 (- amount (total_staked loan)), s2))) = Inr (del, delta, s')"
    unfolding process_expired_loan_def with_pool_def Let_def the_row_Inr bindr_Inr by blast
  show ?thesis
  proof (cases "funded \<and> amount (loan_payment loan) < rented \<and> rex_loans_available (s\<lparr>rexpool := Some rp1\<rparr>)")
    case True
    with r show ?thesis by (intro that(1) [of rp rp1 rented]) (auto split: prod.splits)
  next
    case False
    with r show ?thesis by (intro that(2) [of rp rp1]) (auto simp: bindr_Inr)
  qed
qed

lemma keeps_process_loan [keeps]:
  assumes "process_expired_loan c kind num loan s = Inr (del, delta, s')" shows "keeps F s s'"
  using assms
proof (cases rule: process_expired_loan_parts)
  case (1 rp rp1 rented)
  have "keeps F s (s\<lparr>rexpool := Some (add_loan_to_rex_pool (loan_payment loan) rented False rp1)\<rparr>)" by simp
  then show ?thesis unfolding 1(9) by (rule keeps_then) simp
next
  case (2 rp rp1)
  have "keeps F (s\<lparr>rexpool := Some rp1\<rparr>) s'" using 2(5) by (auto intro: keeps_to_fund split: if_splits)
  then show ?thesis by (rule keeps_then [rotated]) simp
qed

lemma keeps_limits_for [keeps]: "limits_for kind c r d s = Inr s' \<Longrightarrow> keeps F s s'"
  by (cases kind) (auto intro: keeps_limits)

lemma keeps_run_loan [keeps]: "run_loan c kind num loan s = Inr s' \<Longrightarrow> keeps F s s'"
proof -
  assume "run_loan c kind num loan s = Inr s'"
  then obtain del delta s1 s2 where s1: "process_expired_loan c kind num loan s = Inr (del, delta, s1)"
    and s2: "(if delta \<noteq> 0 then limits_for kind c (loan_receiver loan) delta s1 else Inr s1) = Inr s2"
    and s': "s' = (if del then set_loans kind (fmdrop num (loans_of kind s2)) s2 else s2)"
    unfolding run_loan_def res_simps by blast
  have "keeps F s1 s2" using s2 by (auto intro: keeps_limits_for split: if_splits)
  moreover have "keeps F s2 s'" by (simp add: s')
  ultimately show ?thesis using keeps_process_loan [OF s1] keeps_then by blast
qed

lemma keeps_run_loans [keeps]: "run_loans i c kind s = Inr s' \<Longrightarrow> keeps F s s'"
proof (induction i arbitrary: s)
  case (Suc i)
  from Suc.prems consider "s' = s" | num loan x where "run_loan c kind num loan s = Inr x"
      "run_loans i c kind x = Inr s'"
    by (auto simp: bindr_Inr split: option.splits if_splits)
  then show ?case by cases (simp, blast intro: keeps_then [OF keeps_run_loan Suc.IH])
qed simp

lemma keeps_run_order [keeps]:
  assumes "run_order c n ord s = Inr s'" shows "keeps F s s'"
proof (cases "fmlookup (rexbalance s) n")
  case None
  with assms show ?thesis by (simp add: run_order_def)
next
  case (Some rb)
  with assms obtain o1 s1 where s1: "fill_rex_order c n (rex_requested ord) s = Inr (o1, s1)"
    and s': "s' = s1 \<or> (\<exists>r. s' = send_result (OrderResult n (out_proceeds o1)) (s1\<lparr>rexorders := r\<rparr>))"
    by (auto simp: run_order_def res_simps send_result_def split: if_splits)
  have "keeps F s1 (send_result a (s1\<lparr>rexorders := r\<rparr>))" if "sender a = {}" "plain a" for r a
    by (rule keeps_then [of _ _ "s1\<lparr>rexorders := r\<rparr>"]) (simp_all add: that)
  then have "keeps F s1 s'" using s' by auto
  with keeps_fill [OF s1, of F] show ?thesis by (rule keeps_then)
qed

lemma keeps_run_orders [keeps]: "run_orders c ns s = Inr s' \<Longrightarrow> keeps F s s'"
proof (induction ns arbitrary: s)
  case (Cons n ns)
  from Cons.prems consider "s' = s" | ord x where "run_order c n ord s = Inr x" "run_orders c ns x = Inr s'"
    by (auto simp: bindr_Inr split: option.splits if_splits)
  then show ?case by cases (simp, blast intro: keeps_then [OF keeps_run_order Cons.IH])
qed simp

lemma keeps_proceeds [keeps]: "keeps {names_account} s (channel_proceeds c s)"
proof -
  have "keeps {names_account} s (channel_to_rex c names_account q s\<lparr>rexpool := p\<rparr>)" for q p
    by (rule keeps_then [OF keeps_channel [of names_account s c q]]) simp
  then show ?thesis by (auto simp: channel_proceeds_def Let_def split: option.splits)
qed

lemma runrex_parts:
  assumes "runrex c mx s = Inr s'"
  obtains s1 s2 where "rex_system_initialized s" "run_loans mx c CpuLoan (channel_proceeds c s) = Inr s1"
    "run_loans mx c NetLoan s1 = Inr s2"
    "run_orders c (take mx (map fst (index_by by_time (rexorders s2)))) s2 = Inr s'"
  using assms that unfolding runrex_def res_simps by blast

lemma keeps_runrex [keeps]:
  assumes "runrex c mx s = Inr s'" shows "keeps {names_account} s s'"
  using assms
proof (cases rule: runrex_parts)
  case (1 s1 s2)
  then show ?thesis
    by (meson keeps_then keeps_proceeds keeps_run_loans keeps_run_orders)
qed

section \<open>Actions\<close>

lemma keeps_deposit [keeps]: "deposit c n q s = Inr s' \<Longrightarrow> keeps {n} s s'"
proof -
  assume "deposit c n q s = Inr s'"
  then have "transfer_to_fund c n q (send_transfer [Perm n active_permission] n rex_account q
      ''deposit to REX fund'' s) = Inr s'"
    by (auto simp: deposit_def res_simps)
  from keeps_to_fund [OF this] show ?thesis by (rule keeps_then [rotated]) simp
qed

text \<open>Chains of procedures are put together step by step.\<close>

lemma keeps_chain:
  assumes "keeps F s s1" "keeps F s1 s2" "keeps F s2 s3" shows "keeps F s s3"
  using assms by (blast intro: keeps_then)

lemma keeps_withdraw [keeps]:
  assumes "withdraw c n q s = Inr s'" shows "keeps {rex_account} s s'"
proof -
  from assms obtain z r s1 s2 where s1: "update_rex_account c n z z False s = Inr (r, s1)"
    and s2: "transfer_from_fund c n q s1 = Inr s2"
    and s': "s' = send_transfer [Perm rex_account active_permission] rex_account n q ''withdraw from REX fund'' s2"
    unfolding withdraw_def res_simps by blast
  show ?thesis by (rule keeps_chain [OF keeps_account [OF s1] keeps_from_fund [OF s2]]) (simp add: s')
qed

lemma buyrex_parts:
  assumes "buyrex c n q s = Inr s'"
  obtains sy r d z r2 s1 s2 s3 s4 s5 where "has_auth c n" "core_sym s = Some sy" "symb q = sy" "0 < amount q"
    "transfer_from_fund c n q s = Inr s1" "add_to_rex_pool c q s1 = Inr (r, s2)"
    "add_to_rex_balance c n q r s2 = Inr (d, s3)" "runrex c 2 s3 = Inr s4"
    "asset_new c 0 sy = Inr z" "core_sym s4 = Some sy"
    "update_rex_account c n z d False s4 = Inr (r2, s5)" "s' = send_result (BuyResult r) s5"
proof -
  from assms obtain sy r d z r2 s1 s2 s3 s4 s5 sy' where r: "has_auth c n" "core_sym s = Some sy" "symb q = sy" "0 < amount q"
    "transfer_from_fund c n q s = Inr s1" "add_to_rex_pool c q s1 = Inr (r, s2)"
    "add_to_rex_balance c n q r s2 = Inr (d, s3)" "runrex c 2 s3 = Inr s4"
    "core_sym s4 = Some sy'" "asset_new c 0 sy' = Inr z"
    "update_rex_account c n z d False s4 = Inr (r2, s5)" "s' = send_result (BuyResult r) s5"
    unfolding buyrex_def res_simps by blast
  have "keeps {names_account} s s4"
    by (rule keeps_chain [OF keeps_from_fund [OF r(5)] keeps_add_pool [OF r(6)]])
      (rule keeps_then [OF keeps_add_balance [OF r(7)] keeps_runrex [OF r(8)]])
  then have "core_sym s4 = core_sym s" by (intro core_sym_cong keepsD)
  with r show ?thesis by (intro that [of sy s1 r s2 d s3 s4 z r2 s5]) auto
qed

lemma keeps_buyrex [keeps]:
  assumes "buyrex c n q s = Inr s'" shows "keeps {names_account} s s'"
  using assms
proof (cases rule: buyrex_parts)
  case (1 sy r d z r2 s1 s2 s3 s4 s5)
  have "keeps {names_account} s s4"
    by (rule keeps_chain [OF keeps_from_fund [OF 1(5)] keeps_add_pool [OF 1(6)]])
      (rule keeps_then [OF keeps_add_balance [OF 1(7)] keeps_runrex [OF 1(8)]])
  then show ?thesis by (rule keeps_chain [OF _ keeps_account [OF 1(11)]]) (simp add: 1(12))
qed

lemma sellrex_parts:
  assumes "sellrex c n q s = Inr s'"
  obtains s1 rb s2 ord s3 z s4 pend s5 rb2 where "has_auth c n" "runrex c 2 s = Inr s1"
    "fmlookup (rexbalance s1) n = Some rb" "0 < amount q" "symb q = symb (rex_bal rb)"
    "s2 = s1\<lparr>rexbalance := fmupd n (process_rex_maturities c rb) (rexbalance s1)\<rparr>"
    "amount q \<le> matured_rex (process_rex_maturities c rb)"
    "fill_rex_order c n q s2 = Inr (ord, s3)" "success ord \<Longrightarrow> amount (out_proceeds ord) \<noteq> 0"
    "update_rex_account c n (out_proceeds ord) (out_stake_change ord) False s3 = Inr (z, s4)"
    "if success ord then pend = z \<and> s5 = s4 else n \<noteq> b1_account \<and>
       (\<exists>o2. queue_order c n q s4 = Inr (o2, s5) \<and> pend = z\<lparr>amount := amount (rex_requested o2)\<rparr>)"
    "fmlookup (rexbalance s5) n = Some rb2" "amount pend \<le> matured_rex rb2"
    "s' = (if success ord then send_result (SellResult (out_proceeds ord)) s5 else s5)"
proof -
  from assms obtain s1 rb ord s3 z s4 pend s5 rb2 where r: "has_auth c n" "runrex c 2 s = Inr s1"
    "fmlookup (rexbalance s1) n = Some rb" "0 < amount q \<and> symb q = symb (rex_bal rb)"
    "amount q \<le> matured_rex (process_rex_maturities c rb)"
    "fill_rex_order c n q (s1\<lparr>rexbalance := fmupd n (process_rex_maturities c rb) (rexbalance s1)\<rparr>) = Inr (ord, s3)"
    "\<not> (success ord \<and> amount (out_proceeds ord) = 0)"
    "update_rex_account c n (out_proceeds ord) (out_stake_change ord) False s3 = Inr (z, s4)"
    "(if success ord then Inr (z, s4)
       else check (n \<noteq> b1_account) ''b1 sellrex orders should not be queued'' (
         bindr (queue_order c n q s4) (\<lambda>(ord, s5).
         Inr (z\<lparr>amount := amount (rex_requested ord)\<rparr>, s5)))) = Inr (pend, s5)"
    "fmlookup (rexbalance s5) n = Some rb2" "amount pend \<le> matured_rex rb2"
    "s' = (if success ord then send_result (SellResult (out_proceeds ord)) s5 else s5)"
    unfolding sellrex_def Let_def res_simps by blast
  have "if success ord then pend = z \<and> s5 = s4 else n \<noteq> b1_account \<and>
       (\<exists>o2. queue_order c n q s4 = Inr (o2, s5) \<and> pend = z\<lparr>amount := amount (rex_requested o2)\<rparr>)"
    using r(9) by (auto simp: res_simps split: if_splits)
  with r show ?thesis by (intro that [OF r(1-3) _ _ refl r(5,6) _ r(8) _ r(10-12)]) auto
qed

lemma queue_order_state:
  "queue_order c n q s = Inr (ord, s') \<Longrightarrow> s' = s\<lparr>rexorders := fmupd n ord (rexorders s)\<rparr>"
  by (auto simp: queue_order_def res_simps)

lemma keeps_sellrex [keeps]:
  assumes "sellrex c n q s = Inr s'" shows "keeps {names_account} s s'"
  using assms
proof (cases rule: sellrex_parts)
  case (1 s1 rb s2 ord s3 z s4 pend s5 rb2)
  have "keeps {names_account} s1 s2" by (simp add: 1(6))
  then have "keeps {names_account} s s3"
    by (rule keeps_chain [OF keeps_runrex [OF 1(2)] _ keeps_fill [OF 1(8)]])
  moreover have "keeps {names_account} s4 s5"
    using 1(11) by (auto dest!: queue_order_state split: if_splits)
  moreover have "keeps {names_account} s5 s'" by (simp add: 1(14))
  ultimately show ?thesis
    using keeps_account [OF 1(10), of "{names_account}"] by (meson keeps_then)
qed

lemma keeps_cnclrexorder [keeps]: "cnclrexorder c n s = Inr s' \<Longrightarrow> keeps F s s'"
  by (auto simp: cnclrexorder_def res_simps)

lemma rentrex_parts:
  assumes "rentrex kind c from receiver pay fund s = Inr s'"
  obtains s1 sy s2 rp rented staked_tokens s3 where "has_auth c from" "runrex c 2 s = Inr s1"
    "rex_loans_available s1" "core_sym s1 = Some sy" "symb pay = sy" "symb fund = sy"
    "0 < amount pay" "0 \<le> amount fund"
    "\<exists>q. asset_add c pay fund = Inr q \<and> transfer_from_fund c from q s1 = Inr s2"
    "rexpool s2 = Some rp"
    "get_bancor_output (amount (total_rent rp)) (amount (total_unlent rp)) (amount pay) = Inr rented"
    "amount pay < rented"
    "fmlookup (loans_of kind s2) (next_loan_num (add_loan_to_rex_pool pay rented True rp)) = None"
    "core_asset c s2 rented Inr = Inr staked_tokens"
    "s3 = send_result (RentResult staked_tokens)
       (set_loans kind (fmupd (next_loan_num (add_loan_to_rex_pool pay rented True rp))
         \<lparr>loan_from = from, loan_receiver = receiver, loan_payment = pay, loan_balance = fund,
           total_staked = staked_tokens, expiration = i64 (now_tp c + thirty_days)\<rparr>
         (loans_of kind s2)) (s2\<lparr>rexpool := Some (add_loan_to_rex_pool pay rented True rp)\<rparr>))"
    "limits_for kind c receiver rented s3 = Inr s'"
proof -
  have [simp]: "loans_of kind (s\<lparr>rexpool := x\<rparr>) = loans_of kind s" for s x by (cases kind) simp_all
  have cs: "core_sym (s\<lparr>rexpool := x\<rparr>) = core_sym s" for s x by (rule core_sym_cong) simp
  from assms obtain s1 sy s2 rp rented a q s3 where r: "has_auth c from" "runrex c 2 s = Inr s1"
    "rex_loans_available s1" "core_sym s1 = Some sy" "symb pay = sy \<and> symb fund = sy"
    "0 < amount pay \<and> 0 \<le> amount fund" "asset_add c pay fund = Inr q"
    "transfer_from_fund c from q s1 = Inr s2" "rexpool s2 = Some rp"
    "get_bancor_output (amount (total_rent rp)) (amount (total_unlent rp)) (amount pay) = Inr rented"
    "amount pay < rented"
    "fmlookup (loans_of kind (s2\<lparr>rexpool := Some (add_loan_to_rex_pool pay rented True rp)\<rparr>))
       (next_loan_num (add_loan_to_rex_pool pay rented True rp)) = None"
    "core_asset c (s2\<lparr>rexpool := Some (add_loan_to_rex_pool pay rented True rp)\<rparr>) rented Inr = Inr a"
    "s3 = send_result (RentResult a)
       (set_loans kind (fmupd (next_loan_num (add_loan_to_rex_pool pay rented True rp))
         \<lparr>loan_from = from, loan_receiver = receiver, loan_payment = pay, loan_balance = fund,
           total_staked = a, expiration = i64 (now_tp c + thirty_days)\<rparr>
         (loans_of kind (s2\<lparr>rexpool := Some (add_loan_to_rex_pool pay rented True rp)\<rparr>)))
         (s2\<lparr>rexpool := Some (add_loan_to_rex_pool pay rented True rp)\<rparr>))"
    "limits_for kind c receiver rented s3 = Inr s'"
    unfolding rentrex_def rent_rex_def with_pool_def Let_def res_simps by blast
  show ?thesis
    by (rule that [OF r(1-4) _ _ _ _ _ r(9-11) _ _ _ r(15)])
      (use r in \<open>auto simp: core_asset_Inr cs\<close>)
qed

lemma keeps_open_loan: "keeps F s (send_result (RentResult a) (set_loans kind m (s\<lparr>rexpool := p\<rparr>)))"
proof -
  have "keeps F s (set_loans kind m (s\<lparr>rexpool := p\<rparr>))"
    by (rule keeps_then [of _ _ "s\<lparr>rexpool := p\<rparr>"]) simp_all
  then show ?thesis by (rule keeps_then) simp
qed

lemma keeps_rentrex [keeps]:
  assumes "rentrex kind c from receiver pay fund s = Inr s'" shows "keeps {names_account} s s'"
  using assms
proof (cases rule: rentrex_parts)
  case (1 s1 sy s2 rp rented a s3)
  have "keeps {names_account} s1 s2" using 1(9) by (auto intro: keeps_from_fund)
  moreover have "keeps {names_account} s2 s3"
    unfolding 1(15) by (rule keeps_open_loan)
  ultimately show ?thesis
    using keeps_runrex [OF 1(2)] keeps_limits_for [OF 1(16), of "{names_account}"] by (meson keeps_then)
qed

lemma fund_loan_parts:
  assumes "fundloan kind c n num q s = Inr s'"
  obtains s1 loan where "has_auth c n" "core_sym s = Some (symb q)" "transfer_from_fund c n q s = Inr s1"
    "fmlookup (loans_of kind s1) num = Some loan" "loan_from loan = n" "now_tp c < expiration loan"
    "s' = set_loans kind (fmupd num
       (loan\<lparr>loan_balance := (loan_balance loan)\<lparr>amount := i64 (amount (loan_balance loan) + amount q)\<rparr>\<rparr>)
       (loans_of kind s1)) s1"
proof -
  from assms obtain s1 where s1: "has_auth c n" "core_sym s = Some (symb q)" "transfer_from_fund c n q s = Inr s1"
    and r: "the_row (fmlookup (loans_of kind s1) num) ''loan not found'' (\<lambda>loan.
     check (loan_from loan = n) ''user must be loan creator'' (
     check (now_tp c < expiration loan) ''loan has already expired'' (
     Inr (set_loans kind (fmupd num
       (loan\<lparr>loan_balance := (loan_balance loan)\<lparr>amount := i64 (amount (loan_balance loan) + amount q)\<rparr>\<rparr>)
       (loans_of kind s1)) s1)))) = Inr s'"
    unfolding fundloan_def fund_rex_loan_def by (auto simp: with_core_Inr bindr_Inr)
  from r obtain loan where "fmlookup (loans_of kind s1) num = Some loan"
    by (auto simp: the_row_Inr)
  with r show ?thesis by (intro that [OF s1, of loan]) auto
qed

lemma keeps_fund_loan [keeps]:
  assumes "fundloan kind c n num q s = Inr s'" shows "keeps F s s'"
  using assms
proof (cases rule: fund_loan_parts)
  case (1 s1 loan)
  show ?thesis by (rule keeps_then [OF keeps_from_fund [OF 1(3)]]) (simp add: 1(7))
qed

lemma defund_loan_parts:
  assumes "defloan kind c n num q s = Inr s'"
  obtains loan where "has_auth c n" "core_sym s = Some (symb q)"
    "fmlookup (loans_of kind s) num = Some loan" "loan_from loan = n" "now_tp c < expiration loan"
    "asset_le c q (loan_balance loan) = Inr True"
    "transfer_to_fund c n q (set_loans kind (fmupd num
       (loan\<lparr>loan_balance := (loan_balance loan)\<lparr>amount := i64 (amount (loan_balance loan) - amount q)\<rparr>\<rparr>)
       (loans_of kind s)) s) = Inr s'"
proof (cases "fmlookup (loans_of kind s) num")
  case (Some loan)
  with assms show ?thesis
    unfolding defloan_def defund_rex_loan_def by (intro that [of loan]) (auto simp: with_core_Inr bindr_Inr)
qed (use assms in \<open>auto simp: defloan_def defund_rex_loan_def with_core_Inr\<close>)

lemma keeps_defund_loan [keeps]:
  assumes "defloan kind c n num q s = Inr s'" shows "keeps F s s'"
  using assms
proof (cases rule: defund_loan_parts)
  case (1 loan)
  show ?thesis by (rule keeps_then [OF _ keeps_to_fund [OF 1(7)]]) simp
qed

lemma updaterex_parts:
  assumes "updaterex c n s = Inr s'"
  obtains s1 rb rp z stake change r s3 rb3 where "has_auth c n" "runrex c 2 s = Inr s1"
    "fmlookup (rexbalance s1) n = Some rb" "rexpool s1 = Some rp"
    "core_asset c s1 0 Inr = Inr z"
    "(if 0 < amount (total_rex rp)
       then muldiv (amount (rex_bal rb)) (amount (total_lendable rp)) (amount (total_rex rp)) else Inr 0) = Inr stake"
    "asset_sub c (z\<lparr>amount := stake\<rparr>) (vote_stake rb) = Inr change"
    "update_rex_account c n z change True
       (s1\<lparr>rexbalance := fmupd n (rb\<lparr>vote_stake := z\<lparr>amount := stake\<rparr>\<rparr>) (rexbalance s1)\<rparr>) = Inr (r, s3)"
    "fmlookup (rexbalance s3) n = Some rb3"
    "s' = s3\<lparr>rexbalance := fmupd n (process_rex_maturities c rb3) (rexbalance s3)\<rparr>"
  using assms that unfolding updaterex_def with_pool_def Let_def res_simps by blast

lemma keeps_updaterex [keeps]:
  assumes "updaterex c n s = Inr s'" shows "keeps {names_account} s s'"
  using assms
proof (cases rule: updaterex_parts)
  case (1 s1 rb rp z stake change r s3 rb3)
  have "keeps {names_account} s s3"
    by (rule keeps_chain [OF keeps_runrex [OF 1(2)] _ keeps_account [OF 1(8)]]) simp
  then show ?thesis unfolding 1(10) by (rule keeps_then) simp
qed

lemma keeps_setrex [keeps]: "setrex c q s = Inr s' \<Longrightarrow> keeps F s s'"
  by (auto simp: setrex_def res_simps)

lemma keeps_rexexec [keeps]: "rexexec c n mx s = Inr s' \<Longrightarrow> keeps {names_account} s s'"
  by (auto simp: rexexec_def intro: keeps_runrex)

text \<open>The actions on savings share their shape: maintenance, the owner's account, the owner's row.\<close>

lemma consolidate_parts:
  assumes "consolidate c n s = Inr s'"
  obtains s1 z r s2 rb where "has_auth c n" "runrex c 2 s = Inr s1" "fmlookup (rexbalance s1) n \<noteq> None"
    "core_asset c s1 0 Inr = Inr z"
    "update_rex_account c n z z False s1 = Inr (r, s2)" "fmlookup (rexbalance s2) n = Some rb"
    "s' = s2\<lparr>rexbalance := fmupd n (consolidate_rex_balance c r rb) (rexbalance s2)\<rparr>"
  using assms that unfolding consolidate_def res_simps by blast

lemma mvtosavings_parts:
  assumes "mvtosavings c n q s = Inr s'"
  obtains s1 rb0 z r s2 rb1 sav rb2 rb3 where "has_auth c n" "runrex c 2 s = Inr s1"
    "fmlookup (rexbalance s1) n = Some rb0" "0 < amount q" "core_asset c s1 0 Inr = Inr z"
    "update_rex_account c n z z False s1 = Inr (r, s2)" "fmlookup (rexbalance s2) n = Some rb1"
    "read_rex_savings rb1 = (sav, rb2)"
    "i64 (i64 (amount q + amount r) + sav) \<le> amount (rex_bal rb2)"
    "move_to_savings (amount q) (amount r) (process_rex_maturities c rb2) = Inr rb3"
    "s' = s2\<lparr>rexbalance := fmupd n (put_rex_savings (i64 (sav + amount q)) rb3) (rexbalance s2)\<rparr>"
  using assms that unfolding mvtosavings_def res_simps by blast

lemma mvfrsavings_parts:
  assumes "mvfrsavings c n q s = Inr s'"
  obtains s1 rb0 sav rb1 s2 z r where "has_auth c n" "runrex c 2 s = Inr s1"
    "fmlookup (rexbalance s1) n = Some rb0" "0 < amount q" "read_rex_savings rb0 = (sav, rb1)"
    "amount q \<le> sav"
    "s2 = s1\<lparr>rexbalance := fmupd n (put_rex_savings (i64 (sav - amount q))
       (add_bucket (get_rex_maturity c) (amount q) (process_rex_maturities c rb1))) (rexbalance s1)\<rparr>"
    "core_asset c s2 0 Inr = Inr z" "update_rex_account c n z z False s2 = Inr (r, s')"
proof -
  from assms obtain s1 rb0 sav rb1 z r where "has_auth c n" "runrex c 2 s = Inr s1"
    "fmlookup (rexbalance s1) n = Some rb0" "0 < amount q" "read_rex_savings rb0 = (sav, rb1)"
    "amount q \<le> sav"
    "core_asset c (s1\<lparr>rexbalance := fmupd n (put_rex_savings (i64 (sav - amount q))
       (add_bucket (get_rex_maturity c) (amount q) (process_rex_maturities c rb1))) (rexbalance s1)\<rparr>) 0 Inr = Inr z"
    "update_rex_account c n z z False (s1\<lparr>rexbalance := fmupd n (put_rex_savings (i64 (sav - amount q))
       (add_bucket (get_rex_maturity c) (amount q) (process_rex_maturities c rb1))) (rexbalance s1)\<rparr>) = Inr (r, s')"
    unfolding mvfrsavings_def Let_def res_simps by blast
  then show ?thesis by (intro that [OF _ _ _ _ _ _ refl])
qed

lemma keeps_consolidate [keeps]:
  assumes "consolidate c n s = Inr s'" shows "keeps {names_account} s s'"
  using assms
proof (cases rule: consolidate_parts)
  case (1 s1 z r s2 rb)
  show ?thesis by (rule keeps_chain [OF keeps_runrex [OF 1(2)] keeps_account [OF 1(5)]]) (simp add: 1(7))
qed

lemma keeps_mvtosavings [keeps]:
  assumes "mvtosavings c n q s = Inr s'" shows "keeps {names_account} s s'"
  using assms
proof (cases rule: mvtosavings_parts)
  case (1 s1 rb0 z r s2 rb1 sav rb2 rb3)
  show ?thesis by (rule keeps_chain [OF keeps_runrex [OF 1(2)] keeps_account [OF 1(6)]]) (simp add: 1(11))
qed

lemma keeps_mvfrsavings [keeps]:
  assumes "mvfrsavings c n q s = Inr s'" shows "keeps {names_account} s s'"
  using assms
proof (cases rule: mvfrsavings_parts)
  case (1 s1 rb0 sav rb1 s2 z r)
  show ?thesis by (rule keeps_chain [OF keeps_runrex [OF 1(2)] _ keeps_account [OF 1(9)]]) (simp add: 1(7))
qed

lemma closerex_parts:
  assumes "closerex c n s = Inr s'"
  obtains s1 z r s2 f s3 where "has_auth c n" "(if rex_system_initialized s then runrex c 2 s else Inr s) = Inr s1"
    "core_asset c s1 0 Inr = Inr z" "update_rex_account c n z z False s1 = Inr (r, s2)"
    "s3 = s2\<lparr>rexfunds := f\<rparr>"
    "f = rexfunds s2 \<or> f = fmdrop n (rexfunds s2) \<and> (\<exists>q. fmlookup (rexfunds s2) n = Some q \<and> amount q = 0)"
    "s' = s3 \<and> fmlookup (rexbalance s3) n = None
     \<or> s' = s3\<lparr>rexbalance := fmdrop n (rexbalance s3)\<rparr>
       \<and> (\<exists>rb. fmlookup (rexbalance s3) n = Some rb \<and> amount (rex_bal rb) = 0)"
proof -
  let ?free = "\<lambda>m. \<forall>num\<in>fmdom' m. loan_from (the (fmlookup m num)) \<noteq> n"
  from assms obtain s1 z r s2 where s1: "has_auth c n"
      "(if rex_system_initialized s then runrex c 2 s else Inr s) = Inr s1"
      "core_asset c s1 0 Inr = Inr z" "update_rex_account c n z z False s1 = Inr (r, s2)"
    and k: "(let no_outstanding_rex_fund = (case fmlookup (rexfunds s2) n of
           None \<Rightarrow> False | Some fund \<Rightarrow> amount fund = 0);
         s3 = (if ?free (cpu_loans s2) \<and> ?free (net_loans s2) \<and> no_outstanding_rex_fund
           then s2\<lparr>rexfunds := fmdrop n (rexfunds s2)\<rparr> else s2) in
     case fmlookup (rexbalance s3) n of
       None \<Rightarrow> Inr s3
     | Some rb \<Rightarrow>
         check (amount (rex_bal rb) = 0) ''account has remaining REX balance, must sell first'' (
         Inr (s3\<lparr>rexbalance := fmdrop n (rexbalance s3)\<rparr>))) = Inr s'"
    unfolding closerex_def bindr_Inr core_asset_Inr require_auth_Inr by (auto simp: Let_def)
  define f where "f = (if ?free (cpu_loans s2) \<and> ?free (net_loans s2)
      \<and> (case fmlookup (rexfunds s2) n of None \<Rightarrow> False | Some fund \<Rightarrow> amount fund = 0)
    then fmdrop n (rexfunds s2) else rexfunds s2)"
  have k': "(case fmlookup (rexbalance s2) n of
       None \<Rightarrow> Inr (s2\<lparr>rexfunds := f\<rparr>)
     | Some rb \<Rightarrow>
         check (amount (rex_bal rb) = 0) ''account has remaining REX balance, must sell first'' (
         Inr (s2\<lparr>rexfunds := f, rexbalance := fmdrop n (rexbalance s2)\<rparr>))) = Inr s'"
    using k by (auto simp: f_def Let_def split: if_splits option.splits)
  show ?thesis
    by (rule that [OF s1, of "s2\<lparr>rexfunds := f\<rparr>" f])
      (use k' in \<open>auto simp: f_def split: if_splits option.splits\<close>)
qed

lemma keeps_closerex [keeps]:
  assumes "closerex c n s = Inr s'" shows "keeps {names_account} s s'"
  using assms
proof (cases rule: closerex_parts)
  case (1 s1 z r s2 f s3)
  have "keeps {names_account} s s1" using 1(2) by (auto intro: keeps_runrex split: if_splits)
  moreover have "keeps {names_account} s2 s'"
    using 1(5,7) by (auto intro: keeps_then [of _ s2 "s2\<lparr>rexfunds := f\<rparr>"])
  ultimately show ?thesis using keeps_account [OF 1(4)] by (meson keeps_then)
qed

lemma unstaketorex_parts:
  assumes "unstaketorex c n r nq cq s = Inr s'"
  obtains d d1 s1 s2 pay rec s3 x s4 s5 z y s6 where "has_auth c n" "core_sym s = Some (symb nq)" "symb cq = symb nq"
    "0 \<le> amount nq" "0 \<le> amount cq" "0 < amount nq \<or> 0 < amount cq"
    "fmlookup (delband s) (n, r) = Some d" "amount nq \<le> amount (dbw_net d)" "amount cq \<le> amount (dbw_cpu d)"
    "d1 = d\<lparr>dbw_net := (dbw_net d)\<lparr>amount := i64 (amount (dbw_net d) - amount nq)\<rparr>,
       dbw_cpu := (dbw_cpu d)\<lparr>amount := i64 (amount (dbw_cpu d) - amount cq)\<rparr>\<rparr>"
    "s1 = s\<lparr>delband := if dbw_empty d1 then fmdrop (n, r) (delband s) else fmupd (n, r) d1 (delband s)\<rparr>"
    "update_resource_limits c r (i64 (- amount nq)) (i64 (- amount cq)) s1 = Inr s2"
    "asset_add c nq cq = Inr pay"
    "add_to_rex_pool c pay (send_transfer [Perm stake_account active_permission] stake_account rex_account
       pay ''buy REX with staked tokens'' s2) = Inr (rec, s3)"
    "add_to_rex_balance c n pay rec s3 = Inr (x, s4)" "runrex c 2 s4 = Inr s5"
    "core_asset c s5 0 Inr = Inr z" "update_rex_account c n z z True s5 = Inr (y, s6)"
    "s' = send_result (BuyResult rec) s6"
proof -
  from assms obtain d where h: "has_auth c n" "core_sym s = Some (symb nq)" "symb cq = symb nq"
    "0 \<le> amount nq" "0 \<le> amount cq" "0 < amount nq \<or> 0 < amount cq"
    "fmlookup (delband s) (n, r) = Some d" "amount nq \<le> amount (dbw_net d)" "amount cq \<le> amount (dbw_cpu d)"
    unfolding unstaketorex_def res_simps by (elim exE conjE) auto
  define d1 where "d1 = d\<lparr>dbw_net := (dbw_net d)\<lparr>amount := i64 (amount (dbw_net d) - amount nq)\<rparr>,
       dbw_cpu := (dbw_cpu d)\<lparr>amount := i64 (amount (dbw_cpu d) - amount cq)\<rparr>\<rparr>"
  define s1 where "s1 = s\<lparr>delband := if dbw_empty d1 then fmdrop (n, r) (delband s) else fmupd (n, r) d1 (delband s)\<rparr>"
  from assms h have "bindr (update_resource_limits c r (i64 (- amount nq)) (i64 (- amount cq)) s1) (\<lambda>s2.
     bindr (asset_add c nq cq) (\<lambda>pay.
     bindr (add_to_rex_pool c pay (send_transfer [Perm stake_account active_permission] stake_account rex_account
       pay ''buy REX with staked tokens'' s2)) (\<lambda>(rex_received, s3).
     bindr (add_to_rex_balance c n pay rex_received s3) (\<lambda>(_, s4).
     bindr (runrex c 2 s4) (\<lambda>s5.
     core_asset c s5 0 (\<lambda>zero.
     bindr (update_rex_account c n zero zero True s5) (\<lambda>(_, s6).
     Inr (send_result (BuyResult rex_received) s6)))))))) = Inr s'"
    unfolding s1_def d1_def
    by (simp add: unstaketorex_def check_voting_requirement_Inr require_auth_def Let_def split del: if_split)
  then show ?thesis using that [OF h d1_def s1_def] unfolding res_simps by blast
qed

end
