(* ===== verification/Footprint.thy ===== *)
theory Footprint
  imports RexFrame
begin

text \<open>
  What each action touches. The state falls into seven aspects (staking, the RAM market, the name
  auctions, producer pay, REX, the proxies of the voters, and the bandwidth the accounts have);
  \<open>touches\<close> lists the aspects an action may change, and
  \<open>held_senders\<close> those of the contract's own accounts it may send tokens from.
\<close>

datatype aspect = Staking | Ramming | Naming | Paying | Rexing | Proxying | Weighing

definition weights :: "(name, user_resources) fmap \<Rightarrow> name \<Rightarrow> int \<times> int" where
  "weights m n = (case fmlookup m n of
     None \<Rightarrow> (0, 0) | Some r \<Rightarrow> (amount (net_weight r), amount (cpu_weight r)))"

fun same :: "aspect \<Rightarrow> sys_state \<Rightarrow> sys_state \<Rightarrow> bool" where
  "same Staking s s' \<longleftrightarrow> delband s' = delband s \<and> refunds s' = refunds s"
| "same Ramming s s' \<longleftrightarrow> rammarket s' = rammarket s \<and> max_ram_size (gstate s') = max_ram_size (gstate s)
     \<and> total_ram_bytes_reserved (gstate s') = total_ram_bytes_reserved (gstate s)
     \<and> total_ram_stake (gstate s') = total_ram_stake (gstate s) \<and> ram_sum s' = ram_sum s"
| "same Naming s s' \<longleftrightarrow> namebids s' = namebids s \<and> bidrefunds s' = bidrefunds s"
| "same Paying s s' \<longleftrightarrow> pervote_bucket (gstate s') = pervote_bucket (gstate s)
     \<and> perblock_bucket (gstate s') = perblock_bucket (gstate s)
     \<and> total_unpaid_blocks (gstate s') = total_unpaid_blocks (gstate s) \<and> unpaid_sum s' = unpaid_sum s"
| "same Rexing s s' \<longleftrightarrow> rexpool s' = rexpool s \<and> rexfunds s' = rexfunds s
     \<and> fmmap rb_view (rexbalance s') = fmmap rb_view (rexbalance s) \<and> rexorders s' = rexorders s
     \<and> cpu_loans s' = cpu_loans s \<and> net_loans s' = net_loans s"
| "same Proxying s s' \<longleftrightarrow> same_proxies s s'"
| "same Weighing s s' \<longleftrightarrow> weights (userres s') = weights (userres s)"

lemma same_refl [simp]: "same a s s"
  by (cases a) simp_all

lemma same_trans: "same a s s1 \<Longrightarrow> same a s1 s2 \<Longrightarrow> same a s s2"
  by (cases a) (simp_all, blast intro: same_proxies_trans)

definition footprint :: "aspect set \<Rightarrow> name set \<Rightarrow> sys_state \<Rightarrow> sys_state \<Rightarrow> bool" where
  "footprint A F s s' \<longleftrightarrow> (\<forall>a. a \<notin> A \<longrightarrow> same a s s') \<and> tokens s' = tokens s
     \<and> sends F s s'"

lemma footprint_refl [simp]: "footprint A F s s"
  by (simp add: footprint_def sends_refl)

lemma footprint_trans:
  assumes "footprint A F s s1" "footprint B G s1 s2" "A \<union> B \<subseteq> C" "F \<union> G \<subseteq> H"
  shows "footprint C H s s2"
proof -
  have "same a s s2" if "a \<notin> C" for a
    using assms that unfolding footprint_def by (meson UnCI same_trans subsetD)
  moreover have "sends H s s2" using assms unfolding footprint_def by (blast intro: sends_trans)
  ultimately show ?thesis using assms(1,2) unfolding footprint_def by simp
qed

lemma footprint_then: "footprint A F s s1 \<Longrightarrow> footprint A F s1 s2 \<Longrightarrow> footprint A F s s2"
  by (erule (1) footprint_trans) auto

lemma footprint_mono: "footprint A F s s' \<Longrightarrow> A \<subseteq> B \<Longrightarrow> F \<subseteq> G \<Longrightarrow> footprint B G s s'"
  by (erule footprint_trans [OF _ footprint_refl]) auto

lemma footprintD:
  assumes "footprint A F s s'"
  shows "a \<notin> A \<Longrightarrow> same a s s'" "tokens s' = tokens s" "sends F s s'"
  using assms by (auto simp: footprint_def)

lemma footprintI:
  assumes "Staking \<notin> A \<Longrightarrow> same Staking s s'" "Ramming \<notin> A \<Longrightarrow> same Ramming s s'"
    "Naming \<notin> A \<Longrightarrow> same Naming s s'" "Paying \<notin> A \<Longrightarrow> same Paying s s'" "Rexing \<notin> A \<Longrightarrow> same Rexing s s'"
    "Proxying \<notin> A \<Longrightarrow> same Proxying s s'" "Weighing \<notin> A \<Longrightarrow> same Weighing s s'" "tokens s' = tokens s" "sends F s s'"
  shows "footprint A F s s'"
proof -
  have "same a s s'" if "a \<notin> A" for a using that assms(1-7) by (cases a) auto
  then show ?thesis using assms(8,9) by (auto simp: footprint_def)
qed

text \<open>Where footprints come from: REX, voting, and direct updates of fields.\<close>

lemma keeps_footprint: "keeps F s s' \<Longrightarrow> footprint {Rexing, Weighing} F s s'"
  by (rule footprintI) (auto dest: keepsD simp: g_view_def)

lemma view_footprint: "view s' = view s \<Longrightarrow> Proxying \<in> A \<or> same_proxies s s' \<Longrightarrow> footprint A F s s'"
  by (rule footprintI) (auto dest: viewD simp: g_view_def ram_sum_def intro: sends_refl)

lemma footprint_send:
  "sender a \<subseteq> F \<Longrightarrow> plain a \<Longrightarrow> footprint {} F s (s\<lparr>outbox := outbox s @ [a]\<rparr>)"
  by (rule footprintI) (auto simp: ram_sum_def unpaid_sum_def intro: sends_one)

lemma footprint_transfer: "f \<in> F \<Longrightarrow> footprint {} F s (send_transfer ps f t q memo s)"
  unfolding send_transfer_def by (rule footprint_send) auto

lemma footprint_fields [simp]:
  "footprint A F s (s\<lparr>pending := p\<rparr>)" "footprint A F s (s\<lparr>gstate2 := g2\<rparr>)"
  "footprint A F s (s\<lparr>gstate3 := g3\<rparr>)" "footprint A F s (s\<lparr>producers2 := p2\<rparr>)" "footprint A F s (s\<lparr>abihash := h\<rparr>)"
  "footprint A F s (s\<lparr>res_limits := l\<rparr>)" "footprint A F s (s\<lparr>privileged := pr\<rparr>)"
  "footprint A F s (s\<lparr>proposed := pp\<rparr>)" "Naming \<in> A \<Longrightarrow> footprint A F s (s\<lparr>namebids := nb\<rparr>)"
  "Naming \<in> A \<Longrightarrow> footprint A F s (s\<lparr>bidrefunds := br\<rparr>)" "Staking \<in> A \<Longrightarrow> footprint A F s (s\<lparr>delband := d\<rparr>)"
  "Staking \<in> A \<Longrightarrow> footprint A F s (s\<lparr>refunds := r\<rparr>)" "Rexing \<in> A \<Longrightarrow> footprint A F s (s\<lparr>rexpool := rp\<rparr>)"
  by (rule footprintI; simp add: sends_refl ram_sum_def unpaid_sum_def)+

lemma footprint_set_managed [simp]: "footprint A F s (set_managed f b n s)"
  by (rule view_footprint) (simp_all add: set_managed_def Let_def proxies_set_managed [unfolded set_managed_def Let_def])

lemma footprint_set_limits [simp]: "footprint A F s (set_limits n l s)"
  unfolding set_limits_def by simp

lemma footprint_refresh [simp]: "footprint A F s (refresh_limits n f tot s)"
  by (cases "res_limits s n") (simp add: refresh_limits_def Let_def)

lemma footprint_totals:
  assumes "ram_bytes tot = row_val (\<lambda>_ r. ram_bytes r) n (fmlookup (userres s) n)"
    and "Weighing \<in> A"
  shows "footprint A F s (store_totals n tot s)"
  by (rule footprintI)
    (use assms in \<open>auto simp: sends_refl store_totals_def ram_sum_def unpaid_sum_def fmsum_upd fmsum_drop res_empty_def\<close>)

lemma footprint_gstate:
  "g_view g = g_view (gstate s) \<Longrightarrow> footprint A F s (s\<lparr>gstate := g\<rparr>)"
  by (rule footprintI) (auto simp: sends_refl g_view_def ram_sum_def unpaid_sum_def)

section \<open>Actions outside REX\<close>

named_theorems footprints \<open>footprints of the actions\<close>

lemma footprint_update_delband: "update_delband c f r n p s = Inr s' \<Longrightarrow> footprint {Staking} F s s'"
  by (auto simp: update_delband_def res_simps)

definition grown_totals :: "sys_chain \<Rightarrow> name \<Rightarrow> asset \<Rightarrow> asset \<Rightarrow> sys_state \<Rightarrow> user_resources res" where
  "grown_totals c r n p s = (case fmlookup (userres s) r of
     None \<Rightarrow> Inr \<lparr>net_weight = n, cpu_weight = p, ram_bytes = 0\<rparr>
   | Some tot \<Rightarrow>
       bindr (asset_add c (net_weight tot) n) (\<lambda>nw.
       bindr (asset_add c (cpu_weight tot) p) (\<lambda>cw.
       Inr (tot\<lparr>net_weight := nw, cpu_weight := cw\<rparr>))))"

lemma update_totals_parts:
  assumes "update_totals c r n p s = Inr s'"
  obtains tot l where "grown_totals c r n p s = Inr tot" "0 \<le> amount (net_weight tot)" "0 \<le> amount (cpu_weight tot)"
    "s' = store_totals r tot (s\<lparr>res_limits := l\<rparr>)"
proof -
  from assms obtain tot where t: "grown_totals c r n p s = Inr tot" "0 \<le> amount (net_weight tot)" "0 \<le> amount (cpu_weight tot)"
    and s': "s' = store_totals r tot (refresh_limits r
       (\<lambda>ram. if managed ram_managed r s then ram else max (i64 (ram_bytes tot + ram_gift_bytes)) ram) tot s)"
    unfolding update_totals_def grown_totals_def [symmetric] bindr_Inr check_Inr by blast
  show ?thesis
    by (rule that [OF t, of "res_limits (refresh_limits r
       (\<lambda>ram. if managed ram_managed r s then ram else max (i64 (ram_bytes tot + ram_gift_bytes)) ram) tot s)"])
      (subst s', subst refresh_limits_eq, rule refl)
qed

lemma footprint_update_totals: "update_totals c r n p s = Inr s' \<Longrightarrow> footprint {Weighing} F s s'"
proof (erule update_totals_parts)
  fix tot l assume "grown_totals c r n p s = Inr tot" and s': "s' = store_totals r tot (s\<lparr>res_limits := l\<rparr>)"
  then have "ram_bytes tot = row_val (\<lambda>_ r. ram_bytes r) r (fmlookup (userres s) r)"
    by (auto simp: grown_totals_def res_simps split: option.splits)
  then show "footprint {Weighing} F s s'" unfolding s' by (intro footprint_then [OF _ footprint_totals]) simp_all
qed

lemma footprint_update_refund: "update_refund c n b p s = Inr (x, y, z, s') \<Longrightarrow> footprint {Staking} F s s'"
  by (auto simp: update_refund_def res_simps Let_def split: option.splits if_splits)

lemma stake_or_refund_parts:
  assumes "stake_or_refund c src n r tr nd cd s = Inr s'"
  obtains nb cb need s1 p q where
    "(if (\<not> tr \<and> n = r) \<or> i64 (amount nd + amount cd) < 0 then update_refund c n nd cd s
      else Inr (nd, cd, False, s)) = Inr (nb, cb, need, s1)"
    "asset_add c nb cb = Inr q"
    "s' = (if 0 < amount q then send_transfer [Perm src active_permission] src stake_account q ''stake bandwidth''
       (s1\<lparr>pending := p\<rparr>) else s1\<lparr>pending := p\<rparr>)"
proof -
  from assms obtain nb cb need s1 q where u:
      "(if (\<not> tr \<and> n = r) \<or> i64 (amount nd + amount cd) < 0 then update_refund c n nd cd s
        else Inr (nd, cd, False, s)) = Inr (nb, cb, need, s1)"
    and q: "asset_add c nb cb = Inr q"
    and s': "s' = (let s2 = s1\<lparr>pending := if need then fmupd (uint n) (DeferredRefund n refund_delay_sec) (pending s1)
         else fmdrop (uint n) (pending s1)\<rparr> in
       if 0 < amount q then s2\<lparr>outbox := outbox s2 @ [ToToken [Perm src active_permission]
         (Transfer src stake_account q ''stake bandwidth'')]\<rparr> else s2)"
    unfolding stake_or_refund_def Let_def res_simps by fastforce
  show ?thesis by (rule that [OF u q]) (unfold s' Let_def send_transfer_def, rule refl)
qed

lemma footprint_stake_or_refund:
  assumes "stake_or_refund c src n r tr nd cd s = Inr s'" shows "footprint {Staking} {src} s s'"
  using assms
proof (cases rule: stake_or_refund_parts)
  case (1 nb cb need s1 p q)
  have "footprint {Staking} {src} s s1" using 1(1) by (auto intro: footprint_update_refund split: if_splits)
  moreover have "footprint {Staking} {src} s1 (s1\<lparr>pending := p\<rparr>)" by simp
  moreover have "footprint {Staking} {src} (s1\<lparr>pending := p\<rparr>) s'"
    unfolding 1(3) by (auto intro: footprint_mono [OF footprint_transfer])
  ultimately show ?thesis by (meson footprint_then)
qed

lemma changebw_parts:
  assumes "changebw c src r nd cd tr s = Inr s'"
  obtains n q s1 s2 s3 s4 where "has_auth c src" "n = (if tr then r else src)" "asset_add c nd cd = Inr q"
    "amount nd \<noteq> 0 \<or> amount cd \<noteq> 0"
    "max (i64 \<bar>amount nd\<bar>) (i64 \<bar>amount cd\<bar>) \<le> i64 \<bar>amount q\<bar>"
    "update_delband c n r nd cd s = Inr s1" "update_totals c r nd cd s1 = Inr s2"
    "(if stake_account \<noteq> src then stake_or_refund c src n r tr nd cd s2 else Inr s2) = Inr s3"
    "update_rex_stake c n s3 = Inr s4" "update_voting_power c n q s4 = Inr s'"
proof -
  from assms obtain q s1 s2 s3 s4 where r: "has_auth c src" "asset_add c nd cd = Inr q"
    "amount nd \<noteq> 0 \<or> amount cd \<noteq> 0"
    "max (i64 \<bar>amount nd\<bar>) (i64 \<bar>amount cd\<bar>) \<le> i64 \<bar>amount q\<bar>"
    "update_delband c (if tr then r else src) r nd cd s = Inr s1" "update_totals c r nd cd s1 = Inr s2"
    "(if stake_account \<noteq> src then stake_or_refund c src (if tr then r else src) r tr nd cd s2 else Inr s2) = Inr s3"
    "update_rex_stake c (if tr then r else src) s3 = Inr s4"
    "update_voting_power c (if tr then r else src) q s4 = Inr s'"
    unfolding changebw_def Let_def bindr_Inr check_Inr require_auth_Inr by fastforce
  show ?thesis by (rule that [OF r(1) refl r(2-9)])
qed

lemma footprint_rex_stake: "update_rex_stake c n s = Inr s' \<Longrightarrow> footprint {} F s s'"
  using view_footprint [OF view_update_rex_stake] same_proxies_eq [OF pmap_update_rex_stake] by blast

lemma footprint_voting_power: "update_voting_power c n q s = Inr s' \<Longrightarrow> footprint {} F s s'"
  using view_footprint [OF view_update_voting_power] proxies_update_voting_power by blast

lemma footprint_changebw:
  assumes "changebw c src r nd cd tr s = Inr s'" shows "footprint {Staking, Weighing} {src} s s'"
  using assms
proof (cases rule: changebw_parts)
  case (1 n q s1 s2 s3 s4)
  let ?A = "{Staking, Weighing}"
  have "footprint ?A {src} s2 s3"
    using 1(8) by (auto intro: footprint_mono [OF footprint_stake_or_refund] split: if_splits)
  moreover have "footprint ?A {src} s s1" by (rule footprint_mono [OF footprint_update_delband [OF 1(6)]]) auto
  moreover have "footprint ?A {src} s1 s2" by (rule footprint_mono [OF footprint_update_totals [OF 1(7)]]) auto
  moreover have "footprint ?A {src} s3 s4" by (rule footprint_mono [OF footprint_rex_stake [OF 1(9)]]) auto
  moreover have "footprint ?A {src} s4 s'" by (rule footprint_mono [OF footprint_voting_power [OF 1(10)]]) auto
  ultimately show ?thesis by (meson footprint_then)
qed

lemma delegatebw_parts:
  assumes "delegatebw c n r nq cq tr s = Inr s'"
  obtains z where "core_asset c s 0 Inr = Inr z" "asset_le c z cq = Inr True" "asset_le c z nq = Inr True"
    "0 < i64 (amount nq + amount cq)" "changebw c n r nq cq tr s = Inr s'"
proof -
  from assms obtain sy z v1 v2 where r: "core_sym s = Some sy" "asset_new c 0 sy = Inr z" "asset_le c z cq = Inr v1" "v1" "asset_le c z nq = Inr v2" "v2"
    "0 < i64 (amount nq + amount cq)" "changebw c n r nq cq tr s = Inr s'"
    unfolding delegatebw_def res_simps by blast
  show ?thesis by (rule that [of z]) (use r in \<open>simp_all add: core_asset_Inr\<close>)
qed

lemma undelegatebw_parts:
  assumes "undelegatebw c n r nq cq s = Inr s'"
  obtains z where "core_asset c s 0 Inr = Inr z" "asset_le c z cq = Inr True" "asset_le c z nq = Inr True"
    "0 < i64 (amount cq + amount nq)" "min_activated_stake \<le> total_activated_stake (gstate s)"
    "changebw c n r (asset_neg c nq) (asset_neg c cq) False s = Inr s'"
proof -
  from assms obtain sy z v1 v2 where r: "core_sym s = Some sy" "asset_new c 0 sy = Inr z" "asset_le c z cq = Inr v1" "v1" "asset_le c z nq = Inr v2" "v2"
    "0 < i64 (amount cq + amount nq)" "min_activated_stake \<le> total_activated_stake (gstate s)"
    "changebw c n r (asset_neg c nq) (asset_neg c cq) False s = Inr s'"
    unfolding undelegatebw_def res_simps by blast
  show ?thesis by (rule that [of z]) (use r in \<open>simp_all add: core_asset_Inr\<close>)
qed

lemma footprint_delegatebw [footprints]: "delegatebw c n r nq cq tr s = Inr s' \<Longrightarrow> footprint {Staking, Weighing} {n} s s'"
  by (erule delegatebw_parts) (rule footprint_changebw)

lemma footprint_undelegatebw [footprints]: "undelegatebw c n r nq cq s = Inr s' \<Longrightarrow> footprint {Staking, Weighing} {n} s s'"
  by (erule undelegatebw_parts) (rule footprint_changebw)

lemma refund_parts:
  assumes "refund c n s = Inr s'"
  obtains req q where "has_auth c n" "fmlookup (refunds s) n = Some req"
    "i64 (request_time req * 1000000 + refund_delay_sec * 1000000) \<le> now_tp c"
    "asset_add c (net_amount req) (cpu_amount req) = Inr q"
    "s' = send_transfer [Perm stake_account active_permission, Perm n active_permission] stake_account n q
       ''unstake'' (s\<lparr>refunds := fmdrop n (refunds s)\<rparr>)"
  using assms by (auto simp: refund_def res_simps send_transfer_def)

lemma footprint_refund [footprints]: "refund c n s = Inr s' \<Longrightarrow> footprint {Staking} {stake_account} s s'"
  by (erule refund_parts) (auto intro: footprint_trans [OF _ footprint_transfer [of stake_account "{stake_account}"],
      where A = "{Staking}" and F = "{}"])

subsection \<open>RAM\<close>

lemma with_market_Inr [res_simps]: "with_market s k = Inr y \<longleftrightarrow> (\<exists>m. rammarket s = Some m \<and> k m = Inr y)"
  by (auto simp: with_market_def the_row_Inr)

lemma footprint_ramming:
  assumes "Ramming \<in> A" "pervote_bucket g = pervote_bucket (gstate s)" "perblock_bucket g = perblock_bucket (gstate s)"
    "total_unpaid_blocks g = total_unpaid_blocks (gstate s)"
  shows "footprint A F s (s\<lparr>rammarket := m, gstate := g\<rparr>)"
    and "footprint A F s (s\<lparr>rammarket := m, gstate := g, gstate2 := g2\<rparr>)"
    and "Weighing \<in> A \<or> weights u = weights (userres s) \<Longrightarrow>
      footprint A F s (s\<lparr>rammarket := m, gstate := g, userres := u\<rparr>)"
  by (rule footprintI; use assms in \<open>simp add: sends_refl unpaid_sum_def\<close>)+

lemma footprint_userres [simp]: "Ramming \<in> A \<Longrightarrow> Weighing \<in> A \<Longrightarrow> footprint A F s (s\<lparr>userres := u\<rparr>)"
  by (rule footprintI; simp add: sends_refl unpaid_sum_def)

lemma footprint_setram [footprints]: "setram c n s = Inr s' \<Longrightarrow> footprint {Ramming} {} s s'"
  by (auto simp: setram_def res_simps Let_def intro: footprint_ramming)

lemma footprint_update_ram_supply: "update_ram_supply c s = Inr s' \<Longrightarrow> footprint {Ramming} F s s'"
  by (auto simp: update_ram_supply_def res_simps Let_def intro: footprint_ramming split: if_splits)

lemma footprint_setramrate [footprints]: "setramrate c n s = Inr s' \<Longrightarrow> footprint {Ramming} {} s s'"
  by (auto simp: setramrate_def res_simps intro: footprint_then [OF footprint_update_ram_supply])

lemma footprint_channel: "footprint {Rexing} {f} s (channel_to_rex c f q s)"
  by (rule footprintI) (auto simp: channel_to_rex_def ram_sum_def unpaid_sum_def sends_refl intro: sends_one split: option.splits)

lemma footprint_set_ram_limit [simp]: "footprint A F s (set_ram_limit n r s)"
  by (simp add: set_ram_limit_def split: prod.splits)

lemma pay_ram_same [simp]:
  "rammarket (pay_ram c payer price fee s) = rammarket s" "gstate (pay_ram c payer price fee s) = gstate s"
  "userres (pay_ram c payer price fee s) = userres s"
  by (auto simp: pay_ram_def channel_to_rex_def send_transfer_def Let_def split: option.splits)

lemma footprint_pay_ram: "footprint {Rexing} {payer, ramfee_account} s (pay_ram c payer price fee s)"
proof -
  let ?F = "{payer, ramfee_account}"
  have t: "footprint {Rexing} ?F x (send_transfer ps payer t q memo x)" for ps t q memo x
    by (rule footprint_mono [OF footprint_transfer [of payer "{payer}"]]) auto
  have "footprint {Rexing} ?F x (channel_to_rex c ramfee_account fee x)" for x
    by (rule footprint_mono [OF footprint_channel]) auto
  then show ?thesis using t
    by (cases "0 < amount fee") (simp_all add: pay_ram_def Let_def, blast intro: footprint_then)
qed

lemma buyram_parts:
  assumes "buyram c payer receiver q s0 = Inr s'"
  obtains s fee price s2 m m1 out where "has_auth c payer" "update_ram_supply c s0 = Inr s"
    "core_sym s = Some (symb q)" "0 < amount q" "fee = q\<lparr>amount := ram_fee (amount q)\<rparr>"
    "price = q\<lparr>amount := i64 (amount q - amount fee)\<rparr>" "s2 = pay_ram c payer price fee s"
    "rammarket s = Some m" "convert c m price ram_symbol = Inr (out, m1)" "0 < amount out"
    "credit_ram c receiver (amount out) (s2\<lparr>rammarket := Some m1, gstate := (gstate s2)\<lparr>
       total_ram_bytes_reserved := u64 (total_ram_bytes_reserved (gstate s2) + u64 (amount out)),
       total_ram_stake := i64 (total_ram_stake (gstate s2) + amount price)\<rparr>\<rparr>) = Inr s'"
proof -
  define fee where "fee = q\<lparr>amount := ram_fee (amount q)\<rparr>"
  define price where "price = q\<lparr>amount := i64 (amount q - amount fee)\<rparr>"
  from assms obtain s where s: "has_auth c payer" "update_ram_supply c s0 = Inr s"
      "core_sym s = Some (symb q)" "0 < amount q"
    and k: "(let s2 = pay_ram c payer price fee s in
     with_market s2 (\<lambda>market.
     bindr (convert c market price ram_symbol) (\<lambda>(out, market1).
     check (0 < amount out) ''must reserve a positive amount'' (
     let g = gstate s2 in
     credit_ram c receiver (amount out) (s2\<lparr>rammarket := Some market1, gstate := g\<lparr>
       total_ram_bytes_reserved := u64 (total_ram_bytes_reserved g + u64 (amount out)),
       total_ram_stake := i64 (total_ram_stake g + amount price)\<rparr>\<rparr>))))) = Inr s'"
    unfolding buyram_def Let_def fee_def price_def by (auto simp: bindr_Inr with_core_Inr)
  then show ?thesis
    unfolding Let_def by (auto simp: with_market_Inr bindr_Inr intro: that [OF s fee_def price_def refl])
qed

lemma credit_ram_parts:
  assumes "credit_ram c n b s = Inr s'"
  obtains r where "ram_bytes r = (case fmlookup (userres s) n of None \<Rightarrow> b | Some r0 \<Rightarrow> i64 (ram_bytes r0 + b))"
    "case fmlookup (userres s) n of None \<Rightarrow> core_asset c s 0 (\<lambda>z.
       Inr \<lparr>net_weight = z, cpu_weight = z, ram_bytes = b\<rparr>) = Inr r
     | Some r0 \<Rightarrow> net_weight r = net_weight r0 \<and> cpu_weight r = cpu_weight r0"
    "s' = set_ram_limit n (ram_bytes r) (s\<lparr>userres := fmupd n r (userres s)\<rparr>)"
proof (cases "fmlookup (userres s) n")
  case None
  with assms obtain r where "core_asset c s 0 (\<lambda>z. Inr \<lparr>net_weight = z, cpu_weight = z, ram_bytes = b\<rparr>) = Inr r"
    "s' = set_ram_limit n (ram_bytes r) (s\<lparr>userres := fmupd n r (userres s)\<rparr>)"
    by (auto simp: credit_ram_def bindr_Inr)
  with None show ?thesis by (intro that [of r]) (auto simp: core_asset_Inr)
next
  case (Some r0)
  with assms show ?thesis
    by (intro that [of "r0\<lparr>ram_bytes := i64 (ram_bytes r0 + b)\<rparr>"]) (auto simp: credit_ram_def)
qed

lemma footprint_credit_ram: "credit_ram c n b s = Inr s' \<Longrightarrow> footprint {Ramming, Weighing} F s s'"
  by (erule credit_ram_parts) (erule ssubst, rule footprint_then [OF footprint_userres footprint_set_ram_limit], simp_all)

lemma footprint_buyram [footprints]:
  assumes "buyram c n r q s = Inr s'" shows "footprint {Ramming, Rexing, Weighing} {n, ramfee_account} s s'"
  using assms
proof (cases rule: buyram_parts)
  case (1 s1 fee price s2 m m1 out)
  let ?A = "{Ramming, Rexing, Weighing}" and ?F = "{n, ramfee_account}"
  have "footprint ?A ?F s s1" using footprint_update_ram_supply [OF 1(2)] by (rule footprint_mono) auto
  moreover have "footprint ?A ?F s1 s2" unfolding 1(7) by (rule footprint_mono [OF footprint_pay_ram]) auto
  moreover have "footprint ?A ?F s2 (s2\<lparr>rammarket := Some m1, gstate := (gstate s2)\<lparr>
       total_ram_bytes_reserved := u64 (total_ram_bytes_reserved (gstate s2) + u64 (amount out)),
       total_ram_stake := i64 (total_ram_stake (gstate s2) + amount price)\<rparr>\<rparr>)"
    by (rule footprint_ramming) simp_all
  moreover have "footprint ?A ?F (s2\<lparr>rammarket := Some m1, gstate := (gstate s2)\<lparr>
       total_ram_bytes_reserved := u64 (total_ram_bytes_reserved (gstate s2) + u64 (amount out)),
       total_ram_stake := i64 (total_ram_stake (gstate s2) + amount price)\<rparr>\<rparr>) s'"
    using footprint_credit_ram [OF 1(11)] by (rule footprint_mono) auto
  ultimately show ?thesis by (meson footprint_then)
qed

lemma buyrambytes_parts:
  assumes "buyrambytes c n r b s = Inr s'"
  obtains m q sy out m1 where "rammarket s = Some m" "asset_new c b ram_symbol = Inr q" "core_sym s = Some sy"
    "convert c m q sy = Inr (out, m1)" "buyram c n r out s = Inr s'"
  using assms that unfolding buyrambytes_def res_simps by blast

lemma footprint_buyrambytes [footprints]:
  "buyrambytes c n r b s = Inr s' \<Longrightarrow> footprint {Ramming, Rexing, Weighing} {n, ramfee_account} s s'"
  by (erule buyrambytes_parts) (rule footprint_buyram)

lemma sellram_parts:
  assumes "sellram c n b s0 = Inr s'"
  obtains s r m q sy out m1 stake r1 where "has_auth c n" "update_ram_supply c s0 = Inr s" "0 < b"
    "fmlookup (userres s) n = Some r" "b \<le> ram_bytes r" "rammarket s = Some m" "asset_new c b ram_symbol = Inr q"
    "core_sym s = Some sy" "convert c m q sy = Inr (out, m1)" "1 < amount out"
    "stake = i64 (total_ram_stake (gstate s) - amount out)" "0 \<le> stake" "r1 = r\<lparr>ram_bytes := i64 (ram_bytes r - b)\<rparr>"
    "pay_seller c n out (set_ram_limit n (ram_bytes r1) (s\<lparr>rammarket := Some m1,
       gstate := (gstate s)\<lparr>total_ram_bytes_reserved := u64 (total_ram_bytes_reserved (gstate s) - u64 b),
         total_ram_stake := stake\<rparr>, userres := fmupd n r1 (userres s)\<rparr>)) = Inr s'"
proof -
  from assms obtain s r m q sy out m1 where "has_auth c n" "update_ram_supply c s0 = Inr s" "0 < b"
    "fmlookup (userres s) n = Some r" "b \<le> ram_bytes r" "rammarket s = Some m" "asset_new c b ram_symbol = Inr q"
    "core_sym s = Some sy" "convert c m q sy = Inr (out, m1)" "1 < amount out"
    "0 \<le> i64 (total_ram_stake (gstate s) - amount out)"
    "pay_seller c n out (set_ram_limit n (ram_bytes (r\<lparr>ram_bytes := i64 (ram_bytes r - b)\<rparr>)) (s\<lparr>rammarket := Some m1,
       gstate := (gstate s)\<lparr>total_ram_bytes_reserved := u64 (total_ram_bytes_reserved (gstate s) - u64 b),
         total_ram_stake := i64 (total_ram_stake (gstate s) - amount out)\<rparr>,
       userres := fmupd n (r\<lparr>ram_bytes := i64 (ram_bytes r - b)\<rparr>) (userres s)\<rparr>)) = Inr s'"
    unfolding sellram_def Let_def res_simps by blast
  then show ?thesis by (intro that [OF _ _ _ _ _ _ _ _ _ _ refl _ refl])
qed

lemma footprint_pay_seller:
  assumes "pay_seller c n q s = Inr s'" shows "footprint {Rexing} {ram_account, n, ramfee_account} s s'"
proof -
  let ?F = "{ram_account, n, ramfee_account}"
  have t: "footprint {Rexing} ?F x (send_transfer ps f m r memo x)" if "f \<in> ?F" for ps f m r memo x
    by (rule footprint_mono [OF footprint_transfer [of f "{f}"]]) (use that in auto)
  have k: "footprint {Rexing} ?F x (channel_to_rex c ramfee_account r x)" for r x
    by (rule footprint_mono [OF footprint_channel]) auto
  let ?s1 = "send_transfer [Perm ram_account active_permission, Perm n active_permission] ram_account n q ''sell ram'' s"
  consider "s' = ?s1" | r where "s' = channel_to_rex c ramfee_account r
      (send_transfer [Perm n active_permission] n ramfee_account r ''sell ram fee'' ?s1)"
    using assms by (auto simp: pay_seller_def Let_def res_simps split: if_splits)
  then show ?thesis using t k by cases (blast, blast intro: footprint_then)
qed

lemma footprint_sellram [footprints]:
  assumes "sellram c n b s = Inr s'"
  shows "footprint {Ramming, Rexing} {ram_account, n, ramfee_account} s s'"
  using assms
proof (cases rule: sellram_parts)
  case (1 s1 r m q sy out m1 stake r1)
  let ?A = "{Ramming, Rexing}" and ?F = "{ram_account, n, ramfee_account}"
  let ?s2 = "s1\<lparr>rammarket := Some m1,
       gstate := (gstate s1)\<lparr>total_ram_bytes_reserved := u64 (total_ram_bytes_reserved (gstate s1) - u64 b),
         total_ram_stake := stake\<rparr>, userres := fmupd n r1 (userres s1)\<rparr>"
  have "footprint ?A ?F s s1" using footprint_update_ram_supply [OF 1(2)] by (rule footprint_mono) auto
  moreover have "weights (fmupd n r1 (userres s1)) = weights (userres s1)"
    using 1(4) by (auto simp: weights_def fun_eq_iff 1(13))
  then have "footprint ?A ?F s1 ?s2" by (intro footprint_ramming(3)) simp_all
  moreover have "footprint ?A ?F ?s2 (set_ram_limit n (ram_bytes r1) ?s2)" by simp
  moreover have "footprint ?A ?F (set_ram_limit n (ram_bytes r1) ?s2) s'"
    using footprint_pay_seller [OF 1(14)] by (rule footprint_mono) auto
  ultimately show ?thesis by (meson footprint_then)
qed

subsection \<open>Names, pay, votes and administration\<close>

lemma footprint_naming: "Naming \<in> A \<Longrightarrow> footprint A F s (s\<lparr>pending := p, namebids := b\<rparr>)"
  by (rule footprintI) (auto simp: sends_refl ram_sum_def unpaid_sum_def)

lemma add_bid_refund_parts:
  assumes "add_bid_refund c n b x s = Inr s'"
  obtains q r where "core_asset c s x Inr = Inr q"
    "(case fmlookup (bidrefunds s) (n, b) of None \<Rightarrow> Inr q | Some r0 \<Rightarrow> asset_add c r0 q) = Inr r"
    "s' = s\<lparr>bidrefunds := fmupd (n, b) r (bidrefunds s)\<rparr>"
  using assms that unfolding add_bid_refund_def res_simps by blast

lemma footprint_add_bid_refund: "add_bid_refund c n b x s = Inr s' \<Longrightarrow> footprint {Naming} F s s'"
  by (erule add_bid_refund_parts) simp

lemma bidname_parts:
  assumes "bidname c bidder newname bid s = Inr s'"
  obtains s1 row where "has_auth c bidder" "core_sym s = Some (symb bid)" "0 < amount bid"
    "s1 = send_transfer [Perm bidder active_permission] bidder names_account bid
       (''bid name '' @ name_to_string c newname) s"
    "row = \<lparr>high_bidder = bidder, high_bid = amount bid, last_bid_time = now_tp c\<rparr>"
    "fmlookup (namebids s) newname = None" "s' = s1\<lparr>namebids := fmupd newname row (namebids s)\<rparr>"
  | s1 row cur s2 p where "has_auth c bidder" "core_sym s = Some (symb bid)" "0 < amount bid"
    "s1 = send_transfer [Perm bidder active_permission] bidder names_account bid
       (''bid name '' @ name_to_string c newname) s"
    "row = \<lparr>high_bidder = bidder, high_bid = amount bid, last_bid_time = now_tp c\<rparr>"
    "fmlookup (namebids s) newname = Some cur" "0 < high_bid cur"
    "high_bid cur sdiv 10 < i64 (amount bid - high_bid cur)" "high_bidder cur \<noteq> bidder"
    "add_bid_refund c newname (high_bidder cur) (high_bid cur) s1 = Inr s2"
    "s' = s2\<lparr>pending := p, namebids := fmupd newname row (namebids s2)\<rparr>"
proof -
  let ?s1 = "send_transfer [Perm bidder active_permission] bidder names_account bid
       (''bid name '' @ name_to_string c newname) s"
  have nb: "namebids ?s1 = namebids s" by (simp add: send_transfer_def)
  from assms have h: "has_auth c bidder" "core_sym s = Some (symb bid)" "0 < amount bid"
    by (auto simp: bidname_def with_core_Inr)
  show ?thesis
  proof (cases "fmlookup (namebids s) newname")
    case None
    with assms nb show ?thesis by (intro that(1) [OF h refl refl]) (auto simp: bidname_def with_core_Inr Let_def)
  next
    case (Some cur)
    from assms have "check (0 < high_bid cur) ''this auction has already closed'' (
         check (high_bid cur sdiv 10 < i64 (amount bid - high_bid cur)) ''must increase bid by 10%'' (
         check (high_bidder cur \<noteq> bidder) ''account is already highest bidder'' (
         bindr (add_bid_refund c newname (high_bidder cur) (high_bid cur) ?s1) (\<lambda>s2.
         Inr (s2\<lparr>pending := fmupd (uint newname * 18446744073709551616 + uint (high_bidder cur))
             (DeferredBidRefund (high_bidder cur) newname 0) (pending s2),
           namebids := fmupd newname \<lparr>high_bidder = bidder, high_bid = amount bid, last_bid_time = now_tp c\<rparr>
             (namebids s2)\<rparr>))))) = Inr s'"
      unfolding bidname_def with_core_Inr check_Inr require_auth_Inr Let_def nb Some by (simp del: sdiv_pos)
    then show ?thesis unfolding check_Inr bindr_Inr using that(2) [OF h refl refl Some] by blast
  qed
qed

lemma footprint_bidname [footprints]:
  assumes "bidname c b n q s = Inr s'" shows "footprint {Naming} {b} s s'"
  using assms
proof (cases rule: bidname_parts)
  case (1 s1 row)
  have "footprint {Naming} {b} s s1" unfolding 1(4) by (rule footprint_mono [OF footprint_transfer [of b "{b}"]]) auto
  then show ?thesis unfolding 1(7) by (rule footprint_then) simp
next
  case (2 s1 row cur s2 p)
  have "footprint {Naming} {b} s s1" unfolding 2(4) by (rule footprint_mono [OF footprint_transfer [of b "{b}"]]) auto
  moreover have "footprint {Naming} {b} s2 s'" unfolding 2(11) by (rule footprint_naming) simp
  ultimately show ?thesis using footprint_add_bid_refund [OF 2(10)] by (meson footprint_then)
qed

lemma bidrefund_parts:
  assumes "bidrefund c b n s = Inr s'"
  obtains q where "fmlookup (bidrefunds s) (n, b) = Some q"
    "s' = send_transfer [Perm names_account active_permission, Perm b active_permission] names_account b q
       (''refund bid on name '' @ name_to_string c n) (s\<lparr>bidrefunds := fmdrop (n, b) (bidrefunds s)\<rparr>)"
  using assms that unfolding bidrefund_def res_simps by blast

lemma footprint_bidrefund [footprints]: "bidrefund c b n s = Inr s' \<Longrightarrow> footprint {Naming} {names_account} s s'"
  by (erule bidrefund_parts) (auto intro: footprint_trans [OF _ footprint_transfer [of names_account "{names_account}"],
      where A = "{Naming}" and F = "{}"])

lemma newaccount_parts:
  assumes "newaccount c k n s = Inr s'"
  obtains nb z where "namebids s = nb \<or> (\<exists>b. fmlookup (namebids s) n = Some b \<and> high_bid b < 0 \<and> nb = fmdrop n (namebids s))"
    "fmlookup (userres s) n = None" "core_asset c s 0 Inr = Inr z"
    "s' = set_limits n (0, 0, 0) (s\<lparr>namebids := nb, userres := fmupd n
       \<lparr>net_weight = z, cpu_weight = z, ram_bytes = 0\<rparr> (userres s)\<rparr>)"
proof -
  from assms obtain s1 z where s1: "s1 = s \<or> (\<exists>b. fmlookup (namebids s) n = Some b \<and> high_bid b < 0
      \<and> s1 = s\<lparr>namebids := fmdrop n (namebids s)\<rparr>)"
    and k: "fmlookup (userres s1) n = None" "core_asset c s1 0 Inr = Inr z"
    "s' = set_limits n (0, 0, 0) (s1\<lparr>userres := fmupd n
       \<lparr>net_weight = z, cpu_weight = z, ram_bytes = 0\<rparr> (userres s1)\<rparr>)"
    by (auto simp: newaccount_def res_simps split: if_splits)
  then show ?thesis by (intro that [of "namebids s1" z]) (auto simp: core_asset_Inr core_sym_def)
qed

lemma footprint_newaccount [footprints]: "newaccount c k n s = Inr s' \<Longrightarrow> footprint {Naming, Weighing} {} s s'"
proof (erule newaccount_parts)
  fix nb z assume n: "fmlookup (userres s) n = None"
    and s': "s' = set_limits n (0, 0, 0) (s\<lparr>namebids := nb, userres := fmupd n
       \<lparr>net_weight = z, cpu_weight = z, ram_bytes = 0\<rparr> (userres s)\<rparr>)"
  show "footprint {Naming, Weighing} {} s s'"
    by (rule footprintI) (auto simp: sends_refl s' set_limits_def ram_sum_def unpaid_sum_def fmsum_upd n)
qed

lemma footprint_init [footprints]: "init c v sy s = Inr s' \<Longrightarrow> footprint {Ramming} {} s s'"
  by (rule footprintI) (auto simp: init_def res_simps ram_sum_def unpaid_sum_def sends_def)

lemma footprint_setparams [footprints]: "setparams c p s = Inr s' \<Longrightarrow> footprint {} {} s s'"
  by (rule footprintI) (auto simp: sends_refl setparams_def res_simps ram_sum_def unpaid_sum_def)

lemma footprint_producer:
  assumes "fmlookup (producers s) n = Some p" "unpaid_blocks q = unpaid_blocks p"
  shows "footprint A F s (s\<lparr>producers := fmupd n q (producers s)\<rparr>)"
  by (rule footprintI) (use assms in \<open>auto simp: sends_refl ram_sum_def unpaid_sum_def fmsum_upd\<close>)

lemma footprint_unregprod [footprints]: "unregprod c n s = Inr s' \<Longrightarrow> footprint {} {} s s'"
  by (auto simp: unregprod_def res_simps deactivate_def intro: footprint_producer)

lemma footprint_rmvproducer [footprints]: "rmvproducer c n s = Inr s' \<Longrightarrow> footprint {} {} s s'"
  by (auto simp: rmvproducer_def res_simps deactivate_def intro: footprint_producer)

lemma footprint_managed [simp]: "footprint A F s (set_limits n l (set_managed f b m s))"
  by (rule footprint_then [OF footprint_set_managed footprint_set_limits])

lemma footprint_limits [footprints]:
  "setalimits c n r nt cp s = Inr s' \<Longrightarrow> footprint {} {} s s'"
  "setacctram c n v s = Inr s' \<Longrightarrow> footprint {} {} s s'"
  "setacctnet c n v s = Inr s' \<Longrightarrow> footprint {} {} s s'"
  "setacctcpu c n v s = Inr s' \<Longrightarrow> footprint {} {} s s'"
  by (auto simp: setalimits_def setacctram_def setacctnet_def setacctcpu_def Let_def
      split: option.splits prod.splits)

lemma footprint_small [footprints]:
  "setpriv c n b s = Inr s' \<Longrightarrow> footprint {} {} s s'"
  "updtrevision c v s = Inr s' \<Longrightarrow> footprint {} {} s s'"
  "setabi c n h s = Inr s' \<Longrightarrow> footprint {} {} s s'"
  by (auto simp: setpriv_def updtrevision_def setabi_def)

lemma footprint_votes [footprints]:
  "voteproducer c n p ps s = Inr s' \<Longrightarrow> footprint {Proxying} {} s s'"
  "regproxy c n b s = Inr s' \<Longrightarrow> footprint {Proxying} {} s s'"
  by (auto intro: view_footprint frames)

lemma footprint_total_share [simp]: "footprint A F s (snd (update_total_votepay_share ct a r s))"
  by (rule view_footprint) (simp_all add: same_proxies_eq)

lemma footprint_total_share_eq: "update_total_votepay_share ct a r s = (d, s') \<Longrightarrow> footprint A F s s'"
  using footprint_total_share [of A F s ct a r] by simp

lemma footprint_regproducer [footprints]: "regproducer c n k u l s = Inr s' \<Longrightarrow> footprint {} {} s s'"
proof -
  assume h: "regproducer c n k u l s = Inr s'"
  show ?thesis
  proof (cases "fmlookup (producers s) n")
    case None
    with h show ?thesis
      by (intro footprintI) (auto simp: sends_refl regproducer_def Let_def ram_sum_def unpaid_sum_def fmsum_upd)
  next
    case (Some info)
    define p where "p = info\<lparr>producer_key := k, is_active := True, url := u, location := l,
               last_claim_time := if last_claim_time info = 0 then now_tp c else last_claim_time info\<rparr>"
    let ?s1 = "s\<lparr>producers := fmupd n p (producers s)\<rparr>"
    have "footprint {} {} s ?s1" by (rule footprint_producer [OF Some]) (simp add: p_def)
    moreover from h Some have "s' = ?s1 \<or> (\<exists>p2. s' = snd (update_total_votepay_share (now_tp c) (Fin 0) (total_votes p)
        (?s1\<lparr>producers2 := p2\<rparr>)))"
      by (auto simp: regproducer_def Let_def p_def split: option.splits)
    moreover have "footprint {} {} ?s1 (snd (update_total_votepay_share (now_tp c) (Fin 0) (total_votes p)
        (?s1\<lparr>producers2 := p2\<rparr>)))" for p2
      by (rule footprint_then [of _ _ _ "?s1\<lparr>producers2 := p2\<rparr>"]) simp_all
    ultimately show ?thesis by (auto intro: footprint_then)
  qed
qed

lemma footprint_elected [simp]: "footprint A F s (update_elected_producers c t s)"
  by (rule view_footprint)
    (auto simp: update_elected_producers_def Let_def view_def g_view_def unpaid_sum_def)

lemma footprint_count: "footprint {Paying} F s (count_block c n s)"
  by (rule footprintI) (auto simp: sends_refl count_block_def ram_sum_def split: option.splits)

lemma channel_namebid_footprint: "Rexing \<in> A \<Longrightarrow> footprint A F s (channel_namebid_to_rex x s)"
  by (auto simp: channel_namebid_to_rex_def split: option.splits)

lemma footprint_close: "footprint {Naming, Rexing} F s (close_highest_bid c t s)"
proof (cases "highest_bid s")
  case (Some nb)
  obtain n b where nb: "nb = (n, b)" by (cases nb)
  let ?A = "{Naming, Rexing}"
  let ?s1 = "s\<lparr>gstate := (gstate s)\<lparr>last_name_close := t\<rparr>\<rparr>"
  have "footprint ?A F s ?s1" by (rule footprint_gstate) (simp add: g_view_def)
  moreover have "footprint ?A F ?s1 (channel_namebid_to_rex x ?s1)" for x
    by (rule channel_namebid_footprint) simp
  moreover have "footprint ?A F y (y\<lparr>namebids := m\<rparr>)" for y m by simp
  ultimately have "footprint ?A F s ((channel_namebid_to_rex x ?s1)\<lparr>namebids := m\<rparr>)" for x m
    by (meson footprint_then)
  then show ?thesis by (auto simp: close_highest_bid_def Some nb Let_def)
qed (simp add: close_highest_bid_def)

text \<open>The steps of \<open>onblock\<close>: what a chain that is active does to the state of the block before.\<close>

lemma onblock_parts:
  assumes "onblock c t n s = Inr s'"
  obtains s1 s2 s3 where "has_auth c (self c)" "s1 = s\<lparr>gstate2 := (gstate2 s)\<lparr>last_block_num := t\<rparr>\<rparr>"
    "total_activated_stake (gstate s) < min_activated_stake \<longrightarrow> s' = s1"
    "s2 = s1 \<or> s2 = s1\<lparr>gstate := (gstate s)\<lparr>last_pervote_bucket_fill := now_tp c\<rparr>\<rparr>"
    "s3 = count_block c n s2"
    "s' = s1 \<or> s' = s3 \<or> s' = update_elected_producers c t s3
      \<or> s' = close_highest_bid c t (update_elected_producers c t s3)"
proof -
  let ?s1 = "s\<lparr>gstate2 := (gstate2 s)\<lparr>last_block_num := t\<rparr>\<rparr>"
  let ?s2 = "if last_pervote_bucket_fill (gstate s) = 0
        then ?s1\<lparr>gstate := (gstate s)\<lparr>last_pervote_bucket_fill := now_tp c\<rparr>\<rparr> else ?s1"
  show ?thesis
    by (rule that [of ?s1 ?s2 "count_block c n ?s2"]) (use assms in \<open>auto simp: onblock_def Let_def split: if_splits\<close>)
qed

lemma footprint_onblock [footprints]:
  assumes "onblock c t n s = Inr s'" shows "footprint {Naming, Paying, Rexing} {} s s'"
  using assms
proof (cases rule: onblock_parts)
  case (1 s1 s2 s3)
  let ?A = "{Naming, Paying, Rexing}"
  have "footprint ?A {} s s1" unfolding 1(2) by simp
  moreover have "footprint ?A {} s1 s2" using 1(4)
    by (auto simp: 1(2) intro!: footprint_gstate) (simp_all add: g_view_def)
  moreover have "footprint ?A {} s2 s3" unfolding 1(5) by (rule footprint_mono [OF footprint_count]) auto
  moreover have "footprint ?A {} x (update_elected_producers c t x)" for x by simp
  moreover have "footprint ?A {} x (close_highest_bid c t x)" for x by (rule footprint_mono [OF footprint_close]) auto
  ultimately show ?thesis using 1(6) by (meson footprint_then)
qed

text \<open>The steps of \<open>claimrewards\<close>.\<close>

lemma claimrewards_parts:
  assumes "claimrewards c n s = Inr s'"
  obtains p sy q s1 upd share s2 pay s3 s4 where "has_auth c n" "fmlookup (producers s) n = Some p" "is_active p"
    "min_activated_stake \<le> total_activated_stake (gstate s)" "useconds_per_day < i64 (now_tp c - last_claim_time p)"
    "core_sym s = Some sy" "get_supply (tokens s) (sym_code sy) = Inr q" "fill_buckets c q s = Inr s1"
    "claim_share c n p s1 = (upd, share, s2)" "vote_pay c (past_threshold c p) share p s2 = Inr (pay, s3)"
    "pay_producer c bpay_account n (block_pay (gstate s1) p) ''producer block pay''
       (settle_claim c n p upd share (block_pay (gstate s1) p) pay s3) = Inr s4"
    "pay_producer c vpay_account n pay ''producer vote pay'' s4 = Inr s'"
  using assms that unfolding claimrewards_def Let_def res_simps by blast

lemma fill_buckets_parts:
  assumes "fill_buckets c q s = Inr s'"
  obtains "s' = s" "\<not> (0 < i64 (now_tp c - last_pervote_bucket_fill (gstate s)) \<and> 0 < last_pervote_bucket_fill (gstate s))"
  | new_tokens prod_part block_part sy q1 q2 q3 q4 where
    "0 < i64 (now_tp c - last_pervote_bucket_fill (gstate s))" "0 < last_pervote_bucket_fill (gstate s)"
    "inflation (amount q) (i64 (now_tp c - last_pervote_bucket_fill (gstate s))) = Inr new_tokens"
    "prod_part = new_tokens sdiv 5" "block_part = prod_part sdiv 4" "core_sym s = Some sy"
    "asset_new c new_tokens sy = Inr q1" "asset_new c (i64 (new_tokens - prod_part)) sy = Inr q2"
    "asset_new c block_part sy = Inr q3" "asset_new c (i64 (prod_part - block_part)) sy = Inr q4"
    "s' = s\<lparr>outbox := outbox s @
           [ToToken [Perm (self c) active_permission] (Issue (self c) q1 ''issue tokens for producer pay and savings''),
            ToToken [Perm (self c) active_permission] (Transfer (self c) saving_account q2 ''unallocated inflation''),
            ToToken [Perm (self c) active_permission] (Transfer (self c) bpay_account q3 ''fund per-block bucket''),
            ToToken [Perm (self c) active_permission] (Transfer (self c) vpay_account q4 ''fund per-vote bucket'')],
         gstate := (gstate s)\<lparr>pervote_bucket := i64 (pervote_bucket (gstate s) + i64 (prod_part - block_part)),
           perblock_bucket := i64 (perblock_bucket (gstate s) + block_part),
           last_pervote_bucket_fill := now_tp c\<rparr>\<rparr>"
proof (cases "0 < i64 (now_tp c - last_pervote_bucket_fill (gstate s)) \<and> 0 < last_pervote_bucket_fill (gstate s)")
  case True
  with assms obtain new_tokens where i: "inflation (amount q) (i64 (now_tp c - last_pervote_bucket_fill (gstate s))) = Inr new_tokens"
    and k: "core_asset c s new_tokens (\<lambda>q_new.
       core_asset c s (i64 (new_tokens - new_tokens sdiv 5)) (\<lambda>q_savings.
       core_asset c s (new_tokens sdiv 5 sdiv 4) (\<lambda>q_block.
       core_asset c s (i64 (new_tokens sdiv 5 - new_tokens sdiv 5 sdiv 4)) (\<lambda>q_vote.
       Inr (s\<lparr>outbox := outbox s @
           [ToToken [Perm (self c) active_permission] (Issue (self c) q_new ''issue tokens for producer pay and savings''),
            ToToken [Perm (self c) active_permission] (Transfer (self c) saving_account q_savings ''unallocated inflation''),
            ToToken [Perm (self c) active_permission] (Transfer (self c) bpay_account q_block ''fund per-block bucket''),
            ToToken [Perm (self c) active_permission] (Transfer (self c) vpay_account q_vote ''fund per-vote bucket'')],
         gstate := (gstate s)\<lparr>pervote_bucket := i64 (pervote_bucket (gstate s) + i64 (new_tokens sdiv 5 - new_tokens sdiv 5 sdiv 4)),
           perblock_bucket := i64 (perblock_bucket (gstate s) + new_tokens sdiv 5 sdiv 4),
           last_pervote_bucket_fill := now_tp c\<rparr>\<rparr>))))) = Inr s'"
    by (auto simp: fill_buckets_def Let_def bindr_Inr)
  from k obtain sy where sy: "core_sym s = Some sy" by (auto simp: core_asset_Inr)
  from k show ?thesis
    unfolding core_asset_Inr sy option.inject using that(2) [OF conjunct1 [OF True] conjunct2 [OF True] i refl refl sy] by blast
qed (use assms that(1) in \<open>auto simp: fill_buckets_def Let_def\<close>)

lemma footprint_fill: "fill_buckets c q s = Inr s' \<Longrightarrow> footprint {Paying} {self c} s s'"
  by (erule fill_buckets_parts) (simp, rule footprintI, simp_all add: ram_sum_def unpaid_sum_def sends_def)

lemma footprint_claim_share: "claim_share c n p s = (u, v, s') \<Longrightarrow> footprint A F s s'"
  by (auto simp: claim_share_def Let_def split: option.splits prod.splits)

lemma vote_pay_parts:
  assumes "vote_pay c b v p s = Inr (pay, s')"
  obtains raw where "pay = (if raw < min_pervote_daily_pay then 0 else raw)"
    "s' = s \<or> s' = snd (update_total_votepay_share (now_tp c) (Fin 0) (Fin 0) s)"
proof -
  let ?u = "update_total_votepay_share (now_tp c) (Fin 0) (Fin 0) s"
  from assms obtain raw where p: "pay = (if raw < min_pervote_daily_pay then 0 else raw)"
    and m: "(if 0 < revision (gstate2 s) then
         case ?u of (total_votepay_share, s1) \<Rightarrow>
         if dlt (Fin 0) total_votepay_share \<and> \<not> b then
           bindr (to_int64 (ddiv (dmul v (to_double (pervote_bucket (gstate s1)))) total_votepay_share)) (\<lambda>pay.
           Inr (if pervote_bucket (gstate s1) < pay then pervote_bucket (gstate s1) else pay, s1))
         else Inr (0, s1)
       else if dlt (Fin 0) (total_producer_vote_weight (gstate s)) then
         bindr (to_int64 (ddiv (dmul (to_double (pervote_bucket (gstate s))) (total_votes p))
           (total_producer_vote_weight (gstate s)))) (\<lambda>pay. Inr (pay, s))
       else Inr (0, s)) = Inr (raw, s')"
    unfolding vote_pay_def bindr_Inr by (elim exE conjE) (simp split: prod.splits)
  have "s' = s \<or> s' = snd ?u"
    using m by (cases "0 < revision (gstate2 s)") (auto simp: bindr_Inr split: if_splits prod.splits)
  then show ?thesis by (rule that [OF p])
qed

lemma footprint_vote_pay: "vote_pay c b v p s = Inr (pay, s') \<Longrightarrow> footprint A F s s'"
  by (erule vote_pay_parts) auto

lemma footprint_settle: "footprint {Paying} F s (settle_claim c n p u v x y s)"
proof -
  let ?g = "(gstate s)\<lparr>pervote_bucket := i64 (pervote_bucket (gstate s) - y),
            perblock_bucket := i64 (perblock_bucket (gstate s) - x),
            total_unpaid_blocks := u32 (total_unpaid_blocks (gstate s) - unpaid_blocks p)\<rparr>"
  have "footprint {Paying} F s (s\<lparr>gstate := ?g\<rparr>)" by (rule footprintI) (auto simp: sends_refl ram_sum_def unpaid_sum_def)
  moreover have "footprint {Paying} F z (z\<lparr>producers := m\<rparr>)" for z m by (rule footprintI) (auto simp: sends_refl ram_sum_def)
  ultimately show ?thesis unfolding settle_claim_def Let_def by (meson footprint_then footprint_total_share)
qed

lemma pay_producer_parts:
  assumes "pay_producer c b n x memo s = Inr s'"
  obtains "x \<le> 0" "s' = s"
  | q where "0 < x" "core_asset c s x Inr = Inr q"
    "s' = send_transfer [Perm b active_permission, Perm n active_permission] b n q memo s"
  using assms that by (auto simp: pay_producer_def res_simps split: if_splits)

lemma footprint_pay_producer: "pay_producer c b n x memo s = Inr s' \<Longrightarrow> footprint {} {b} s s'"
  by (erule pay_producer_parts) (simp_all add: footprint_transfer)

lemma footprint_claimrewards [footprints]:
  assumes "claimrewards c n s = Inr s'"
  shows "footprint {Paying} {self c, bpay_account, vpay_account} s s'"
  using assms
proof (cases rule: claimrewards_parts)
  case (1 p sy q s1 upd share s2 pay s3 s4)
  let ?F = "{self c, bpay_account, vpay_account}"
  have "footprint {Paying} ?F s s1" using footprint_fill [OF 1(8)] by (rule footprint_mono) auto
  moreover have "footprint {Paying} ?F s1 s2" by (rule footprint_claim_share [OF 1(9)])
  moreover have "footprint {Paying} ?F s2 s3" by (rule footprint_vote_pay [OF 1(10)])
  moreover note footprint_settle [of ?F s3]
  moreover have "footprint {Paying} ?F (settle_claim c n p upd share (block_pay (gstate s1) p) pay s3) s4"
    using footprint_pay_producer [OF 1(11)] by (rule footprint_mono) auto
  moreover have "footprint {Paying} ?F s4 s'" using footprint_pay_producer [OF 1(12)] by (rule footprint_mono) auto
  ultimately show ?thesis by (meson footprint_then)
qed

lemma footprint_unstaketorex [footprints]:
  assumes "unstaketorex c n r nq cq s = Inr s'"
  shows "footprint {Staking, Rexing, Weighing} {stake_account, names_account} s s'"
  using assms
proof (cases rule: unstaketorex_parts)
  case (1 d d1 s1 s2 pay rec s3 x s4 s5 z y s6)
  let ?A = "{Staking, Rexing, Weighing}" and ?F = "{stake_account, names_account}"
  let ?t = "send_transfer [Perm stake_account active_permission] stake_account rex_account pay ''buy REX with staked tokens'' s2"
  have r: "footprint ?A ?F a b" if "keeps ?F a b" for a b
    by (rule footprint_mono [OF keeps_footprint [OF that]]) auto
  have "footprint ?A ?F s s1" unfolding 1(11) by simp
  moreover have "footprint ?A ?F s1 s2" by (rule r [OF keeps_limits [OF 1(12)]])
  moreover have "footprint ?A ?F s2 ?t" by (rule footprint_mono [OF footprint_transfer [of stake_account ?F]]) auto
  moreover have "footprint ?A ?F ?t s4"
    by (rule r) (rule keeps_then [OF keeps_add_pool [OF 1(14)] keeps_add_balance [OF 1(15)]])
  moreover have "footprint ?A ?F s4 s6"
    by (rule r) (rule keeps_then [OF keeps_mono [OF keeps_runrex [OF 1(16)]] keeps_account [OF 1(18)]], simp)
  moreover have "footprint ?A ?F s6 s'" unfolding 1(19) by (rule r) simp
  ultimately show ?thesis by (meson footprint_then)
qed

text \<open>Who signs the actions that send a user's tokens.\<close>

lemma deposit_auth: "deposit c n q s = Inr s' \<Longrightarrow> has_auth c n"
  by (simp add: deposit_def)

lemma delegatebw_auth: "delegatebw c n r nq cq tr s = Inr s' \<Longrightarrow> has_auth c n"
  by (erule delegatebw_parts) (erule changebw_parts)

lemma undelegatebw_auth: "undelegatebw c n r nq cq s = Inr s' \<Longrightarrow> has_auth c n"
  by (erule undelegatebw_parts) (erule changebw_parts)

lemma buyram_auth: "buyram c n r q s = Inr s' \<Longrightarrow> has_auth c n"
  by (erule buyram_parts)

lemma buyrambytes_auth: "buyrambytes c n r b s = Inr s' \<Longrightarrow> has_auth c n"
  by (erule buyrambytes_parts) (erule buyram_auth)

lemma sellram_auth: "sellram c n b s = Inr s' \<Longrightarrow> has_auth c n"
  by (erule sellram_parts)

lemma bidname_auth: "bidname c b n q s = Inr s' \<Longrightarrow> has_auth c b"
  by (erule bidname_parts)

section \<open>The table of actions\<close>

primrec touches :: "sys_action \<Rightarrow> aspect set" where
  "touches (Init a b) = {Ramming}"
| "touches (OnBlock a b) = {Naming, Paying, Rexing}"
| "touches (SetALimits a b c d) = {}"
| "touches (SetAcctRam a b) = {}"
| "touches (SetAcctNet a b) = {}"
| "touches (SetAcctCpu a b) = {}"
| "touches (DelegateBw a b c d e) = {Staking, Weighing}"
| "touches (SetRex a) = {Rexing, Weighing}"
| "touches (Deposit a b) = {Rexing, Weighing}"
| "touches (Withdraw a b) = {Rexing, Weighing}"
| "touches (BuyRex a b) = {Rexing, Weighing}"
| "touches (UnstakeToRex a b c d) = {Staking, Rexing, Weighing}"
| "touches (SellRex a b) = {Rexing, Weighing}"
| "touches (CnclRexOrder a) = {Rexing, Weighing}"
| "touches (RentCpu a b c d) = {Rexing, Weighing}"
| "touches (RentNet a b c d) = {Rexing, Weighing}"
| "touches (FundCpuLoan a b c) = {Rexing, Weighing}"
| "touches (FundNetLoan a b c) = {Rexing, Weighing}"
| "touches (DefCpuLoan a b c) = {Rexing, Weighing}"
| "touches (DefNetLoan a b c) = {Rexing, Weighing}"
| "touches (UpdateRex a) = {Rexing, Weighing}"
| "touches (RexExec a b) = {Rexing, Weighing}"
| "touches (Consolidate a) = {Rexing, Weighing}"
| "touches (MvToSavings a b) = {Rexing, Weighing}"
| "touches (MvFrSavings a b) = {Rexing, Weighing}"
| "touches (CloseRex a) = {Rexing, Weighing}"
| "touches (UndelegateBw a b c d) = {Staking, Weighing}"
| "touches (BuyRam a b c) = {Ramming, Rexing, Weighing}"
| "touches (BuyRamBytes a b c) = {Ramming, Rexing, Weighing}"
| "touches (SellRam a b) = {Ramming, Rexing}"
| "touches (Refund a) = {Staking}"
| "touches (RegProducer a b c d) = {}"
| "touches (UnregProd a) = {}"
| "touches (SetRam a) = {Ramming}"
| "touches (SetRamRate a) = {Ramming}"
| "touches (VoteProducer a b c) = {Proxying}"
| "touches (RegProxy a b) = {Proxying}"
| "touches (SetParams a) = {}"
| "touches (ClaimRewards a) = {Paying}"
| "touches (SetPriv a b) = {}"
| "touches (RmvProducer a) = {}"
| "touches (UpdtRevision a) = {}"
| "touches (BidName a b c) = {Naming}"
| "touches (BidRefund a b) = {Naming}"
| "touches (NewAccount a b) = {Naming, Weighing}"
| "touches (SetAbi a b) = {}"

primrec held_senders :: "sys_action \<Rightarrow> name set" where
  "held_senders (Init a b) = {}"
| "held_senders (OnBlock a b) = {}"
| "held_senders (SetALimits a b c d) = {}"
| "held_senders (SetAcctRam a b) = {}"
| "held_senders (SetAcctNet a b) = {}"
| "held_senders (SetAcctCpu a b) = {}"
| "held_senders (DelegateBw a b c d e) = {}"
| "held_senders (SetRex a) = {}"
| "held_senders (Deposit a b) = {}"
| "held_senders (Withdraw a b) = {rex_account}"
| "held_senders (BuyRex a b) = {names_account}"
| "held_senders (UnstakeToRex a b c d) = {stake_account, names_account}"
| "held_senders (SellRex a b) = {names_account}"
| "held_senders (CnclRexOrder a) = {}"
| "held_senders (RentCpu a b c d) = {names_account}"
| "held_senders (RentNet a b c d) = {names_account}"
| "held_senders (FundCpuLoan a b c) = {}"
| "held_senders (FundNetLoan a b c) = {}"
| "held_senders (DefCpuLoan a b c) = {}"
| "held_senders (DefNetLoan a b c) = {}"
| "held_senders (UpdateRex a) = {names_account}"
| "held_senders (RexExec a b) = {names_account}"
| "held_senders (Consolidate a) = {names_account}"
| "held_senders (MvToSavings a b) = {names_account}"
| "held_senders (MvFrSavings a b) = {names_account}"
| "held_senders (CloseRex a) = {names_account}"
| "held_senders (UndelegateBw a b c d) = {}"
| "held_senders (BuyRam a b c) = {ramfee_account}"
| "held_senders (BuyRamBytes a b c) = {ramfee_account}"
| "held_senders (SellRam a b) = {ram_account, ramfee_account}"
| "held_senders (Refund a) = {stake_account}"
| "held_senders (RegProducer a b c d) = {}"
| "held_senders (UnregProd a) = {}"
| "held_senders (SetRam a) = {}"
| "held_senders (SetRamRate a) = {}"
| "held_senders (VoteProducer a b c) = {}"
| "held_senders (RegProxy a b) = {}"
| "held_senders (SetParams a) = {}"
| "held_senders (ClaimRewards a) = {bpay_account, vpay_account}"
| "held_senders (SetPriv a b) = {}"
| "held_senders (RmvProducer a) = {}"
| "held_senders (UpdtRevision a) = {}"
| "held_senders (BidName a b c) = {}"
| "held_senders (BidRefund a b) = {names_account}"
| "held_senders (NewAccount a b) = {}"
| "held_senders (SetAbi a b) = {}"

text \<open>
  What an action may change and spend, together: besides the accounts of the contract that
  \<open>held_senders\<close> names, only an account that signed the action pays, and the contract's own.
\<close>

definition spenders :: "sys_chain \<Rightarrow> sys_action \<Rightarrow> name set" where
  "spenders c a = held_senders a \<union> {n. has_auth c n} \<union> {self c}"

lemma action_footprint:
  assumes "apply_sys c a s = Inr s'" shows "footprint (touches a) (spenders c a) s s'"
proof -
  note fc = footprint_mono [OF _ subset_refl] and kf = keeps_footprint
  show ?thesis
  proof (cases a)
    case (Init x0 x1)
    show ?thesis unfolding Init touches.simps
      by (rule fc [OF footprint_init]) (use assms in \<open>auto simp: spenders_def Init\<close>)
  next
    case (OnBlock x0 x1)
    show ?thesis unfolding OnBlock touches.simps
      by (rule fc [OF footprint_onblock]) (use assms in \<open>auto simp: spenders_def OnBlock\<close>)
  next
    case (SetALimits x0 x1 x2 x3)
    show ?thesis unfolding SetALimits touches.simps
      by (rule fc [OF footprint_limits(1)]) (use assms in \<open>auto simp: spenders_def SetALimits\<close>)
  next
    case (SetAcctRam x0 x1)
    show ?thesis unfolding SetAcctRam touches.simps
      by (rule fc [OF footprint_limits(2)]) (use assms in \<open>auto simp: spenders_def SetAcctRam\<close>)
  next
    case (SetAcctNet x0 x1)
    show ?thesis unfolding SetAcctNet touches.simps
      by (rule fc [OF footprint_limits(3)]) (use assms in \<open>auto simp: spenders_def SetAcctNet\<close>)
  next
    case (SetAcctCpu x0 x1)
    show ?thesis unfolding SetAcctCpu touches.simps
      by (rule fc [OF footprint_limits(4)]) (use assms in \<open>auto simp: spenders_def SetAcctCpu\<close>)
  next
    case (DelegateBw x0 x1 x2 x3 x4)
    show ?thesis unfolding DelegateBw touches.simps
      by (rule fc [OF footprint_delegatebw]) (use assms in \<open>auto simp: spenders_def DelegateBw dest: delegatebw_auth\<close>)
  next
    case (SetRex x0)
    show ?thesis unfolding SetRex touches.simps
      by (rule fc [OF kf [OF keeps_setrex]]) (use assms in \<open>auto simp: spenders_def SetRex\<close>)
  next
    case (Deposit x0 x1)
    show ?thesis unfolding Deposit touches.simps
      by (rule fc [OF kf [OF keeps_deposit]]) (use assms in \<open>auto simp: spenders_def Deposit dest: deposit_auth\<close>)
  next
    case (Withdraw x0 x1)
    show ?thesis unfolding Withdraw touches.simps
      by (rule fc [OF kf [OF keeps_withdraw]]) (use assms in \<open>auto simp: spenders_def Withdraw\<close>)
  next
    case (BuyRex x0 x1)
    show ?thesis unfolding BuyRex touches.simps
      by (rule fc [OF kf [OF keeps_buyrex]]) (use assms in \<open>auto simp: spenders_def BuyRex\<close>)
  next
    case (UnstakeToRex x0 x1 x2 x3)
    show ?thesis unfolding UnstakeToRex touches.simps
      by (rule fc [OF footprint_unstaketorex]) (use assms in \<open>auto simp: spenders_def UnstakeToRex\<close>)
  next
    case (SellRex x0 x1)
    show ?thesis unfolding SellRex touches.simps
      by (rule fc [OF kf [OF keeps_sellrex]]) (use assms in \<open>auto simp: spenders_def SellRex\<close>)
  next
    case (CnclRexOrder x0)
    show ?thesis unfolding CnclRexOrder touches.simps
      by (rule fc [OF kf [OF keeps_cnclrexorder]]) (use assms in \<open>auto simp: spenders_def CnclRexOrder\<close>)
  next
    case (RentCpu x0 x1 x2 x3)
    show ?thesis unfolding RentCpu touches.simps
      by (rule fc [OF kf [OF keeps_rentrex]]) (use assms in \<open>auto simp: spenders_def RentCpu\<close>)
  next
    case (RentNet x0 x1 x2 x3)
    show ?thesis unfolding RentNet touches.simps
      by (rule fc [OF kf [OF keeps_rentrex]]) (use assms in \<open>auto simp: spenders_def RentNet\<close>)
  next
    case (FundCpuLoan x0 x1 x2)
    show ?thesis unfolding FundCpuLoan touches.simps
      by (rule fc [OF kf [OF keeps_fund_loan]]) (use assms in \<open>auto simp: spenders_def FundCpuLoan\<close>)
  next
    case (FundNetLoan x0 x1 x2)
    show ?thesis unfolding FundNetLoan touches.simps
      by (rule fc [OF kf [OF keeps_fund_loan]]) (use assms in \<open>auto simp: spenders_def FundNetLoan\<close>)
  next
    case (DefCpuLoan x0 x1 x2)
    show ?thesis unfolding DefCpuLoan touches.simps
      by (rule fc [OF kf [OF keeps_defund_loan]]) (use assms in \<open>auto simp: spenders_def DefCpuLoan\<close>)
  next
    case (DefNetLoan x0 x1 x2)
    show ?thesis unfolding DefNetLoan touches.simps
      by (rule fc [OF kf [OF keeps_defund_loan]]) (use assms in \<open>auto simp: spenders_def DefNetLoan\<close>)
  next
    case (UpdateRex x0)
    show ?thesis unfolding UpdateRex touches.simps
      by (rule fc [OF kf [OF keeps_updaterex]]) (use assms in \<open>auto simp: spenders_def UpdateRex\<close>)
  next
    case (RexExec x0 x1)
    show ?thesis unfolding RexExec touches.simps
      by (rule fc [OF kf [OF keeps_rexexec]]) (use assms in \<open>auto simp: spenders_def RexExec\<close>)
  next
    case (Consolidate x0)
    show ?thesis unfolding Consolidate touches.simps
      by (rule fc [OF kf [OF keeps_consolidate]]) (use assms in \<open>auto simp: spenders_def Consolidate\<close>)
  next
    case (MvToSavings x0 x1)
    show ?thesis unfolding MvToSavings touches.simps
      by (rule fc [OF kf [OF keeps_mvtosavings]]) (use assms in \<open>auto simp: spenders_def MvToSavings\<close>)
  next
    case (MvFrSavings x0 x1)
    show ?thesis unfolding MvFrSavings touches.simps
      by (rule fc [OF kf [OF keeps_mvfrsavings]]) (use assms in \<open>auto simp: spenders_def MvFrSavings\<close>)
  next
    case (CloseRex x0)
    show ?thesis unfolding CloseRex touches.simps
      by (rule fc [OF kf [OF keeps_closerex]]) (use assms in \<open>auto simp: spenders_def CloseRex\<close>)
  next
    case (UndelegateBw x0 x1 x2 x3)
    show ?thesis unfolding UndelegateBw touches.simps
      by (rule fc [OF footprint_undelegatebw]) (use assms in \<open>auto simp: spenders_def UndelegateBw dest: undelegatebw_auth\<close>)
  next
    case (BuyRam x0 x1 x2)
    show ?thesis unfolding BuyRam touches.simps
      by (rule fc [OF footprint_buyram]) (use assms in \<open>auto simp: spenders_def BuyRam dest: buyram_auth\<close>)
  next
    case (BuyRamBytes x0 x1 x2)
    show ?thesis unfolding BuyRamBytes touches.simps
      by (rule fc [OF footprint_buyrambytes]) (use assms in \<open>auto simp: spenders_def BuyRamBytes dest: buyrambytes_auth\<close>)
  next
    case (SellRam x0 x1)
    show ?thesis unfolding SellRam touches.simps
      by (rule fc [OF footprint_sellram]) (use assms in \<open>auto simp: spenders_def SellRam dest: sellram_auth\<close>)
  next
    case (Refund x0)
    show ?thesis unfolding Refund touches.simps
      by (rule fc [OF footprint_refund]) (use assms in \<open>auto simp: spenders_def Refund\<close>)
  next
    case (RegProducer x0 x1 x2 x3)
    show ?thesis unfolding RegProducer touches.simps
      by (rule fc [OF footprint_regproducer]) (use assms in \<open>auto simp: spenders_def RegProducer\<close>)
  next
    case (UnregProd x0)
    show ?thesis unfolding UnregProd touches.simps
      by (rule fc [OF footprint_unregprod]) (use assms in \<open>auto simp: spenders_def UnregProd\<close>)
  next
    case (SetRam x0)
    show ?thesis unfolding SetRam touches.simps
      by (rule fc [OF footprint_setram]) (use assms in \<open>auto simp: spenders_def SetRam\<close>)
  next
    case (SetRamRate x0)
    show ?thesis unfolding SetRamRate touches.simps
      by (rule fc [OF footprint_setramrate]) (use assms in \<open>auto simp: spenders_def SetRamRate\<close>)
  next
    case (VoteProducer x0 x1 x2)
    show ?thesis unfolding VoteProducer touches.simps
      by (rule fc [OF footprint_votes(1)]) (use assms in \<open>auto simp: spenders_def VoteProducer\<close>)
  next
    case (RegProxy x0 x1)
    show ?thesis unfolding RegProxy touches.simps
      by (rule fc [OF footprint_votes(2)]) (use assms in \<open>auto simp: spenders_def RegProxy\<close>)
  next
    case (SetParams x0)
    show ?thesis unfolding SetParams touches.simps
      by (rule fc [OF footprint_setparams]) (use assms in \<open>auto simp: spenders_def SetParams\<close>)
  next
    case (ClaimRewards x0)
    show ?thesis unfolding ClaimRewards touches.simps
      by (rule fc [OF footprint_claimrewards]) (use assms in \<open>auto simp: spenders_def ClaimRewards\<close>)
  next
    case (SetPriv x0 x1)
    show ?thesis unfolding SetPriv touches.simps
      by (rule fc [OF footprint_small(1)]) (use assms in \<open>auto simp: spenders_def SetPriv\<close>)
  next
    case (RmvProducer x0)
    show ?thesis unfolding RmvProducer touches.simps
      by (rule fc [OF footprint_rmvproducer]) (use assms in \<open>auto simp: spenders_def RmvProducer\<close>)
  next
    case (UpdtRevision x0)
    show ?thesis unfolding UpdtRevision touches.simps
      by (rule fc [OF footprint_small(2)]) (use assms in \<open>auto simp: spenders_def UpdtRevision\<close>)
  next
    case (BidName x0 x1 x2)
    show ?thesis unfolding BidName touches.simps
      by (rule fc [OF footprint_bidname]) (use assms in \<open>auto simp: spenders_def BidName dest: bidname_auth\<close>)
  next
    case (BidRefund x0 x1)
    show ?thesis unfolding BidRefund touches.simps
      by (rule fc [OF footprint_bidrefund]) (use assms in \<open>auto simp: spenders_def BidRefund\<close>)
  next
    case (NewAccount x0 x1)
    show ?thesis unfolding NewAccount touches.simps
      by (rule fc [OF footprint_newaccount]) (use assms in \<open>auto simp: spenders_def NewAccount\<close>)
  next
    case (SetAbi x0 x1)
    show ?thesis unfolding SetAbi touches.simps
      by (rule fc [OF footprint_small(3)]) (use assms in \<open>auto simp: spenders_def SetAbi\<close>)
  qed
qed

end
