(* ===== verification/Market.thy ===== *)
theory Market
  imports Footprint
begin

text \<open>
  The RAM market as a ledger: what a conversion moves between the two connectors, and the
  conservation of RAM, which holds in the arithmetic modulo \<open>2 ^ 64\<close> the code computes in.
\<close>

section \<open>Arithmetic modulo the word size\<close>

lemma u64_add_left [simp]: "u64 (u64 x + y) = u64 (x + y)"
  by (simp add: u64_def mod_simps)

lemma u64_add_right [simp]: "u64 (x + u64 y) = u64 (x + y)"
  by (simp add: u64_def mod_simps)

lemma u64_diff_left [simp]: "u64 (u64 x - y) = u64 (x - y)"
  by (simp add: u64_def mod_simps)

lemma u64_diff_right [simp]: "u64 (x - u64 y) = u64 (x - y)"
  by (simp add: u64_def mod_simps)

lemma u64_u64 [simp]: "u64 (u64 x) = u64 x"
  by (simp add: u64_def)

lemma i64_eq: "\<exists>k. i64 x = x + 18446744073709551616 * k"
proof -
  have "i64 x = x + 18446744073709551616 * (- ((x + 9223372036854775808) div 18446744073709551616))"
    using minus_mod_eq_mult_div [of "x + 9223372036854775808" 18446744073709551616] by (simp add: i64_def)
  then show ?thesis by blast
qed

lemma u64_i64 [simp]: "u64 (i64 x) = u64 x"
  using i64_eq [of x] by (auto simp: u64_def)

lemma u64_cong: "u64 a = u64 b \<Longrightarrow> u64 x = u64 y \<Longrightarrow> u64 (a + x) = u64 (b + y)"
  unfolding u64_def by (rule mod_add_cong)

lemma u64_diff_cong: "u64 a = u64 b \<Longrightarrow> u64 x = u64 y \<Longrightarrow> u64 (a - x) = u64 (b - y)"
  unfolding u64_def by (rule mod_diff_cong)

lemma u64_i64_add [simp]: "u64 (i64 x + y) = u64 (x + y)" "u64 (y + i64 x) = u64 (y + x)"
  by (rule u64_cong; simp)+

lemma u64_i64_diff [simp]: "u64 (i64 x - y) = u64 (x - y)" "u64 (y - i64 x) = u64 (y - x)"
  by (rule u64_diff_cong; simp)+

lemma i64_round: "in_i64 s \<Longrightarrow> i64 (i64 (s + e) - e) = s"
  using i64_add_i64 [of "s + e" "- e"] by (simp add: i64_id)

section \<open>Conversions\<close>

definition shift_base :: "int \<Rightarrow> exchange_state \<Rightarrow> exchange_state" where
  "shift_base d m = m\<lparr>base := (base m)\<lparr>c_balance := (c_balance (base m))\<lparr>amount := i64 (amount (c_balance (base m)) + d)\<rparr>\<rparr>\<rparr>"

definition shift_quote :: "int \<Rightarrow> exchange_state \<Rightarrow> exchange_state" where
  "shift_quote d m = m\<lparr>quote := (quote m)\<lparr>c_balance := (c_balance (quote m))\<lparr>amount := i64 (amount (c_balance (quote m)) + d)\<rparr>\<rparr>\<rparr>"

lemma shift_sel [simp]:
  "symb (c_balance (base (shift_base d m))) = symb (c_balance (base m))" "quote (shift_base d m) = quote m"
  "ex_supply (shift_base d m) = ex_supply m" "base (shift_quote d m) = base m"
  "symb (c_balance (quote (shift_quote d m))) = symb (c_balance (quote m))" "ex_supply (shift_quote d m) = ex_supply m"
  "amount (c_balance (base (shift_base d m))) = i64 (amount (c_balance (base m)) + d)"
  "amount (c_balance (quote (shift_quote d m))) = i64 (amount (c_balance (quote m)) + d)"
  by (simp_all add: shift_base_def shift_quote_def)

lemma convert_to_exchange_Inr:
  assumes "asset_ops_ok c" "convert_to_exchange c sply con inp = Inr (sply', con', out)"
  obtains e where "out = ast e (symb sply)" "sply' = sply\<lparr>amount := i64 (amount sply + e)\<rparr>"
    "con' = con\<lparr>c_balance := (c_balance con)\<lparr>amount := i64 (amount (c_balance con) + amount inp)\<rparr>\<rparr>"
  using assms(2) that unfolding convert_to_exchange_def Let_def
  by (auto simp: bindr_Inr asset_newD [OF assms(1)])

lemma convert_from_exchange_Inr:
  assumes "asset_ops_ok c" "convert_from_exchange c sply con inp = Inr (sply', con', out)"
  obtains r where "out = ast r (symb (c_balance con))" "\<bar>r\<bar> \<le> max_amount"
    "sply' = sply\<lparr>amount := i64 (amount sply - amount inp)\<rparr>"
    "con' = con\<lparr>c_balance := (c_balance con)\<lparr>amount := i64 (amount (c_balance con) - r)\<rparr>\<rparr>"
  using assms(2) that unfolding convert_from_exchange_def Let_def
  by (auto simp: bindr_Inr asset_newD [OF assms(1)])

text \<open>The three symbols of a market are distinct.\<close>

definition three_symbols :: "exchange_state \<Rightarrow> bool" where
  "three_symbols m \<longleftrightarrow> distinct [symb (ex_supply m), symb (c_balance (base m)), symb (c_balance (quote m))]"

lemma market_ok_three: "market_ok core s \<Longrightarrow> rammarket s = Some m \<Longrightarrow> three_symbols m"
  by (auto simp: market_ok_def three_symbols_def ram_symbol_def ramcore_symbol_def)

lemma convert_turns:
  assumes "convert c m q sy = Inr (out, m')" "symb q \<noteq> symb (ex_supply m)" "sy \<noteq> symb (ex_supply m)"
    and step: "\<And>out m'. convert_step c m q sy = Inr (out, m') \<Longrightarrow> symb out = symb (ex_supply m)"
  obtains mid m1 where "convert_step c m q sy = Inr (mid, m1)" "convert_step c m1 mid sy = Inr (out, m')"
proof -
  have two: "convert = (\<lambda>c es from to. bindr (convert_step c es from to) (\<lambda>(out, es1).
     if to \<noteq> symb out then bindr (convert_step c es1 out to) (\<lambda>(out, es1).
       if to \<noteq> symb out then Inl ''out of fuel'' else Inr (out, es1)) else Inr (out, es1)))"
    by (intro ext) (simp add: convert_def numeral_2_eq_2 cong: if_cong)
  from assms(1) obtain mid m1 where 1: "convert_step c m q sy = Inr (mid, m1)"
    and k: "(if sy \<noteq> symb mid then bindr (convert_step c m1 mid sy) (\<lambda>(out, es1).
       if sy \<noteq> symb out then Inl ''out of fuel'' else Inr (out, es1)) else Inr (mid, m1)) = Inr (out, m')"
    unfolding two by (auto simp: bindr_Inr)
  from step [OF 1] assms(3) k have "convert_step c m1 mid sy = Inr (out, m')"
    by (auto simp: bindr_Inr split: if_splits)
  with 1 show ?thesis by (rule that)
qed

lemma convert_buy:
  assumes ok: "asset_ops_ok c" and "three_symbols m" "in_i64 (amount (ex_supply m))"
    and "convert c m q (symb (c_balance (base m))) = Inr (out, m')" "symb q = symb (c_balance (quote m))"
  obtains "symb out = symb (c_balance (base m))" "\<bar>amount out\<bar> \<le> max_amount"
    "m' = shift_base (- amount out) (shift_quote (amount q) m)"
proof -
  let ?ram = "symb (c_balance (base m))"
  have d: "symb q \<noteq> symb (ex_supply m)" "?ram \<noteq> symb (ex_supply m)" "symb q \<noteq> ?ram"
    using assms(2,5) by (auto simp: three_symbols_def)
  have s1: "\<exists>e. mid = ast e (symb (ex_supply m))
      \<and> m1 = (shift_quote (amount q) m)\<lparr>ex_supply := (ex_supply m)\<lparr>amount := i64 (amount (ex_supply m) + e)\<rparr>\<rparr>"
    if "convert_step c m q ?ram = Inr (mid, m1)" for mid m1
    using that d assms(5) unfolding convert_step_def
    by (auto simp: bindr_Inr shift_quote_def elim!: convert_to_exchange_Inr [OF ok])
  have "symb mid = symb (ex_supply m)" if "convert_step c m q ?ram = Inr (mid, m1)" for mid m1
    using s1 [OF that] by auto
  from convert_turns [OF assms(4) d(1,2) this] obtain mid m1 where
    1: "convert_step c m q ?ram = Inr (mid, m1)" and 2: "convert_step c m1 mid ?ram = Inr (out, m')" .
  from s1 [OF 1] obtain e where m1: "mid = ast e (symb (ex_supply m))"
     "m1 = (shift_quote (amount q) m)\<lparr>ex_supply := (ex_supply m)\<lparr>amount := i64 (amount (ex_supply m) + e)\<rparr>\<rparr>"
    by blast
  from 2 m1 obtain sp con where "convert_from_exchange c (ex_supply m1) (base m1) mid = Inr (sp, con, out)"
     "m' = m1\<lparr>ex_supply := sp, base := con\<rparr>"
    unfolding convert_step_def by (auto simp: bindr_Inr)
  then obtain r where out: "out = ast r ?ram" "\<bar>r\<bar> \<le> max_amount" and "m' = m1\<lparr>ex_supply := (ex_supply m1)\<lparr>amount := i64 (amount (ex_supply m1) - e)\<rparr>,
      base := (base m1)\<lparr>c_balance := (c_balance (base m1))\<lparr>amount := i64 (amount (c_balance (base m1)) - r)\<rparr>\<rparr>\<rparr>"
    by (auto simp: m1 elim: convert_from_exchange_Inr [OF ok])
  then have "m' = shift_base (- amount out) (shift_quote (amount q) m)"
    using i64_round [OF assms(3)] by (simp add: m1 shift_base_def shift_quote_def)
  with out show ?thesis by (intro that) auto
qed

lemma convert_sell:
  assumes ok: "asset_ops_ok c" and "three_symbols m" "in_i64 (amount (ex_supply m))"
    and "convert c m q (symb (c_balance (quote m))) = Inr (out, m')" "symb q = symb (c_balance (base m))"
  obtains "symb out = symb (c_balance (quote m))" "\<bar>amount out\<bar> \<le> max_amount"
    "m' = shift_quote (- amount out) (shift_base (amount q) m)"
proof -
  let ?core = "symb (c_balance (quote m))"
  have d: "symb q \<noteq> symb (ex_supply m)" "?core \<noteq> symb (ex_supply m)" "symb q \<noteq> ?core"
    using assms(2,5) by (auto simp: three_symbols_def)
  have s1: "\<exists>e. mid = ast e (symb (ex_supply m))
      \<and> m1 = (shift_base (amount q) m)\<lparr>ex_supply := (ex_supply m)\<lparr>amount := i64 (amount (ex_supply m) + e)\<rparr>\<rparr>"
    if "convert_step c m q ?core = Inr (mid, m1)" for mid m1
    using that d assms(5) unfolding convert_step_def
    by (auto simp: bindr_Inr shift_base_def elim!: convert_to_exchange_Inr [OF ok])
  have "symb mid = symb (ex_supply m)" if "convert_step c m q ?core = Inr (mid, m1)" for mid m1
    using s1 [OF that] by auto
  from convert_turns [OF assms(4) d(1,2) this] obtain mid m1 where
    1: "convert_step c m q ?core = Inr (mid, m1)" and 2: "convert_step c m1 mid ?core = Inr (out, m')" .
  from s1 [OF 1] obtain e where m1: "mid = ast e (symb (ex_supply m))"
     "m1 = (shift_base (amount q) m)\<lparr>ex_supply := (ex_supply m)\<lparr>amount := i64 (amount (ex_supply m) + e)\<rparr>\<rparr>"
    by blast
  from 2 m1 d assms(5) obtain sp con where "convert_from_exchange c (ex_supply m1) (quote m1) mid = Inr (sp, con, out)"
     "m' = m1\<lparr>ex_supply := sp, quote := con\<rparr>"
    unfolding convert_step_def by (auto simp: bindr_Inr split: if_splits)
  then obtain r where out: "out = ast r ?core" "\<bar>r\<bar> \<le> max_amount" and "m' = m1\<lparr>ex_supply := (ex_supply m1)\<lparr>amount := i64 (amount (ex_supply m1) - e)\<rparr>,
      quote := (quote m1)\<lparr>c_balance := (c_balance (quote m1))\<lparr>amount := i64 (amount (c_balance (quote m1)) - r)\<rparr>\<rparr>\<rparr>"
    by (auto simp: m1 elim: convert_from_exchange_Inr [OF ok])
  then have "m' = shift_quote (- amount out) (shift_base (amount q) m)"
    using i64_round [OF assms(3)] by (simp add: m1 shift_base_def shift_quote_def)
  with out show ?thesis by (intro that) auto
qed

text \<open>No conversion needs a third turn.\<close>

lemma convert_step_sym:
  assumes ok: "asset_ops_ok c" and "three_symbols m" "convert_step c m q sy = Inr (out, m')"
  shows "three_symbols m'" "symb (ex_supply m') = symb (ex_supply m)"
    and "symb out = (if symb q = symb (ex_supply m) then sy else symb (ex_supply m))"
proof -
  have "three_symbols m' \<and> symb (ex_supply m') = symb (ex_supply m)
    \<and> symb out = (if symb q = symb (ex_supply m) then sy else symb (ex_supply m))"
    using assms(2,3) unfolding convert_step_def
    by (auto simp: bindr_Inr three_symbols_def elim!: convert_to_exchange_Inr [OF ok] convert_from_exchange_Inr [OF ok]
        split: if_splits)
  then show "three_symbols m'" "symb (ex_supply m') = symb (ex_supply m)"
    "symb out = (if symb q = symb (ex_supply m) then sy else symb (ex_supply m))" by auto
qed

lemma convert_step_done:
  assumes ok: "asset_ops_ok c" and "three_symbols m" "symb q = symb (ex_supply m)"
  shows "convert_n (Suc n) c m q sy = convert_step c m q sy"
  using convert_step_sym(3) [OF assms(1,2), of q sy] assms(3)
  by (cases "convert_step c m q sy") (auto simp: bindr_def split: prod.splits)

lemma convert_stable:
  assumes ok: "asset_ops_ok c" and m: "three_symbols m"
  shows "convert_n (n + 2) c m q sy = convert c m q sy"
proof (cases "symb q = symb (ex_supply m)")
  case True
  then show ?thesis using convert_step_done [OF ok m True] by (simp add: convert_def numeral_2_eq_2)
next
  case False
  show ?thesis
  proof (cases "convert_step c m q sy")
    case (Inr r)
    obtain mid m1 where r: "r = (mid, m1)" by (cases r)
    from Inr have s: "convert_step c m q sy = Inr (mid, m1)" by (simp add: r)
    have "convert_n (Suc k) c m1 mid sy = convert_step c m1 mid sy" for k
      by (rule convert_step_done [OF ok]) (use convert_step_sym [OF ok m s] False in auto)
    then show ?thesis using s by (simp add: convert_def numeral_2_eq_2 del: convert_n.simps(2)) (simp add: s)
  qed (simp add: convert_def numeral_2_eq_2)
qed

text \<open>How a conversion ends: with the symbol asked for, or with the error of one of its two turns.\<close>

lemma convert_ends:
  assumes ok: "asset_ops_ok c" and m: "three_symbols m"
  shows "case convert c m q sy of Inr (out, m') \<Rightarrow> symb out = sy
    | Inl e \<Rightarrow> convert_step c m q sy = Inl e
        \<or> (\<exists>mid m1. convert_step c m q sy = Inr (mid, m1) \<and> symb mid \<noteq> sy \<and> convert_step c m1 mid sy = Inl e)"
proof (cases "convert_step c m q sy")
  case (Inr r)
  obtain mid m1 where r: "convert_step c m q sy = Inr (mid, m1)" using Inr by (cases r) auto
  note mid = convert_step_sym [OF ok m r]
  show ?thesis
  proof (cases "symb mid = sy")
    case False
    then have "symb mid = symb (ex_supply m1)" using mid by (auto split: if_splits)
    then have "symb out = sy" if "convert_step c m1 mid sy = Inr (out, m2)" for out m2
      using convert_step_sym(3) [OF ok mid(1) that] by simp
    then show ?thesis using False r
      by (cases "convert_step c m1 mid sy") (auto simp: convert_def numeral_2_eq_2)
  qed (simp add: convert_def numeral_2_eq_2 r)
qed (simp add: convert_def numeral_2_eq_2)

section \<open>The symbols of the market\<close>

lemma market_okD:
  assumes "market_ok core s" "rammarket s = Some m"
  shows "three_symbols m" "in_i64 (amount (ex_supply m))" "symb (c_balance (base m)) = ram_symbol"
    "symb (c_balance (quote m)) = core" "symb (ex_supply m) = ramcore_symbol"
  using assms market_ok_three by (auto simp: market_ok_def)

lemma market_ok_shift:
  assumes "market_ok core s" "rammarket s = Some m" "rammarket s' = Some (shift_base d (shift_quote e m))"
  shows "market_ok core s'"
  using assms by (auto simp: market_ok_def)

lemma market_ok_cong: "rammarket s' = rammarket s \<Longrightarrow> market_ok core s' = market_ok core s"
  by (simp add: market_ok_def)

lemma market_ok_effects [simp]:
  "market_ok core (s\<lparr>outbox := l\<rparr>) = market_ok core s" "market_ok core (s\<lparr>tokens := t\<rparr>) = market_ok core s"
  by (simp_all add: market_ok_def)

lemma market_ok_base:
  assumes "market_ok core s" "rammarket s = Some m" "rammarket s' = Some (add_base d m)"
  shows "market_ok core s'"
  using assms by (auto simp: market_ok_def add_base_def)

lemma shift_swap: "shift_quote e (shift_base d m) = shift_base d (shift_quote e m)"
  by (simp add: shift_base_def shift_quote_def)

lemma market_ok_init: "init c v core s = Inr s' \<Longrightarrow> market_ok core s \<Longrightarrow> market_ok core s'"
  by (auto simp: init_def res_simps market_ok_def in_i64_def)

lemma update_ram_supply_parts:
  assumes "update_ram_supply c s = Inr s'"
  obtains "s' = s"
  | m n g2 where "rammarket s = Some m" "0 \<le> n" "s' = s\<lparr>rammarket := Some (add_base n m),
      gstate := (gstate s)\<lparr>max_ram_size := u64 (max_ram_size (gstate s) + n)\<rparr>, gstate2 := g2\<rparr>"
proof (cases "current_block_time c \<le> last_ram_increase (gstate2 s)")
  case False
  define n where "n = u32 (u32 (current_block_time c - last_ram_increase (gstate2 s)) * new_ram_per_block (gstate2 s))"
  from assms False obtain m where m: "rammarket s = Some m"
    and s': "s' = s\<lparr>rammarket := Some (add_base n m), gstate := (gstate s)\<lparr>max_ram_size :=
      u64 (max_ram_size (gstate s) + n)\<rparr>, gstate2 := (gstate2 s)\<lparr>last_ram_increase := current_block_time c\<rparr>\<rparr>"
    unfolding update_ram_supply_def Let_def n_def [symmetric] by (auto simp: with_market_Inr)
  have "0 \<le> n" by (simp add: n_def)
  then show ?thesis by (rule that(2) [OF m _ s'])
next
  case True
  with assms have "s' = s" by (simp add: update_ram_supply_def Let_def)
  then show ?thesis by (rule that(1))
qed

lemma market_ok_supply: "update_ram_supply c s = Inr s' \<Longrightarrow> market_ok core s \<Longrightarrow> market_ok core s'"
  by (erule update_ram_supply_parts) (auto intro: market_ok_base)

lemma market_ok_setramrate: "setramrate c n s = Inr s' \<Longrightarrow> market_ok core s \<Longrightarrow> market_ok core s'"
proof -
  assume "setramrate c n s = Inr s'" "market_ok core s"
  then obtain s1 where "update_ram_supply c s = Inr s1" "rammarket s' = rammarket s1"
    by (auto simp: setramrate_def bindr_Inr)
  with \<open>market_ok core s\<close> show ?thesis using market_ok_supply market_ok_cong by blast
qed

lemma setram_parts:
  assumes "setram c n s = Inr s'"
  obtains m where "has_auth c (self c)" "rammarket s = Some m" "max_ram_size (gstate s) < n" "n < 1125899906842624"
    "s' = s\<lparr>rammarket := Some (add_base (i64 (i64 n - i64 (max_ram_size (gstate s)))) m),
       gstate := (gstate s)\<lparr>max_ram_size := n\<rparr>\<rparr>"
  using assms that by (auto simp: setram_def Let_def with_market_Inr)

lemma market_ok_setram: "setram c n s = Inr s' \<Longrightarrow> market_ok core s \<Longrightarrow> market_ok core s'"
  by (erule setram_parts) (auto intro: market_ok_base)

text \<open>Buying and selling with the conversion resolved.\<close>

lemma set_ram_limit_sel [simp]:
  "rammarket (set_ram_limit n b s) = rammarket s" "gstate (set_ram_limit n b s) = gstate s"
  "userres (set_ram_limit n b s) = userres s" "outbox (set_ram_limit n b s) = outbox s"
  by (auto simp: set_ram_limit_def set_limits_def split: prod.splits)

lemma channel_sel [simp]:
  "rammarket (channel_to_rex c f q s) = rammarket s" "gstate (channel_to_rex c f q s) = gstate s"
  "userres (channel_to_rex c f q s) = userres s"
  by (auto simp: channel_to_rex_def split: option.splits)

lemma send_sel [simp]:
  "rammarket (send_transfer ps f t q memo s) = rammarket s" "gstate (send_transfer ps f t q memo s) = gstate s"
  "userres (send_transfer ps f t q memo s) = userres s"
  by (simp_all add: send_transfer_def)

lemma credit_ram_sel:
  assumes "credit_ram c n b s = Inr s'"
  shows "rammarket s' = rammarket s" "gstate s' = gstate s" "outbox s' = outbox s"
  using assms by (auto elim!: credit_ram_parts)

lemma buyram_market:
  assumes ok: "asset_ops_ok c" and m: "market_ok core s0" and b: "buyram c payer receiver q s0 = Inr s'"
  obtains s m m' price out where "update_ram_supply c s0 = Inr s" "market_ok core s" "symb q = core" "0 < amount q"
    "price = q\<lparr>amount := i64 (amount q - ram_fee (amount q))\<rparr>" "rammarket s = Some m" "0 < amount out"
    "amount out \<le> max_amount" "symb (out :: asset) = ram_symbol"
    "m' = shift_base (- amount out) (shift_quote (amount price) m)"
    "credit_ram c receiver (amount out) ((pay_ram c payer price (q\<lparr>amount := ram_fee (amount q)\<rparr>) s)\<lparr>rammarket := Some m',
       gstate := (gstate s)\<lparr>total_ram_bytes_reserved := u64 (total_ram_bytes_reserved (gstate s) + u64 (amount out)),
       total_ram_stake := i64 (total_ram_stake (gstate s) + amount price)\<rparr>\<rparr>) = Inr s'"
  using b
proof (cases rule: buyram_parts)
  case (1 s fee price s2 m m1 out)
  have ms: "market_ok core s" by (rule market_ok_supply [OF 1(2) m])
  note mo = market_okD [OF ms 1(8)]
  have core: "symb q = core" using market_ok_core [OF ms 1(3)] by simp
  have pr: "price = q\<lparr>amount := i64 (amount q - ram_fee (amount q))\<rparr>" using 1(5,6) by simp
  obtain "symb out = ram_symbol" "\<bar>amount out\<bar> \<le> max_amount" and m1: "m1 = shift_base (- amount out) (shift_quote (amount price) m)"
    using convert_buy [OF ok mo(1,2) 1(9) [folded mo(3)]] mo core by (auto simp: 1(6))
  then show ?thesis
    by (intro that [OF 1(2) ms core 1(4) pr 1(8) 1(10) _ _ m1]) (use 1(11) in \<open>simp_all add: 1(5,7)\<close>)
qed

lemma sellram_market:
  assumes ok: "asset_ops_ok c" and m: "market_ok core s0" and b: "sellram c n b s0 = Inr s'"
  obtains s r m m' out where "has_auth c n" "update_ram_supply c s0 = Inr s" "market_ok core s" "0 < b"
    "fmlookup (userres s) n = Some r" "b \<le> ram_bytes r" "rammarket s = Some m" "1 < amount out" "amount out \<le> max_amount"
    "symb (out :: asset) = core" "m' = shift_quote (- amount out) (shift_base b m)"
    "0 \<le> i64 (total_ram_stake (gstate s) - amount out)"
    "pay_seller c n out (set_ram_limit n (i64 (ram_bytes r - b)) (s\<lparr>rammarket := Some m',
       gstate := (gstate s)\<lparr>total_ram_bytes_reserved := u64 (total_ram_bytes_reserved (gstate s) - u64 b),
         total_ram_stake := i64 (total_ram_stake (gstate s) - amount out)\<rparr>,
       userres := fmupd n (r\<lparr>ram_bytes := i64 (ram_bytes r - b)\<rparr>) (userres s)\<rparr>)) = Inr s'"
  using b
proof (cases rule: sellram_parts)
  case (1 s r m q sy out m1 stake r1)
  have ms: "market_ok core s" by (rule market_ok_supply [OF 1(2) m])
  note mo = market_okD [OF ms 1(6)]
  have sy: "sy = core" using market_ok_core [OF ms 1(8)] .
  have q: "q = ast b ram_symbol" using 1(7) by (simp add: asset_newD [OF ok])
  obtain "symb out = core" "\<bar>amount out\<bar> \<le> max_amount" and m1: "m1 = shift_quote (- amount out) (shift_base b m)"
    using convert_sell [OF ok mo(1,2), of q out m1] 1(9) mo sy by (auto simp: q)
  then show ?thesis
    by (intro that [OF 1(1,2) ms 1(3,4,5,6,10) _ _ m1]) (use 1(12,14) in \<open>simp_all add: 1(11,13)\<close>)
qed

lemma pay_seller_sel:
  assumes "pay_seller c n q s = Inr s'"
  shows "rammarket s' = rammarket s" "gstate s' = gstate s" "userres s' = userres s"
  using assms by (auto simp: pay_seller_def Let_def core_asset_Inr split: if_splits)

lemma action_market_ok:
  assumes "good_ctx c" "good_action core a" "market_ok core s" "apply_sys c a s = Inr s'"
  shows "market_ok core s'"
proof (cases "Ramming \<in> touches a")
  case False
  then have "same Ramming s s'" by (rule footprintD(1) [OF action_footprint [OF assms(4)]])
  then show ?thesis using market_ok_cong [of s' s core] assms(3) by simp
next
  case True
  have ok: "asset_ops_ok c" using assms(1) by (simp add: good_ctx_def)
  have buy: "market_ok core s'" if "buyram c n r q s = Inr s'" for n r q
    by (rule buyram_market [OF ok assms(3) that])
      (rule market_ok_shift, assumption+, drule credit_ram_sel(1), simp)
  show ?thesis
  proof (cases a)
    case (BuyRamBytes n r b)
    with assms(4) show ?thesis by (auto elim!: buyrambytes_parts intro: buy)
  next
    case (SellRam n b)
    with assms(4) have h: "sellram c n b s = Inr s'" by simp
    show ?thesis
      by (rule sellram_market [OF ok assms(3) h])
        (rule market_ok_shift, assumption+, drule pay_seller_sel(1), simp add: shift_swap)
  qed (use True assms(2,3,4) in \<open>auto intro: market_ok_init market_ok_setram market_ok_setramrate buy\<close>)
qed

interpretation symbols_kept: steady core "market_ok core" for core
  by unfold_locales (auto intro: action_market_ok)

end
