(* ===== verification/RamLedger.thy ===== *)
theory RamLedger
  imports Market
begin

text \<open>
  Conservation of RAM. The bytes the market holds, the bytes the accounts own and the size of the
  supply are kept in three different places; they agree in the arithmetic the code computes in.
  The tokens paid for RAM stay in the RAM account until they are paid out again.
\<close>

section \<open>Bytes\<close>

lemma u64_swap: "u64 (t - r + i64 (r + d)) = u64 (t + d)"
  using u64_cong [of "t - r" "t - r" "i64 (r + d)" "r + d"] by simp

definition ram_conserved :: "sys_state \<Rightarrow> bool" where
  "ram_conserved s \<longleftrightarrow>
     (\<forall>m. rammarket s = Some m \<longrightarrow> u64 (amount (c_balance (base m)) + total_ram_bytes_reserved (gstate s))
         = u64 (max_ram_size (gstate s)))
   \<and> u64 (ram_sum s) = u64 (total_ram_bytes_reserved (gstate s))"

lemma ram_conserved_same: "same Ramming s s' \<Longrightarrow> ram_conserved s' = ram_conserved s"
  by (simp add: ram_conserved_def)

lemma ram_sum_cong: "userres s' = userres s \<Longrightarrow> ram_sum s' = ram_sum s"
  by (simp add: ram_sum_def)

lemma ram_conserved_init: "init c v sy s = Inr s' \<Longrightarrow> ram_conserved s \<Longrightarrow> ram_conserved s'"
  by (auto simp: init_def res_simps ram_conserved_def ram_sum_def free_ram_def)

lemma add_base_amount: "amount (c_balance (base (add_base d m))) = i64 (amount (c_balance (base m)) + d)"
  by (simp add: add_base_def)

lemma ram_conserved_setram: "setram c n s = Inr s' \<Longrightarrow> ram_conserved s \<Longrightarrow> ram_conserved s'"
proof (erule setram_parts)
  fix m assume m: "rammarket s = Some m" and "ram_conserved s"
    and s': "s' = s\<lparr>rammarket := Some (add_base (i64 (i64 n - i64 (max_ram_size (gstate s)))) m),
       gstate := (gstate s)\<lparr>max_ram_size := n\<rparr>\<rparr>"
  then have h: "u64 (amount (c_balance (base m)) + total_ram_bytes_reserved (gstate s)) = u64 (max_ram_size (gstate s))"
    "u64 (ram_sum s) = u64 (total_ram_bytes_reserved (gstate s))" by (auto simp: ram_conserved_def)
  have "u64 (i64 (i64 n - i64 (max_ram_size (gstate s)))) = u64 (n - max_ram_size (gstate s))" by simp
  from u64_cong [OF h(1) this] show ?thesis using h(2) by (simp add: ram_conserved_def s' add_base_amount ram_sum_def algebra_simps)
qed

lemma ram_conserved_supply: "update_ram_supply c s = Inr s' \<Longrightarrow> ram_conserved s \<Longrightarrow> ram_conserved s'"
proof (erule update_ram_supply_parts)
  fix m n g2 assume m: "rammarket s = Some m" and "ram_conserved s"
    and s': "s' = s\<lparr>rammarket := Some (add_base n m), gstate := (gstate s)\<lparr>max_ram_size := u64 (max_ram_size (gstate s) + n)\<rparr>,
      gstate2 := g2\<rparr>"
  then have h: "u64 (amount (c_balance (base m)) + total_ram_bytes_reserved (gstate s)) = u64 (max_ram_size (gstate s))"
    "u64 (ram_sum s) = u64 (total_ram_bytes_reserved (gstate s))" by (auto simp: ram_conserved_def)
  from u64_cong [OF h(1) refl, of n] h(2) show ?thesis
    by (simp add: ram_conserved_def s' add_base_amount ram_sum_def algebra_simps)
qed simp

lemma ram_conserved_setramrate: "setramrate c n s = Inr s' \<Longrightarrow> ram_conserved s \<Longrightarrow> ram_conserved s'"
proof -
  assume "setramrate c n s = Inr s'" "ram_conserved s"
  then obtain s1 g2 where "update_ram_supply c s = Inr s1" "s' = s1\<lparr>gstate2 := g2\<rparr>"
    by (auto simp: setramrate_def bindr_Inr)
  with \<open>ram_conserved s\<close> ram_conserved_supply show ?thesis by (fastforce simp: ram_conserved_def ram_sum_def)
qed

text \<open>Moving \<open>d\<close> bytes from the market to an account, the three counters together.\<close>

lemma ram_conserved_move:
  assumes "ram_conserved s" "rammarket s = Some m" "rammarket s' = Some m'"
    and "u64 (amount (c_balance (base m'))) = u64 (amount (c_balance (base m)) - d)"
    and "total_ram_bytes_reserved (gstate s') = u64 (total_ram_bytes_reserved (gstate s) + d)"
    and "max_ram_size (gstate s') = max_ram_size (gstate s)"
    and "u64 (ram_sum s') = u64 (ram_sum s + d)"
  shows "ram_conserved s'"
proof -
  let ?r = "total_ram_bytes_reserved (gstate s)"
  have h: "u64 (amount (c_balance (base m)) + ?r) = u64 (max_ram_size (gstate s))" "u64 (ram_sum s) = u64 ?r"
    using assms(1,2) by (auto simp: ram_conserved_def)
  have "u64 (amount (c_balance (base m')) + (?r + d)) = u64 (amount (c_balance (base m)) - d + (?r + d))"
    by (rule u64_cong [OF assms(4) refl])
  moreover have "u64 (ram_sum s + d) = u64 (?r + d)" by (rule u64_cong [OF h(2) refl])
  ultimately show ?thesis using h(1) assms(3,5,6,7) by (simp add: ram_conserved_def)
qed

lemma credit_ram_sum:
  assumes "credit_ram c n b s = Inr s'" shows "u64 (ram_sum s') = u64 (ram_sum s + b)"
  using assms
proof (cases rule: credit_ram_parts)
  case (1 r)
  have "ram_sum s' = ram_sum s - row_val (\<lambda>_ r. ram_bytes r) n (fmlookup (userres s) n) + ram_bytes r"
    by (simp add: 1(3) ram_sum_def fmsum_upd)
  then show ?thesis using 1(1) by (auto simp: u64_swap split: option.splits)
qed

lemma ram_conserved_buyram:
  assumes ok: "asset_ops_ok c" and m: "market_ok core s" and b: "buyram c n r q s = Inr s'" and i: "ram_conserved s"
  shows "ram_conserved s'"
proof (rule buyram_market [OF ok m b])
  fix s1 m1 m2 price out
  assume s1: "update_ram_supply c s = Inr s1" and m1: "rammarket s1 = Some m1"
    and m2: "m2 = shift_base (- amount out) (shift_quote (amount price) m1)"
    and k: "credit_ram c r (amount out) ((pay_ram c n price (q\<lparr>amount := ram_fee (amount q)\<rparr>) s1)\<lparr>rammarket := Some m2,
       gstate := (gstate s1)\<lparr>total_ram_bytes_reserved := u64 (total_ram_bytes_reserved (gstate s1) + u64 (amount out)),
       total_ram_stake := i64 (total_ram_stake (gstate s1) + amount price)\<rparr>\<rparr>) = Inr s'"
  show ?thesis
    by (rule ram_conserved_move [OF ram_conserved_supply [OF s1 i] m1, of _ m2 "amount out"])
      (use credit_ram_sel [OF k] credit_ram_sum [OF k] in \<open>simp_all add: m2 ram_sum_def\<close>)
qed

lemma ram_conserved_sellram:
  assumes ok: "asset_ops_ok c" and m: "market_ok core s" and b: "sellram c n b s = Inr s'" and i: "ram_conserved s"
  shows "ram_conserved s'"
proof (rule sellram_market [OF ok m b])
  fix s1 r m1 m2 out
  assume s1: "update_ram_supply c s = Inr s1" and m1: "rammarket s1 = Some m1" and r: "fmlookup (userres s1) n = Some r"
    and m2: "m2 = shift_quote (- amount out) (shift_base b m1)"
    and k: "pay_seller c n out (set_ram_limit n (i64 (ram_bytes r - b)) (s1\<lparr>rammarket := Some m2,
       gstate := (gstate s1)\<lparr>total_ram_bytes_reserved := u64 (total_ram_bytes_reserved (gstate s1) - u64 b),
         total_ram_stake := i64 (total_ram_stake (gstate s1) - amount out)\<rparr>,
       userres := fmupd n (r\<lparr>ram_bytes := i64 (ram_bytes r - b)\<rparr>) (userres s1)\<rparr>)) = Inr s'"
  have "ram_sum s' = ram_sum s1 - ram_bytes r + i64 (ram_bytes r - b)"
    by (simp add: ram_sum_def pay_seller_sel [OF k] fmsum_upd r)
  then have "u64 (ram_sum s') = u64 (ram_sum s1 + - b)" using u64_swap [of "ram_sum s1" "ram_bytes r" "- b"] by simp
  then show ?thesis
    by (intro ram_conserved_move [OF ram_conserved_supply [OF s1 i] m1, of _ m2 "- b"])
      (use pay_seller_sel [OF k] in \<open>simp_all add: m2\<close>)
qed

lemma action_ram_conserved:
  assumes "good_ctx c" "good_action core a" "market_ok core s" "ram_conserved s" "apply_sys c a s = Inr s'"
  shows "ram_conserved s'"
proof (cases "Ramming \<in> touches a")
  case False
  then have "same Ramming s s'" by (rule footprintD(1) [OF action_footprint [OF assms(5)]])
  then show ?thesis using ram_conserved_same assms(4) by blast
next
  case True
  have ok: "asset_ops_ok c" using assms(1) by (simp add: good_ctx_def)
  note buy = ram_conserved_buyram [OF ok assms(3) _ assms(4)]
  show ?thesis
    using True assms(2,4,5)
    by (cases a) (auto intro: ram_conserved_init ram_conserved_setram ram_conserved_setramrate buy
        ram_conserved_sellram [OF ok assms(3)] elim!: buyrambytes_parts)
qed

lemma ram_conserved_effects [simp]:
  "ram_conserved (s\<lparr>outbox := l\<rparr>) = ram_conserved s" "ram_conserved (s\<lparr>tokens := t\<rparr>) = ram_conserved s"
  by (simp_all add: ram_conserved_def ram_sum_def)

interpretation ram_bytes_kept: steady core "\<lambda>s. market_ok core s \<and> ram_conserved s" for core
  by unfold_locales
    (auto intro: action_market_ok action_ram_conserved)

end
