(* ===== verification/Solvency.thy ===== *)
theory Solvency
  imports RamLedger
begin

text \<open>
  The staking account and the RAM account always hold what their tables say they owe: the stakes
  and the pending refunds, and the tokens staked for RAM.
\<close>

section \<open>Actions that leave an account and its debts alone\<close>

lemma good_held:
  assumes "good_ctx c" "n \<in> held_accounts" "n \<notin> held_senders a" shows "n \<notin> spenders c a"
proof -
  have "eosio_account \<notin> held_accounts" by (simp add: held_accounts_def account_defs)
  then show ?thesis using assms by (auto simp: good_ctx_def spenders_def)
qed

lemma quiet_flow:
  assumes "good_ctx c" "n \<in> held_accounts" "n \<notin> held_senders a" "outbox s = []"
    and "apply_sys c a s = Inr s'" "all_sent (outbox s')"
  shows "0 \<le> flows code n (outbox s')"
proof -
  obtain l where "outbox s' = outbox s @ l" "senders l \<subseteq> spenders c a"
    using footprintD(3) [OF action_footprint [OF assms(5)]] by (rule sendsD)
  then have "senders (outbox s') \<subseteq> spenders c a" using assms(4) by simp
  then show ?thesis using flows_nonneg [OF assms(6)] good_held [OF assms(1-3)] by auto
qed

lemma action_plain:
  assumes "outbox s = []" "apply_sys c a s = Inr s'" shows "all_plain (outbox s') \<and> tokens s' = tokens s"
  using footprintD(2,3) [OF action_footprint [OF assms(2)]] assms(1) by (auto elim: sendsD)

text \<open>Every escrow follows from its law for the actions that touch its tables.\<close>

lemma escrow_law:
  fixes fine :: "sys_state \<Rightarrow> bool"
  assumes "n \<in> held_accounts" "good_ctx c" "outbox s = []" "apply_sys c a s = Inr s'"
    and quiet: "n \<notin> held_senders a \<Longrightarrow> A \<notin> touches a \<Longrightarrow> fine s' \<and> owed s' = owed s"
    and busy: "n \<in> held_senders a \<or> A \<in> touches a \<Longrightarrow> all_sent (outbox s')
       \<Longrightarrow> fine s' \<and> owed s' \<le> owed s + flows code n (outbox s')"
  shows "all_plain (outbox s') \<and> tokens s' = tokens s
     \<and> (all_sent (outbox s') \<longrightarrow> fine s' \<and> owed s' \<le> owed s + flows code n (outbox s'))"
proof (cases "n \<notin> held_senders a \<and> A \<notin> touches a")
  case True
  then show ?thesis using action_plain [OF assms(3,4)] quiet quiet_flow [OF assms(2,1) _ assms(3,4)] by fastforce
next
  case False
  then show ?thesis using action_plain [OF assms(3,4)] busy by blast
qed

section \<open>Stakes and refunds\<close>

definition stake_of :: "'k \<Rightarrow> delegated_bandwidth \<Rightarrow> int" where
  "stake_of k d = amount (dbw_net d) + amount (dbw_cpu d)"

definition refund_of :: "'k \<Rightarrow> refund_request \<Rightarrow> int" where
  "refund_of k r = amount (net_amount r) + amount (cpu_amount r)"

definition stake_owed :: "sys_state \<Rightarrow> int" where
  "stake_owed s = fmsum stake_of (delband s) + fmsum refund_of (refunds s)"

definition dbw_ok :: "delegated_bandwidth \<Rightarrow> bool" where
  "dbw_ok d \<longleftrightarrow> 0 \<le> amount (dbw_net d) \<and> 0 \<le> amount (dbw_cpu d)"

definition req_ok :: "refund_request \<Rightarrow> bool" where
  "req_ok r \<longleftrightarrow> 0 \<le> amount (net_amount r) \<and> 0 \<le> amount (cpu_amount r)"

definition stakes_ok :: "sys_state \<Rightarrow> bool" where
  "stakes_ok s \<longleftrightarrow> fmpred (\<lambda>_. dbw_ok) (delband s) \<and> fmpred (\<lambda>_. req_ok) (refunds s)"

lemma stakes_okD:
  assumes "stakes_ok s"
  shows "fmlookup (delband s) k = Some d \<Longrightarrow> dbw_ok d" "fmlookup (refunds s) n = Some r \<Longrightarrow> req_ok r"
  using assms by (auto simp: stakes_ok_def dest: fmpredD)

lemma stakes_same:
  "same Staking s s' \<Longrightarrow> stake_owed s' = stake_owed s" "same Staking s s' \<Longrightarrow> stakes_ok s' = stakes_ok s"
  by (simp_all add: stake_owed_def stakes_ok_def)

lemma stakes_bounds:
  assumes "stakes_ok s"
  shows "fmlookup (delband s) k = Some d \<Longrightarrow> stake_of k d \<le> stake_owed s"
    and "fmlookup (refunds s) n = Some r \<Longrightarrow> refund_of n r \<le> stake_owed s"
proof -
  have p: "0 \<le> stake_of k d" if "fmlookup (delband s) k = Some d" for k d
    using stakes_okD(1) [OF assms that] by (simp add: dbw_ok_def stake_of_def)
  have q: "0 \<le> refund_of k r" if "fmlookup (refunds s) k = Some r" for k r
    using stakes_okD(2) [OF assms that] by (simp add: req_ok_def refund_of_def)
  have "0 \<le> fmsum refund_of (refunds s)" "0 \<le> fmsum stake_of (delband s)"
    by (rule fmsum_nonneg, erule p q)+
  then show "fmlookup (delband s) k = Some d \<Longrightarrow> stake_of k d \<le> stake_owed s"
    "fmlookup (refunds s) n = Some r \<Longrightarrow> refund_of n r \<le> stake_owed s"
    using fmsum_row_le [of "delband s" k d stake_of] fmsum_row_le [of "refunds s" n r refund_of] p q
    by (fastforce simp: stake_owed_def)+
qed

lemma update_delband_stakes:
  assumes ok: "asset_ops_ok c" and i: "stakes_ok s" and u: "update_delband c n r nd cd s = Inr s'"
  shows "stakes_ok s'" "stake_owed s' = stake_owed s + amount nd + amount cd" "refunds s' = refunds s"
    "outbox s' = outbox s"
proof -
  from u obtain d where d: "(case fmlookup (delband s) (n, r) of
         None \<Rightarrow> Inr \<lparr>dbw_net = nd, dbw_cpu = cd\<rparr>
       | Some d \<Rightarrow>
           bindr (asset_add c (dbw_net d) nd) (\<lambda>n.
           bindr (asset_add c (dbw_cpu d) cd) (\<lambda>p.
           Inr \<lparr>dbw_net = n, dbw_cpu = p\<rparr>))) = Inr d" and dok: "dbw_ok d"
    and s': "s' = s\<lparr>delband := if dbw_empty d then fmdrop (n, r) (delband s) else fmupd (n, r) d (delband s)\<rparr>"
    unfolding update_delband_def dbw_ok_def bindr_Inr check_Inr by blast
  have "stake_of (n, r) d = row_val stake_of (n, r) (fmlookup (delband s) (n, r)) + amount nd + amount cd"
    using d by (auto simp: bindr_Inr asset_addD [OF ok] stake_of_def split: option.splits)
  moreover have "dbw_empty d \<Longrightarrow> stake_of (n, r) d = 0" by (simp add: dbw_empty_def stake_of_def)
  ultimately show "stake_owed s' = stake_owed s + amount nd + amount cd"
    by (auto simp: stake_owed_def s' fmsum_drop fmsum_upd)
  show "stakes_ok s'" using i dok by (auto simp: stakes_ok_def s' intro!: fmpred_upd fmpred_drop)
qed (use u in \<open>auto simp: update_delband_def res_simps\<close>)

lemma pay_from_refund_eq:
  assumes ok: "asset_ops_ok c" and "pay_from_refund c r d = Inr (left, r')"
  shows "symb r = symb d" "symb left = symb d" "symb r' = symb d" "0 \<le> amount left" "0 \<le> amount r'"
    "amount r' = amount r - amount d + amount left"
  using assms(2) by (auto simp: pay_from_refund_def bindr_Inr asset_subD [OF ok] asset_negD [OF ok] split: if_splits)

text \<open>The deltas of one call have the same sign.\<close>

definition same_sign :: "asset \<Rightarrow> asset \<Rightarrow> bool" where
  "same_sign a b \<longleftrightarrow> (amount a \<le> 0 \<and> amount b \<le> 0) \<or> (0 \<le> amount a \<and> 0 \<le> amount b)"

text \<open>Refunds pay for new stakes and take back what is unstaked; the rest is left to be transferred.\<close>

definition refund_step :: "asset \<Rightarrow> asset \<Rightarrow> asset \<Rightarrow> asset \<Rightarrow> sys_state \<Rightarrow> sys_state \<Rightarrow> bool" where
  "refund_step nd cd nl cl s s' \<longleftrightarrow> stakes_ok s' \<and> 0 \<le> amount nl \<and> 0 \<le> amount cl
     \<and> symb nl = symb nd \<and> symb cl = symb cd \<and> outbox s' = outbox s
     \<and> stake_owed s' = stake_owed s - amount nd - amount cd + amount nl + amount cl"

lemma update_refund_some:
  assumes ok: "asset_ops_ok c" and i: "stakes_ok s" and r: "fmlookup (refunds s) n = Some req"
    and u: "update_refund c n nd cd s = Inr (nl, cl, b, s')"
  shows "refund_step nd cd nl cl s s'"
proof -
  define t where "t = (if amount nd < 0 \<or> amount cd < 0 then now_sec c else request_time req)"
  from u obtain n1 nt c1 ct where n: "pay_from_refund c (net_amount req) nd = Inr (n1, nt)"
    and p: "pay_from_refund c (cpu_amount req) cd = Inr (c1, ct)"
    and k: "(if refund_empty \<lparr>request_time = t, net_amount = nt, cpu_amount = ct\<rparr>
       then (n1, c1, False, s\<lparr>refunds := fmdrop n (refunds s)\<rparr>)
       else (n1, c1, True, s\<lparr>refunds := fmupd n \<lparr>request_time = t, net_amount = nt, cpu_amount = ct\<rparr> (refunds s)\<rparr>))
       = (nl, cl, b, s')"
    unfolding update_refund_def r option.case Let_def t_def [symmetric] bindr_Inr case_prod_Inr check_Inr sum.inject by blast
  from k have l: "n1 = nl" "c1 = cl" and s': "s' = (if refund_empty \<lparr>request_time = t, net_amount = nt, cpu_amount = ct\<rparr>
       then s\<lparr>refunds := fmdrop n (refunds s)\<rparr>
       else s\<lparr>refunds := fmupd n \<lparr>request_time = t, net_amount = nt, cpu_amount = ct\<rparr> (refunds s)\<rparr>)"
    by (simp_all split: if_splits)
  note nn = pay_from_refund_eq [OF ok n [unfolded l]] and pp = pay_from_refund_eq [OF ok p [unfolded l]]
  have "stakes_ok s'" using i nn pp
    by (auto simp: stakes_ok_def s' req_ok_def intro!: fmpred_upd fmpred_drop)
  moreover have "stake_owed s' = stake_owed s - amount nd - amount cd + amount nl + amount cl"
    using nn pp by (auto simp: stake_owed_def s' fmsum_upd fmsum_drop r refund_of_def refund_empty_def)
  ultimately show ?thesis using nn pp by (simp add: refund_step_def s')
qed

lemma update_refund_none:
  assumes ok: "asset_ops_ok c" and i: "stakes_ok s" and r: "fmlookup (refunds s) n = None" and sg: "same_sign nd cd"
    and neg: "amount nd < 0 \<or> amount cd < 0" and u: "update_refund c n nd cd s = Inr (nl, cl, b, s')"
  shows "refund_step nd cd nl cl s s'"
proof -
  from u obtain sy z where "core_sym s = Some sy" and "asset_new c 0 sy = Inr z"
    and k: "(if amount nd < 0 then nd\<lparr>amount := 0\<rparr> else nd, if amount cd < 0 then cd\<lparr>amount := 0\<rparr> else cd, True,
       s\<lparr>refunds := fmupd n \<lparr>request_time = now_sec c, net_amount = if amount nd < 0 then asset_neg c nd else z,
         cpu_amount = if amount cd < 0 then asset_neg c cd else z\<rparr> (refunds s)\<rparr>) = (nl, cl, b, s')"
    unfolding update_refund_def r option.case if_P [OF neg] Let_def core_asset_Inr sum.inject by blast
  then have z: "core_asset c s 0 Inr = Inr z" by (simp add: core_asset_Inr)
  from k have l: "nl = nd\<lparr>amount := if amount nd < 0 then 0 else amount nd\<rparr>" "cl = cd\<lparr>amount := if amount cd < 0 then 0 else amount cd\<rparr>"
    and s': "s' = s\<lparr>refunds := fmupd n \<lparr>request_time = now_sec c,
        net_amount = if amount nd < 0 then asset_neg c nd else z,
        cpu_amount = if amount cd < 0 then asset_neg c cd else z\<rparr> (refunds s)\<rparr>"
    by auto
  have z0: "amount z = 0" using z by (auto simp: core_asset_Inr asset_newD [OF ok])
  have "stakes_ok s'" using i z0 by (auto simp: stakes_ok_def s' req_ok_def asset_negD [OF ok] intro!: fmpred_upd)
  then show ?thesis using z0 sg l
    by (auto simp: refund_step_def same_sign_def stake_owed_def s' fmsum_upd r refund_of_def asset_negD [OF ok])
qed

lemma update_refund_idle:
  assumes "fmlookup (refunds s) n = None" "\<not> (amount nd < 0 \<or> amount cd < 0)"
    and "update_refund c n nd cd s = Inr (nl, cl, b, s')" and "stakes_ok s"
  shows "refund_step nd cd nl cl s s'"
  using assms by (auto simp: update_refund_def refund_step_def)

lemma update_refund_stakes:
  assumes "asset_ops_ok c" "stakes_ok s" "same_sign nd cd" "update_refund c n nd cd s = Inr (nl, cl, b, s')"
  shows "refund_step nd cd nl cl s s'"
proof (cases "fmlookup (refunds s) n")
  case None
  with assms update_refund_none update_refund_idle show ?thesis by blast
qed (use assms update_refund_some in blast)

lemma i64_small: "\<bar>x\<bar> \<le> max_amount \<Longrightarrow> i64 x = x"
  by (rule i64_id) (auto simp: in_i64_def max_amount_def)

lemma stake_or_refund_stakes:
  assumes ok: "asset_ops_ok c" and i: "stakes_ok s" and sg: "same_sign nd cd" and src: "src \<noteq> stake_account"
    and b: "\<bar>amount nd + amount cd\<bar> \<le> max_amount" and ob: "outbox s = []" and sy: "symb nd = core"
    and u: "stake_or_refund c src n r tr nd cd s = Inr s'"
  shows "stakes_ok s'" "stake_owed s' + amount nd + amount cd = stake_owed s + flows (sym_code core) stake_account (outbox s')"
proof -
  from u obtain nb cb need s1 p q where
    m: "(if (\<not> tr \<and> n = r) \<or> i64 (amount nd + amount cd) < 0 then update_refund c n nd cd s
      else Inr (nd, cd, False, s)) = Inr (nb, cb, need, s1)" and q: "asset_add c nb cb = Inr q"
    and s': "s' = (if 0 < amount q then send_transfer [Perm src active_permission] src stake_account q ''stake bandwidth''
       (s1\<lparr>pending := p\<rparr>) else s1\<lparr>pending := p\<rparr>)"
    by (rule stake_or_refund_parts)
  have "0 \<le> amount nb + amount cb \<and> symb nb = core \<and> outbox s1 = [] \<and> stakes_ok s1
      \<and> stake_owed s1 + amount nd + amount cd = stake_owed s + amount nb + amount cb"
  proof (cases "(\<not> tr \<and> n = r) \<or> i64 (amount nd + amount cd) < 0")
    case True
    with m have "update_refund c n nd cd s = Inr (nb, cb, need, s1)" by simp
    from update_refund_stakes [OF ok i sg this] show ?thesis using ob sy by (simp add: refund_step_def)
  next
    case False
    from m [unfolded if_not_P [OF False]] have "nb = nd" "cb = cd" "s1 = s" by simp_all
    with False i64_small [OF b] ob sy i show ?thesis by simp
  qed
  moreover from this q have "amount q = amount nb + amount cb" "symb q = core" by (auto simp: asset_addD [OF ok])
  moreover have "stakes_ok (x\<lparr>pending := p\<rparr>) = stakes_ok x" "stake_owed (x\<lparr>pending := p\<rparr>) = stake_owed x"
    "stakes_ok (x\<lparr>outbox := l\<rparr>) = stakes_ok x" "stake_owed (x\<lparr>outbox := l\<rparr>) = stake_owed x" for x l
    by (simp_all add: stakes_ok_def stake_owed_def)
  ultimately show "stakes_ok s'" "stake_owed s' + amount nd + amount cd = stake_owed s + flows (sym_code core) stake_account (outbox s')"
    using src by (auto simp: s' send_transfer_def)
qed

lemma changebw_stakes:
  assumes ok: "asset_ops_ok c" and i: "stakes_ok s" and sg: "same_sign nd cd" and src: "src \<noteq> stake_account"
    and ob: "outbox s = []" and sy: "symb nd = core" and u: "changebw c src r nd cd tr s = Inr s'"
  shows "stakes_ok s' \<and> stake_owed s' = stake_owed s + flows (sym_code core) stake_account (outbox s')"
  using u
proof (cases rule: changebw_parts)
  case (1 n q s1 s2 s3 s4)
  have b: "\<bar>amount nd + amount cd\<bar> \<le> max_amount" using 1(3) by (simp add: asset_addD [OF ok])
  note d = update_delband_stakes [OF ok i 1(6)]
  have t: "same Staking s1 s2" "outbox s2 = outbox s1"
    using footprintD(1) [OF footprint_update_totals [OF 1(7)], of Staking] 1(7)
    by (auto elim!: update_totals_parts simp: store_totals_def)
  have f: "stake_or_refund c src n r tr nd cd s2 = Inr s3" using 1(8) src by simp
  have o2: "outbox s2 = []" using t d ob by simp
  have i2: "stakes_ok s2" using stakes_same(2) [OF t(1)] d(1) by simp
  note g = stake_or_refund_stakes [OF ok i2 sg src b o2 sy f]
  have v: "view s' = view s3" using view_update_rex_stake [OF 1(9)] view_update_voting_power [OF 1(10)] by simp
  have "same Staking s3 s'" "outbox s' = outbox s3" using viewD [OF v] by simp_all
  with g stakes_same [of s3 s'] stakes_same(1) [OF t(1)] d(2) show ?thesis by simp
qed

lemma zero_core:
  assumes "asset_ops_ok c" "market_ok core s" "core_asset c s x Inr = Inr z"
  shows "z = ast x core" "\<bar>x\<bar> \<le> max_amount"
  using assms(3) market_ok_core [OF assms(2)] by (auto simp: core_asset_Inr asset_newD [OF assms(1)])

lemma delegatebw_stakes:
  assumes ok: "asset_ops_ok c" and m: "market_ok core s" and i: "stakes_ok s" and ob: "outbox s = []"
    and na: "\<not> has_auth c stake_account" and u: "delegatebw c n r nq cq tr s = Inr s'"
  shows "stakes_ok s' \<and> stake_owed s' = stake_owed s + flows (sym_code core) stake_account (outbox s')"
  using u
proof (cases rule: delegatebw_parts)
  case (1 z)
  note z = zero_core [OF ok m 1(1)]
  have "same_sign nq cq" "symb nq = core" using 1(2,3) by (auto simp: z asset_leD [OF ok] same_sign_def)
  moreover have "n \<noteq> stake_account" using delegatebw_auth [OF u] na by auto
  ultimately show ?thesis using changebw_stakes [OF ok i _ _ ob _ 1(5)] by blast
qed

lemma undelegatebw_stakes:
  assumes ok: "asset_ops_ok c" and m: "market_ok core s" and i: "stakes_ok s" and ob: "outbox s = []"
    and na: "\<not> has_auth c stake_account" and u: "undelegatebw c n r nq cq s = Inr s'"
  shows "stakes_ok s' \<and> stake_owed s' = stake_owed s + flows (sym_code core) stake_account (outbox s')"
  using u
proof (cases rule: undelegatebw_parts)
  case (1 z)
  note z = zero_core [OF ok m 1(1)]
  have "same_sign (asset_neg c nq) (asset_neg c cq)" "symb (asset_neg c nq) = core"
    using 1(2,3) by (auto simp: z asset_leD [OF ok] asset_negD [OF ok] same_sign_def)
  moreover have "n \<noteq> stake_account" using undelegatebw_auth [OF u] na by auto
  ultimately show ?thesis using changebw_stakes [OF ok i _ _ ob _ 1(6)] by blast
qed

lemma refund_stakes:
  assumes ok: "asset_ops_ok c" and i: "stakes_ok s" and ob: "outbox s = []"
    and na: "\<not> has_auth c stake_account" and u: "refund c n s = Inr s'"
  shows "stakes_ok s' \<and> stake_owed s' \<le> stake_owed s + flows code stake_account (outbox s')"
  using u
proof (cases rule: refund_parts)
  case (1 req q)
  have q: "amount q = refund_of n req" using 1(4) by (auto simp: asset_addD [OF ok] refund_of_def)
  have "0 \<le> refund_of n req" using stakes_okD(2) [OF i 1(2)] by (simp add: req_ok_def refund_of_def)
  then show ?thesis using i q na 1(1,2) ob
    by (auto simp: 1(5) send_transfer_def stake_owed_def stakes_ok_def fmsum_drop intro: fmpred_drop)
qed

lemma unstaketorex_stakes:
  assumes ok: "asset_ops_ok c" and m: "market_ok core s" and i: "stakes_ok s" and ob: "outbox s = []"
    and le: "stake_owed s \<le> max_amount" and u: "unstaketorex c n r nq cq s = Inr s'" and snt: "all_sent (outbox s')"
  shows "stakes_ok s' \<and> stake_owed s' \<le> stake_owed s + flows (sym_code core) stake_account (outbox s')"
  using u
proof (cases rule: unstaketorex_parts)
  case (1 d d1 s1 s2 pay rec s3 x s4 s5 z y s6)
  let ?t = "send_transfer [Perm stake_account active_permission] stake_account rex_account pay ''buy REX with staked tokens'' s2"
  have d: "dbw_ok d" by (rule stakes_okD(1) [OF i 1(7)])
  have b: "stake_of (n, r) d \<le> max_amount" using stakes_bounds(1) [OF i 1(7)] le by simp
  have sub: "i64 (amount (dbw_net d) - amount nq) = amount (dbw_net d) - amount nq"
    "i64 (amount (dbw_cpu d) - amount cq) = amount (dbw_cpu d) - amount cq"
    by (rule i64_small; use d b 1(4,5,8,9) in \<open>auto simp: dbw_ok_def stake_of_def\<close>)+
  have d1: "stake_of (n, r) d1 = stake_of (n, r) d - amount nq - amount cq" "dbw_ok d1"
    using sub 1(8,9) by (auto simp: 1(10) stake_of_def dbw_ok_def)
  have i1: "stakes_ok s1" "stake_owed s1 = stake_owed s - amount nq - amount cq"
    using i d1 by (auto simp: 1(11) stakes_ok_def stake_owed_def fmsum_drop fmsum_upd 1(7) dbw_empty_def stake_of_def
        intro!: fmpred_drop fmpred_upd)
  have sy: "symb nq = core" using market_ok_core [OF m 1(2)] by simp
  have pay: "amount pay = amount nq + amount cq" "symb pay = core" using 1(13) sy by (auto simp: asset_addD [OF ok])
  have k2: "keeps {} s1 s2" by (rule keeps_limits [OF 1(12)])
  then have o2: "outbox s2 = []" using 1(12) ob by (auto simp: 1(11) elim!: update_resource_limits_parts)
  have "keeps {names_account} ?t s4" by (rule keeps_then [OF keeps_add_pool [OF 1(14)] keeps_add_balance [OF 1(15)]])
  moreover have "keeps {names_account} s4 s6" by (rule keeps_then [OF keeps_runrex [OF 1(16)] keeps_account [OF 1(18)]])
  moreover have "keeps {names_account} s6 s'" unfolding 1(19) by simp
  ultimately have k: "keeps {names_account} ?t s'" by (meson keeps_then)
  have same: "same Staking s1 s'" using keepsD(2,3) [OF k2] keepsD(2,3) [OF k] by (simp add: send_transfer_def)
  obtain l where l: "outbox s' = outbox ?t @ l" "senders l \<subseteq> {names_account}"
    using keepsD(10) [OF k] by (rule sendsD)
  have "0 \<le> flows (sym_code core) stake_account l"
    using snt l(2) by (intro flows_nonneg) (auto simp: l(1) account_defs)
  moreover have "flows (sym_code core) stake_account (outbox ?t) = - amount pay"
    by (simp add: send_transfer_def o2 pay(2) account_defs)
  ultimately have "stake_owed s1 \<le> stake_owed s + flows (sym_code core) stake_account (outbox s')"
    using i1(2) pay(1) by (simp add: l(1))
  with i1(1) stakes_same [OF same] show ?thesis by simp
qed

lemma staking_touched:
  "stake_account \<in> held_senders a \<or> Staking \<in> touches a \<Longrightarrow>
     (\<exists>n r x y b. a = DelegateBw n r x y b) \<or> (\<exists>n r x y. a = UndelegateBw n r x y) \<or> (\<exists>n. a = Refund n)
     \<or> (\<exists>n r x y. a = UnstakeToRex n r x y)"
  by (cases a) (auto simp: account_defs)

lemma action_stakes:
  assumes g: "good_ctx c" "good_action core a" and i: "market_ok core s \<and> stakes_ok s" and ob: "outbox s = []"
    and le: "stake_owed s \<le> max_amount" and u: "apply_sys c a s = Inr s'"
  shows "all_plain (outbox s') \<and> tokens s' = tokens s \<and> (all_sent (outbox s') \<longrightarrow> (market_ok core s' \<and> stakes_ok s')
    \<and> stake_owed s' \<le> stake_owed s + flows (sym_code core) stake_account (outbox s'))"
proof (rule escrow_law [where A = Staking])
  have m: "market_ok core s'" by (rule action_market_ok [OF g _ u]) (use i in simp)
  show "stake_account \<in> held_accounts" by (simp add: held_accounts_def)
  show "(market_ok core s' \<and> stakes_ok s') \<and> stake_owed s' = stake_owed s" if "Staking \<notin> touches a"
    using m i stakes_same [of s s'] footprintD(1) [OF action_footprint [OF u] that] by simp
  assume t: "stake_account \<in> held_senders a \<or> Staking \<in> touches a" and snt: "all_sent (outbox s')"
  have ok: "asset_ops_ok c" and na: "\<not> has_auth c stake_account"
    using g(1) by (auto simp: good_ctx_def held_accounts_def)
  note mi = conjunct1 [OF i] conjunct2 [OF i]
  have "stakes_ok s' \<and> stake_owed s' \<le> stake_owed s + flows (sym_code core) stake_account (outbox s')"
    using staking_touched [OF t]
  proof (elim disjE exE)
    fix n r x y b assume "a = DelegateBw n r x y b"
    with u delegatebw_stakes [OF ok mi ob na] show ?thesis by fastforce
  next
    fix n r x y assume "a = UndelegateBw n r x y"
    with u undelegatebw_stakes [OF ok mi ob na] show ?thesis by fastforce
  next
    fix n assume "a = Refund n"
    with u refund_stakes [OF ok mi(2) ob na] show ?thesis by simp
  next
    fix n r x y assume "a = UnstakeToRex n r x y"
    with u unstaketorex_stakes [OF ok mi ob le _ snt] show ?thesis by simp
  qed
  then show "(market_ok core s' \<and> stakes_ok s') \<and> stake_owed s' \<le> stake_owed s + flows (sym_code core) stake_account (outbox s')"
    using m by simp
qed (use g ob u in simp_all)

interpretation stakes: escrow core stake_account "\<lambda>s. market_ok core s \<and> stakes_ok s" stake_owed for core
proof unfold_locales
  fix c a s s'
  assume "good_ctx c" "good_action core a" "market_ok core s \<and> stakes_ok s" "outbox s = []"
    "bal (sym_code core) (tokens s) stake_account \<le> max_amount"
    "stake_owed s \<le> bal (sym_code core) (tokens s) stake_account" "apply_sys c a s = Inr s'"
  then show "all_plain (outbox s') \<and> tokens s' = tokens s \<and> (all_sent (outbox s')
      \<longrightarrow> bal (sym_code core) (tokens s) stake_account + flows (sym_code core) stake_account (outbox s') \<le> max_amount
      \<longrightarrow> (market_ok core s' \<and> stakes_ok s')
        \<and> stake_owed s' \<le> stake_owed s + flows (sym_code core) stake_account (outbox s'))"
    using action_stakes [of c core a s s'] by auto
qed (auto simp: held_accounts_def stakes_ok_def stake_owed_def max_amount_def)

section \<open>Tokens staked for RAM\<close>

definition ram_owed :: "sys_state \<Rightarrow> int" where
  "ram_owed s = total_ram_stake (gstate s)"

lemma ram_owed_supply: "update_ram_supply c s = Inr s' \<Longrightarrow> ram_owed s' = ram_owed s"
  by (auto simp: ram_owed_def elim: update_ram_supply_parts)

lemma outbox_supply: "update_ram_supply c s = Inr s' \<Longrightarrow> outbox s' = outbox s"
  by (auto elim: update_ram_supply_parts)

lemma buyram_owed:
  assumes ok: "asset_ops_ok c" and m: "market_ok core s" and ob: "outbox s = []"
    and b: "0 \<le> ram_owed s" "ram_owed s \<le> max_amount" and na: "\<not> has_auth c ram_account"
    and u: "buyram c n r q s = Inr s'" and snt: "all_sent (outbox s')"
  shows "0 \<le> ram_owed s' \<and> ram_owed s' \<le> ram_owed s + flows (sym_code core) ram_account (outbox s')"
proof (rule buyram_market [OF ok m u])
  fix s1 m1 m2 price and out :: asset
  let ?fee = "q\<lparr>amount := ram_fee (amount q)\<rparr>"
  assume s1: "update_ram_supply c s = Inr s1" and q: "symb q = core"
    and price: "price = q\<lparr>amount := i64 (amount q - ram_fee (amount q))\<rparr>"
    and k: "credit_ram c r (amount out) ((pay_ram c n price ?fee s1)\<lparr>rammarket := Some m2,
       gstate := (gstate s1)\<lparr>total_ram_bytes_reserved := u64 (total_ram_bytes_reserved (gstate s1) + u64 (amount out)),
       total_ram_stake := i64 (total_ram_stake (gstate s1) + amount price)\<rparr>\<rparr>) = Inr s'"
  have n: "n \<noteq> ram_account" using buyram_auth [OF u] na by auto
  have o1: "outbox s1 = []" using outbox_supply [OF s1] ob by simp
  have ob': "outbox s' = outbox (pay_ram c n price ?fee s1)" using credit_ram_sel(3) [OF k] by simp
  define l where "l = tl (outbox s')"
  have l: "outbox s' = ToToken [Perm n active_permission, Perm ram_account active_permission]
      (Transfer n ram_account price ''buy ram'') # l" "senders l \<subseteq> {n, ramfee_account}"
    unfolding l_def ob' by (auto simp: pay_ram_def Let_def send_transfer_def channel_to_rex_def o1 split: option.splits)
  have p: "0 < amount price" "amount price \<le> max_amount" using snt by (auto simp: l)
  have "0 \<le> flows (sym_code core) ram_account l"
    using snt l(2) n by (intro flows_nonneg) (auto simp: l(1) account_defs)
  moreover have "ram_owed s' = ram_owed s + amount price"
    using credit_ram_sel(2) [OF k] ram_owed_supply [OF s1] b p
    by (simp add: ram_owed_def) (rule i64_id, auto simp: in_i64_def max_amount_def)
  ultimately show ?thesis using b p q n price by (simp add: l(1))
qed

lemma pay_seller_outbox:
  assumes "pay_seller c n q s = Inr s'"
  obtains l where "outbox s' = outbox s @ ToToken [Perm ram_account active_permission, Perm n active_permission]
      (Transfer ram_account n q ''sell ram'') # l" "senders l \<subseteq> {n, ramfee_account}"
proof -
  let ?s1 = "send_transfer [Perm ram_account active_permission, Perm n active_permission] ram_account n q ''sell ram'' s"
  have k: "sends {n, ramfee_account} ?s1 s'"
  proof (cases "0 < ram_fee (amount q)")
    case True
    with assms obtain f where s': "s' = channel_to_rex c ramfee_account f
        (send_transfer [Perm n active_permission] n ramfee_account f ''sell ram fee'' ?s1)"
      by (auto simp: pay_seller_def Let_def core_asset_Inr)
    have "keeps {n, ramfee_account} ?s1 s'" unfolding s'
      by (rule keeps_then [OF _ keeps_mono [OF keeps_channel]]) simp_all
    then show ?thesis by (rule keepsD(10))
  qed (use assms in \<open>auto simp: pay_seller_def Let_def intro: sends_refl\<close>)
  then obtain l where "outbox s' = outbox ?s1 @ l" "senders l \<subseteq> {n, ramfee_account}" by (rule sendsD)
  then show ?thesis by (intro that [of l]) (simp_all add: send_transfer_def)
qed

lemma sellram_owed:
  assumes ok: "asset_ops_ok c" and m: "market_ok core s" and ob: "outbox s = []"
    and b: "0 \<le> ram_owed s" "ram_owed s \<le> max_amount" and na: "\<not> has_auth c ram_account"
    and u: "sellram c n k s = Inr s'" and snt: "all_sent (outbox s')"
  shows "0 \<le> ram_owed s' \<and> ram_owed s' \<le> ram_owed s + flows (sym_code core) ram_account (outbox s')"
proof (rule sellram_market [OF ok m u])
  fix s1 r m1 m2 and out :: asset
  let ?s2 = "set_ram_limit n (i64 (ram_bytes r - k)) (s1\<lparr>rammarket := Some m2,
       gstate := (gstate s1)\<lparr>total_ram_bytes_reserved := u64 (total_ram_bytes_reserved (gstate s1) - u64 k),
         total_ram_stake := i64 (total_ram_stake (gstate s1) - amount out)\<rparr>,
       userres := fmupd n (r\<lparr>ram_bytes := i64 (ram_bytes r - k)\<rparr>) (userres s1)\<rparr>)"
  assume s1: "update_ram_supply c s = Inr s1" and out: "symb out = core" "1 < amount out" "amount out \<le> max_amount"
    and n: "has_auth c n" and ge: "0 \<le> i64 (total_ram_stake (gstate s1) - amount out)"
    and p: "pay_seller c n out ?s2 = Inr s'"
  have n: "n \<noteq> ram_account" using n na by auto
  have o1: "outbox s1 = []" using outbox_supply [OF s1] ob by simp
  obtain l where l: "outbox s' = ToToken [Perm ram_account active_permission, Perm n active_permission]
      (Transfer ram_account n out ''sell ram'') # l" "senders l \<subseteq> {n, ramfee_account}"
    by (rule pay_seller_outbox [OF p]) (simp add: o1)
  have "0 \<le> flows (sym_code core) ram_account l"
    using snt l(2) n by (intro flows_nonneg) (auto simp: l(1) account_defs)
  moreover have i: "i64 (ram_owed s - amount out) = ram_owed s - amount out"
    by (rule i64_id) (use b out in \<open>auto simp: in_i64_def max_amount_def\<close>)
  moreover have "ram_owed s' = i64 (ram_owed s - amount out)"
    using pay_seller_sel(2) [OF p] ram_owed_supply [OF s1] by (simp add: ram_owed_def)
  moreover have "0 \<le> i64 (ram_owed s - amount out)" using ge ram_owed_supply [OF s1] by (simp add: ram_owed_def)
  ultimately show ?thesis using n out by (simp add: l(1))
qed

lemma ramming_touched:
  "ram_account \<in> held_senders a \<or> Ramming \<in> touches a \<Longrightarrow>
     (\<exists>v sy. a = Init v sy) \<or> (\<exists>n. a = SetRam n) \<or> (\<exists>n. a = SetRamRate n) \<or> (\<exists>n r q. a = BuyRam n r q)
     \<or> (\<exists>n r b. a = BuyRamBytes n r b) \<or> (\<exists>n b. a = SellRam n b)"
  by (cases a) (auto simp: account_defs)

lemma supply_actions:
  "init c v sy s = Inr s' \<Longrightarrow> ram_owed s' = ram_owed s" "setram c n s = Inr s' \<Longrightarrow> ram_owed s' = ram_owed s"
  "setramrate c k s = Inr s' \<Longrightarrow> ram_owed s' = ram_owed s"
  by (auto simp: ram_owed_def init_def res_simps elim!: setram_parts)
    (auto simp: setramrate_def bindr_Inr dest!: ram_owed_supply simp: ram_owed_def)

lemma action_ram_owed:
  assumes g: "good_ctx c" "good_action core a" and i: "market_ok core s \<and> 0 \<le> ram_owed s" and ob: "outbox s = []"
    and le: "ram_owed s \<le> max_amount" and u: "apply_sys c a s = Inr s'"
  shows "all_plain (outbox s') \<and> tokens s' = tokens s \<and> (all_sent (outbox s') \<longrightarrow> (market_ok core s' \<and> 0 \<le> ram_owed s')
    \<and> ram_owed s' \<le> ram_owed s + flows (sym_code core) ram_account (outbox s'))"
proof (rule escrow_law [where A = Ramming])
  have m: "market_ok core s'" by (rule action_market_ok [OF g _ u]) (use i in simp)
  show h: "ram_account \<in> held_accounts" by (simp add: held_accounts_def)
  show "(market_ok core s' \<and> 0 \<le> ram_owed s') \<and> ram_owed s' = ram_owed s" if "Ramming \<notin> touches a"
    using m i footprintD(1) [OF action_footprint [OF u] that] by (simp add: ram_owed_def)
  assume t: "ram_account \<in> held_senders a \<or> Ramming \<in> touches a" and snt: "all_sent (outbox s')"
  have ok: "asset_ops_ok c" and na: "\<not> has_auth c ram_account"
    using g(1) by (auto simp: good_ctx_def held_accounts_def)
  note mi = conjunct1 [OF i] ob conjunct2 [OF i] le na
  have quiet: "ram_account \<notin> held_senders a \<Longrightarrow> ram_owed s' = ram_owed s \<Longrightarrow>
      0 \<le> ram_owed s' \<and> ram_owed s' \<le> ram_owed s + flows (sym_code core) ram_account (outbox s')"
    using quiet_flow [OF g(1) h _ ob u snt] i by simp
  have "0 \<le> ram_owed s' \<and> ram_owed s' \<le> ram_owed s + flows (sym_code core) ram_account (outbox s')"
    using ramming_touched [OF t]
  proof (elim disjE exE)
    fix n r b assume "a = BuyRamBytes n r b"
    with u buyram_owed [OF ok mi _ snt] show ?thesis by (auto elim: buyrambytes_parts)
  qed (use u quiet buyram_owed [OF ok mi _ snt] sellram_owed [OF ok mi _ snt] supply_actions in auto)
  then show "(market_ok core s' \<and> 0 \<le> ram_owed s') \<and> ram_owed s' \<le> ram_owed s + flows (sym_code core) ram_account (outbox s')"
    using m by simp
qed (use g ob u in simp_all)

interpretation ram_tokens: escrow core ram_account "\<lambda>s. market_ok core s \<and> 0 \<le> ram_owed s" ram_owed for core
proof unfold_locales
  fix c a s s'
  assume "good_ctx c" "good_action core a" "market_ok core s \<and> 0 \<le> ram_owed s" "outbox s = []"
    "bal (sym_code core) (tokens s) ram_account \<le> max_amount"
    "ram_owed s \<le> bal (sym_code core) (tokens s) ram_account" "apply_sys c a s = Inr s'"
  then show "all_plain (outbox s') \<and> tokens s' = tokens s \<and> (all_sent (outbox s')
      \<longrightarrow> bal (sym_code core) (tokens s) ram_account + flows (sym_code core) ram_account (outbox s') \<le> max_amount
      \<longrightarrow> (market_ok core s' \<and> 0 \<le> ram_owed s')
        \<and> ram_owed s' \<le> ram_owed s + flows (sym_code core) ram_account (outbox s'))"
    using action_ram_owed [of c core a s s'] by auto
qed (auto simp: held_accounts_def ram_owed_def max_amount_def)

end
