(* ===== verification/Example.thy ===== *)
theory Example
  imports Solvency
begin

text \<open>
  A concrete chain, on which the hypotheses of the properties hold: a token is created and issued,
  the system contract is initialised, and an account stakes, buys RAM and bids for a name.
\<close>

definition ref_sys :: "name list \<Rightarrow> uint64 \<Rightarrow> sys_chain" where
  "ref_sys auths now = chain.extend (ref_chain eosio_account auths now)
     (sys_chain.fields (\<lambda>x y. x) (u32 (now div 1000000)) 946684800000 [] (\<lambda>_. 0) (\<lambda>b. b) (\<lambda>_. ''name''))"

lemma ref_sys_sel [simp]:
  "self (ref_sys auths now) = eosio_account" "has_auth (ref_sys auths now) n \<longleftrightarrow> n \<in> set auths"
  "is_account (ref_sys auths now) n" "current_time (ref_sys auths now) = now"
  "symbol_valid (ref_sys auths now) sy \<longleftrightarrow> 0 < sym_code sy" "chain.truncate (ref_sys auths now) = ref_chain eosio_account auths now"
  "pow_fn (ref_sys auths now) x y = x" "name_to_string (ref_sys auths now) n = ''name''"
  "now_seconds (ref_sys auths now) = u32 (now div 1000000)" "default_key (ref_sys auths now) = []"
  "suffix (ref_sys auths now) n = n"
  by (simp_all add: ref_sys_def ref_chain_def chain.defs sys_chain.defs)

lemma ref_sys_ops: "asset_ops_ok (ref_sys auths now)" "time_ops_ok (ref_sys auths now)"
  by (auto simp: asset_ops_ok_def time_ops_ok_def ref_sys_def ref_chain_def chain.defs sys_chain.defs)

lemma ref_sys_lib [simp]:
  "asset_new (ref_sys auths now) = asset_new (ref_chain eosio_account auths now)"
  "asset_add (ref_sys auths now) = asset_add (ref_chain eosio_account auths now)"
  "asset_sub (ref_sys auths now) = asset_sub (ref_chain eosio_account auths now)"
  "asset_neg (ref_sys auths now) = asset_neg (ref_chain eosio_account auths now)"
  "asset_le (ref_sys auths now) = asset_le (ref_chain eosio_account auths now)"
  "asset_valid (ref_sys auths now) = asset_valid (ref_chain eosio_account auths now)"
  "to_time_point_sec (ref_sys auths now) = to_time_point_sec (ref_chain eosio_account auths now)"
  "to_block_timestamp (ref_sys auths now) = to_block_timestamp (ref_chain eosio_account auths now)"
  by (simp_all add: ref_sys_def ref_chain_def chain.defs sys_chain.defs)

lemma ref_sys_good: "set auths \<inter> held_accounts = {} \<Longrightarrow> good_ctx (ref_sys auths now)"
  by (auto simp: good_ctx_def ref_sys_ops)

definition ex_now :: uint64 where "ex_now = 1600000000000000"

definition ex_genesis :: sys_state where
  "ex_genesis = genesis \<lparr>max_authority_depth = 6, other_parameters = []\<rparr> (\<lambda>_. (0, 0, 0)) empty_token_state"

definition ex_launch :: "event list" where
  "ex_launch =
     [Tok (ref_chain token_account [token_account] ex_now) (Create eosio_account (ast 100000000000000 ex_sy)),
      Tok (ref_chain token_account [eosio_account] ex_now) (Issue ex_alice (ast 1000000000 ex_sy) ''''),
      Sys (ref_sys [eosio_account] ex_now) (Init 0 ex_sy)]"

definition ex_tokens :: token_state where
  "ex_tokens =
     \<lparr>accounts = fmupd (rex_account, 5459781) \<lparr>balance = ast 0 ex_sy\<rparr>
        (fmupd (ex_alice, 5459781) \<lparr>balance = ast 1000000000 ex_sy\<rparr>
        (fmupd (eosio_account, 5459781) \<lparr>balance = ast 0 ex_sy\<rparr> fmempty)),
      stats = fmupd 5459781 \<lparr>cur_supply = ast 1000000000 ex_sy, max_supply = ast 100000000000000 ex_sy, issuer = eosio_account\<rparr> fmempty,
      inlines = [], notified = [eosio_account, ex_alice]\<rparr>"

definition ex_market :: exchange_state where
  "ex_market = \<lparr>ex_supply = ast 100000000000000 ramcore_symbol,
     base = \<lparr>c_balance = ast 68719476736 ram_symbol, c_weight = Fin (1 / 2)\<rparr>,
     quote = \<lparr>c_balance = ast 1000000 ex_sy, c_weight = Fin (1 / 2)\<rparr>\<rparr>"

definition ex_open :: sys_state where
  "ex_open = ex_genesis\<lparr>rammarket := Some ex_market, tokens := ex_tokens\<rparr>"

lemmas ex_eval = exec_token_def create_def issue_def transfer_def open_row_def sub_balance_def add_balance_def
  ref_chain_def ex_sy_def with_auth_def token_ctx_def max_amount_def require_auth_def Let_def fmupd_reorder_neq
  account_defs exec_sys_def ramcore_symbol_def ram_symbol_def ex_now_def

lemma ex_launch_run: "run_all world_step ex_launch ex_genesis = Inr ex_open"
  by (simp add: ex_launch_def ex_open_def ex_tokens_def ex_market_def ex_genesis_def genesis_def empty_token_state_def
      ex_eval init_def get_supply_def free_ram_def i64_def u64_def)

text \<open>An account stakes.\<close>

definition ex_stake :: event where
  "ex_stake = Sys (ref_sys [ex_alice] ex_now)
     (DelegateBw ex_alice ex_alice (ast 100000 ex_sy) (ast 50000 ex_sy) False)"

definition ex_staked :: sys_state where
  "ex_staked = ex_open\<lparr>
     voters := fmupd ex_alice (default_voter\<lparr>staked := 150000\<rparr>) fmempty,
     userres := fmupd ex_alice \<lparr>net_weight = ast 100000 ex_sy, cpu_weight = ast 50000 ex_sy, ram_bytes = 0\<rparr> fmempty,
     delband := fmupd (ex_alice, ex_alice) \<lparr>dbw_net = ast 100000 ex_sy, dbw_cpu = ast 50000 ex_sy\<rparr> fmempty,
     res_limits := (\<lambda>_. (0, 0, 0))(ex_alice := (1400, 100000, 50000)),
     tokens := ex_tokens\<lparr>accounts := fmupd (stake_account, 5459781) \<lparr>balance = ast 150000 ex_sy\<rparr>
         (fmupd (ex_alice, 5459781) \<lparr>balance = ast 999850000 ex_sy\<rparr> (accounts ex_tokens)),
       notified := [eosio_account, ex_alice, ex_alice, stake_account]\<rparr>\<rparr>"

lemmas ex_stake_eval = i64_def u64_def delegatebw_def core_asset_def with_core_def changebw_def update_delband_def
  update_totals_def store_totals_def refresh_limits_def managed_def set_limits_def dbw_empty_def res_empty_def
  stake_or_refund_def update_refund_def update_rex_stake_def update_voting_power_def default_voter_def set_voter_def
  ram_gift_bytes_def

lemma ex_stake_run: "run_all world_step (ex_launch @ [ex_stake]) ex_genesis = Inr ex_staked"
proof -
  have "world_step ex_stake ex_open = Inr ex_staked"
    by (simp add: ex_stake_def ex_open_def ex_tokens_def ex_market_def ex_genesis_def genesis_def ex_eval ex_stake_eval
        ex_staked_def fmupd_idem)
  then show ?thesis by (simp add: run_all_append ex_launch_run)
qed

lemma ex_run_good: "e \<in> set (ex_launch @ [ex_stake]) \<Longrightarrow> good_event ex_sy e"
  by (auto simp: ex_launch_def ex_stake_def held_accounts_def account_defs intro!: ref_sys_good)

lemma genesis_sel [simp]:
  "rammarket (genesis p l t) = None" "delband (genesis p l t) = fmempty" "refunds (genesis p l t) = fmempty"
  "outbox (genesis p l t) = []" "tokens (genesis p l t) = t" "userres (genesis p l t) = fmempty"
  "total_ram_stake (gstate (genesis p l t)) = 0" "total_ram_bytes_reserved (gstate (genesis p l t)) = 0"
  "total_unpaid_blocks (gstate (genesis p l t)) = 0" "producers (genesis p l t) = fmempty"
  "rexpool (genesis p l t) = None" "rexfunds (genesis p l t) = fmempty" "rexbalance (genesis p l t) = fmempty"
  "rexorders (genesis p l t) = fmempty" "cpu_loans (genesis p l t) = fmempty" "net_loans (genesis p l t) = fmempty"
  "namebids (genesis p l t) = fmempty" "bidrefunds (genesis p l t) = fmempty" "voters (genesis p l t) = fmempty"
  by (simp_all add: genesis_def)

end
