(* ===== verification/PayLedger.thy ===== *)
theory PayLedger
  imports Market
begin

text \<open>
  Producer pay: the count of unpaid blocks, the split of inflation, and what a claim pays.
\<close>

section \<open>Unpaid blocks\<close>

lemma u32_add [simp]: "u32 (u32 x + y) = u32 (x + y)" "u32 (x + u32 y) = u32 (x + y)"
  by (simp_all add: u32_def mod_simps)

lemma u32_diff [simp]: "u32 (u32 x - y) = u32 (x - y)" "u32 (x - u32 y) = u32 (x - y)"
  by (simp_all add: u32_def mod_simps)

lemma u32_u32 [simp]: "u32 (u32 x) = u32 x"
  by (simp add: u32_def)

definition blocks_counted :: "sys_state \<Rightarrow> bool" where
  "blocks_counted s \<longleftrightarrow> total_unpaid_blocks (gstate s) = u32 (unpaid_sum s)"

lemma blocks_counted_same: "same Paying s s' \<Longrightarrow> blocks_counted s' = blocks_counted s"
  by (simp add: blocks_counted_def)

lemma blocks_counted_count: "blocks_counted s \<Longrightarrow> blocks_counted (count_block c n s)"
proof (cases "fmlookup (producers s) n")
  case (Some p)
  assume "blocks_counted s"
  then have t: "total_unpaid_blocks (gstate s) = u32 (unpaid_sum s)" by (simp add: blocks_counted_def)
  have "unpaid_sum (count_block c n s) = unpaid_sum s - unpaid_blocks p + u32 (unpaid_blocks p + 1)"
    by (simp add: count_block_def Some unpaid_sum_def fmsum_upd)
  then have "u32 (unpaid_sum (count_block c n s)) = u32 (unpaid_sum s + 1)" by simp
  then show ?thesis by (simp add: blocks_counted_def) (simp add: count_block_def Some t)
qed (simp add: count_block_def)

lemma blocks_counted_onblock:
  assumes "onblock c t n s = Inr s'" "blocks_counted s" shows "blocks_counted s'"
  using assms(1)
proof (cases rule: onblock_parts)
  case (1 s1 s2 s3)
  have i1: "blocks_counted s1" using assms(2) by (simp add: 1(2) blocks_counted_def unpaid_sum_def)
  have "blocks_counted s2" using 1(4) assms(2) by (auto simp: 1(2) blocks_counted_def unpaid_sum_def)
  then have i3: "blocks_counted s3" unfolding 1(5) by (rule blocks_counted_count)
  have e: "same Paying x (update_elected_producers c t x)" for x
    by (rule footprintD(1) [OF footprint_elected [of "{}" "{}"]]) simp
  have c: "same Paying x (close_highest_bid c t x)" for x
    by (rule footprintD(1) [OF footprint_close [of "{}"]]) simp
  show ?thesis using 1(6) i1 i3 blocks_counted_same [OF e] blocks_counted_same [OF c] by blast
qed

lemma producers_fill: "fill_buckets c q s = Inr s' \<Longrightarrow> producers s' = producers s"
  by (erule fill_buckets_parts) simp_all

lemma producers_claim_share: "claim_share c n p s = (u, v, s') \<Longrightarrow> producers s' = producers s \<and> gstate s' = gstate s \<and> outbox s' = outbox s"
  by (auto simp: claim_share_def Let_def split: option.splits prod.splits)

lemma total_share_keeps [simp]:
  "producers (snd (update_total_votepay_share ct a r s)) = producers s"
  "gstate (snd (update_total_votepay_share ct a r s)) = gstate s"
  "outbox (snd (update_total_votepay_share ct a r s)) = outbox s"
  by (simp_all add: update_total_votepay_share_def Let_def)

lemma producers_vote_pay:
  "vote_pay c b v p s = Inr (pay, s') \<Longrightarrow> producers s' = producers s \<and> gstate s' = gstate s \<and> outbox s' = outbox s"
  by (erule vote_pay_parts) auto

lemma settle_claim_sel:
  "producers (settle_claim c n p u v x y s) = fmupd n (p\<lparr>last_claim_time := now_tp c, unpaid_blocks := 0\<rparr>) (producers s)"
  "gstate (settle_claim c n p u v x y s) = (gstate s)\<lparr>pervote_bucket := i64 (pervote_bucket (gstate s) - y),
     perblock_bucket := i64 (perblock_bucket (gstate s) - x),
     total_unpaid_blocks := u32 (total_unpaid_blocks (gstate s) - unpaid_blocks p)\<rparr>"
  "outbox (settle_claim c n p u v x y s) = outbox s"
  by (simp_all add: settle_claim_def Let_def)

lemma pay_producer_sel:
  assumes "pay_producer c b n x memo s = Inr s'"
  shows "producers s' = producers s" "gstate s' = gstate s" "core_sym s' = core_sym s"
  using assms by (auto elim!: pay_producer_parts simp: send_transfer_def core_sym_def)

text \<open>What a claim does to the tables, all in one.\<close>

lemma claimrewards_tables:
  assumes "claimrewards c n s = Inr s'"
  obtains p s1 q pay where "fmlookup (producers s) n = Some p" "fill_buckets c q s = Inr s1"
    "producers s' = fmupd n (p\<lparr>last_claim_time := now_tp c, unpaid_blocks := 0\<rparr>) (producers s)"
    "gstate s' = (gstate s1)\<lparr>pervote_bucket := i64 (pervote_bucket (gstate s1) - pay),
       perblock_bucket := i64 (perblock_bucket (gstate s1) - block_pay (gstate s1) p),
       total_unpaid_blocks := u32 (total_unpaid_blocks (gstate s1) - unpaid_blocks p)\<rparr>"
  using assms
proof (cases rule: claimrewards_parts)
  case (1 p sy q s1 upd share s2 pay s3 s4)
  note sel = producers_fill [OF 1(8)] producers_claim_share [OF 1(9)] producers_vote_pay [OF 1(10)]
    pay_producer_sel(1,2) [OF 1(11)] pay_producer_sel(1,2) [OF 1(12)] settle_claim_sel
  show ?thesis by (rule that [OF 1(2,8)]) (simp_all add: sel)
qed

lemma unpaid_fill: "fill_buckets c q s = Inr s' \<Longrightarrow> total_unpaid_blocks (gstate s') = total_unpaid_blocks (gstate s)"
  by (erule fill_buckets_parts) simp_all

lemma blocks_counted_claim:
  assumes "claimrewards c n s = Inr s'" "blocks_counted s" shows "blocks_counted s'"
  using assms(1)
proof (cases rule: claimrewards_tables)
  case (1 p s1 q pay)
  have "unpaid_sum s' = unpaid_sum s - unpaid_blocks p"
    by (simp add: unpaid_sum_def 1(3) fmsum_upd 1(1))
  moreover have "total_unpaid_blocks (gstate s') = u32 (total_unpaid_blocks (gstate s) - unpaid_blocks p)"
    using unpaid_fill [OF 1(2)] by (simp add: 1(4))
  ultimately show ?thesis using assms(2) by (simp add: blocks_counted_def)
qed

lemma paying_touched: "Paying \<in> touches a \<Longrightarrow> (\<exists>t n. a = OnBlock t n) \<or> (\<exists>n. a = ClaimRewards n)"
  by (cases a) simp_all

interpretation unpaid_blocks_counted: steady core blocks_counted for core
proof unfold_locales
  fix c a s s' assume i: "blocks_counted s" and u: "apply_sys c a s = Inr s'"
  show "blocks_counted s'"
  proof (cases "Paying \<in> touches a")
    case True
    then show ?thesis using paying_touched [OF True] u i
      by (auto intro: blocks_counted_onblock blocks_counted_claim)
  next
    case False
    then show ?thesis using blocks_counted_same footprintD(1) [OF action_footprint [OF u]] i by blast
  qed
qed (simp_all add: blocks_counted_def unpaid_sum_def)

section \<open>Inflation\<close>

lemma inflation_nonneg: "inflation sply us = Inr n \<Longrightarrow> 0 \<le> sply \<Longrightarrow> 0 \<le> us \<Longrightarrow> 0 \<le> n \<and> in_i64 n"
  unfolding inflation_def
  by (intro conjI; (erule to_int64_in_range)?; (erule to_int64_nonneg)?)
    (simp_all add: continuous_rate_def useconds_per_year_def dge0_mk)

lemma split_parts:
  assumes "0 \<le> n" "in_i64 n"
  shows "n sdiv 5 = n div 5" "n sdiv 5 sdiv 4 = n div 20" "i64 (n - n sdiv 5) = n - n div 5"
    "i64 (n sdiv 5 - n sdiv 5 sdiv 4) = n div 5 - n div 20"
proof -
  have q: "n sdiv 5 = n div 5" "n sdiv 5 sdiv 4 = n div 20" "0 \<le> n div 20" "n div 20 \<le> n div 5" "n div 5 \<le> n"
    using assms(1) by (simp_all add: div_mult2_eq [symmetric] zdiv_zmult2_eq [symmetric] zdiv_mono2)
  then show "n sdiv 5 = n div 5" "n sdiv 5 sdiv 4 = n div 20" "i64 (n - n sdiv 5) = n - n div 5"
    "i64 (n sdiv 5 - n sdiv 5 sdiv 4) = n div 5 - n div 20"
    using assms by (auto intro!: i64_id simp: in_i64_def)
qed

section \<open>Pay per block\<close>

lemma sum_div_le: "finite A \<Longrightarrow> 0 < (t::int) \<Longrightarrow> (\<Sum>i\<in>A. f i div t) \<le> (\<Sum>i\<in>A. f i) div t"
proof (induction A rule: finite_induct)
  case (insert x A)
  have "0 \<le> (f x mod t + (\<Sum>i\<in>A. f i) mod t) div t"
    using insert.prems by (simp add: pos_imp_zdiv_nonneg_iff)
  then have "f x div t + (\<Sum>i\<in>A. f i) div t \<le> (f x + (\<Sum>i\<in>A. f i)) div t"
    using div_add1_eq [of "f x" "\<Sum>i\<in>A. f i" t] by linarith
  with insert show ?case by simp
qed simp

lemma block_pay_eq:
  assumes "0 \<le> perblock_bucket g" "0 \<le> unpaid_blocks p" "perblock_bucket g * unpaid_blocks p < 2 ^ 63"
    and "0 < total_unpaid_blocks g"
  shows "block_pay g p = perblock_bucket g * unpaid_blocks p div total_unpaid_blocks g"
proof -
  have "i64 (perblock_bucket g * unpaid_blocks p) = perblock_bucket g * unpaid_blocks p"
    using mult_nonneg_nonneg [OF assms(1,2)] assms(3) by (intro i64_id) (simp add: in_i64_def)
  then show ?thesis using assms by (simp add: block_pay_def)
qed

lemma block_pay_all:
  assumes b: "0 \<le> perblock_bucket (gstate s)" "perblock_bucket (gstate s) * unpaid_sum s < 2 ^ 63" "unpaid_sum s < 2 ^ 32"
    and c: "blocks_counted s" and u: "\<And>n p. fmlookup (producers s) n = Some p \<Longrightarrow> 0 \<le> unpaid_blocks p"
  shows "fmsum (\<lambda>_. block_pay (gstate s)) (producers s) \<le> perblock_bucket (gstate s)"
proof (cases "0 < total_unpaid_blocks (gstate s)")
  case False
  then show ?thesis using b(1) by (simp add: block_pay_def fmsum_def)
next
  case True
  let ?b = "perblock_bucket (gstate s)" and ?t = "total_unpaid_blocks (gstate s)"
  have "0 \<le> unpaid_sum s" unfolding unpaid_sum_def by (rule fmsum_nonneg) (rule u)
  then have t: "?t = unpaid_sum s" using b(3) c by (simp add: blocks_counted_def u32_id)
  have "block_pay (gstate s) p = ?b * unpaid_blocks p div ?t" if p: "fmlookup (producers s) n = Some p" for n p
  proof -
    have "unpaid_blocks p \<le> unpaid_sum s"
      unfolding unpaid_sum_def by (rule fmsum_row_le [OF p]) (rule u)
    then have "?b * unpaid_blocks p \<le> ?b * unpaid_sum s" using b(1) by (rule mult_left_mono)
    then show ?thesis using block_pay_eq [OF b(1) u [OF p] _ True] b(2) by simp
  qed
  then have "fmsum (\<lambda>_. block_pay (gstate s)) (producers s) = fmsum (\<lambda>_ p. ?b * unpaid_blocks p div ?t) (producers s)"
    by (intro fmsum_cong) simp
  also have "\<dots> \<le> (\<Sum>n\<in>fmdom' (producers s). ?b * unpaid_blocks (the (fmlookup (producers s) n))) div ?t"
    unfolding fmsum_def by (rule sum_div_le) (use True in simp_all)
  also have "(\<Sum>n\<in>fmdom' (producers s). ?b * unpaid_blocks (the (fmlookup (producers s) n))) = ?b * ?t"
    unfolding t unpaid_sum_def fmsum_def by (rule sum_distrib_left [symmetric])
  finally show ?thesis using True by simp
qed

end
