(* ===== verification/Safety.thy ===== *)
theory Safety
  imports Example PayLedger
begin

text \<open>
  What holds over every run of the chain: solvency of the contract's accounts, and conservation
  of RAM and of the producers' unpaid blocks.
\<close>

text \<open>The symbols a chain can have as its core symbol.\<close>

definition core_ok :: "symbol \<Rightarrow> bool" where
  "core_ok core \<longleftrightarrow> core \<noteq> ram_symbol \<and> core \<noteq> ramcore_symbol"

lemma genesis_market [simp]: "core_ok core \<Longrightarrow> market_ok core (genesis p l t)"
  by (simp add: core_ok_def market_ok_def)

lemma genesis_covers:
  assumes "ledger_inv t" "owed (genesis p l t) = 0" shows "covers core acct owed (genesis p l t)"
  using assms bal_nonneg by (simp add: covers_def)

lemma ex_core_ok [simp]: "core_ok ex_sy"
  by (simp add: core_ok_def ex_sy_def ram_symbol_def ramcore_symbol_def)

text \<open>
  C10: Staked tokens are always there: over any run of the chain from its launch, with actions of
  the system contract and of the token contract interleaved in any order, the balance of the
  staking account covers all delegations plus all pending refunds, whoever holds them.
\<close>

theorem stakes_are_covered:
  assumes "core_ok core" "ledger_inv t" "\<forall>e\<in>set es. good_event core e"
    and "run_all world_step es (genesis params lims t) = Inr s"
  shows "fmsum stake_of (delband s) + fmsum refund_of (refunds s) \<le> bal (sym_code core) (tokens s) stake_account"
proof -
  have "(market_ok core s \<and> stakes_ok s) \<and> covers core stake_account stake_owed s \<and> outbox s = []"
    by (rule stakes.chain.run_inv [OF _ _ assms(4)])
      (use assms in \<open>auto simp: stakes_ok_def intro!: genesis_covers, simp add: stake_owed_def\<close>)
  then show ?thesis by (simp add: covers_def stake_owed_def)
qed

theorem stakes_are_covered_witness:
  "fmsum stake_of (delband ex_staked) + fmsum refund_of (refunds ex_staked)
     \<le> bal 5459781 (tokens ex_staked) stake_account \<and> fmsum stake_of (delband ex_staked) = 150000"
  using stakes_are_covered [OF ex_core_ok ledger_inv_empty _ ex_stake_run [unfolded ex_genesis_def]] ex_run_good
  by (auto simp: ex_staked_def fmsum_upd stake_of_def ex_sy_def)

text \<open>
  C11: The RAM account always holds the tokens staked for RAM, over any run: what selling RAM pays
  out can be paid, whatever was bought, sold or added to the supply in between.
\<close>

theorem ram_tokens_are_covered:
  assumes "core_ok core" "ledger_inv t" "\<forall>e\<in>set es. good_event core e"
    and "run_all world_step es (genesis params lims t) = Inr s"
  shows "0 \<le> total_ram_stake (gstate s) \<and> total_ram_stake (gstate s) \<le> bal (sym_code core) (tokens s) ram_account"
proof -
  have "(market_ok core s \<and> 0 \<le> ram_owed s) \<and> covers core ram_account ram_owed s \<and> outbox s = []"
    by (rule ram_tokens.chain.run_inv [OF _ _ assms(4)])
      (use assms in \<open>auto simp: ram_owed_def intro!: genesis_covers\<close>)
  then show ?thesis by (simp add: covers_def ram_owed_def)
qed

theorem ram_tokens_are_covered_witness:
  "0 \<le> total_ram_stake (gstate ex_staked) \<and> rammarket ex_staked = Some ex_market"
  using ram_tokens_are_covered [OF ex_core_ok ledger_inv_empty _ ex_stake_run [unfolded ex_genesis_def]] ex_run_good
  by (auto simp: ex_staked_def ex_open_def)

text \<open>
  C12: RAM is neither created nor lost: over any run, the bytes the market holds and the bytes the
  accounts own add up to the size of the RAM supply (in the 64-bit arithmetic of the code),
  whatever is bought and sold and however the supply grows.
\<close>

theorem ram_is_conserved:
  assumes "core_ok core" "\<forall>e\<in>set es. good_event core e"
    and "run_all world_step es (genesis params lims t) = Inr s" "rammarket s = Some m"
  shows "u64 (amount (c_balance (base m)) + fmsum (\<lambda>_ r. ram_bytes r) (userres s)) = u64 (max_ram_size (gstate s))"
proof -
  have "market_ok core s \<and> ram_conserved s"
    by (rule ram_bytes_kept.world.run_inv [OF _ _ assms(3)])
      (use assms(1,2) in \<open>auto simp: ram_conserved_def ram_sum_def\<close>)
  then have h: "u64 (amount (c_balance (base m)) + total_ram_bytes_reserved (gstate s)) = u64 (max_ram_size (gstate s))"
    "u64 (ram_sum s) = u64 (total_ram_bytes_reserved (gstate s))" using assms(4) by (auto simp: ram_conserved_def)
  show ?thesis using u64_cong [OF refl h(2)] h(1) by (simp add: ram_sum_def)
qed

theorem ram_is_conserved_witness:
  "u64 (amount (c_balance (base ex_market)) + fmsum (\<lambda>_ r. ram_bytes r) (userres ex_staked)) = 68719476736"
  using ram_is_conserved [OF ex_core_ok _ ex_stake_run [unfolded ex_genesis_def], of ex_market] ex_run_good
  by (auto simp: ex_staked_def ex_open_def ex_genesis_def genesis_def u64_def)

text \<open>A purchase of RAM that doubles the core side of the market takes half of the RAM side.\<close>

lemma ex_halves: "mk (1 / 2) = Fin (1 / 2)" "mk (3 / 2) = Fin (3 / 2)" "mk (- (1 / 2)) = Fin (- (1 / 2))"
  using rnd_repr [of "1" "-1"] rnd_repr [of "3" "-1"] rnd_repr [of "-1" "-1"] by (simp_all add: mk_def power_int_def)

lemma ex_wholes: "mk 2 = Fin 2" "mk 50000000000000 = Fin 50000000000000" "mk 34359738368 = Fin 34359738368"
  using to_double_exact [of 2] to_double_exact [of 50000000000000] to_double_exact [of 34359738368]
  by (simp_all add: to_double_def)

lemma ex_convert:
  "convert (ref_sys [] 0) ex_market (ast 1000000 ex_sy) ram_symbol = Inr (ast 34359738368 ram_symbol,
     ex_market\<lparr>base := \<lparr>c_balance = ast 34359738368 ram_symbol, c_weight = Fin (1 / 2)\<rparr>,
       quote := \<lparr>c_balance = ast 2000000 ex_sy, c_weight = Fin (1 / 2)\<rparr>\<rparr>)"
  by (simp add: convert_def numeral_2_eq_2 convert_step_def ex_market_def ex_sy_def ram_symbol_def
      ramcore_symbol_def convert_to_exchange_def convert_from_exchange_def to_double_exact i64_def dsub_def
      ex_halves ex_wholes ref_chain_def trunc_rat_def in_i64_def check_def max_amount_def)

text \<open>
  C13: The recursion of \<open>convert\<close> always ends, after at most two turns: on a market whose three symbols
  differ, whatever the input and the symbol asked for, it returns an amount of that symbol or
  fails with the error of its first or second turn (it does not run out of the fuel of two turns), and
  more fuel changes nothing.
\<close>

theorem conversion_takes_two_turns:
  assumes "asset_ops_ok c" "three_symbols m" "2 \<le> n"
  shows "convert_n n c m q sy = convert c m q sy
    \<and> (case convert c m q sy of Inr (out, m') \<Rightarrow> symb out = sy
      | Inl e \<Rightarrow> convert_step c m q sy = Inl e
          \<or> (\<exists>mid m1. convert_step c m q sy = Inr (mid, m1) \<and> symb mid \<noteq> sy \<and> convert_step c m1 mid sy = Inl e))"
  using convert_stable [OF assms(1,2), of "n - 2"] convert_ends [OF assms(1,2)] assms(3)
  by (metis le_add_diff_inverse2)

theorem conversion_takes_two_turns_witness:
  "map_sum id fst (convert_n 7 (ref_sys [] 0) ex_market (ast 1000000 ex_sy) ram_symbol) = Inr (ast 34359738368 ram_symbol)
    \<and> symb (ast 34359738368 ram_symbol) = ram_symbol"
proof -
  have "three_symbols ex_market"
    by (simp add: three_symbols_def ex_market_def ex_sy_def ram_symbol_def ramcore_symbol_def)
  from conversion_takes_two_turns [OF ref_sys_ops(1) this, of 7 "[]" 0 "ast 1000000 ex_sy" ram_symbol]
  show ?thesis by (simp add: ex_convert)
qed

text \<open>
  C14: Every block produced and not yet paid is counted once: over any run, the global count of
  unpaid blocks is the sum of the producers' counts (in the 32-bit arithmetic of the code).
\<close>

theorem unpaid_blocks_add_up:
  assumes "\<forall>e\<in>set es. good_event core e" and "run_all world_step es (genesis params lims t) = Inr s"
  shows "total_unpaid_blocks (gstate s) = u32 (fmsum (\<lambda>_ p. unpaid_blocks p) (producers s))"
proof -
  have "blocks_counted s"
    by (rule unpaid_blocks_counted.world.run_inv [OF _ _ assms(2)])
      (use assms(1) in \<open>auto simp: blocks_counted_def unpaid_sum_def u32_def\<close>)
  then show ?thesis by (simp add: blocks_counted_def unpaid_sum_def)
qed

theorem unpaid_blocks_add_up_witness:
  "total_unpaid_blocks (gstate ex_staked) = u32 (fmsum (\<lambda>_ p. unpaid_blocks p) (producers ex_staked))"
  using unpaid_blocks_add_up [OF _ ex_stake_run [unfolded ex_genesis_def]] ex_run_good by auto

text \<open>
  C15: Only those who sign pay: an account that loses tokens in a step of the chain has signed it,
  or is the system contract itself, or is one of the contract's own accounts named by
  \<open>held_senders\<close> for that action (for \<open>refund\<close> the staking account, for \<open>withdraw\<close> the REX
  account, and so on).
\<close>

theorem spending_is_authorised:
  assumes "case e of Sys c a \<Rightarrow> asset_ops_ok c | Tok c a \<Rightarrow> asset_ops_ok c"
    and "ledger_inv (tokens s)" "world_step e s = Inr s'" "bal code (tokens s') n < bal code (tokens s) n"
  shows "case e of Sys c a \<Rightarrow> has_auth c n \<or> n = self c \<or> n \<in> held_senders a | Tok c a \<Rightarrow> has_auth c n"
proof (cases e)
  case (Sys c a)
  with assms(3) obtain s1 t where s1: "apply_sys c a (s\<lparr>outbox := []\<rparr>) = Inr s1"
    and t: "run_outbox c (outbox s1) (tokens s1) = Inr t" and s': "s' = s1\<lparr>outbox := [], tokens := t\<rparr>"
    by (auto simp: exec_sys_def res_simps)
  have ok: "asset_ops_ok c" using assms(1) Sys by simp
  have p: "all_plain (outbox s1)" "tokens s1 = tokens s" using action_plain [OF _ s1] by auto
  have "bal code t n = bal code (tokens s) n + flows code n (outbox s1)" "all_sent (outbox s1)"
    using run_outbox_flows [OF ok p(1) t, of code n] p(2) by auto
  then have "n \<in> senders (outbox s1)" using flows_nonneg [of "outbox s1" n code] assms(4) s' by force
  moreover obtain l where "outbox s1 = l" "senders l \<subseteq> spenders c a"
    using footprintD(3) [OF action_footprint [OF s1]] by (auto elim: sendsD)
  ultimately show ?thesis using Sys by (auto simp: spenders_def)
next
  case (Tok c a)
  with assms obtain t where "exec_token c a (tokens s) = Inr t" "tokens s' = t" by (auto simp: res_simps)
  then show ?thesis using drop_needs_auth [of c a "tokens s" t code n] assms(1,2,4) Tok by auto
qed

theorem spending_is_authorised_witness:
  "bal 5459781 (tokens ex_staked) ex_alice < bal 5459781 (tokens ex_open) ex_alice
     \<and> (case ex_stake of Sys c a \<Rightarrow> has_auth c ex_alice \<or> ex_alice = self c \<or> ex_alice \<in> held_senders a | Tok c a \<Rightarrow> False)"
proof -
  have s: "world_step ex_stake ex_open = Inr ex_staked"
    using ex_stake_run by (simp add: run_all_append ex_launch_run bindr_Inr)
  have i: "ledger_inv (tokens ex_open)"
  proof -
    have "(market_ok ex_sy ex_open \<and> stakes_ok ex_open) \<and> covers ex_sy stake_account stake_owed ex_open \<and> outbox ex_open = []"
      by (rule stakes.chain.run_inv [OF _ _ ex_launch_run [unfolded ex_genesis_def]])
        (use ex_run_good in \<open>auto simp: stakes_ok_def stake_owed_def intro!: genesis_covers ledger_inv_empty\<close>)
    then show ?thesis by (simp add: covers_def)
  qed
  have b: "bal 5459781 (tokens ex_staked) ex_alice < bal 5459781 (tokens ex_open) ex_alice"
    by (simp add: bal_unfold ex_staked_def ex_open_def ex_tokens_def stake_account_def rex_account_def)
  have c: "case ex_stake of Sys c a \<Rightarrow> asset_ops_ok c | Tok c a \<Rightarrow> asset_ops_ok c"
    by (simp add: ex_stake_def ref_sys_ops)
  show ?thesis using spending_is_authorised [OF c i s b] b by (auto simp: ex_stake_def)
qed

end
