(* ===== verification/ProxyGraph.thy ===== *)
theory ProxyGraph
  imports Footprint
begin

text \<open>
  The pointers from voters to proxies never form a cycle, and a registered proxy points to nobody,
  over any run of the chain. So the recursion that propagates a changed vote weight visits every
  voter at most once: the fuel of \<open>propagate\<close>, one more than the number of voters, is never used up.
\<close>

definition ptr :: "(name, name \<times> bool) fmap \<Rightarrow> (name \<times> name) set" where
  "ptr m = {(n, p). p \<noteq> 0 \<and> (\<exists>b. fmlookup m n = Some (p, b))}"

definition proxies_ok :: "sys_state \<Rightarrow> bool" where
  "proxies_ok s \<longleftrightarrow> acyclic (ptr (pmap s)) \<and> (\<forall>n p. fmlookup (pmap s) n = Some (p, True) \<longrightarrow> p = 0)"

section \<open>The invariant\<close>

lemma ptr_upd_none: "ptr (fmupd n (0, b) m) \<subseteq> ptr m"
  by (auto simp: ptr_def split: if_splits)

lemma ptr_upd: "ptr (fmupd n (p, b) m) \<subseteq> insert (n, p) (ptr m)"
  by (auto simp: ptr_def split: if_splits)

lemma ptr_same:
  assumes "same_proxies s s'" shows "ptr (pmap s') = ptr (pmap s)"
proof -
  have "(n, p) \<in> ptr (pmap s') \<longleftrightarrow> (n, p) \<in> ptr (pmap s)" for n p
    using assms [unfolded same_proxies_def, THEN spec, of n] unfolding ptr_def by (elim disjE) auto
  then show ?thesis by auto
qed

lemma proxies_ok_same:
  assumes "same_proxies s s'" "proxies_ok s" shows "proxies_ok s'"
proof -
  have "p = 0" if "fmlookup (pmap s') n = Some (p, True)" for n p
    using assms that unfolding same_proxies_def proxies_ok_def by (metis option.inject prod.inject)
  then show ?thesis using assms(2) ptr_same [OF assms(1)] by (simp add: proxies_ok_def)
qed

lemma proxies_ok_vote:
  assumes "update_votes c n p ps True s = Inr s'" "proxies_ok s" shows "proxies_ok s'"
proof (rule pmap_update_votes [OF assms(1)])
  fix b q
  assume n: "fmlookup (pmap s) n = Some (q, b)" and s': "pmap s' = fmupd n (p, b) (pmap s)"
    and b: "p = 0 \<or> \<not> b" and p: "p \<noteq> 0 \<Longrightarrow> n \<noteq> p \<and> (True \<longrightarrow> (\<exists>r. fmlookup (pmap s) p = Some (r, True)))"
  have "acyclic (ptr (pmap s'))"
  proof (cases "p = 0")
    case True
    then have "ptr (pmap s') \<subseteq> ptr (pmap s)" using ptr_upd_none s' by simp
    then show ?thesis using assms(2) by (auto simp: proxies_ok_def intro: acyclic_subset)
  next
    case False
    have "(p, n) \<notin> (ptr (pmap s))\<^sup>*"
    proof
      assume "(p, n) \<in> (ptr (pmap s))\<^sup>*"
      then obtain y where "(p, y) \<in> ptr (pmap s)" using p [OF False] by (auto elim: converse_rtranclE)
      then show False using p [OF False] assms(2) by (auto simp: ptr_def proxies_ok_def)
    qed
    then have "acyclic (insert (n, p) (ptr (pmap s)))" using assms(2) by (simp add: acyclic_insert proxies_ok_def)
    then show ?thesis unfolding s' by (rule acyclic_subset) (rule ptr_upd)
  qed
  then show ?thesis using assms(2) b s' by (auto simp: proxies_ok_def)
qed

lemma proxies_ok_voteproducer:
  assumes "voteproducer c n p ps s = Inr s'" "proxies_ok s" shows "proxies_ok s'"
proof -
  from assms(1) obtain s1 where "update_rex_stake c n s = Inr s1" "update_votes c n p ps True s1 = Inr s'"
    by (auto simp: voteproducer_def res_simps split: option.splits if_splits)
  then show ?thesis
    using proxies_ok_vote proxies_ok_same [OF same_proxies_eq [OF pmap_update_rex_stake]] assms(2) by blast
qed

lemma proxies_ok_regproxy:
  assumes "regproxy c n b s = Inr s'" "proxies_ok s" shows "proxies_ok s'"
proof (cases "fmlookup (voters s) n")
  case None
  with assms(1) have "pmap s' = fmupd n (0, b) (pmap s)"
    by (auto simp: regproxy_def pmap_set_voter pview_def default_voter_def)
  then show ?thesis
    using assms(2) acyclic_subset [OF _ ptr_upd_none] by (auto simp: proxies_ok_def)
next
  case (Some v)
  with assms(1) have v: "\<not> b \<or> v_proxy v = 0"
    and s': "propagate_weight_change c n (set_voter n (v\<lparr>is_proxy := b\<rparr>) s) = Inr s'"
    by (auto simp: regproxy_def)
  have p: "pmap s' = fmupd n (v_proxy v, b) (pmap s)"
    using pmap_propagate_weight [OF s'] by (simp add: pmap_set_voter pview_def)
  have "ptr (pmap s') = ptr (pmap s)"
    using pmap_lookup [OF Some] unfolding p ptr_def by (auto simp: pview_def split: if_splits)
  then show ?thesis using assms(2) v by (auto simp: proxies_ok_def p)
qed

lemma action_proxies_ok:
  assumes "apply_sys c a s = Inr s'" "proxies_ok s" shows "proxies_ok s'"
proof (cases "Proxying \<in> touches a")
  case False
  then have "same Proxying s s'" by (rule footprintD(1) [OF action_footprint [OF assms(1)]])
  then show ?thesis using proxies_ok_same assms(2) by simp
next
  case True
  then show ?thesis
    using assms by (cases a) (auto intro: proxies_ok_voteproducer proxies_ok_regproxy)
qed

lemma proxies_ok_effects [simp]:
  "proxies_ok (s\<lparr>outbox := l\<rparr>) = proxies_ok s" "proxies_ok (s\<lparr>tokens := t\<rparr>) = proxies_ok s"
  by (simp_all add: proxies_ok_def pmap_def)

interpretation proxy_pointers: steady core proxies_ok for core
  by unfold_locales (simp, simp, rule action_proxies_ok)

section \<open>The fuel is enough\<close>

definition ahead :: "sys_state \<Rightarrow> name \<Rightarrow> name set" where
  "ahead s n = {m \<in> fmdom' (voters s). (n, m) \<in> (ptr (pmap s))\<^sup>*}"

lemma fmdom'_pmap: "fmdom' (voters s) = fmdom' (pmap s)"
  by (auto simp: pmap_def fmlookup_dom'_iff)

lemma ahead_cong: "pmap s' = pmap s \<Longrightarrow> ahead s' n = ahead s n"
  by (simp add: ahead_def fmdom'_pmap)

lemma ahead_less:
  assumes "acyclic (ptr (pmap s))" "fmlookup (voters s) n = Some v" "v_proxy v \<noteq> 0"
  shows "card (ahead s (v_proxy v)) < card (ahead s n)"
proof (rule psubset_card_mono)
  show "finite (ahead s n)" by (simp add: ahead_def)
  have e: "(n, v_proxy v) \<in> ptr (pmap s)" using pmap_lookup [OF assms(2)] assms(3) by (simp add: ptr_def pview_def)
  have "n \<notin> ahead s (v_proxy v)"
    using rtrancl_into_trancl2 [OF e] assms(1) by (auto simp: ahead_def acyclic_def)
  moreover have "n \<in> ahead s n" using assms(2) by (auto simp: ahead_def fmlookup_dom'_iff)
  moreover have "ahead s (v_proxy v) \<subseteq> ahead s n"
    using e by (auto simp: ahead_def intro: converse_rtrancl_into_rtrancl)
  ultimately show "ahead s (v_proxy v) \<subset> ahead s n" by blast
qed

lemma the_row_cong: "(\<And>x. r = Some x \<Longrightarrow> k x = k' x) \<Longrightarrow> the_row r msg k = the_row r msg k'"
  by (cases r) auto

lemma propagate_stable:
  assumes "acyclic (ptr (pmap s))" "card (ahead s n) < f"
  shows "propagate (Suc f) c n s = propagate f c n s"
  using assms
proof (induction f arbitrary: n s)
  case (Suc f)
  have r: "propagate (Suc f) c (v_proxy v) (set_voter (v_proxy v) (p\<lparr>proxied_vote_weight := w\<rparr>) s)
      = propagate f c (v_proxy v) (set_voter (v_proxy v) (p\<lparr>proxied_vote_weight := w\<rparr>) s)"
    if v: "fmlookup (voters s) n = Some v" "v_proxy v \<noteq> 0" and p: "fmlookup (voters s) (v_proxy v) = Some p" for v p w
    using Suc.IH [of "set_voter (v_proxy v) (p\<lparr>proxied_vote_weight := w\<rparr>) s" "v_proxy v"] Suc.prems
      ahead_less [OF Suc.prems(1) v] ahead_cong [OF pmap_proxied [OF p]] by (simp add: pmap_proxied [OF p])
  show ?case
    unfolding propagate.simps(2) [of "Suc f" c n s] propagate.simps(2) [of f c n s] Let_def
    by (intro the_row_cong arg_cong2 [where f = bindr] arg_cong [where f = "check _ _"] if_cong refl r)
qed simp

lemma propagate_enough:
  assumes "acyclic (ptr (pmap s))" "card (ahead s n) < f" "f \<le> g"
  shows "propagate g c n s = propagate f c n s"
  using assms(3,2) by (induction g rule: dec_induct) (auto simp: propagate_stable [OF assms(1)] simp del: propagate.simps)

lemma propagate_to_producer_errors:
  "run_all (propagate_to_producer c d) ps acc \<noteq> Inl ''out of fuel''"
  by (induction ps arbitrary: acc) (auto simp: bindr_def propagate_to_producer_def the_row_def split: sum.splits option.splits)

lemma propagate_not_stuck:
  assumes "acyclic (ptr (pmap s))" "card (ahead s n) < f"
  shows "propagate f c n s \<noteq> Inl ''out of fuel''"
  using assms
proof (induction f arbitrary: n s)
  case (Suc f)
  have r: "propagate f c (v_proxy v) (set_voter (v_proxy v) (p\<lparr>proxied_vote_weight := w\<rparr>) s) \<noteq> Inl ''out of fuel''"
    if v: "fmlookup (voters s) n = Some v" "v_proxy v \<noteq> 0" and p: "fmlookup (voters s) (v_proxy v) = Some p" for v p w
    using Suc.IH [of "set_voter (v_proxy v) (p\<lparr>proxied_vote_weight := w\<rparr>) s" "v_proxy v"] Suc.prems
      ahead_less [OF Suc.prems(1) v] ahead_cong [OF pmap_proxied [OF p]] by (simp add: pmap_proxied [OF p])
  show ?case
    using r propagate_to_producer_errors
    by (auto simp: the_row_def check_def bindr_def Let_def split: option.splits sum.splits if_splits)
qed simp

lemma ahead_le: "card (ahead s n) \<le> card (fmdom' (voters s))"
  by (rule card_mono) (auto simp: ahead_def)

lemma propagate_total:
  assumes "proxies_ok s"
  shows "propagate_weight_change c n s \<noteq> Inl ''out of fuel''"
    and "card (fmdom' (voters s)) < f \<Longrightarrow> propagate f c n s = propagate_weight_change c n s"
proof -
  have a: "acyclic (ptr (pmap s))" "card (ahead s n) < Suc (card (fmdom' (voters s)))"
    using assms ahead_le [of s n] by (auto simp: proxies_ok_def)
  show "propagate_weight_change c n s \<noteq> Inl ''out of fuel''"
    unfolding propagate_weight_change_def by (rule propagate_not_stuck [OF a])
  show "card (fmdom' (voters s)) < f \<Longrightarrow> propagate f c n s = propagate_weight_change c n s"
    unfolding propagate_weight_change_def by (rule propagate_enough [OF a]) simp
qed

end
