(* ===== verification/Votes.thy ===== *)
theory Votes
  imports ProxyGraph Example
begin

text \<open>Claims on votes and proxies over runs of the chain, with a run in which an account votes through a proxy.\<close>

lemma mk_int: "\<bar>n\<bar> \<le> 2 ^ 53 \<Longrightarrow> mk (of_int n) = Fin (of_int n)"
  using to_double_exact [of n] by (simp add: to_double_def)

lemma mk_exact [simp]: "mk 0 = Fin 0" "mk 1 = Fin 1"
    "numeral n \<le> (9007199254740992::int) \<Longrightarrow> mk (numeral n) = Fin (numeral n)"
    "numeral n \<le> (9007199254740992::int) \<Longrightarrow> mk (- numeral n) = Fin (- numeral n)"
  using mk_int [of 0] mk_int [of 1] mk_int [of "numeral n"] mk_int [of "- numeral n"] by simp_all

lemma sorted_list_of_fmempty [simp]: "sorted_list_of_fmap fmempty = []"
  by (simp add: sorted_list_of_fmap_def sorted_list_of_fset.rep_eq)

definition ex_votes :: "event list" where
  "ex_votes =
     [Sys (ref_sys [ex_bob] ex_now) (RegProxy ex_bob True),
      Sys (ref_sys [ex_alice] ex_now) (VoteProducer ex_alice ex_bob [])]"

definition ex_voted :: sys_state where
  "ex_voted = ex_staked\<lparr>
     voters := fmupd ex_alice (default_voter\<lparr>staked := 150000, last_vote_weight := Fin 300000, v_proxy := ex_bob\<rparr>)
       (fmupd ex_bob (default_voter\<lparr>is_proxy := True, proxied_vote_weight := Fin 300000, last_vote_weight := Fin 300000\<rparr>)
         fmempty),
     gstate := (gstate ex_staked)\<lparr>total_activated_stake := 150000\<rparr>,
     gstate3 := \<lparr>last_vpay_state_update = 1600000000000000, total_vpay_share_change_rate = Fin 0\<rparr>\<rparr>"

definition ex_registered :: sys_state where
  "ex_registered = ex_staked\<lparr>voters := fmupd ex_bob (default_voter\<lparr>is_proxy := True\<rparr>) (voters ex_staked)\<rparr>"

lemmas ex_vote_eval = regproxy_def voteproducer_def update_votes_def check_vote_input_def activate_stake_def
  undo_votes_def cast_votes_def propagate_weight_change_def stake2vote_def voter_weight_def to_double_exact dle_def
  finish_votepay_def update_total_votepay_share_def add_clipped_def dsub_def elapsed_seconds_def now_tp_def
  min_activated_stake_def

lemma ex_vote: "voteproducer (ref_sys [ex_alice] ex_now) ex_alice ex_bob [] ex_registered = Inr ex_voted"
  by (simp add: ex_registered_def ex_staked_def ex_open_def ex_genesis_def genesis_def ex_eval ex_stake_eval ex_vote_eval ex_voted_def)

lemma ex_voted_run: "run_all world_step ex_votes ex_staked = Inr ex_voted"
proof -
  have e: "s\<lparr>outbox := []\<rparr> = s" "s\<lparr>outbox := [], tokens := tokens s\<rparr> = s" if "outbox s = []" for s :: sys_state
    using that by simp_all
  have o: "outbox ex_staked = []" "outbox ex_registered = []" "outbox ex_voted = []"
    by (simp_all add: ex_registered_def ex_staked_def ex_voted_def ex_open_def ex_genesis_def genesis_def)
  have "regproxy (ref_sys [ex_bob] ex_now) ex_bob True ex_staked = Inr ex_registered"
    by (simp add: regproxy_def require_auth_def set_voter_def ex_registered_def ex_staked_def ex_open_def ex_genesis_def genesis_def)
  then show ?thesis by (simp add: ex_votes_def exec_sys_def ex_vote e o)
qed

lemma ex_votes_run: "run_all world_step ((ex_launch @ [ex_stake]) @ ex_votes) ex_genesis = Inr ex_voted"
  by (subst run_all_append) (simp add: ex_stake_run ex_voted_run)

lemma ex_votes_good: "e \<in> set ((ex_launch @ [ex_stake]) @ ex_votes) \<Longrightarrow> good_event ex_sy e"
  using ex_run_good by (auto simp: ex_votes_def held_accounts_def account_defs intro!: ref_sys_good)

lemma reachable_proxies_ok:
  assumes "\<forall>e\<in>set es. good_event core e" and "run_all world_step es (genesis params lims t) = Inr s"
  shows "proxies_ok s"
  by (rule proxy_pointers.world.run_inv [OF _ _ assms(2)])
    (use assms(1) in \<open>auto simp: proxies_ok_def ptr_def pmap_def acyclic_def\<close>)

text \<open>
  C16: Proxies do not chain: over any run, a registered proxy uses no proxy itself, no voter is
  reached from itself along the pointers to proxies, and so the votes always end at producers.
\<close>

theorem proxies_never_chain:
  assumes "\<forall>e\<in>set es. good_event core e" and "run_all world_step es (genesis params lims t) = Inr s"
  shows "acyclic {(n, p). p \<noteq> 0 \<and> (\<exists>v. fmlookup (voters s) n = Some v \<and> v_proxy v = p)}
    \<and> (\<forall>n v. fmlookup (voters s) n = Some v \<longrightarrow> is_proxy v \<longrightarrow> v_proxy v = 0)"
proof -
  have "proxies_ok s" by (rule reachable_proxies_ok [OF assms(1,2)])
  moreover have "ptr (pmap s) = {(n, p). p \<noteq> 0 \<and> (\<exists>v. fmlookup (voters s) n = Some v \<and> v_proxy v = p)}"
    by (auto simp: ptr_def pmap_def pview_def)
  moreover have "fmlookup (pmap s) n = Some (v_proxy v, True)" if "fmlookup (voters s) n = Some v" "is_proxy v" for n v
    using pmap_lookup [OF that(1)] that(2) by (simp add: pview_def)
  ultimately show ?thesis unfolding proxies_ok_def by simp blast
qed

theorem proxies_never_chain_witness:
  "acyclic {(n, p). p \<noteq> 0 \<and> (\<exists>v. fmlookup (voters ex_voted) n = Some v \<and> v_proxy v = p)}
    \<and> fmlookup (voters ex_voted) ex_alice = Some (default_voter\<lparr>staked := 150000, last_vote_weight := Fin 300000, v_proxy := ex_bob\<rparr>)"
  using proxies_never_chain [OF _ ex_votes_run [unfolded ex_genesis_def]] ex_votes_good by (auto simp: ex_voted_def)

text \<open>
  C17: The recursion of \<open>propagate_weight_change\<close> always ends: in any reachable state it returns
  after at most one turn per voter (it does not run out of the fuel it is given), and more fuel
  changes nothing.
\<close>

theorem propagation_ends:
  assumes "\<forall>e\<in>set es. good_event core e" and "run_all world_step es (genesis params lims t) = Inr s"
    and "card (fmdom' (voters s)) < f"
  shows "propagate f c n s = propagate_weight_change c n s \<and> propagate f c n s \<noteq> Inl ''out of fuel''"
proof -
  have "proxies_ok s" by (rule reachable_proxies_ok [OF assms(1,2)])
  then show ?thesis using propagate_total assms(3) by metis
qed

theorem propagation_ends_witness:
  "propagate 3 (ref_sys [] ex_now) ex_alice ex_voted = propagate_weight_change (ref_sys [] ex_now) ex_alice ex_voted"
proof -
  have "card (fmdom' (voters ex_voted)) < 3" by (simp add: ex_voted_def card_insert_if)
  then show ?thesis using propagation_ends [OF _ ex_votes_run [unfolded ex_genesis_def]] ex_votes_good by blast
qed

section \<open>The schedule\<close>

text \<open>The schedule as one would specify it: the 21 active producers with most votes, ties by name.\<close>

definition eligible :: "producer_info \<Rightarrow> bool" where
  "eligible p \<longleftrightarrow> is_active p \<and> dlt (Fin 0) (total_votes p)"

definition best_producers :: "sys_state \<Rightarrow> (name \<times> producer_info) list" where
  "best_producers s = take 21 (sort_key (\<lambda>(_, p). dneg (total_votes p))
     (filter (\<lambda>(_, p). eligible p) (sorted_list_of_fmap (producers s))))"

lemma filter_sorted_prefix:
  fixes f :: "'a \<Rightarrow> 'b::linorder"
  assumes "sorted (map f xs)" "\<forall>x\<in>set xs. P x \<longleftrightarrow> f x < k"
  shows "filter P xs = takeWhile P xs"
  using assms
proof (induction xs)
  case (Cons x xs)
  show ?case
  proof (cases "P x")
    case False
    then have "\<not> P y" if "y \<in> set xs" for y
      using Cons.prems that by (auto simp: not_less intro: order_trans)
    then show ?thesis using False by (simp add: filter_empty_conv)
  qed (use Cons in auto)
qed simp

lemma takeWhile_take: "takeWhile P (take n xs) = take n (takeWhile P xs)"
  by (induction xs arbitrary: n) (auto simp: take_Cons split: nat.split)

lemma sort_key_cong: "(\<And>x. x \<in> set xs \<Longrightarrow> f x = g x) \<Longrightarrow> sort_key f xs = sort_key g xs"
proof (induction xs)
  case (Cons x xs)
  have "insort_key f x ys = insort_key g x ys" if "set ys \<subseteq> set xs" for ys
    using that Cons.prems by (induction ys) auto
  then show ?case using Cons by simp
qed simp

lemma by_votes_neg:
  assumes "is_active p \<or> \<not> dlt (total_votes p) (Fin 0)" shows "eligible p \<longleftrightarrow> by_votes n p < Fin 0"
  using assms by (cases "total_votes p") (auto simp: eligible_def by_votes_def less_double_def)

lemma set_sorted_list_of_fmap: "set (sorted_list_of_fmap m) = {(k, v). fmlookup m k = Some v}"
  by (auto simp: sorted_list_of_fmap_def sorted_list_of_fset_simps fmlookup_dom_iff image_iff)

lemma top_producers_best:
  assumes "\<forall>n p. fmlookup (producers s) n = Some p \<longrightarrow> is_active p \<or> \<not> dlt (total_votes p) (Fin 0)"
  shows "top_producers s = best_producers s"
proof -
  let ?l = "sorted_list_of_fmap (producers s)" and ?P = "\<lambda>(_, p). eligible p"
  have P: "?P x \<longleftrightarrow> (case x of (n, p) \<Rightarrow> by_votes n p) < Fin 0" if "x \<in> set ?l" for x
    using that assms by_votes_neg by (auto simp: set_sorted_list_of_fmap)
  have "takeWhile ?P (sort_key (\<lambda>(n, p). by_votes n p) ?l) = filter ?P (sort_key (\<lambda>(n, p). by_votes n p) ?l)"
    by (rule filter_sorted_prefix [symmetric, of "\<lambda>(n, p). by_votes n p" _ _ "Fin 0"]) (use P in auto)
  also have "\<dots> = sort_key (\<lambda>(n, p). by_votes n p) (filter ?P ?l)" by (rule filter_sort)
  also have "\<dots> = sort_key (\<lambda>(_, p). dneg (total_votes p)) (filter ?P ?l)"
    by (rule sort_key_cong) (auto simp: by_votes_def eligible_def)
  finally have "takeWhile ?P (sort_key (\<lambda>(n, p). by_votes n p) ?l) = sort_key (\<lambda>(_, p). dneg (total_votes p)) (filter ?P ?l)" .
  moreover have "(\<lambda>(_ :: name, p). dlt (Fin 0) (total_votes p) \<and> is_active p) = ?P" by (auto simp: eligible_def)
  ultimately show ?thesis
    by (simp only: top_producers_def best_producers_def index_by_def takeWhile_take)
qed

text \<open>
  C18: As long as no deactivated producer has a negative vote total, the producers elected are the
  ones an election should choose: the scan of the vote index, which stops at the first row that does
  not qualify, yields exactly the 21 active producers with the most votes (fewer, if fewer have
  votes), and the schedule proposed lists them by name; if they are fewer than the last schedule, no
  schedule is proposed. The condition is needed, since the index negates the totals of active
  producers only: \<open>negative_total_cuts_schedule\<close> below shows what happens without it.
\<close>

theorem elected_are_the_best:
  assumes "\<forall>n p. fmlookup (producers s) n = Some p \<longrightarrow> is_active p \<or> \<not> dlt (total_votes p) (Fin 0)"
  shows "proposed (update_elected_producers c t s) =
    (if int (length (best_producers s)) < last_producer_schedule_size (gstate s) then proposed s
     else proposed s @ [map (\<lambda>(n, p). (n, producer_key p)) (sort_key fst (best_producers s))])"
proof -
  let ?s = "s\<lparr>gstate := (gstate s)\<lparr>last_producer_schedule_update := t\<rparr>\<rparr>"
  have "top_producers ?s = best_producers ?s" by (rule top_producers_best) (use assms in simp)
  then have "top_producers ?s = best_producers s" by (simp add: best_producers_def)
  then show ?thesis by (simp add: update_elected_producers_def Let_def)
qed

definition ex_producer :: "rat \<Rightarrow> bool \<Rightarrow> producer_info" where
  "ex_producer v a = \<lparr>total_votes = Fin v, producer_key = [1], is_active = a, url = [], unpaid_blocks = 0,
     last_claim_time = 0, location = 0\<rparr>"

definition ex_election :: sys_state where
  "ex_election = ex_voted\<lparr>producers := fmap_of_list
     [(1, ex_producer 10 True), (2, ex_producer 30 True), (3, ex_producer 20 False), (4, ex_producer 0 True)]\<rparr>"

lemma best_producers_ex: "best_producers ex_election = [(2, ex_producer 30 True), (1, ex_producer 10 True)]"
  by (simp add: best_producers_def ex_election_def eligible_def ex_producer_def sorted_list_of_fmap_def sorted_list_of_fset.rep_eq)

theorem elected_are_the_best_witness:
  "proposed (update_elected_producers (ref_sys [] ex_now) 7 ex_election) = [[(1, [1]), (2, [1])]]"
proof -
  have "\<forall>n p. fmlookup (producers ex_election) n = Some p \<longrightarrow> is_active p \<or> \<not> dlt (total_votes p) (Fin 0)"
    by (auto simp: ex_election_def ex_producer_def split: if_splits)
  then show ?thesis
    by (subst elected_are_the_best)
      (simp_all add: best_producers_ex, simp add: word_le_nat_alt ex_election_def ex_producer_def ex_voted_def ex_staked_def ex_open_def ex_genesis_def genesis_def)
qed

text \<open>
  Where a total is negative (\<open>propagate_weight_change\<close> does not clip it, as \<open>update_votes\<close> does) the
  scan can stop early: the row of an inactive producer with a negative total stands among the active
  ones, and cuts off all that follow it.
\<close>

lemma negative_total_cuts_schedule:
  "top_producers (ex_election\<lparr>producers := fmap_of_list
     [(1, ex_producer 10 True), (2, ex_producer 30 True), (3, ex_producer (- 20) False)]\<rparr>) = [(2, ex_producer 30 True)]"
  by (simp add: top_producers_def index_by_def by_votes_def ex_election_def ex_producer_def sorted_list_of_fmap_def
      sorted_list_of_fset.rep_eq)

section \<open>What a vote leaves behind\<close>

lemma strictly_sorted_iff: "strictly_sorted ps \<longleftrightarrow> sorted ps \<and> distinct ps"
  unfolding strictly_sorted_def strict_sorted_iff [symmetric] sorted_wrt_iff_nth_Suc_transp [OF transp_on_less]
  by auto

text \<open>Which producers are registered, and which of them are active: counting votes changes neither.\<close>

abbreviation candidates :: "sys_state \<Rightarrow> (name, bool) fmap" where
  "candidates s \<equiv> fmmap is_active (producers s)"

lemma candidates_change:
  assumes "fmlookup (producers (snd (snd acc))) n = Some pr"
  shows "candidates (snd (snd (change_producer_votes c clip n d pr acc))) = candidates (snd (snd acc))"
proof (rule fmap_ext)
  fix k
  show "fmlookup (candidates (snd (snd (change_producer_votes c clip n d pr acc)))) k = fmlookup (candidates (snd (snd acc))) k"
    using assms by (cases acc) (auto simp: change_producer_votes_def Let_def split: option.splits prod.splits)
qed

lemma candidates_finish [simp]: "candidates (finish_votepay c acc) = candidates (snd (snd acc))"
  by (cases acc) (simp add: finish_votepay_def update_total_votepay_share_def Let_def)

lemma vote_for_candidate:
  assumes "vote_for c True (n, d, new) acc = Inr acc'"
  shows "candidates (snd (snd acc')) = candidates (snd (snd acc))"
    and "new \<Longrightarrow> fmlookup (candidates (snd (snd acc))) n = Some True"
  using assms by (auto simp: vote_for_def res_simps candidates_change split: option.splits)

lemma votes_for_candidates:
  assumes "run_all (vote_for c True) ds acc = Inr acc'"
  shows "candidates (snd (snd acc')) = candidates (snd (snd acc))
    \<and> (\<forall>n d. (n, d, True) \<in> set ds \<longrightarrow> fmlookup (candidates (snd (snd acc))) n = Some True)"
  using assms
proof (induction ds arbitrary: acc)
  case (Cons x ds)
  obtain n d new where x: "x = (n, d, new)" by (cases x) auto
  from Cons.prems obtain acc1 where 1: "vote_for c True (n, d, new) acc = Inr acc1"
    and 2: "run_all (vote_for c True) ds acc1 = Inr acc'" by (auto simp: x bindr_Inr)
  show ?case using Cons.IH [OF 2] vote_for_candidate [OF 1] by (auto simp: x)
qed simp

lemma bumped_new:
  assumes "x \<in> set ps \<or> (\<exists>d. fmlookup m x = Some (d, True))"
  shows "\<exists>d. fmlookup (fold (bump f True) ps m) x = Some (d, True)"
  using assms
proof (induction ps arbitrary: m)
  case (Cons q ps)
  have "x \<in> set ps \<or> (\<exists>d. fmlookup (bump f True q m) x = Some (d, True))"
    using Cons.prems by (auto simp: bump_def split: option.splits)
  then show ?case using Cons.IH by simp
qed simp

lemma update_votes_candidates:
  assumes run: "update_votes c n 0 ps True s = Inr s'" and v: "fmlookup (voters s') n = Some v"
    and w: "dle (Fin 0) (last_vote_weight v)" and x: "x \<in> set ps"
  shows "fmlookup (candidates s') x = Some True"
  using run
proof (cases rule: update_votes_parts)
  case (1 v0 d1 s1 d2 s2 acc v3)
  have "dle (Fin 0) (voter_weight c v0)" using v w 1(8) by (auto simp: set_voter_def)
  then have "d2 = fold (bump (\<lambda>d. dadd d (voter_weight c v0)) True) ps d1" using 1(5) by (simp add: cast_votes_def)
  then obtain d where "fmlookup d2 x = Some (d, True)" using bumped_new x by metis
  then have "(x, d, True) \<in> set (sorted_list_of_fmap d2)" by (simp add: set_sorted_list_of_fmap)
  then show ?thesis using votes_for_candidates [OF 1(6)] by (auto simp: 1(8) set_voter_def)
qed

lemma voteproducer_parts:
  assumes "voteproducer c n p ps s = Inr s'"
  obtains s1 where "has_auth c n" "update_votes c n p ps True s1 = Inr s'"
    "\<And>rb v. fmlookup (rexbalance s') n = Some rb \<Longrightarrow> 0 < amount (rex_bal rb) \<Longrightarrow>
      fmlookup (voters s') n = Some v \<Longrightarrow> v_proxy v \<noteq> 0 \<or> 21 \<le> length (v_producers v)"
proof -
  from assms obtain s1 s2 where a: "has_auth c n" and s2: "update_votes c n p ps True s1 = Inr s2"
    and k: "(case fmlookup (rexbalance s2) n of
       Some rb \<Rightarrow>
         if 0 < amount (rex_bal rb) then
           check_voting_requirement n
             ''voter holding REX tokens must vote for at least 21 producers or for a proxy'' s2 (Inr s2)
         else Inr s2
     | None \<Rightarrow> Inr s2) = Inr s'"
    unfolding voteproducer_def res_simps by blast
  have eq: "s' = s2" using k by (auto simp: check_voting_requirement_def res_simps split: option.splits if_splits)
  have "v_proxy v \<noteq> 0 \<or> 21 \<le> length (v_producers v)"
    if "fmlookup (rexbalance s') n = Some rb" "0 < amount (rex_bal rb)" "fmlookup (voters s') n = Some v" for rb v
    using k that by (simp add: eq check_voting_requirement_def res_simps)
  then show ?thesis by (rule that [OF a s2 [folded eq]])
qed

text \<open>
  C19: A vote that is accepted is recorded as it was given, by the voter itself, and it was a valid
  one: a registered proxy that is not the voter itself and no producers, or at most 30 producers,
  sorted and without repetition, each of them registered and active, if the vote has a weight that is
  not negative (a vote of negative or undefined weight is recorded but counts for nobody, and the
  code does not look its producers up). A voter who holds REX voted for a proxy or for 21 producers.
\<close>

theorem accepted_vote_is_valid:
  assumes "voteproducer c n p ps s = Inr s'"
  shows "has_auth c n \<and> (\<exists>v. fmlookup (voters s') n = Some v \<and> v_proxy v = p \<and> v_producers v = ps
      \<and> (p = 0 \<and> dle (Fin 0) (last_vote_weight v) \<longrightarrow>
          (\<forall>x\<in>set ps. \<exists>pr. fmlookup (producers s') x = Some pr \<and> is_active pr)))
    \<and> (if p = 0 then length ps \<le> 30 \<and> sorted ps \<and> distinct ps
       else ps = [] \<and> p \<noteq> n \<and> (\<exists>v. fmlookup (voters s') p = Some v \<and> is_proxy v))
    \<and> (\<forall>rb. fmlookup (rexbalance s') n = Some rb \<and> 0 < amount (rex_bal rb) \<longrightarrow> p \<noteq> 0 \<or> 21 \<le> length ps)"
proof -
  from assms obtain s1 where a: "has_auth c n" and s1: "update_votes c n p ps True s1 = Inr s'"
    and rx: "\<And>rb v. fmlookup (rexbalance s') n = Some rb \<Longrightarrow> 0 < amount (rex_bal rb) \<Longrightarrow>
      fmlookup (voters s') n = Some v \<Longrightarrow> v_proxy v \<noteq> 0 \<or> 21 \<le> length (v_producers v)"
    by (rule voteproducer_parts) blast
  from s1 obtain v w s3 where i: "check_vote_input n p ps (Inr ()) = Inr ()"
    and s': "s' = set_voter n (v\<lparr>last_vote_weight := w, v_producers := ps, v_proxy := p\<rparr>) s3"
    by (cases rule: update_votes_parts) blast
  let ?v = "v\<lparr>last_vote_weight := w, v_producers := ps, v_proxy := p\<rparr>"
  have v: "fmlookup (voters s') n = Some ?v" by (simp add: s' set_voter_def)
  moreover have "\<exists>v. fmlookup (voters s') p = Some v \<and> is_proxy v" if np: "p \<noteq> 0"
  proof (rule pmap_update_votes [OF s1])
    fix q b
    assume "pmap s' = fmupd n (p, b) (pmap s1)" "p \<noteq> 0 \<Longrightarrow> n \<noteq> p \<and> (True \<longrightarrow> (\<exists>r. fmlookup (pmap s1) p = Some (r, True)))"
    then obtain r where "fmlookup (pmap s') p = Some (r, True)" using np by auto
    then show ?thesis by (auto simp: pmap_def pview_def)
  qed
  moreover have "\<exists>pr. fmlookup (producers s') x = Some pr \<and> is_active pr"
    if "p = 0" "dle (Fin 0) (last_vote_weight ?v)" "x \<in> set ps" for x
    using update_votes_candidates [OF s1 [unfolded that(1)] v that(2,3)] by auto
  moreover have "p \<noteq> 0 \<or> 21 \<le> length ps" if "fmlookup (rexbalance s') n = Some rb" "0 < amount (rex_bal rb)" for rb
    using rx [OF that v] by simp
  ultimately show ?thesis using a i by (auto simp: check_vote_input_Inr strictly_sorted_iff)
qed

definition ex_candidates :: sys_state where
  "ex_candidates = ex_staked\<lparr>producers := fmap_of_list [(1, ex_producer 0 True), (2, ex_producer 10 True), (3, ex_producer 20 False)]\<rparr>"

lemma ex_ballot: "\<exists>s'. voteproducer (ref_sys [ex_alice] ex_now) ex_alice 0 [1, 2] ex_candidates = Inr s'
    \<and> (\<exists>v. fmlookup (voters s') ex_alice = Some v \<and> dle (Fin 0) (last_vote_weight v))"
  using to_double_exact [of 300000] to_double_exact [of 300010] to_double_exact [of 600000]
  by (simp add: to_double_def ex_candidates_def ex_producer_def ex_staked_def ex_open_def ex_genesis_def genesis_def
      ex_eval ex_stake_eval ex_vote_eval strictly_sorted_iff bump_def vote_for_def change_producer_votes_def
      sorted_list_of_fmap_def sorted_list_of_fset.rep_eq)

theorem accepted_vote_is_valid_witness:
  "\<exists>s'. voteproducer (ref_sys [ex_alice] ex_now) ex_alice 0 [1, 2] ex_candidates = Inr s'
    \<and> (\<exists>pr. fmlookup (producers s') 2 = Some pr \<and> is_active pr)"
proof -
  from ex_ballot obtain s' v where s': "voteproducer (ref_sys [ex_alice] ex_now) ex_alice 0 [1, 2] ex_candidates = Inr s'"
    and v: "fmlookup (voters s') ex_alice = Some v" "dle (Fin 0) (last_vote_weight v)" by blast
  with accepted_vote_is_valid [OF s'] show ?thesis by simp
qed

end
