(* ===== verification/Native.thy ===== *)
theory Native
  imports Contract
begin

text \<open>
  native.hpp: the actions the host itself carries out and the system contract only accepts. Their
  authorities are never read (\<open>ignore\<close>), and their bodies are empty; the two that do something,
  \<open>newaccount\<close> and \<open>setabi\<close>, are in \<open>Names\<close>.
\<close>

record permission_level_weight =
  plw_permission :: permission_level
  plw_weight :: uint16

record key_weight =
  kw_key :: public_key
  kw_weight :: uint16

record wait_weight =
  wait_sec :: uint32
  ww_weight :: uint16

record authority =
  threshold :: uint32
  keys :: "key_weight list"
  auth_accounts :: "permission_level_weight list"
  waits :: "wait_weight list"

datatype native_action =
    UpdateAuth name name name authority
  | DeleteAuth name name
  | LinkAuth name name name name
  | UnlinkAuth name name name
  | CancelDelay permission_level bytes
  | OnError int bytes
  | SetCode name uint8 uint8 bytes

definition updateauth :: "name \<Rightarrow> name \<Rightarrow> name \<Rightarrow> authority \<Rightarrow> 's \<Rightarrow> 's res" where
  "updateauth account perm_name parent auth s = Inr s"

definition deleteauth :: "name \<Rightarrow> name \<Rightarrow> 's \<Rightarrow> 's res" where
  "deleteauth account perm_name s = Inr s"

definition linkauth :: "name \<Rightarrow> name \<Rightarrow> name \<Rightarrow> name \<Rightarrow> 's \<Rightarrow> 's res" where
  "linkauth account code type requirement s = Inr s"

definition unlinkauth :: "name \<Rightarrow> name \<Rightarrow> name \<Rightarrow> 's \<Rightarrow> 's res" where
  "unlinkauth account code type s = Inr s"

definition canceldelay :: "permission_level \<Rightarrow> bytes \<Rightarrow> 's \<Rightarrow> 's res" where
  "canceldelay canceling_auth trx_id s = Inr s"

definition onerror :: "int \<Rightarrow> bytes \<Rightarrow> 's \<Rightarrow> 's res" where
  "onerror sender_id sent_trx s = Inr s"

definition setcode :: "name \<Rightarrow> uint8 \<Rightarrow> uint8 \<Rightarrow> bytes \<Rightarrow> 's \<Rightarrow> 's res" where
  "setcode account vmtype vmversion code s = Inr s"

primrec apply_native :: "native_action \<Rightarrow> 's \<Rightarrow> 's res" where
  "apply_native (UpdateAuth a p r w) s = updateauth a p r w s"
| "apply_native (DeleteAuth a p) s = deleteauth a p s"
| "apply_native (LinkAuth a k t r) s = linkauth a k t r s"
| "apply_native (UnlinkAuth a k t) s = unlinkauth a k t s"
| "apply_native (CancelDelay l i) s = canceldelay l i s"
| "apply_native (OnError i t) s = onerror i t s"
| "apply_native (SetCode a t v k) s = setcode a t v k s"

lemmas native_defs = updateauth_def deleteauth_def linkauth_def unlinkauth_def canceldelay_def
  onerror_def setcode_def

lemma apply_native_id: "apply_native a s = Inr s"
  by (cases a) (simp_all add: native_defs)

end
