(* ===== verification/Bios.thy ===== *)
theory Bios
  imports Native
begin

text \<open>
  The contract eosio.bios (eosio.bios.hpp), which runs a chain before the system contract does:
  thin, privileged wrappers around host functions, and the hash of an account's ABI. What the
  wrappers set in the host is the state. \<open>setprods\<close> hands the bytes of the action itself to the
  host; that they decode to a schedule is checked before the action runs (\<open>is_schedule\<close>).
\<close>

record bios_state =
  bios_abihash :: "(name, bytes) fmap"
  bios_limits :: "name \<Rightarrow> limits"
  bios_privileged :: "name \<Rightarrow> bool"
  bios_params :: "blockchain_parameters option"
  bios_proposed :: "bytes list"

record bios_chain = chain +
  is_schedule :: "bytes \<Rightarrow> bool"
  bios_sha256 :: "bytes \<Rightarrow> bytes"

definition bios_setpriv :: "bios_chain \<Rightarrow> name \<Rightarrow> uint8 \<Rightarrow> bios_state \<Rightarrow> bios_state res" where
  "bios_setpriv c account is_priv s =
     require_auth c (self c) (
     Inr (s\<lparr>bios_privileged := (bios_privileged s)(account := is_priv \<noteq> 0)\<rparr>))"

definition bios_setalimits :: "bios_chain \<Rightarrow> name \<Rightarrow> int64 \<Rightarrow> int64 \<Rightarrow> int64 \<Rightarrow> bios_state \<Rightarrow> bios_state res" where
  "bios_setalimits c account ram net cpu s =
     require_auth c (self c) (
     Inr (s\<lparr>bios_limits := (bios_limits s)(account := (ram, net, cpu))\<rparr>))"

definition setglimits :: "bios_chain \<Rightarrow> uint64 \<Rightarrow> uint64 \<Rightarrow> uint64 \<Rightarrow> bios_state \<Rightarrow> bios_state res" where
  "setglimits c ram net cpu s = require_auth c (self c) (Inr s)"

definition setprods :: "bios_chain \<Rightarrow> bytes \<Rightarrow> bios_state \<Rightarrow> bios_state res" where
  "setprods c action_data s =
     check (is_schedule c action_data) ''read'' (
     require_auth c (self c) (
     Inr (s\<lparr>bios_proposed := bios_proposed s @ [action_data]\<rparr>)))"

definition bios_setparams :: "bios_chain \<Rightarrow> blockchain_parameters \<Rightarrow> bios_state \<Rightarrow> bios_state res" where
  "bios_setparams c params s =
     require_auth c (self c) (Inr (s\<lparr>bios_params := Some params\<rparr>))"

definition reqauth :: "bios_chain \<Rightarrow> name \<Rightarrow> bios_state \<Rightarrow> bios_state res" where
  "reqauth c from s = require_auth c from (Inr s)"

definition bios_setabi :: "bios_chain \<Rightarrow> name \<Rightarrow> bytes \<Rightarrow> bios_state \<Rightarrow> bios_state res" where
  "bios_setabi c account abi s =
     (case fmlookup (bios_abihash s) account of
        None \<Rightarrow> Inr (s\<lparr>bios_abihash := fmupd account (bios_sha256 c abi) (bios_abihash s)\<rparr>)
      | Some _ \<Rightarrow> Inr (s\<lparr>bios_abihash := fmupd account (bios_sha256 c abi) (bios_abihash s)\<rparr>))"

text \<open>The dispatch; the empty actions of the class are those of \<open>Native\<close> and are not dispatched.\<close>

datatype bios_action =
    BiosSetPriv name uint8
  | BiosSetALimits name int64 int64 int64
  | SetGLimits uint64 uint64 uint64
  | SetProds bytes
  | BiosSetParams blockchain_parameters
  | ReqAuth name
  | BiosSetAbi name bytes

primrec apply_bios :: "bios_chain \<Rightarrow> bios_action \<Rightarrow> bios_state \<Rightarrow> bios_state res" where
  "apply_bios c (BiosSetPriv a p) s = bios_setpriv c a p s"
| "apply_bios c (BiosSetALimits a r n p) s = bios_setalimits c a r n p s"
| "apply_bios c (SetGLimits r n p) s = setglimits c r n p s"
| "apply_bios c (SetProds d) s = setprods c d s"
| "apply_bios c (BiosSetParams p) s = bios_setparams c p s"
| "apply_bios c (ReqAuth a) s = reqauth c a s"
| "apply_bios c (BiosSetAbi a b) s = bios_setabi c a b s"

fun bios_run :: "(bios_chain \<times> bios_action) list \<Rightarrow> bios_state \<Rightarrow> bios_state res" where
  "bios_run es s = run_all (\<lambda>(c, a). apply_bios c a) es s"

lemmas bios_defs = bios_setpriv_def bios_setalimits_def setglimits_def setprods_def bios_setparams_def
  reqauth_def bios_setabi_def

text \<open>What the host was told, without the ABI hashes, is all the privileged part of the state.\<close>

definition host_part where
  "host_part s = (bios_limits s, bios_privileged s, bios_params s, bios_proposed s)"

lemma host_part_change:
  assumes "apply_bios c a s = Inr s'" "host_part s' \<noteq> host_part s" shows "has_auth c (self c)"
  using assms by (cases a) (auto simp: bios_defs host_part_def split: option.splits)

interpretation unsigned: machine "\<lambda>(c, a). apply_bios c a" "\<lambda>(c, a). \<not> has_auth c (self c)" "\<lambda>s. host_part s = h" for h
  by unfold_locales (auto dest: host_part_change)

text \<open>
  C20: Whoever cannot sign for the contract's own account cannot change what the host runs on: over
  any run of actions none of which that account signed, the privileges, resource limits, parameters
  and proposed schedules stay as they were.
\<close>

theorem bios_needs_its_own_signature:
  assumes "\<forall>(c, a)\<in>set es. \<not> has_auth c (self c)" "bios_run es s = Inr s'"
  shows "bios_privileged s' = bios_privileged s \<and> bios_limits s' = bios_limits s
    \<and> bios_params s' = bios_params s \<and> bios_proposed s' = bios_proposed s"
proof -
  have "host_part s' = host_part s"
    by (rule unsigned.run_inv [of es, OF _ refl]) (use assms in auto)
  then show ?thesis by (simp add: host_part_def)
qed

definition ex_bios_chain :: "name list \<Rightarrow> bios_chain" where
  "ex_bios_chain auths = chain.extend (ref_chain eosio_account auths 0)
     \<lparr>is_schedule = (\<lambda>_. True), bios_sha256 = (\<lambda>b. b)\<rparr>"

lemma ex_bios_chain_sel [simp]:
  "self (ex_bios_chain auths) = eosio_account" "has_auth (ex_bios_chain auths) n \<longleftrightarrow> n \<in> set auths"
  "bios_sha256 (ex_bios_chain auths) b = b" "is_schedule (ex_bios_chain auths) d"
  by (simp_all add: ex_bios_chain_def ref_chain_def chain.defs)

definition ex_bios_state :: bios_state where
  "ex_bios_state = \<lparr>bios_abihash = fmempty, bios_limits = (\<lambda>_. (0, 0, 0)),
     bios_privileged = (\<lambda>n. n = eosio_account), bios_params = None, bios_proposed = []\<rparr>"

definition ex_bios_run :: "(bios_chain \<times> bios_action) list" where
  "ex_bios_run = [(ex_bios_chain [ex_alice], ReqAuth ex_alice), (ex_bios_chain [ex_alice], BiosSetAbi ex_alice [1, 2])]"

theorem bios_needs_its_own_signature_witness:
  "bios_run ex_bios_run ex_bios_state = Inr (ex_bios_state\<lparr>bios_abihash := fmupd ex_alice [1, 2] fmempty\<rparr>)
     \<and> bios_privileged (ex_bios_state\<lparr>bios_abihash := fmupd ex_alice [1, 2] fmempty\<rparr>) = bios_privileged ex_bios_state"
proof -
  have r: "bios_run ex_bios_run ex_bios_state = Inr (ex_bios_state\<lparr>bios_abihash := fmupd ex_alice [1, 2] fmempty\<rparr>)"
    by (simp add: ex_bios_run_def ex_bios_state_def bios_defs require_auth_def)
  have "\<forall>(c, a)\<in>set ex_bios_run. \<not> has_auth c (self c)"
    by (simp add: ex_bios_run_def eosio_account_def)
  then show ?thesis using bios_needs_its_own_signature [OF _ r] r by simp
qed

end
