(* ===== verification/Wrap.thy ===== *)
theory Wrap
  imports Chain
begin

text \<open>
  The contract eosio.wrap (eosio.wrap.hpp, eosio.wrap.cpp): its action \<open>exec\<close> sends a transaction,
  which it does not look into, to be executed later without further authorisation. The data of the
  action is the name of the executer followed by the transaction; \<open>read_name\<close> decodes the former.
  The state is the list of the deferred transactions sent: sender id, payer and packed transaction.
\<close>

record wrap_chain = chain +
  read_name :: "8 word list \<Rightarrow> (name \<times> 8 word list) res"

type_synonym sent = "int \<times> name \<times> 8 word list"

definition sender_id :: "name \<Rightarrow> uint64 \<Rightarrow> int" where
  "sender_id executer t = uint executer * 18446744073709551616 + u64 t"

definition wrap_exec :: "wrap_chain \<Rightarrow> 8 word list \<Rightarrow> sent list \<Rightarrow> sent list res" where
  "wrap_exec c action_data s =
     require_auth c (self c) (
     bindr (read_name c action_data) (\<lambda>(executer, trx).
     require_auth c executer (
     Inr (s @ [(sender_id executer (current_time c), executer, trx)]))))"

lemma sender_id_payer: "sender_id n t div 18446744073709551616 = uint n"
  by (simp add: sender_id_def u64_def)

text \<open>
  The history of the actions of the contract, and what it says about the transactions sent: each
  comes from an action that both the contract's account and the payer signed.
\<close>

definition asked_for :: "(wrap_chain \<times> 8 word list) list \<Rightarrow> sent \<Rightarrow> bool" where
  "asked_for h x = (case x of (i, payer, trx) \<Rightarrow> \<exists>(c, d)\<in>set h. has_auth c (self c) \<and> has_auth c payer
     \<and> read_name c d = Inr (payer, trx) \<and> i = sender_id payer (current_time c))"

lemma wrap_exec_Inr:
  "wrap_exec c d s = Inr s' \<longleftrightarrow> has_auth c (self c) \<and> (\<exists>n trx. read_name c d = Inr (n, trx) \<and> has_auth c n
     \<and> s' = s @ [(sender_id n (current_time c), n, trx)])"
  by (auto simp: wrap_exec_def res_simps)

lemma asked_for_more: "asked_for h x \<Longrightarrow> asked_for (h @ h') x"
  by (auto simp: asked_for_def)

interpretation wrapped: traced "\<lambda>(c, d). wrap_exec c d" "\<lambda>_ _. True" "\<lambda>h s. \<forall>x\<in>set s. asked_for h x"
proof unfold_locales
  fix h s s' and e :: "wrap_chain \<times> 8 word list"
  obtain c d where e: "e = (c, d)" by (cases e)
  assume "\<forall>x\<in>set s. asked_for h x" "(case e of (c, d) \<Rightarrow> wrap_exec c d) s = Inr s'"
  then show "\<forall>x\<in>set s'. asked_for (h @ [e]) x"
    by (auto simp: e wrap_exec_Inr intro: asked_for_more) (auto simp: asked_for_def)
qed

text \<open>
  C21: A transaction the contract sends was asked for by an action that both the contract's account
  and the account that pays for it signed, carries exactly the bytes of that action, and the block
  in which this happened is part of its id, as is the payer: nobody can take the id of another's transaction.
\<close>

theorem wrapped_was_asked_for:
  assumes "run_all (\<lambda>(c, d). wrap_exec c d) es [] = Inr s" "(i, payer, trx) \<in> set s"
  shows "(\<exists>(c, d)\<in>set es. has_auth c (self c) \<and> has_auth c payer \<and> read_name c d = Inr (payer, trx)
    \<and> i = sender_id payer (current_time c)) \<and> i div 18446744073709551616 = uint payer"
proof -
  have "\<forall>x\<in>set s. asked_for es x" by (rule wrapped.trace_inv [OF _ _ assms(1)]) simp_all
  then show ?thesis using assms(2) by (auto simp: asked_for_def sender_id_payer)
qed

definition ex_wrap_chain :: wrap_chain where
  "ex_wrap_chain = chain.extend (ref_chain 5 [5, 7] 1600000000000000)
     \<lparr>read_name = (\<lambda>d. case d of [] \<Rightarrow> Inl ''read'' | b # r \<Rightarrow> Inr (ucast b, r))\<rparr>"

lemma ex_wrap_chain_sel [simp]:
  "self ex_wrap_chain = 5" "has_auth ex_wrap_chain n \<longleftrightarrow> n \<in> {5, 7}" "current_time ex_wrap_chain = 1600000000000000"
  "read_name ex_wrap_chain (b # r) = Inr (ucast b, r)"
  by (simp_all add: ex_wrap_chain_def ref_chain_def chain.defs)

theorem wrapped_was_asked_for_witness:
  "(\<exists>(c, d)\<in>set [(ex_wrap_chain, [7, 1, 2])]. has_auth c (self c) \<and> has_auth c 7 \<and> read_name c d = Inr (7, [1, 2])
    \<and> 129128808515966861312 = sender_id 7 (current_time c)) \<and> 129128808515966861312 div 18446744073709551616 = uint (7 :: name)"
proof (rule wrapped_was_asked_for)
  show "run_all (\<lambda>(c, d). wrap_exec c d) [(ex_wrap_chain, [7, 1, 2])] [] = Inr [(sender_id 7 1600000000000000, 7, [1, 2])]"
    by (simp add: wrap_exec_def require_auth_def bindr_def)
  show "(129128808515966861312, 7, [1, 2]) \<in> set [(sender_id 7 1600000000000000, 7, [1, 2])]"
    by (simp add: sender_id_def u64_def)
qed

end
