(* ===== verification/RexShares.thy ===== *)
theory RexShares
  imports Rex
begin

text \<open>
  The REX of one owner: matured REX, buckets that mature at a given time, and the savings bucket,
  whose time never comes. Every operation on the buckets moves REX between them; none creates any,
  as long as the REX of the owner fits into an \<open>int64_t\<close>.
\<close>

definition bucket_sum :: "(time_point_sec \<times> int64) list \<Rightarrow> int" where
  "bucket_sum bs = sum_list (map snd bs)"

definition rb_total :: "rex_balance \<Rightarrow> int" where
  "rb_total rb = matured_rex rb + bucket_sum (rex_maturities rb)"

definition buckets_ok :: "(time_point_sec \<times> int64) list \<Rightarrow> bool" where
  "buckets_ok bs \<longleftrightarrow> (\<forall>b\<in>set bs. 0 \<le> snd b)"

definition rb_fine :: "rex_balance \<Rightarrow> bool" where
  "rb_fine rb \<longleftrightarrow> 0 \<le> matured_rex rb \<and> buckets_ok (rex_maturities rb)"

text \<open>A row holds what its parts add up to.\<close>

definition rb_ok :: "rex_balance \<Rightarrow> bool" where
  "rb_ok rb \<longleftrightarrow> rb_fine rb \<and> amount (rex_bal rb) = rb_total rb"

lemma bucket_sum_simps [simp]:
  "bucket_sum [] = 0" "bucket_sum (b # bs) = snd b + bucket_sum bs"
  "bucket_sum (bs @ cs) = bucket_sum bs + bucket_sum cs" "bucket_sum (rev bs) = bucket_sum bs"
proof -
  show "bucket_sum (rev bs) = bucket_sum bs" by (induction bs) (simp_all add: bucket_sum_def)
qed (simp_all add: bucket_sum_def)

lemma buckets_ok_simps [simp]:
  "buckets_ok []" "buckets_ok (b # bs) \<longleftrightarrow> 0 \<le> snd b \<and> buckets_ok bs"
  "buckets_ok (bs @ cs) \<longleftrightarrow> buckets_ok bs \<and> buckets_ok cs" "buckets_ok (rev bs) = buckets_ok bs"
  by (auto simp: buckets_ok_def)

lemma bucket_sum_nonneg: "buckets_ok bs \<Longrightarrow> 0 \<le> bucket_sum bs"
  by (induction bs) auto

lemma i64_fits [int_simps]: "0 \<le> x \<Longrightarrow> x < 9223372036854775808 \<Longrightarrow> i64 x = x"
  by (simp add: i64_id in_i64_def)

lemma buckets_split_last:
  assumes "bs \<noteq> []"
  shows "bucket_sum bs = bucket_sum (butlast bs) + snd (last bs)"
    and "buckets_ok bs \<longleftrightarrow> buckets_ok (butlast bs) \<and> 0 \<le> snd (last bs)"
proof -
  have "bs = butlast bs @ [last bs]" using assms by simp
  then have "bucket_sum bs = bucket_sum (butlast bs @ [last bs])" "buckets_ok bs = buckets_ok (butlast bs @ [last bs])"
    by simp_all
  then show "bucket_sum bs = bucket_sum (butlast bs) + snd (last bs)"
    "buckets_ok bs \<longleftrightarrow> buckets_ok (butlast bs) \<and> 0 \<le> snd (last bs)" by simp_all
qed

section \<open>Maturing\<close>

lemma mature_keeps:
  assumes "mature now m bs = (m', bs')" "0 \<le> m" "buckets_ok bs" "m + bucket_sum bs < 9223372036854775808"
  shows "m' + bucket_sum bs' = m + bucket_sum bs" "m \<le> m'" "buckets_ok bs'" "bs' = dropWhile (\<lambda>b. fst b \<le> now) bs"
proof -
  have "m' + bucket_sum bs' = m + bucket_sum bs \<and> m \<le> m' \<and> buckets_ok bs' \<and> bs' = dropWhile (\<lambda>b. fst b \<le> now) bs"
    using assms
  proof (induction bs arbitrary: m)
    case (Cons b bs)
    obtain t r where b: "b = (t, r)" by (cases b)
    show ?case
    proof (cases "t \<le> now")
      case True
      have "0 \<le> bucket_sum bs" using Cons.prems(3) bucket_sum_nonneg by simp
      then have i: "i64 (m + r) = m + r" using Cons.prems(2-4) b by (intro i64_fits) auto
      have "m' + bucket_sum bs' = m + r + bucket_sum bs \<and> m + r \<le> m' \<and> buckets_ok bs' \<and> bs' = dropWhile (\<lambda>b. fst b \<le> now) bs"
        by (rule Cons.IH) (use Cons.prems b True i in auto)
      then show ?thesis using Cons.prems(3) b True by auto
    next
      case False
      then show ?thesis using Cons.prems b by auto
    qed
  qed simp
  then show "m' + bucket_sum bs' = m + bucket_sum bs" "m \<le> m'" "buckets_ok bs'"
    "bs' = dropWhile (\<lambda>b. fst b \<le> now) bs" by auto
qed

lemma process_maturities_keeps:
  assumes "rb_fine rb" "rb_total rb < 9223372036854775808"
  shows "rb_fine (process_rex_maturities c rb)" "rb_total (process_rex_maturities c rb) = rb_total rb"
    "matured_rex rb \<le> matured_rex (process_rex_maturities c rb)"
    "rex_bal (process_rex_maturities c rb) = rex_bal rb"
proof -
  obtain m bs where m: "mature (now_sec c) (matured_rex rb) (rex_maturities rb) = (m, bs)" by fastforce
  note k = mature_keeps [OF m]
  show "rb_fine (process_rex_maturities c rb)" "rb_total (process_rex_maturities c rb) = rb_total rb"
    "matured_rex rb \<le> matured_rex (process_rex_maturities c rb)"
    "rex_bal (process_rex_maturities c rb) = rex_bal rb"
    using k assms by (auto simp: process_rex_maturities_def m rb_fine_def rb_total_def)
qed

section \<open>Buckets and savings\<close>

lemma add_bucket_keeps:
  assumes "rb_fine rb" "0 \<le> r" "rb_total rb + r < 9223372036854775808"
  shows "rb_fine (add_bucket t r rb)" "rb_total (add_bucket t r rb) = rb_total rb + r"
    "matured_rex (add_bucket t r rb) = matured_rex rb" "rex_bal (add_bucket t r rb) = rex_bal rb"
proof -
  let ?bs = "rex_maturities rb"
  have b: "i64 (snd (last ?bs) + r) = snd (last ?bs) + r" if "?bs \<noteq> []"
    using assms that buckets_split_last [OF that] bucket_sum_nonneg [of "butlast ?bs"]
    by (intro i64_fits) (auto simp: rb_fine_def rb_total_def)
  show "rb_fine (add_bucket t r rb)" "rb_total (add_bucket t r rb) = rb_total rb + r"
    "matured_rex (add_bucket t r rb) = matured_rex rb" "rex_bal (add_bucket t r rb) = rex_bal rb"
    using assms b buckets_split_last [of ?bs] by (auto simp: add_bucket_def Let_def rb_fine_def rb_total_def)
qed

lemma read_savings_keeps:
  assumes "read_rex_savings rb = (sav, rb')"
  shows "rb_total rb = rb_total rb' + sav" "rb_fine rb \<Longrightarrow> rb_fine rb' \<and> 0 \<le> sav"
    "matured_rex rb' = matured_rex rb" "rex_bal rb' = rex_bal rb"
  using assms buckets_split_last [of "rex_maturities rb"]
  by (auto simp: read_rex_savings_def Let_def rb_fine_def rb_total_def split: if_splits)

lemma put_savings_keeps:
  assumes "rb_fine rb" "0 \<le> r" "rb_total rb + r < 9223372036854775808"
  shows "rb_fine (put_rex_savings r rb)" "rb_total (put_rex_savings r rb) = rb_total rb + r"
    "matured_rex (put_rex_savings r rb) = matured_rex rb" "rex_bal (put_rex_savings r rb) = rex_bal rb"
  using assms add_bucket_keeps [OF assms] by (auto simp: put_rex_savings_def)

lemma foldl_buckets:
  assumes "0 \<le> a" "buckets_ok bs" "a + bucket_sum bs < 9223372036854775808"
  shows "foldl (\<lambda>t b. i64 (t + snd b)) a bs = a + bucket_sum bs"
  using assms
proof (induction bs arbitrary: a)
  case (Cons b bs)
  have "i64 (a + snd b) = a + snd b"
    using Cons.prems bucket_sum_nonneg [of bs] by (intro i64_fits) auto
  then show ?case using Cons by simp
qed simp

lemma consolidate_keeps:
  assumes "rb_fine rb" "0 \<le> amount q" "amount q \<le> matured_rex rb" "rb_total rb < 9223372036854775808"
  shows "rb_fine (consolidate_rex_balance c q rb)" "rb_total (consolidate_rex_balance c q rb) = rb_total rb"
    "matured_rex (consolidate_rex_balance c q rb) = amount q" "rex_bal (consolidate_rex_balance c q rb) = rex_bal rb"
proof -
  obtain sav rb1 where r: "read_rex_savings rb = (sav, rb1)" by fastforce
  note k = read_savings_keeps [OF r]
  let ?a = "matured_rex rb1 - amount q" and ?bs = "rex_maturities rb1"
  have f: "rb_fine rb1" "0 \<le> sav" using k(2) assms(1) by auto
  have nn: "0 \<le> bucket_sum ?bs" using f(1) bucket_sum_nonneg by (simp add: rb_fine_def)
  have t: "?a + bucket_sum ?bs + sav + amount q < 9223372036854775808"
    using k(1) assms(4) by (simp add: rb_total_def)
  have "i64 ?a = ?a" using t nn f(2) assms(2,3) k(3) by (intro i64_fits) auto
  moreover have "foldl (\<lambda>t b. i64 (t + snd b)) ?a ?bs = ?a + bucket_sum ?bs"
    using f t assms(2,3) k(3) by (intro foldl_buckets) (auto simp: rb_fine_def)
  ultimately have total: "foldl (\<lambda>t b. i64 (t + snd b)) (i64 ?a) ?bs = ?a + bucket_sum ?bs" by simp
  define rb2 where "rb2 = rb1\<lparr>matured_rex := amount q,
      rex_maturities := if 0 < ?a + bucket_sum ?bs then [(get_rex_maturity c, ?a + bucket_sum ?bs)] else []\<rparr>"
  have eq: "consolidate_rex_balance c q rb = put_rex_savings sav rb2"
    by (simp add: consolidate_rex_balance_def r total rb2_def Let_def)
  have r2: "rb_fine rb2" "rb_total rb2 = rb_total rb1" "matured_rex rb2 = amount q" "rex_bal rb2 = rex_bal rb1"
    using assms(2,3) k(3) nn f by (auto simp: rb2_def rb_fine_def rb_total_def)
  have "rb_total rb2 + sav < 9223372036854775808" using r2(2) k(1) assms(4) by simp
  from put_savings_keeps [OF r2(1) f(2) this] show "rb_fine (consolidate_rex_balance c q rb)"
    "rb_total (consolidate_rex_balance c q rb) = rb_total rb"
    "matured_rex (consolidate_rex_balance c q rb) = amount q" "rex_bal (consolidate_rex_balance c q rb) = rex_bal rb"
    using r2 k by (simp_all add: eq)
qed

section \<open>Moving to savings\<close>

lemma take_buckets_keeps:
  assumes "take_buckets amt m bs = (m', bs')" "0 \<le> m" "m \<le> amt" "amt < 9223372036854775808" "buckets_ok bs"
    "bucket_sum bs < 9223372036854775808"
  shows "m' + bucket_sum bs' = m + bucket_sum bs" "m \<le> m'" "m' \<le> amt" "buckets_ok bs'"
proof -
  have "m' + bucket_sum bs' = m + bucket_sum bs \<and> m \<le> m' \<and> m' \<le> amt \<and> buckets_ok bs'"
    using assms
  proof (induction bs arbitrary: m)
    case (Cons b bs)
    obtain t r where b: "b = (t, r)" by (cases b)
    have nn: "0 \<le> bucket_sum bs" using Cons.prems(5) bucket_sum_nonneg by simp
    show ?case
    proof (cases "m < amt")
      case True
      define d where "d = min (amt - m) r"
      have i: "i64 (amt - m) = amt - m" using Cons.prems(2-4) by (intro i64_fits) auto
      have d: "0 \<le> d" "d \<le> r" "d \<le> amt - m" using Cons.prems(3,5) b by (auto simp: d_def)
      have j: "i64 (r - d) = r - d" "i64 (m + d) = m + d"
        using d Cons.prems(2-6) b nn by (auto intro!: i64_fits)
      have step: "take_buckets amt m (b # bs) =
          (if r - d = 0 then take_buckets amt (m + d) bs else (m + d, (t, r - d) # bs))"
        using True by (simp add: b Let_def i j flip: d_def)
      show ?thesis
      proof (cases "r - d = 0")
        case True
        then have "take_buckets amt (m + d) bs = (m', bs')" using step Cons.prems(1) by simp
        from Cons.IH [OF this] Cons.prems d nn b True show ?thesis by auto
      next
        case False
        then show ?thesis using step Cons.prems d b by auto
      qed
    next
      case False
      then show ?thesis using Cons.prems b by auto
    qed
  qed simp
  then show "m' + bucket_sum bs' = m + bucket_sum bs" "m \<le> m'" "m' \<le> amt" "buckets_ok bs'" by auto
qed

lemma move_to_savings_keeps:
  assumes m: "move_to_savings amt in_order rb = Inr rb'" and f: "rb_fine rb" and t: "rb_total rb < 9223372036854775808"
    and a: "0 < amt" "amt < 9223372036854775808" and o: "0 \<le> in_order" "in_order \<le> matured_rex rb"
  shows "rb_fine rb'" "rb_total rb' = rb_total rb - amt" "in_order \<le> matured_rex rb'" "rex_bal rb' = rex_bal rb"
proof -
  obtain mv bs where b: "take_buckets amt 0 (rev (rex_maturities rb)) = (mv, bs)" by fastforce
  have nn: "0 \<le> bucket_sum (rex_maturities rb)" using f bucket_sum_nonneg by (simp add: rb_fine_def)
  then have "bucket_sum (rev (rex_maturities rb)) < 9223372036854775808" using t f by (simp add: rb_total_def rb_fine_def)
  note k = take_buckets_keeps [OF b _ _ _ _ this]
  have k: "mv + bucket_sum bs = bucket_sum (rex_maturities rb)" "0 \<le> mv" "mv \<le> amt" "buckets_ok bs"
    using k a f by (auto simp: rb_fine_def)
  have r: "0 \<le> matured_rex rb" "matured_rex rb < 9223372036854775808" using f t nn by (auto simp: rb_fine_def rb_total_def)
  have i: "i64 (amt - mv) = amt - mv" "i64 (matured_rex rb - (amt - mv)) = matured_rex rb - (amt - mv)"
    using k(2,3) a r by (auto intro!: i64_fits i64_id simp: in_i64_def)
  show "rb_fine rb'" "rb_total rb' = rb_total rb - amt" "in_order \<le> matured_rex rb'" "rex_bal rb' = rex_bal rb"
    using m k o r by (auto simp: move_to_savings_def b i Let_def rb_fine_def rb_total_def split: if_splits)
qed

end
