(* ===== verification/Bancor.thy ===== *)
theory Bancor
  imports RexPool
begin

text \<open>
  The price formula of REX loans, \<open>inp * conout / (inp + conin)\<close> in double arithmetic: in spite of
  the rounding it never pays out more than the connector holds, and a payment that is too large
  for the connector buys no more than itself.
\<close>

lemma get_bancor_output_eq:
  assumes r: "\<bar>inp\<bar> \<le> 2 ^ 53" "\<bar>conin\<bar> \<le> 2 ^ 53" "\<bar>conout\<bar> \<le> 2 ^ 53" "\<bar>inp + conin\<bar> \<le> 2 ^ 53" and nz: "inp + conin \<noteq> 0"
  shows "get_bancor_output conin conout inp = bindr (to_int64 (mk (rnd (of_int (inp * conout)) / of_int (inp + conin))))
     (\<lambda>out. Inr (if out < 0 then 0 else out))"
proof -
  have "\<bar>inp * conout\<bar> \<le> 2 ^ 53 * 2 ^ 53"
    unfolding abs_mult by (intro mult_mono r) simp_all
  then have p: "\<bar>rnd (of_int (inp * conout))\<bar> < 2 ^ 1024"
    by (intro rnd_lt_overflow [where n = "\<bar>inp * conout\<bar>" and k = 53]) simp_all
  have m: "mk (of_int inp * of_int conout) = Fin (rnd (of_int (inp * conout)))"
    using mk_Fin [OF p] by simp
  have a: "mk (of_int inp + of_int conin) = Fin (of_int (inp + conin))"
    using to_double_exact [OF r(4)] by (simp add: to_double_def)
  have "(of_int (inp + conin) :: rat) \<noteq> 0" using nz by (simp only: of_int_eq_0_iff) simp
  then show ?thesis
    unfolding get_bancor_output_def Let_def to_double_exact [OF r(1)] to_double_exact [OF r(2)] to_double_exact [OF r(3)]
      dmul.simps dadd.simps m a ddiv.simps by (simp del: of_int_add)
qed

lemma rnd_int_le:
  assumes "0 \<le> n" shows "rnd (of_int n) \<le> of_int n * (1 + 2 powi (- 53))" "0 \<le> rnd (of_int n)"
proof -
  show "rnd (of_int n) \<le> of_int n * (1 + 2 powi (- 53))"
  proof (cases "n = 0")
    case False
    with assms have "1 \<le> n" by simp
    then have "(2::rat) powi 0 \<le> \<bar>of_int n\<bar>" by simp
    moreover have "(2::rat) powi (- 1022) \<le> 2 powi 0" by (rule powi2_le_iff [THEN iffD2]) simp
    ultimately have "\<bar>rnd (of_int n) - of_int n\<bar> \<le> \<bar>of_int n\<bar> * 2 powi (- 53)"
      by (intro rnd_rel_error) linarith
    then have "rnd (of_int n) - of_int n \<le> of_int n * 2 powi (- 53)"
      using assms order_trans [OF abs_ge_self] by (metis abs_of_nonneg of_int_0_le_iff)
    then show ?thesis unfolding distrib_left by linarith
  qed simp
qed (use assms in \<open>simp add: rnd_nonneg\<close>)

lemma trunc_below:
  assumes "0 \<le> r" "r < of_int (n + 1)" shows "trunc_rat r \<le> n"
  using assms by (simp add: trunc_rat_def floor_less_iff [symmetric] del: of_int_add)

lemma bancor_cases:
  assumes g: "get_bancor_output conin conout inp = Inr out"
    and r: "0 < inp" "0 \<le> conin" "inp + conin \<le> 2 ^ 53" "0 \<le> conout" "conout < 2 ^ 51"
  obtains q where "0 \<le> q" "q \<le> of_int (inp * conout) / of_int (inp + conin) * (1 + 2 powi (- 53))"
    "out = trunc_rat (rnd q)" "0 \<le> out"
proof -
  let ?p = "rnd (of_int (inp * conout))" and ?d = "of_int (inp + conin) :: rat"
  define q where "q = ?p / ?d"
  have io: "0 \<le> inp * conout" using r by simp
  have d: "0 < ?d" using r by (simp only: of_int_0_less_iff)
  have q: "0 \<le> q" "q \<le> of_int (inp * conout) / ?d * (1 + 2 powi (- 53))"
    using rnd_int_le(2) [OF io] divide_right_mono [OF rnd_int_le(1) [OF io], of ?d] d
    unfolding q_def times_divide_eq_left by (auto intro: divide_nonneg_nonneg)
  have "get_bancor_output conin conout inp = bindr (to_int64 (mk q)) (\<lambda>out. Inr (if out < 0 then 0 else out))"
    unfolding q_def by (rule get_bancor_output_eq) (use r in auto)
  then obtain x where x: "to_int64 (mk q) = Inr x" and out: "out = (if x < 0 then 0 else x)"
    using g by (cases "to_int64 (mk q)") auto
  have "mk q \<noteq> PInf \<and> mk q \<noteq> NInf" using x by (cases "mk q") auto
  then have "mk q = Fin (rnd q)" by (auto simp: mk_def Let_def split: if_splits)
  then have "x = trunc_rat (rnd q)" using x by (simp add: res_simps)
  moreover have "0 \<le> trunc_rat (rnd q)" using q(1) by (intro trunc_rat_nonneg rnd_nonneg)
  ultimately show ?thesis using q out by (intro that [of q]) auto
qed

lemma bancor_le:
  assumes g: "get_bancor_output conin conout inp = Inr out"
    and r: "0 < inp" "0 \<le> conin" "inp + conin \<le> 2 ^ 53" "0 \<le> conout" "conout < 2 ^ 51"
  shows "0 \<le> out" "out \<le> conout"
proof -
  obtain q where q: "0 \<le> q" "q \<le> of_int (inp * conout) / of_int (inp + conin) * (1 + 2 powi (- 53))"
    and out: "out = trunc_rat (rnd q)" and o: "0 \<le> out" by (rule bancor_cases [OF g r])
  show "0 \<le> out" by (rule o)
  have "of_int (inp * conout) / of_int (inp + conin) \<le> (of_int (inp * conout) / of_int inp :: rat)"
    using r by (intro divide_left_mono) (simp_all flip: of_int_add of_int_mult)
  also have "\<dots> = of_int conout" using r(1) by simp
  finally have "of_int (inp * conout) / of_int (inp + conin) * (1 + 2 powi (- 53)) \<le> of_int conout * (1 + 2 powi (- 53) :: rat)"
    by (rule mult_right_mono) (simp add: add_nonneg_nonneg)
  then have "q \<le> of_int conout * (1 + 2 powi (- 53))" by (rule order_trans [OF q(2)])
  also have "\<dots> \<le> of_int (4 * conout + 1) * 2 powi (- 2)"
  proof -
    have "(of_int conout :: rat) \<le> of_int (2 ^ 51)" using r(5) by (simp only: of_int_le_iff)
    then have "of_int conout * (2 powi (- 53) :: rat) \<le> of_int (2 ^ 51) * 2 powi (- 53)" by (intro mult_right_mono) simp_all
    also have "\<dots> = 2 powi (- 2)" by (simp add: power_int_minus)
    finally show ?thesis by (simp add: power_int_minus algebra_simps)
  qed
  finally have "rnd q \<le> rnd (of_int (4 * conout + 1) * 2 powi (- 2))" by (rule rnd_mono)
  also have "\<dots> = of_int (4 * conout + 1) * 2 powi (- 2)" by (rule rnd_repr) (use r in auto)
  also have "\<dots> < of_int (conout + 1)" by (simp add: power_int_minus)
  finally show "out \<le> conout" unfolding out using rnd_nonneg [OF q(1)] by (intro trunc_below)
qed

text \<open>A price above what the connector holds buys no more than was paid.\<close>

lemma bancor_dear:
  assumes g: "get_bancor_output conin conout inp = Inr out"
    and r: "0 < inp" "0 \<le> conin" "inp + conin \<le> 2 ^ 53" "0 \<le> conout" "conout < 2 ^ 51"
    and dear: "2 * conout \<le> inp + conin"
  shows "out \<le> inp"
proof -
  obtain q where q: "0 \<le> q" "q \<le> of_int (inp * conout) / of_int (inp + conin) * (1 + 2 powi (- 53))"
    and out: "out = trunc_rat (rnd q)" by (rule bancor_cases [OF g r])
  have d: "(0::rat) < of_int (inp + conin)" using r by (simp only: of_int_0_less_iff)
  have "2 * (inp * conout) \<le> inp * (inp + conin)" using mult_left_mono [OF dear, of inp] r(1) by (simp add: algebra_simps)
  then have "of_int (2 * (inp * conout)) \<le> (of_int (inp * (inp + conin)) :: rat)" by (simp only: of_int_le_iff)
  then have "of_int (inp * conout) / of_int (inp + conin) \<le> (of_int inp / 2 :: rat)"
    using d by (simp add: field_simps)
  then have "of_int (inp * conout) / of_int (inp + conin) * (1 + 2 powi (- 53)) \<le> of_int inp / 2 * (1 + 2 powi (- 53) :: rat)"
    by (rule mult_right_mono) (simp add: add_nonneg_nonneg)
  also have "\<dots> \<le> of_int inp / 2 * 2" using r(1) by (intro mult_left_mono) (simp_all add: power_int_minus)
  finally have "of_int (inp * conout) / of_int (inp + conin) * (1 + 2 powi (- 53)) \<le> (of_int inp :: rat)" by simp
  then have "q \<le> of_int inp" by (rule order_trans [OF q(2)])
  then have "rnd q \<le> rnd (of_int inp)" by (rule rnd_mono)
  also have "\<dots> = of_int inp" by (rule rnd_of_int) (use r in auto)
  finally show ?thesis unfolding out using trunc_rat_mono [of "rnd q" "of_int inp"] by simp
qed

end
