(* ===== verification/RexLedger.thy ===== *)
theory RexLedger
  imports RexShares Bancor Solvency
begin

text \<open>
  What REX owes: the funds of its users, the balances of their loans, the proceeds of sell orders
  already filled, and all that is lendable, which belongs to the holders of REX. The tables are
  consistent (\<open>rex_fine\<close>, \<open>orders_fine\<close>), and every procedure changes what is owed by exactly the
  tokens it takes in or pays out. All of it presumes a core token of at most \<open>rex_cap\<close> units: then
  10000 REX per unit still fit into an \<open>int64_t\<close>, and the double arithmetic of the loan prices is
  exact enough never to lend more than there is.
\<close>

definition rex_cap :: int where "rex_cap = 460000000000000"

section \<open>The tables\<close>

definition fund_val :: "'k \<Rightarrow> asset \<Rightarrow> int" where "fund_val k q = amount q"
definition loan_val :: "'k \<Rightarrow> rex_loan \<Rightarrow> int" where "loan_val k l = amount (loan_balance l)"
definition staked_val :: "'k \<Rightarrow> rex_loan \<Rightarrow> int" where "staked_val k l = amount (total_staked l)"
definition share_val :: "'k \<Rightarrow> rex_balance \<Rightarrow> int" where "share_val k rb = amount (rex_bal rb)"
definition order_val :: "'k \<Rightarrow> rex_order \<Rightarrow> int" where
  "order_val k ord = (if is_open ord then 0 else amount (proceeds ord))"

definition lendable :: "sys_state \<Rightarrow> int" where
  "lendable s = (case rexpool s of None \<Rightarrow> 0 | Some rp \<Rightarrow> amount (total_lendable rp))"

definition rex_lent :: "sys_state \<Rightarrow> int" where
  "rex_lent s = (case rexpool s of None \<Rightarrow> 0 | Some rp \<Rightarrow> amount (total_lent rp))"

definition rex_shares :: "sys_state \<Rightarrow> int" where
  "rex_shares s = (case rexpool s of None \<Rightarrow> 0 | Some rp \<Rightarrow> amount (total_rex rp))"

lemmas pool_amounts = lendable_def rex_lent_def rex_shares_def

definition rex_owed :: "sys_state \<Rightarrow> int" where
  "rex_owed s = fmsum fund_val (rexfunds s) + fmsum loan_val (cpu_loans s) + fmsum loan_val (net_loans s)
     + lendable s + fmsum order_val (rexorders s)"

definition loan_ok :: "rex_loan \<Rightarrow> bool" where
  "loan_ok l \<longleftrightarrow> 0 \<le> amount (loan_balance l) \<and> 0 < amount (loan_payment l) \<and> amount (loan_payment l) \<le> rex_cap
     \<and> 0 < amount (total_staked l)"

definition pool_ok :: "symbol \<Rightarrow> rex_pool \<Rightarrow> bool" where
  "pool_ok core rp \<longleftrightarrow> amount (total_lendable rp) = amount (total_unlent rp) + amount (total_lent rp)
     \<and> 0 \<le> amount (total_unlent rp) \<and> 0 \<le> amount (total_lent rp)
     \<and> 0 \<le> amount (total_rent rp) \<and> amount (total_rent rp) \<le> 2 * rex_cap
     \<and> 0 \<le> amount (total_rex rp) \<and> amount (total_rex rp) \<le> rex_ratio * amount (total_lendable rp)
     \<and> (amount (total_rex rp) = 0 \<longrightarrow> amount (total_lendable rp) = 0)
     \<and> symb (namebid_proceeds rp) = core"

definition pool_fine :: "symbol \<Rightarrow> sys_state \<Rightarrow> bool" where
  "pool_fine core s \<longleftrightarrow> rex_lent s = fmsum staked_val (cpu_loans s) + fmsum staked_val (net_loans s)
     \<and> rex_shares s = fmsum share_val (rexbalance s) \<and> (\<forall>rp. rexpool s = Some rp \<longrightarrow> pool_ok core rp)"

definition rex_fine :: "symbol \<Rightarrow> sys_state \<Rightarrow> bool" where
  "rex_fine core s \<longleftrightarrow> (\<forall>n q. fmlookup (rexfunds s) n = Some q \<longrightarrow> 0 \<le> amount q)
     \<and> (\<forall>n l. fmlookup (cpu_loans s) n = Some l \<longrightarrow> loan_ok l) \<and> (\<forall>n l. fmlookup (net_loans s) n = Some l \<longrightarrow> loan_ok l)
     \<and> (\<forall>n rb. fmlookup (rexbalance s) n = Some rb \<longrightarrow> rb_ok rb)
     \<and> (\<forall>n ord. fmlookup (rexorders s) n = Some ord \<longrightarrow> \<not> is_open ord \<longrightarrow> 0 \<le> amount (proceeds ord))
     \<and> pool_fine core s"

definition order_fine :: "sys_state \<Rightarrow> name \<Rightarrow> bool" where
  "order_fine s n \<longleftrightarrow> (\<forall>ord. fmlookup (rexorders s) n = Some ord \<longrightarrow> is_open ord \<longrightarrow> 0 < amount (rex_requested ord)
     \<and> (\<exists>rb. fmlookup (rexbalance s) n = Some rb \<and> amount (rex_requested ord) \<le> matured_rex rb))"

definition rex_wf :: "symbol \<Rightarrow> sys_state \<Rightarrow> bool" where
  "rex_wf core s \<longleftrightarrow> rex_fine core s \<and> (\<forall>n. order_fine s n)"

lemma rex_fineD:
  assumes "rex_fine core s"
  shows "fmlookup (rexfunds s) n = Some q \<Longrightarrow> 0 \<le> amount q"
    "fmlookup (loans_of kind s) k = Some l \<Longrightarrow> loan_ok l"
    "fmlookup (rexbalance s) n = Some rb \<Longrightarrow> rb_ok rb"
    "fmlookup (rexorders s) n = Some ord \<Longrightarrow> \<not> is_open ord \<Longrightarrow> 0 \<le> amount (proceeds ord)"
    "pool_fine core s"
  using assms by (cases kind; auto simp: rex_fine_def)+

lemma rb_ok_share: "rb_ok rb \<Longrightarrow> 0 \<le> share_val n rb"
  using bucket_sum_nonneg [of "rex_maturities rb"] by (auto simp: rb_ok_def rb_fine_def rb_total_def share_val_def)

text \<open>All the parts of what is owed are non-negative, so each is bounded by the whole.\<close>

lemma loan_sums_nonneg:
  assumes "rex_fine core s"
  shows "0 \<le> fmsum loan_val (loans_of kind s)" "0 \<le> fmsum staked_val (loans_of kind s)"
proof -
  have "0 \<le> loan_val k l \<and> 0 \<le> staked_val k l" if "fmlookup (loans_of kind s) k = Some l" for k l
    using rex_fineD(2) [OF assms that] by (simp add: loan_val_def staked_val_def loan_ok_def)
  then show "0 \<le> fmsum loan_val (loans_of kind s)" "0 \<le> fmsum staked_val (loans_of kind s)"
    by (blast intro: fmsum_nonneg)+
qed

lemma rex_parts:
  assumes f: "rex_fine core s"
  shows "0 \<le> fmsum fund_val (rexfunds s)" "0 \<le> fmsum loan_val (cpu_loans s)" "0 \<le> fmsum loan_val (net_loans s)"
    "0 \<le> lendable s" "0 \<le> fmsum order_val (rexorders s)"
    "0 \<le> fmsum staked_val (cpu_loans s)" "0 \<le> fmsum staked_val (net_loans s)" "0 \<le> fmsum share_val (rexbalance s)"
proof -
  note d = rex_fineD [OF f]
  show "0 \<le> fmsum fund_val (rexfunds s)" by (rule fmsum_nonneg) (simp add: fund_val_def d(1))
  show "0 \<le> fmsum order_val (rexorders s)" by (rule fmsum_nonneg) (simp add: order_val_def d(4))
  show "0 \<le> fmsum loan_val (cpu_loans s)" "0 \<le> fmsum staked_val (cpu_loans s)"
    using loan_sums_nonneg [OF f, of CpuLoan] by simp_all
  show "0 \<le> fmsum loan_val (net_loans s)" "0 \<le> fmsum staked_val (net_loans s)"
    using loan_sums_nonneg [OF f, of NetLoan] by simp_all
  show "0 \<le> fmsum share_val (rexbalance s)" by (rule fmsum_nonneg) (rule rb_ok_share [OF d(3)])
  show "0 \<le> lendable s"
    using d(5) by (auto simp: lendable_def pool_fine_def pool_ok_def split: option.split)
qed

lemma loan_row_le:
  assumes f: "rex_fine core s" and l: "fmlookup (loans_of kind s) k = Some l"
  shows "amount (loan_balance l) \<le> fmsum loan_val (loans_of kind s)"
    "amount (total_staked l) \<le> fmsum staked_val (loans_of kind s)"
proof -
  have "0 \<le> loan_val k l \<and> 0 \<le> staked_val k l" if "fmlookup (loans_of kind s) k = Some l" for k l
    using rex_fineD(2) [OF f that] by (simp add: loan_val_def staked_val_def loan_ok_def)
  then have "loan_val k l \<le> fmsum loan_val (loans_of kind s)" "staked_val k l \<le> fmsum staked_val (loans_of kind s)"
    by (blast intro: fmsum_row_le [OF l])+
  then show "amount (loan_balance l) \<le> fmsum loan_val (loans_of kind s)"
    "amount (total_staked l) \<le> fmsum staked_val (loans_of kind s)" by (simp_all add: loan_val_def staked_val_def)
qed

lemma rex_row_bounds:
  assumes f: "rex_fine core s"
  shows "fmlookup (rexfunds s) n = Some q \<Longrightarrow> amount q \<le> rex_owed s"
    "fmlookup (loans_of kind s) k = Some l \<Longrightarrow> amount (loan_balance l) \<le> rex_owed s"
    "fmlookup (rexorders s) n = Some ord \<Longrightarrow> \<not> is_open ord \<Longrightarrow> amount (proceeds ord) \<le> rex_owed s"
    "lendable s \<le> rex_owed s" "0 \<le> rex_owed s"
proof -
  note d = rex_fineD [OF f] and p = rex_parts [OF f]
  show "lendable s \<le> rex_owed s" "0 \<le> rex_owed s" using p by (simp_all add: rex_owed_def)
  show "amount q \<le> rex_owed s" if "fmlookup (rexfunds s) n = Some q"
  proof -
    have "fund_val n q \<le> fmsum fund_val (rexfunds s)" by (rule fmsum_row_le [OF that]) (simp add: fund_val_def d(1))
    then show ?thesis using p by (simp add: rex_owed_def fund_val_def)
  qed
  show "amount (proceeds ord) \<le> rex_owed s" if "fmlookup (rexorders s) n = Some ord" "\<not> is_open ord"
  proof -
    have "order_val n ord \<le> fmsum order_val (rexorders s)" by (rule fmsum_row_le [OF that(1)]) (simp add: order_val_def d(4))
    then show ?thesis using p that(2) by (simp add: rex_owed_def order_val_def)
  qed
  show "amount (loan_balance l) \<le> rex_owed s" if "fmlookup (loans_of kind s) k = Some l"
    using loan_row_le(1) [OF f that] p by (cases kind) (simp_all add: rex_owed_def)
qed

lemma rex_pool_bounds:
  assumes f: "rex_fine core s" and rp: "rexpool s = Some rp"
  shows "pool_ok core rp" "fmlookup (loans_of kind s) k = Some l \<Longrightarrow> amount (total_staked l) \<le> amount (total_lent rp)"
    "fmlookup (rexbalance s) n = Some rb \<Longrightarrow> rb_total rb \<le> amount (total_rex rp)"
    "amount (total_lendable rp) = lendable s" "amount (total_rex rp) = fmsum share_val (rexbalance s)"
    "amount (total_lent rp) = fmsum staked_val (cpu_loans s) + fmsum staked_val (net_loans s)"
proof -
  note d = rex_fineD [OF f] and p = rex_parts [OF f]
  have po: "pool_ok core rp" "amount (total_lent rp) = fmsum staked_val (cpu_loans s) + fmsum staked_val (net_loans s)"
    "amount (total_rex rp) = fmsum share_val (rexbalance s)" using d(5) rp by (auto simp: pool_fine_def pool_amounts)
  then show "pool_ok core rp" "amount (total_rex rp) = fmsum share_val (rexbalance s)"
    "amount (total_lent rp) = fmsum staked_val (cpu_loans s) + fmsum staked_val (net_loans s)" by auto
  show "amount (total_lendable rp) = lendable s" by (simp add: lendable_def rp)
  show "rb_total rb \<le> amount (total_rex rp)" if n: "fmlookup (rexbalance s) n = Some rb"
  proof -
    have "share_val n rb \<le> fmsum share_val (rexbalance s)"
      by (rule fmsum_row_le [OF n]) (rule rb_ok_share [OF d(3)])
    then show ?thesis using d(3) [OF n] po(3) by (simp add: rb_ok_def share_val_def)
  qed
  show "amount (total_staked l) \<le> amount (total_lent rp)" if "fmlookup (loans_of kind s) k = Some l"
    using loan_row_le(2) [OF f that] p po(2) by (cases kind) simp_all
qed

lemma shares_worth:
  assumes f: "rex_fine core s"
  shows "0 \<le> rex_shares s" "rex_shares s \<le> rex_ratio * lendable s" "rex_shares s \<noteq> 0 \<Longrightarrow> 0 < lendable s"
    "rex_shares s = 0 \<Longrightarrow> lendable s = 0"
proof -
  have "0 \<le> rex_shares s \<and> rex_shares s \<le> rex_ratio * lendable s \<and> (rex_shares s = 0 \<longrightarrow> lendable s = 0)"
  proof (cases "rexpool s")
    case (Some rp)
    from rex_pool_bounds(1) [OF f this] show ?thesis unfolding pool_ok_def pool_amounts Some option.case by blast
  qed (simp add: pool_amounts)
  then show "0 \<le> rex_shares s" "rex_shares s \<le> rex_ratio * lendable s" "rex_shares s = 0 \<Longrightarrow> lendable s = 0"
    "rex_shares s \<noteq> 0 \<Longrightarrow> 0 < lendable s" by (auto simp: rex_ratio_def)
qed

text \<open>The tables of REX decide; what is not in them does not matter.\<close>

lemma rb_view_row:
  assumes "fmmap rb_view m' = fmmap rb_view m" "fmlookup m' n = Some rb'"
  obtains rb where "fmlookup m n = Some rb" "rex_bal rb = rex_bal rb'" "matured_rex rb = matured_rex rb'"
    "rex_maturities rb = rex_maturities rb'"
proof -
  have "map_option rb_view (fmlookup m n) = Some (rb_view rb')"
    using assms by (metis fmlookup_map option.simps(9))
  then show ?thesis using that by (auto simp: rb_view_def)
qed

lemma share_sum_view:
  assumes "fmmap rb_view m' = fmmap rb_view m" shows "fmsum share_val m' = fmsum share_val m"
proof -
  have e: "fmsum share_val x = fmsum (\<lambda>_ v. amount (fst v)) (fmmap rb_view x)" for x
  proof -
    have "fmdom' (fmmap rb_view x) = fmdom' x" by (auto simp: fmlookup_dom'_iff)
    then show ?thesis unfolding fmsum_def by (intro sum.cong) (auto simp: fmlookup_dom'_iff share_val_def rb_view_def)
  qed
  show ?thesis using e [of m'] e [of m] assms by simp
qed

lemma rex_same:
  assumes sm: "same Rexing s s'"
  shows "rex_owed s' = rex_owed s" "rex_fine core s \<Longrightarrow> rex_fine core s'" "order_fine s n \<Longrightarrow> order_fine s' n"
    "rex_wf core s \<Longrightarrow> rex_wf core s'"
proof -
  have e: "rexpool s' = rexpool s" "rexfunds s' = rexfunds s" "rexorders s' = rexorders s" "cpu_loans s' = cpu_loans s"
    "net_loans s' = net_loans s" and v: "fmmap rb_view (rexbalance s') = fmmap rb_view (rexbalance s)"
    using sm by auto
  show o: "rex_owed s' = rex_owed s" by (simp add: rex_owed_def lendable_def e)
  show f: "rex_fine core s'" if "rex_fine core s" for core
  proof -
    have "rb_ok rb'" if r: "fmlookup (rexbalance s') k = Some rb'" for k rb'
    proof -
      obtain rb where "fmlookup (rexbalance s) k = Some rb" "rex_bal rb = rex_bal rb'" "matured_rex rb = matured_rex rb'"
        "rex_maturities rb = rex_maturities rb'" by (rule rb_view_row [OF v r])
      then show ?thesis using rex_fineD(3) [OF \<open>rex_fine core s\<close>, of k rb] by (simp add: rb_ok_def rb_fine_def rb_total_def)
    qed
    then show ?thesis using that share_sum_view [OF v] by (simp add: rex_fine_def pool_fine_def pool_amounts e)
  qed
  show g: "order_fine s' n" if g0: "order_fine s n" for n
    unfolding order_fine_def
  proof (intro allI impI)
    fix ord assume "fmlookup (rexorders s') n = Some ord" "is_open ord"
    then obtain rb where rb: "fmlookup (rexbalance s) n = Some rb" "amount (rex_requested ord) \<le> matured_rex rb"
      "0 < amount (rex_requested ord)" using g0 by (auto simp: order_fine_def e)
    obtain rb' where "fmlookup (rexbalance s') n = Some rb'" "matured_rex rb' = matured_rex rb"
      using rb_view_row [OF v [symmetric] rb(1)] by metis
    then show "0 < amount (rex_requested ord)
       \<and> (\<exists>rb. fmlookup (rexbalance s') n = Some rb \<and> amount (rex_requested ord) \<le> matured_rex rb)" using rb by auto
  qed
  show "rex_wf core s'" if "rex_wf core s" using that f g by (auto simp: rex_wf_def)
qed

lemma rex_view: "view s' = view s \<Longrightarrow> same Rexing s s'"
  unfolding same.simps using viewD [of s' s] by blast

section \<open>The price\<close>

text \<open>
  The price of a REX is what is lendable by the REX there are. It is at least \<open>x / y\<close> when
  \<open>rex_shares s * x \<le> lendable s * y\<close>; a procedure that does not let it fall keeps every such bound.
\<close>

definition pricier :: "sys_state \<Rightarrow> sys_state \<Rightarrow> bool" where
  "pricier s s' \<longleftrightarrow> (\<forall>x y. 0 \<le> x \<longrightarrow> 0 \<le> y \<longrightarrow> rex_shares s * x \<le> lendable s * y \<longrightarrow> rex_shares s' * x \<le> lendable s' * y)"

lemma pricier_refl [simp]: "pricier s s"
  by (simp add: pricier_def)

lemma pricier_trans: "pricier s s1 \<Longrightarrow> pricier s1 s2 \<Longrightarrow> pricier s s2"
  by (simp add: pricier_def)

lemma pricier_grows: "rex_shares s' = rex_shares s \<Longrightarrow> lendable s \<le> lendable s' \<Longrightarrow> pricier s s'"
  by (auto simp: pricier_def intro: order_trans mult_right_mono)

lemma pricier_pool: "rexpool s' = rexpool s \<Longrightarrow> pricier s s'"
  by (rule pricier_grows) (simp_all add: pool_amounts)

lemma pricier_ratio:
  assumes "rex_shares s' * lendable s \<le> lendable s' * rex_shares s" "0 < lendable s" "0 \<le> lendable s'"
  shows "pricier s s'"
  unfolding pricier_def
proof (intro allI impI)
  fix x y assume x: "0 \<le> x" "rex_shares s * x \<le> lendable s * y"
  have "rex_shares s' * lendable s * x \<le> lendable s' * rex_shares s * x" using assms(1) x(1) by (rule mult_right_mono)
  also have "\<dots> = lendable s' * (rex_shares s * x)" by simp
  also have "\<dots> \<le> lendable s' * (lendable s * y)" using x(2) assms(3) by (rule mult_left_mono)
  finally have "lendable s * (rex_shares s' * x) \<le> lendable s * (lendable s' * y)" by (simp add: algebra_simps)
  then show "rex_shares s' * x \<le> lendable s' * y" using assms(2) by simp
qed

section \<open>Funds\<close>

text \<open>
  A procedure that moves \<open>d\<close> tokens into what REX owes keeps the tables consistent, and orders
  covered by matured REX stay so; it does not let the price fall.
\<close>

definition rex_step :: "symbol \<Rightarrow> int \<Rightarrow> sys_state \<Rightarrow> sys_state \<Rightarrow> bool" where
  "rex_step core d s s' \<longleftrightarrow> rex_fine core s' \<and> rex_owed s' = rex_owed s + d
     \<and> (\<forall>n. order_fine s n \<longrightarrow> order_fine s' n) \<and> pricier s s'"

lemma rex_step_trans: "rex_step core d s s1 \<Longrightarrow> rex_step core e s1 s2 \<Longrightarrow> rex_step core (d + e) s s2"
  by (auto simp: rex_step_def intro: pricier_trans)

lemma rex_step_same: "rex_fine core s \<Longrightarrow> same Rexing s s' \<Longrightarrow> rex_step core 0 s s'"
  using rex_same [of s s'] by (simp add: rex_step_def pricier_pool)

lemma rex_stepD:
  assumes "rex_step core d s s'"
  shows "rex_fine core s'" "rex_owed s' = rex_owed s + d" "order_fine s n \<Longrightarrow> order_fine s' n"
    "rex_wf core s \<Longrightarrow> rex_wf core s'" "pricier s s'"
  using assms by (auto simp: rex_step_def rex_wf_def)

lemma cap_fits [int_simps]: "0 \<le> x \<Longrightarrow> x \<le> rex_cap \<Longrightarrow> i64 x = x"
  by (rule i64_fits) (simp_all add: rex_cap_def)

lemma funds_step:
  assumes w: "rex_fine core s" and f: "0 \<le> amount q"
  shows "rex_step core (amount q - row_val fund_val n (fmlookup (rexfunds s) n)) s
    (s\<lparr>rexfunds := fmupd n q (rexfunds s)\<rparr>)"
proof -
  let ?s = "s\<lparr>rexfunds := fmupd n q (rexfunds s)\<rparr>"
  have "rex_fine core ?s"
    using w f by (auto simp: rex_fine_def pool_fine_def pool_amounts)
  then show ?thesis
    by (simp add: rex_step_def order_fine_def rex_owed_def lendable_def fmsum_upd fund_val_def pricier_pool)
qed

lemma from_fund_step:
  assumes ok: "asset_ops_ok c" and w: "rex_fine core s" and le: "rex_owed s \<le> rex_cap"
    and u: "transfer_from_fund c n q s = Inr s'"
  shows "rex_step core (- amount q) s s'" "0 < amount q" "amount q \<le> rex_owed s"
proof -
  from u obtain fund where f: "fmlookup (rexfunds s) n = Some fund" and q: "0 < amount q" "amount q \<le> amount fund"
    and s': "s' = s\<lparr>rexfunds := fmupd n (fund\<lparr>amount := i64 (amount fund - amount q)\<rparr>) (rexfunds s)\<rparr>"
    unfolding transfer_from_fund_def res_simps using asset_leD [OF ok] by (auto simp: res_simps)
  note b = rex_row_bounds(1) [OF w f]
  have i: "i64 (amount fund - amount q) = amount fund - amount q" using q b le by (intro cap_fits) auto
  show "rex_step core (- amount q) s s'"
    using funds_step [OF w, of "fund\<lparr>amount := amount fund - amount q\<rparr>" n] q by (simp add: s' i f fund_val_def)
  show "0 < amount q" "amount q \<le> rex_owed s" using q b by auto
qed

lemma to_fund_step:
  assumes w: "rex_fine core s" and le: "rex_owed s + amount q \<le> rex_cap"
    and u: "transfer_to_fund c n q s = Inr s'"
  shows "rex_step core (amount q) s s'" "0 < amount q"
proof -
  from u have q: "0 < amount q" and s': "s' = s\<lparr>rexfunds := fmupd n (case fmlookup (rexfunds s) n of
         None \<Rightarrow> q | Some fund \<Rightarrow> fund\<lparr>amount := i64 (amount fund + amount q)\<rparr>) (rexfunds s)\<rparr>"
    unfolding transfer_to_fund_def by (auto simp: res_simps)
  show "rex_step core (amount q) s s'"
  proof (cases "fmlookup (rexfunds s) n")
    case None
    then show ?thesis using funds_step [OF w, of q n] q by (simp add: s')
  next
    case (Some fund)
    have "0 \<le> amount fund" "amount fund \<le> rex_owed s"
      using rex_fineD(1) [OF w Some] rex_row_bounds(1) [OF w Some] by auto
    then have "i64 (amount fund + amount q) = amount fund + amount q" using q le by (intro cap_fits) auto
    then show ?thesis
      using funds_step [OF w, of "fund\<lparr>amount := amount fund + amount q\<rparr>" n] q \<open>0 \<le> amount fund\<close>
      by (simp add: s' Some fund_val_def)
  qed
  show "0 < amount q" by (rule q)
qed

section \<open>Shares\<close>

lemma muldiv_exact:
  assumes m: "muldiv a b d = Inr x" and r: "0 \<le> a" "a < 9223372036854775808" "0 \<le> b" "b < 9223372036854775808"
    "0 < d" "d < 9223372036854775808" "a * b div d < 9223372036854775808"
  shows "x = a * b div d"
proof -
  have "a * b < 9223372036854775808 * 9223372036854775808"
    using r by (intro mult_strict_mono) auto
  then have "u128 (a * b) = a * b" using r by (simp add: u128_def)
  moreover have "u128 a = a" "u128 b = b" "u128 d = d" using r by (simp_all add: u128_def)
  moreover have "0 \<le> a * b div d" using r by (simp add: pos_imp_zdiv_nonneg_iff)
  ultimately show ?thesis using m r(7) by (simp add: muldiv_def i64_fits)
qed

text \<open>What shares are worth, and the shares a payment buys, rounded down in both cases.\<close>

lemma price_bounds:
  fixes S R x :: int
  assumes "0 < R" "0 \<le> x" "x \<le> R" "0 \<le> S" "R \<le> rex_ratio * S"
  shows "0 \<le> x * S div R" "x * S div R \<le> S" "R - x \<le> rex_ratio * (S - x * S div R)" "x = R \<Longrightarrow> x * S div R = S"
proof -
  let ?p = "x * S div R"
  show nn: "0 \<le> ?p" using assms by (simp add: pos_imp_zdiv_nonneg_iff)
  have pr: "?p * R \<le> x * S" using assms(1) by (simp add: minus_mod_eq_div_mult [symmetric])
  also have "\<dots> \<le> R * S" using assms by (intro mult_right_mono) auto
  finally have "R * ?p \<le> R * S" by (simp add: mult.commute)
  then show "?p \<le> S" using assms(1) by simp
  have "R * (R - x) \<le> rex_ratio * S * (R - x)" using assms by (intro mult_right_mono) auto
  also have "\<dots> = rex_ratio * (S * R - x * S)" by (simp add: algebra_simps)
  also have "\<dots> \<le> rex_ratio * (S * R - ?p * R)" using pr by (intro mult_left_mono) (auto simp: rex_ratio_def)
  finally have "R * (R - x) \<le> R * (rex_ratio * (S - ?p))" by (simp add: algebra_simps)
  then show "R - x \<le> rex_ratio * (S - ?p)" using assms(1) by simp
  show "?p = S" if "x = R" using that assms(1) by simp
qed

lemma bought_bounds:
  fixes S R q :: int
  assumes "0 < R" "0 < S" "0 \<le> q" "R \<le> rex_ratio * S"
  shows "R \<le> (S + q) * R div S" "(S + q) * R div S \<le> rex_ratio * (S + q)"
proof -
  have "S * R div S \<le> (S + q) * R div S" using assms by (intro zdiv_mono1) auto
  then show "R \<le> (S + q) * R div S" using assms by simp
  have "(S + q) * R \<le> (S + q) * (rex_ratio * S)" using assms by (intro mult_left_mono) auto
  then have "(S + q) * R div S \<le> rex_ratio * (S + q) * S div S"
    using assms by (intro zdiv_mono1) (auto simp: algebra_simps)
  then show "(S + q) * R div S \<le> rex_ratio * (S + q)" using assms by simp
qed

text \<open>A purchase: the pool takes the payment in and issues shares, which go to the buyer.\<close>

lemma add_pool_step:
  assumes ok: "asset_ops_ok c" and rf: "rex_fine core s" and cs: "core_sym s = Some core"
    and q: "0 < amount q" "rex_owed s + amount q \<le> rex_cap" and u: "add_to_rex_pool c q s = Inr (received, s')"
  obtains rp where "s' = s\<lparr>rexpool := Some rp\<rparr>" "pool_ok core rp" "amount (total_lent rp) = rex_lent s"
    "amount (total_lendable rp) = lendable s + amount q" "amount (total_rex rp) = rex_shares s + amount received"
    "0 \<le> amount received" "amount (total_rex rp) \<le> 4600000000000000000"
    "rex_shares s \<noteq> 0 \<longrightarrow> amount (total_rex rp) * lendable s \<le> (lendable s + amount q) * rex_shares s"
proof -
  note le = rex_row_bounds(4) [OF rf] rex_parts(4) [OF rf]
  have ratio: "i64 (amount q * rex_ratio) = amount q * rex_ratio" and i: "i64 (amount q) = amount q"
    using q le by (auto intro!: i64_fits simp: rex_ratio_def rex_cap_def)
  show ?thesis
  proof (cases "rexpool s")
    case None
    from u [unfolded add_to_rex_pool_def None option.case Let_def bindr_Inr core_asset_Inr ratio sum.inject prod.inject]
    obtain rent z zero unlent sx sy where "asset_new c 200000000 sx = Inr rent" and z0: "core_sym s = Some sy" "asset_new c 0 sy = Inr zero"
      and "asset_sub c q zero = Inr unlent" and r0: "z\<lparr>amount := amount q * rex_ratio\<rparr> = received"
      and s': "s\<lparr>rexpool := Some \<lparr>total_lent = zero, total_unlent = unlent, total_rent = rent,
           total_lendable = q, total_rex = z\<lparr>amount := amount q * rex_ratio\<rparr>, namebid_proceeds = zero, next_loan_num = 0\<rparr>\<rparr> = s'"
      by blast
    then have "amount unlent = amount q - amount zero" "amount zero = 0" "symb zero = core" "amount rent = 200000000"
      "amount received = amount q * rex_ratio"
      using cs by (auto simp: asset_subD [OF ok] asset_newD [OF ok])
    then show ?thesis using q le
      by (intro that [OF s' [symmetric]]) (auto simp: pool_ok_def pool_amounts None rex_ratio_def rex_cap_def)
  next
    case (Some rp)
    note po = rex_pool_bounds(1) [OF rf Some] and se = rex_pool_bounds(4) [OF rf Some]
    have sums: "amount (total_lent rp) = rex_lent s" "amount (total_rex rp) = rex_shares s" by (simp_all add: pool_amounts Some)
    show ?thesis
    proof (cases "0 < amount (total_rex rp)")
      case False
      then have e: "amount (total_rex rp) = 0" "amount (total_lendable rp) = 0" "amount (total_lent rp) = 0"
        using po by (auto simp: pool_ok_def)
      from u [unfolded add_to_rex_pool_def Some option.case Let_def bindr_Inr core_asset_Inr ratio if_P [OF False] diff_zero i sum.inject prod.inject]
      obtain rent z sy where "asset_new c 200000000 sy = Inr rent" and "z\<lparr>amount := amount q * rex_ratio\<rparr> = received"
        and s': "s\<lparr>rexpool := Some (rp\<lparr>
             total_lendable := (total_lendable rp)\<lparr>amount := amount q\<rparr>, total_lent := (total_lent rp)\<lparr>amount := 0\<rparr>,
             total_unlent := (total_unlent rp)\<lparr>amount := amount q\<rparr>, total_rent := (total_rent rp)\<lparr>amount := amount rent\<rparr>,
             total_rex := (total_rex rp)\<lparr>amount := amount (z\<lparr>amount := amount q * rex_ratio\<rparr>)\<rparr>\<rparr>)\<rparr> = s'"
        by blast
      then have "amount rent = 200000000" "amount received = amount q * rex_ratio" by (auto simp: asset_newD [OF ok])
      then show ?thesis using q le e po se sums
        by (intro that [OF s' [symmetric]]) (auto simp: pool_ok_def rex_ratio_def rex_cap_def)
    next
      case True
      let ?S = "amount (total_lendable rp)" and ?R = "amount (total_rex rp)" and ?L = "amount (total_lent rp)"
      have S: "0 \<le> ?S" "?S + amount q \<le> rex_cap" "0 \<le> ?L" "?L \<le> ?S" "?R \<le> rex_ratio * ?S"
        using po le q se by (auto simp: pool_ok_def)
      then have s1: "i64 (?S + amount q) = ?S + amount q" "i64 (?S + amount q - ?L) = ?S + amount q - ?L"
        using q by (auto intro!: cap_fits)
      from u [unfolded add_to_rex_pool_def Some option.case Let_def bindr_Inr core_asset_Inr if_not_P [OF True [THEN not_not [THEN iffD2]]] s1 check_Inr sum.inject prod.inject]
      obtain z R1 where S0: "0 < ?S" and m: "muldiv (?S + amount q) ?R ?S = Inr R1"
        and r: "z\<lparr>amount := i64 (R1 - ?R)\<rparr> = received" and s': "s\<lparr>rexpool := Some (rp\<lparr>
             total_lendable := (total_lendable rp)\<lparr>amount := ?S + amount q\<rparr>, total_rex := (total_rex rp)\<lparr>amount := R1\<rparr>,
             total_unlent := (total_unlent rp)\<lparr>amount := ?S + amount q - ?L\<rparr>\<rparr>)\<rparr> = s'"
        by blast
      note b = bought_bounds [OF True S0 less_imp_le [OF q(1)] S(5)]
      have "(?S + amount q) * ?R div ?S \<le> 4600000000000000000" using b(2) S(2) by (simp add: rex_ratio_def rex_cap_def)
      moreover from this have "R1 = (?S + amount q) * ?R div ?S"
        using S S0 q True b by (auto intro!: muldiv_exact [OF m] simp: rex_cap_def rex_ratio_def)
      ultimately have R1: "R1 = (?S + amount q) * ?R div ?S" "R1 \<le> 4600000000000000000" by auto
      then have "i64 (R1 - ?R) = R1 - ?R" using b True by (auto intro!: i64_fits)
      with r have rec: "amount received = R1 - ?R" by auto
      have "0 < R1" using True b(1) R1(1) by simp
      moreover have "R1 * ?S \<le> (?S + amount q) * ?R"
        unfolding R1(1) using S0 by (simp add: minus_mod_eq_div_mult [symmetric])
      ultimately show ?thesis using b R1 S q po se sums rec
        by (intro that [OF s' [symmetric]]) (auto simp: pool_ok_def)
    qed
  qed
qed

lemma add_balance_step:
  assumes u: "add_to_rex_balance c n q received s = Inr (d, s')"
    and row: "\<And>rb. fmlookup (rexbalance s) n = Some rb \<Longrightarrow> rb_ok rb" and r: "0 \<le> amount received"
    and t: "row_val share_val n (fmlookup (rexbalance s) n) + amount received < 9223372036854775808"
  obtains rb' where "s' = s\<lparr>rexbalance := fmupd n rb' (rexbalance s)\<rparr>" "rb_ok rb'"
    "share_val n rb' = row_val share_val n (fmlookup (rexbalance s) n) + amount received"
    "\<forall>rb. fmlookup (rexbalance s) n = Some rb \<longrightarrow> matured_rex rb \<le> matured_rex rb'"
proof (rule add_to_rex_balance_parts [OF u])
  fix rb0 sav rb1
  assume sv: "read_rex_savings rb0 = (sav, rb1)"
    and u: "s' = s\<lparr>rexbalance := fmupd n (put_rex_savings sav (add_bucket (get_rex_maturity c) (amount received)
       (process_rex_maturities c rb1))) (rexbalance s)\<rparr>"
    and k0: "case fmlookup (rexbalance s) n of
       None \<Rightarrow> rb0 = \<lparr>vote_stake = q, rex_bal = received, matured_rex = 0, rex_maturities = []\<rparr>
     | Some rb \<Rightarrow> matured_rex rb0 = matured_rex rb \<and> rex_maturities rb0 = rex_maturities rb
         \<and> amount (rex_bal rb0) = i64 (amount (rex_bal rb) + amount received)"
  define rb2 where "rb2 = process_rex_maturities c rb1"
  define rb3 where "rb3 = add_bucket (get_rex_maturity c) (amount received) rb2"
  define rb4 where "rb4 = put_rex_savings sav rb3"
  have s': "s' = s\<lparr>rexbalance := fmupd n rb4 (rexbalance s)\<rparr>" by (simp add: u rb2_def rb3_def rb4_def)
  have rb0: "rb_fine rb0" "rb_total rb0 = row_val share_val n (fmlookup (rexbalance s) n)"
    "amount (rex_bal rb0) = rb_total rb0 + amount received"
    "\<And>rb. fmlookup (rexbalance s) n = Some rb \<Longrightarrow> matured_rex rb = matured_rex rb0"
  proof -
    have "rb_fine rb0 \<and> rb_total rb0 = row_val share_val n (fmlookup (rexbalance s) n)
      \<and> amount (rex_bal rb0) = rb_total rb0 + amount received
      \<and> (\<forall>rb. fmlookup (rexbalance s) n = Some rb \<longrightarrow> matured_rex rb = matured_rex rb0)"
    proof (cases "fmlookup (rexbalance s) n")
      case None
      with k0 show ?thesis by (auto simp: rb_fine_def rb_total_def)
    next
      case (Some rb)
      then have f: "rb_ok rb" by (rule row)
      then have "0 \<le> share_val n rb" by (rule rb_ok_share)
      then have "i64 (amount (rex_bal rb) + amount received) = amount (rex_bal rb) + amount received"
        using t r Some by (intro i64_fits) (auto simp: share_val_def)
      then show ?thesis using k0 Some f
        by (auto simp: with_pool_def res_simps Let_def rb_ok_def rb_fine_def rb_total_def share_val_def)
    qed
    then show "rb_fine rb0" "rb_total rb0 = row_val share_val n (fmlookup (rexbalance s) n)"
      "amount (rex_bal rb0) = rb_total rb0 + amount received"
      "\<And>rb. fmlookup (rexbalance s) n = Some rb \<Longrightarrow> matured_rex rb = matured_rex rb0" by auto
  qed
  note v = read_savings_keeps [OF sv]
  have v1: "rb_fine rb1" "0 \<le> sav" "rb_total rb1 + amount received + sav < 9223372036854775808"
    using v(2) rb0(1,2) v(1) t by auto
  then have "rb_total rb1 < 9223372036854775808" using r by simp
  note p = process_maturities_keeps [OF v1(1) this, of c, folded rb2_def]
  have "rb_total rb2 + amount received < 9223372036854775808" using p(2) v1 by simp
  note b = add_bucket_keeps [OF p(1) r this, of "get_rex_maturity c", folded rb3_def]
  have "rb_total rb3 + sav < 9223372036854775808" using b(2) p(2) v1 by simp
  note w = put_savings_keeps [OF b(1) v1(2) this, folded rb4_def]
  show ?thesis
  proof (rule that [OF s'])
    show "rb_ok rb4" "share_val n rb4 = row_val share_val n (fmlookup (rexbalance s) n) + amount received"
      using w b p v rb0 by (auto simp: rb_ok_def share_val_def)
    show "\<forall>rb. fmlookup (rexbalance s) n = Some rb \<longrightarrow> matured_rex rb \<le> matured_rex rb4"
      using w(3) b(3) p(3) v(3) rb0(4) by auto
  qed
qed

lemma buy_step:
  assumes ok: "asset_ops_ok c" and rf: "rex_fine core s" and cs: "core_sym s = Some core"
    and q: "0 < amount q" "rex_owed s + amount q \<le> rex_cap"
    and u: "add_to_rex_pool c q s = Inr (received, s1)" "add_to_rex_balance c n q received s1 = Inr (d, s')"
  shows "rex_fine core s'" "rex_owed s' = rex_owed s + amount q" "order_fine s k \<Longrightarrow> order_fine s' k"
    "rex_shares s \<noteq> 0 \<Longrightarrow> pricier s s'"
proof -
  obtain rp where s1: "s1 = s\<lparr>rexpool := Some rp\<rparr>" and po: "pool_ok core rp" "amount (total_lent rp) = rex_lent s"
    "amount (total_lendable rp) = lendable s + amount q" "amount (total_rex rp) = rex_shares s + amount received"
    "0 \<le> amount received" "amount (total_rex rp) \<le> 4600000000000000000"
    and pr: "rex_shares s \<noteq> 0 \<longrightarrow> amount (total_rex rp) * lendable s \<le> (lendable s + amount q) * rex_shares s"
    by (rule add_pool_step [OF ok rf cs q u(1)])
  have pf: "rex_lent s = fmsum staked_val (cpu_loans s) + fmsum staked_val (net_loans s)"
    "rex_shares s = fmsum share_val (rexbalance s)" using rf by (auto simp: rex_fine_def pool_fine_def)
  have "row_val share_val n (fmlookup (rexbalance s) n) \<le> rex_shares s"
  proof (cases "fmlookup (rexbalance s) n")
    case None
    then show ?thesis using pf rex_parts(8) [OF rf] by simp
  next
    case (Some rb)
    have "share_val n rb \<le> fmsum share_val (rexbalance s)"
      by (rule fmsum_row_le [OF Some]) (rule rb_ok_share [OF rex_fineD(3) [OF rf]])
    then show ?thesis using pf Some by simp
  qed
  then have t: "row_val share_val n (fmlookup (rexbalance s1) n) + amount received < 9223372036854775808"
    using po by (simp add: s1)
  have row: "rb_ok rb" if "fmlookup (rexbalance s1) n = Some rb" for rb using rex_fineD(3) [OF rf] that by (simp add: s1)
  obtain rb' where s': "s' = s1\<lparr>rexbalance := fmupd n rb' (rexbalance s1)\<rparr>" and rb: "rb_ok rb'"
    "share_val n rb' = row_val share_val n (fmlookup (rexbalance s1) n) + amount received"
    and m: "\<forall>rb. fmlookup (rexbalance s1) n = Some rb \<longrightarrow> matured_rex rb \<le> matured_rex rb'"
    by (rule add_balance_step [OF u(2) row po(5) t])
  show "rex_fine core s'"
    using rf rb po pf by (auto simp: rex_fine_def pool_fine_def s' s1 fmsum_upd pool_amounts)
  show "order_fine s' k" if o: "order_fine s k"
  proof (cases "k = n")
    case True
    then show ?thesis using o m by (fastforce simp: order_fine_def s' s1)
  next
    case False
    then show ?thesis using o by (simp add: order_fine_def s' s1)
  qed
  show "rex_owed s' = rex_owed s + amount q" using po by (simp add: rex_owed_def s' s1 pool_amounts)
  have e: "rex_shares s' = amount (total_rex rp)" "lendable s' = lendable s + amount q" using po by (simp_all add: s' s1 pool_amounts)
  show "pricier s s'" if "rex_shares s \<noteq> 0"
  proof (rule pricier_ratio)
    show "0 < lendable s" using shares_worth(3) [OF rf] that by simp
  qed (use that pr e q(1) rex_parts(4) [OF rf] in auto)
qed

text \<open>A sale takes shares out of the matured REX of the seller, at the price of the pool.\<close>

lemma fill_step:
  assumes ok: "asset_ops_ok c" and rf: "rex_fine core s" and le: "rex_owed s \<le> rex_cap"
    and rb: "fmlookup (rexbalance s) n = Some rb" and x: "0 < amount q" "amount q \<le> matured_rex rb"
    and u: "fill_rex_order c n q s = Inr (out, s')" and sc: "success out"
  shows "rex_fine core s'" "rex_owed s' = rex_owed s - amount (out_proceeds out)" "0 \<le> amount (out_proceeds out)"
    "rexorders s' = rexorders s" "\<And>k. k \<noteq> n \<Longrightarrow> order_fine s k \<Longrightarrow> order_fine s' k"
    "\<exists>rb'. fmlookup (rexbalance s') n = Some rb' \<and> matured_rex rb' = matured_rex rb - amount q" "pricier s s'"
proof -
  have row: "rb_ok rb" by (rule rex_fineD(3) [OF rf rb])
  obtain rp where rp: "rexpool s = Some rp"
    using u by (auto simp: fill_rex_order_def with_pool_def res_simps)
  note po = rex_pool_bounds(1) [OF rf rp] and pf = rex_pool_bounds(4-6) [OF rf rp]
  let ?S = "amount (total_lendable rp)" and ?R = "amount (total_rex rp)" and ?L = "amount (total_lent rp)"
    and ?low = "i64 (u128 (2 * u128 (amount (total_lent rp))) div 10)"
  define p where "p = amount q * ?S div ?R"
  have tot: "matured_rex rb \<le> rb_total rb" "rb_total rb \<le> ?R"
    using row bucket_sum_nonneg rex_pool_bounds(3) [OF rf rp rb] by (auto simp: rb_ok_def rb_fine_def rb_total_def)
  have S: "0 \<le> ?S" "?S \<le> rex_cap" "0 \<le> ?L" "?L \<le> ?S" "?R \<le> rex_ratio * ?S" "0 < ?R" "amount q \<le> ?R"
    using po pf le x tot rex_row_bounds(4) [OF rf] by (auto simp: pool_ok_def)
  have R: "?R \<le> 4600000000000000000" using S by (simp add: rex_ratio_def rex_cap_def)
  note pb = price_bounds [OF S(6) less_imp_le [OF x(1)] S(7) S(1) S(5), folded p_def]
  have low: "0 \<le> ?low" "?low \<le> rex_cap"
  proof -
    have "u128 (2 * u128 ?L) = 2 * ?L" using S by (simp add: u128_def rex_cap_def)
    moreover have "i64 (2 * ?L div 10) = 2 * ?L div 10" using S by (intro cap_fits) auto
    ultimately show "0 \<le> ?low" "?low \<le> rex_cap" using S by auto
  qed
  from u [unfolded fill_rex_order_def with_pool_def rp rb the_row_simps Let_def bindr_Inr core_asset_Inr]
  obtain p' pr ch sx where m: "muldiv (amount q) ?S ?R = Inr p'" and pr: "asset_new c p' sx = Inr pr"
    and k: "(if p' \<le> i64 (amount (total_unlent rp) - ?low) then
       bindr (muldiv (amount (rex_bal rb)) ?S ?R) (\<lambda>cur.
       Inr (\<lparr>success = True, out_proceeds = pr,
              out_stake_change = ch\<lparr>amount := i64 (i64 (cur - p') - amount (vote_stake rb))\<rparr>\<rparr>,
            s\<lparr>rexpool := Some (rp\<lparr>total_rex := (total_rex rp)\<lparr>amount := i64 (?R - amount q)\<rparr>,
             total_lendable := (total_lendable rp)\<lparr>amount := i64 (?S - p')\<rparr>,
             total_unlent := (total_unlent rp)\<lparr>amount := i64 (i64 (?S - p') - ?L)\<rparr>\<rparr>),
              rexbalance := fmupd n (rb\<lparr>vote_stake := (vote_stake rb)\<lparr>amount := i64 (cur - p')\<rparr>,
             rex_bal := (rex_bal rb)\<lparr>amount := i64 (amount (rex_bal rb) - amount q)\<rparr>,
             matured_rex := i64 (matured_rex rb - amount q)\<rparr>) (rexbalance s)\<rparr>))
     else Inr (\<lparr>success = False, out_proceeds = pr\<lparr>amount := 0\<rparr>, out_stake_change = ch\<rparr>, s)) = Inr (out, s')"
    by blast
  have p': "p' = p" unfolding p_def
    using S R x pb by (intro muldiv_exact [OF m]) (auto simp: rex_cap_def p_def)
  have c1: "p' \<le> i64 (amount (total_unlent rp) - ?low)"
  proof (rule ccontr)
    assume f: "\<not> p' \<le> i64 (amount (total_unlent rp) - ?low)"
    from k [unfolded if_not_P [OF f]] have "success out = False" by auto
    then show False using sc by simp
  qed
  from k [unfolded if_P [OF c1] bindr_Inr sum.inject prod.inject] obtain st ch' where
    out: "\<lparr>success = True, out_proceeds = pr, out_stake_change = ch'\<rparr> = out"
    and s': "s\<lparr>rexpool := Some (rp\<lparr>total_rex := (total_rex rp)\<lparr>amount := i64 (?R - amount q)\<rparr>,
             total_lendable := (total_lendable rp)\<lparr>amount := i64 (?S - p')\<rparr>,
             total_unlent := (total_unlent rp)\<lparr>amount := i64 (i64 (?S - p') - ?L)\<rparr>\<rparr>),
              rexbalance := fmupd n (rb\<lparr>vote_stake := (vote_stake rb)\<lparr>amount := st\<rparr>,
             rex_bal := (rex_bal rb)\<lparr>amount := i64 (amount (rex_bal rb) - amount q)\<rparr>,
             matured_rex := i64 (matured_rex rb - amount q)\<rparr>) (rexbalance s)\<rparr> = s'"
    by blast
  have un: "amount (total_unlent rp) = ?S - ?L" using po by (simp add: pool_ok_def)
  have "i64 (?S - ?L - ?low) = ?S - ?L - ?low" using S low by (intro i64_id) (auto simp: in_i64_def rex_cap_def)
  then have pL: "p \<le> ?S - ?L" using c1 low(1) by (simp add: un p')
  have i: "i64 (?R - amount q) = ?R - amount q" "i64 (?S - p) = ?S - p" "i64 (?S - p - ?L) = ?S - p - ?L"
    "i64 (amount (rex_bal rb) - amount q) = amount (rex_bal rb) - amount q" "i64 (matured_rex rb - amount q) = matured_rex rb - amount q"
    using S R x pb(1,2) pL tot row by (auto intro!: i64_fits simp: rb_ok_def rex_cap_def)
  define rp' where "rp' = rp\<lparr>total_rex := (total_rex rp)\<lparr>amount := ?R - amount q\<rparr>,
    total_lendable := (total_lendable rp)\<lparr>amount := ?S - p\<rparr>, total_unlent := (total_unlent rp)\<lparr>amount := ?S - p - ?L\<rparr>\<rparr>"
  define rb' where "rb' = rb\<lparr>vote_stake := (vote_stake rb)\<lparr>amount := st\<rparr>,
    rex_bal := (rex_bal rb)\<lparr>amount := amount (rex_bal rb) - amount q\<rparr>, matured_rex := matured_rex rb - amount q\<rparr>"
  have e: "s' = s\<lparr>rexpool := Some rp', rexbalance := fmupd n rb' (rexbalance s)\<rparr>"
    unfolding rp'_def rb'_def s' [symmetric] p' i ..
  have proc: "amount (out_proceeds out) = p" using pr out p' by (auto simp: asset_newD [OF ok])
  have po': "pool_ok core rp'" using po pb S pL x by (auto simp: pool_ok_def rp'_def)
  have rb'_ok: "rb_ok rb'" "share_val n rb' = share_val n rb - amount q"
    using row x by (auto simp: rb_ok_def rb_fine_def rb_total_def rb'_def share_val_def)
  show "rex_fine core s'"
    using rf po' rb'_ok pf by (auto simp: rex_fine_def pool_fine_def e fmsum_upd rb pool_amounts) (auto simp: rp'_def)
  show "rex_owed s' = rex_owed s - amount (out_proceeds out)"
    using pf by (simp add: rex_owed_def e proc pool_amounts rp) (simp add: rp'_def)
  show "0 \<le> amount (out_proceeds out)" using proc pb(1) by simp
  show "order_fine s' k" if "k \<noteq> n" "order_fine s k" for k using that by (simp add: order_fine_def e)
  show "\<exists>rb'. fmlookup (rexbalance s') n = Some rb' \<and> matured_rex rb' = matured_rex rb - amount q"
    by (simp add: e rb'_def)
  show "rexorders s' = rexorders s" by (simp add: e)
  have v: "rex_shares s = ?R" "lendable s = ?S" "rex_shares s' = ?R - amount q" "lendable s' = ?S - p"
    by (simp_all add: pool_amounts e rp rp'_def)
  have "p * ?R \<le> amount q * ?S" using S(6) by (simp add: p_def minus_mod_eq_div_mult [symmetric])
  then show "pricier s s'" using S pb(2)
    by (intro pricier_ratio) (auto simp: v algebra_simps rex_ratio_def)
qed

end
