(* ===== verification/RexRun.thy ===== *)
theory RexRun
  imports RexLedger
begin

text \<open>
  The two procedures all REX actions share, the settlement of an owner's account and the
  maintenance of loans and queued sell orders: they keep the tables of REX consistent, and what
  REX owes changes only by the proceeds of name auctions that maintenance brings in.
\<close>

section \<open>The account of an owner\<close>

definition in_order :: "sys_state \<Rightarrow> name \<Rightarrow> int" where
  "in_order s n = (case fmlookup (rexorders s) n of
     Some ord \<Rightarrow> if is_open ord then amount (rex_requested ord) else 0 | None \<Rightarrow> 0)"

lemma settle_step:
  assumes rf: "rex_fine core s" and p: "0 \<le> amount p" "rex_owed s + amount p \<le> rex_cap" and z: "amount z = 0"
    and u: "settle_order z n p d s = (q1, q2, r, s')"
  shows "rex_step core (amount p - amount q1) s s'" "0 \<le> amount q1" "rex_owed s' + amount q1 \<le> rex_cap"
    "amount r = in_order s n" "rexbalance s' = rexbalance s" "in_order s' n = in_order s n"
    "\<forall>ord. fmlookup (rexorders s') n = Some ord \<longrightarrow> is_open ord \<and> fmlookup (rexorders s) n = Some ord"
proof -
  have "rex_step core (amount p - amount q1) s s' \<and> 0 \<le> amount q1 \<and> rex_owed s' + amount q1 \<le> rex_cap
    \<and> amount r = in_order s n \<and> rexbalance s' = rexbalance s \<and> in_order s' n = in_order s n
    \<and> (\<forall>ord. fmlookup (rexorders s') n = Some ord \<longrightarrow> is_open ord \<and> fmlookup (rexorders s) n = Some ord)"
  proof (cases "\<exists>ord. fmlookup (rexorders s) n = Some ord \<and> \<not> is_open ord")
    case True
    then obtain ord where ord: "fmlookup (rexorders s) n = Some ord" "\<not> is_open ord" by blast
    have b: "0 \<le> amount (proceeds ord)" "amount (proceeds ord) \<le> rex_owed s"
      using rex_fineD(4) [OF rf ord] rex_row_bounds(3) [OF rf ord] by auto
    have o: "fmsum order_val (fmdrop n (rexorders s)) = fmsum order_val (rexorders s) - amount (proceeds ord)"
      by (simp add: fmsum_drop ord order_val_def)
    have s': "s' = s\<lparr>rexorders := fmdrop n (rexorders s)\<rparr>" and q: "amount q1 = i64 (amount p + amount (proceeds ord))"
      and r: "r = z" using u ord by (auto simp: settle_order_def)
    have "rex_fine core s'" using rf by (auto simp: rex_fine_def pool_fine_def pool_amounts s' split: if_splits)
    moreover have "rex_owed s' = rex_owed s - amount (proceeds ord)" using o by (simp add: rex_owed_def s' lendable_def)
    moreover have "0 \<le> fmsum fund_val (rexfunds s) + fmsum loan_val (cpu_loans s) + fmsum loan_val (net_loans s) + lendable s
       + fmsum order_val (rexorders s')" using rex_parts [OF \<open>rex_fine core s'\<close>] by (simp add: s' lendable_def)
    moreover have "i64 (amount p + amount (proceeds ord)) = amount p + amount (proceeds ord)"
      using p b by (intro i64_fits) (auto simp: rex_cap_def)
    ultimately show ?thesis using p b q r z ord
      by (auto simp: rex_step_def order_fine_def in_order_def s' pricier_pool)
  next
    case False
    then have "s' = s" "q1 = p" "amount r = in_order s n"
      using u z by (auto simp: settle_order_def in_order_def split: option.splits if_splits)
    then show ?thesis using p rf False by (auto simp: rex_step_def)
  qed
  then show "rex_step core (amount p - amount q1) s s'" "0 \<le> amount q1" "rex_owed s' + amount q1 \<le> rex_cap"
    "amount r = in_order s n" "rexbalance s' = rexbalance s" "in_order s' n = in_order s n"
    "\<forall>ord. fmlookup (rexorders s') n = Some ord \<longrightarrow> is_open ord \<and> fmlookup (rexorders s) n = Some ord" by auto
qed

text \<open>The owner receives the proceeds and what a filled order of theirs has brought in.\<close>

lemma account_step:
  assumes ok: "asset_ops_ok c" and rf: "rex_fine core s" and p: "0 \<le> amount p" "rex_owed s + amount p \<le> rex_cap"
    and u: "update_rex_account c n p d b s = Inr (r, s')"
  shows "rex_step core (amount p) s s'" "amount r = in_order s n" "in_order s' n = in_order s n"
    "fmmap rb_view (rexbalance s') = fmmap rb_view (rexbalance s)"
    "\<forall>ord. fmlookup (rexorders s') n = Some ord \<longrightarrow> is_open ord \<and> fmlookup (rexorders s) n = Some ord"
proof -
  obtain z q1 q2 s1 s2 where z: "asset_new c 0 rex_symbol = Inr z" and st: "settle_order z n p d s = (q1, q2, r, s1)"
    and tf: "(if 0 < amount q1 then transfer_to_fund c n q1 s1 else Inr s1) = Inr s2"
    and vp: "(if b \<or> amount q2 \<noteq> 0 then update_voting_power c n q2 s2 else Inr s2) = Inr s'"
    by (rule update_rex_account_parts [OF u])
  have z0: "amount z = 0" using z by (auto simp: asset_newD [OF ok])
  note t = settle_step [OF rf p z0 st]
  note rf1 = rex_stepD(1) [OF t(1)]
  have s2: "rex_step core (amount q1) s1 s2 \<and> rexbalance s2 = rexbalance s1 \<and> rexorders s2 = rexorders s1"
  proof (cases "0 < amount q1")
    case True
    with tf have "transfer_to_fund c n q1 s1 = Inr s2" by simp
    then show ?thesis using to_fund_step(1) [OF rf1 t(3)] by (auto simp: transfer_to_fund_def res_simps)
  next
    case False
    then show ?thesis using tf t(2) rf1 by (simp add: rex_step_def)
  qed
  have rf2: "rex_fine core s2" using rex_stepD(1) s2 by blast
  have vw: "same Rexing s2 s'"
  proof (cases "b \<or> amount q2 \<noteq> 0")
    case True
    with vp have "update_voting_power c n q2 s2 = Inr s'" by simp
    from footprintD(1) [OF footprint_voting_power [OF this], of Rexing] show ?thesis by simp
  qed (use vp in simp)
  have "rex_step core (amount p - amount q1 + (amount q1 + 0)) s s'"
    by (rule rex_step_trans [OF t(1) rex_step_trans [OF conjunct1 [OF s2] rex_step_same [OF rf2 vw]]])
  then show "rex_step core (amount p) s s'" by simp
  show "amount r = in_order s n" by (rule t(4))
  show "in_order s' n = in_order s n" using vw s2 t(6) by (simp add: in_order_def)
  show "fmmap rb_view (rexbalance s') = fmmap rb_view (rexbalance s)" using vw s2 t(5) by simp
  show "\<forall>ord. fmlookup (rexorders s') n = Some ord \<longrightarrow> is_open ord \<and> fmlookup (rexorders s) n = Some ord"
    using vw s2 t(7) by simp
qed

section \<open>Queued orders\<close>

lemma run_order_step:
  assumes ok: "asset_ops_ok c" and w: "rex_wf core s" and le: "rex_owed s \<le> rex_cap"
    and ord: "fmlookup (rexorders s) n = Some ord" "is_open ord" and u: "run_order c n ord s = Inr s'"
  shows "rex_wf core s' \<and> rex_owed s' = rex_owed s \<and> pricier s s'"
proof -
  have rf: "rex_fine core s" and of: "order_fine s k" for k using w by (auto simp: rex_wf_def)
  obtain rb where rb: "fmlookup (rexbalance s) n = Some rb"
    and x: "0 < amount (rex_requested ord)" "amount (rex_requested ord) \<le> matured_rex rb"
    using of [of n] ord by (auto simp: order_fine_def)
  obtain out s1 where f: "fill_rex_order c n (rex_requested ord) s = Inr (out, s1)"
    and s': "s' = (if success out then s1\<lparr>rexorders := fmupd n
          (ord\<lparr>proceeds := (proceeds ord)\<lparr>amount := amount (out_proceeds out)\<rparr>,
               stake_change := (stake_change ord)\<lparr>amount := amount (out_stake_change out)\<rparr>,
               is_open := False\<rparr>) (rexorders s1), outbox := outbox s1 @ [OrderResult n (out_proceeds out)]\<rparr> else s1)"
    using u by (auto simp: run_order_def rb res_simps)
  show ?thesis
  proof (cases "success out")
    case True
    note f = fill_step [OF ok rf le rb x f True]
    have "rex_fine core s'"
      using f(1,3) by (auto simp: rex_fine_def pool_fine_def pool_amounts s' True split: if_splits)
    moreover have "rex_owed s' = rex_owed s"
      using f(2,4) by (simp add: rex_owed_def s' True lendable_def fmsum_upd ord order_val_def)
    moreover have "order_fine s' k" for k
      using f(5) [OF _ of, of k] by (cases "k = n") (auto simp: order_fine_def s' True)
    moreover have "pricier s s'" using f(7) by (rule pricier_trans) (simp add: s' pricier_pool)
    ultimately show ?thesis by (simp add: rex_wf_def)
  next
    case False
    have "s1 = s" using f False by (auto simp: fill_rex_order_def with_pool_def res_simps Let_def split: if_splits)
    then show ?thesis using w False s' by simp
  qed
qed

lemma run_orders_step:
  "asset_ops_ok c \<Longrightarrow> rex_wf core s \<Longrightarrow> rex_owed s \<le> rex_cap \<Longrightarrow> run_orders c ns s = Inr s'
   \<Longrightarrow> rex_wf core s' \<and> rex_owed s' = rex_owed s \<and> pricier s s'"
proof (induction ns arbitrary: s)
  case (Cons n ns)
  show ?case
  proof (cases "\<exists>ord. fmlookup (rexorders s) n = Some ord \<and> is_open ord")
    case True
    then obtain ord where ord: "fmlookup (rexorders s) n = Some ord" "is_open ord" by blast
    with Cons.prems(4) obtain s1 where s1: "run_order c n ord s = Inr s1" "run_orders c ns s1 = Inr s'"
      by (auto simp: bindr_Inr)
    note r = run_order_step [OF Cons.prems(1-3) ord s1(1)]
    show ?thesis using Cons.IH [OF Cons.prems(1) _ _ s1(2)] r Cons.prems(3) by (auto intro: pricier_trans)
  next
    case False
    then show ?thesis using Cons.prems by (auto split: option.splits)
  qed
qed simp

section \<open>Loans and the pool\<close>

lemma loans_of_set [simp]: "loans_of kind (set_loans kind m s) = m"
  by (cases kind) simp_all

lemma set_loans_sel [simp]:
  "rexpool (set_loans kind m s) = rexpool s" "rexfunds (set_loans kind m s) = rexfunds s"
  "rexbalance (set_loans kind m s) = rexbalance s" "rexorders (set_loans kind m s) = rexorders s"
  "outbox (set_loans kind m s) = outbox s" "rammarket (set_loans kind m s) = rammarket s"
  "core_sym (set_loans kind m s) = core_sym s"
  by (cases kind; simp add: core_sym_def)+

lemma loans_of_pool [simp]: "loans_of kind (s\<lparr>rexpool := p\<rparr>) = loans_of kind s"
  by (cases kind) simp_all

text \<open>The loans of one kind and the pool change together.\<close>

lemma loan_pool_step:
  assumes rf: "rex_fine core s" and po: "pool_ok core rp"
    and lent: "amount (total_lent rp) = rex_lent s + fmsum staked_val m - fmsum staked_val (loans_of kind s)"
    and shares: "amount (total_rex rp) = rex_shares s" and worth: "lendable s \<le> amount (total_lendable rp)"
    and m: "\<And>k l. fmlookup m k = Some l \<Longrightarrow> loan_ok l"
  shows "rex_step core (amount (total_lendable rp) - lendable s + fmsum loan_val m - fmsum loan_val (loans_of kind s))
    s (set_loans kind m (s\<lparr>rexpool := Some rp\<rparr>))"
proof -
  have "rex_fine core (set_loans kind m (s\<lparr>rexpool := Some rp\<rparr>))"
    using assms by (cases kind) (auto simp: rex_fine_def pool_fine_def pool_amounts)
  moreover have "pricier s (set_loans kind m (s\<lparr>rexpool := Some rp\<rparr>))"
    by (rule pricier_grows) (use shares worth in \<open>simp_all add: pool_amounts\<close>)
  ultimately show ?thesis
    by (cases kind) (auto simp: rex_step_def order_fine_def rex_owed_def lendable_def)
qed

lemma remove_loan_pool:
  assumes po: "pool_ok core rp" and le: "amount (total_lendable rp) \<le> rex_cap"
    and w: "0 < amount (total_staked loan)" "amount (total_staked loan) \<le> amount (total_lent rp)"
    and u: "remove_loan_from_rex_pool loan rp = Inr rp'"
  shows "pool_ok core rp'" "amount (total_lendable rp') = amount (total_lendable rp)"
    "amount (total_lent rp') = amount (total_lent rp) - amount (total_staked loan)"
    "amount (total_rex rp') = amount (total_rex rp)"
proof -
  let ?U = "amount (total_unlent rp)" and ?T = "amount (total_rent rp)" and ?L = "amount (total_lent rp)" and ?w = "amount (total_staked loan)"
  from u obtain d where g: "get_bancor_output ?U ?T ?w = Inr d"
    and rp': "rp' = rp\<lparr>total_rent := (total_rent rp)\<lparr>amount := i64 (?T - d)\<rparr>,
        total_unlent := (total_unlent rp)\<lparr>amount := i64 (?U + ?w)\<rparr>, total_lent := (total_lent rp)\<lparr>amount := i64 (?L - ?w)\<rparr>,
        total_lendable := (total_lendable rp)\<lparr>amount := i64 (i64 (?U + ?w) + i64 (?L - ?w))\<rparr>\<rparr>"
    by (auto simp: remove_loan_from_rex_pool_def bindr_Inr Let_def)
  have S: "0 \<le> ?U" "0 \<le> ?T" "?T \<le> 2 * rex_cap" "?U + ?L \<le> rex_cap" "amount (total_lendable rp) = ?U + ?L"
    using po le by (auto simp: pool_ok_def)
  have d: "0 \<le> d" "d \<le> ?T" by (rule bancor_le [OF g w(1)]; use S w in \<open>simp add: rex_cap_def\<close>)+
  have "i64 (?T - d) = ?T - d" "i64 (?U + ?w) = ?U + ?w" "i64 (?L - ?w) = ?L - ?w" "i64 (?U + ?L) = ?U + ?L"
    using S w d by (auto intro!: i64_fits simp: rex_cap_def)
  then show "pool_ok core rp'" "amount (total_lendable rp') = amount (total_lendable rp)"
    "amount (total_lent rp') = ?L - ?w" "amount (total_rex rp') = amount (total_rex rp)"
    using po S d w by (auto simp: rp' pool_ok_def)
qed

text \<open>A loan is only made at a price that the pool can serve, which bounds the rents of the pool.\<close>

lemma price_of_loan:
  assumes po: "pool_ok core rp" and le: "amount (total_lendable rp) \<le> rex_cap" and q: "0 < q" "q \<le> rex_cap"
    and g: "get_bancor_output (amount (total_rent rp)) (amount (total_unlent rp)) q = Inr rented" and dear: "q < rented"
  shows "rented \<le> amount (total_unlent rp)" "amount (total_rent rp) + q \<le> 2 * rex_cap"
proof -
  have S: "0 \<le> amount (total_rent rp)" "amount (total_rent rp) \<le> 2 * rex_cap" "0 \<le> amount (total_unlent rp)"
    "amount (total_unlent rp) \<le> rex_cap" using po le by (auto simp: pool_ok_def)
  note r = q(1) S(1) _ S(3)
  show "rented \<le> amount (total_unlent rp)" by (rule bancor_le(2) [OF g r]) (use S q in \<open>simp_all add: rex_cap_def\<close>)
  have "amount (total_rent rp) + q < 2 * amount (total_unlent rp)"
  proof (rule ccontr)
    assume "\<not> ?thesis"
    then have "rented \<le> q" by (intro bancor_dear [OF g r]) (use S q in \<open>simp_all add: rex_cap_def\<close>)
    then show False using dear by simp
  qed
  then show "amount (total_rent rp) + q \<le> 2 * rex_cap" using S by simp
qed

lemma add_loan_pool:
  fixes fresh :: bool
  assumes po: "pool_ok core rp" and q: "0 < amount q" "amount (total_lendable rp) + amount q \<le> rex_cap"
    and R: "0 < amount (total_rex rp)" and w: "0 \<le> rented" "rented \<le> amount (total_unlent rp)"
    and t: "amount (total_rent rp) + amount q \<le> 2 * rex_cap"
  defines "rp' \<equiv> add_loan_to_rex_pool q rented fresh rp"
  shows "pool_ok core rp'" "amount (total_lendable rp') = amount (total_lendable rp) + amount q"
    "amount (total_lent rp') = amount (total_lent rp) + rented" "amount (total_rex rp') = amount (total_rex rp)"
proof -
  let ?U = "amount (total_unlent rp)" and ?T = "amount (total_rent rp)" and ?L = "amount (total_lent rp)"
  have S: "0 \<le> ?U" "0 \<le> ?T" "0 \<le> ?L" "amount (total_lendable rp) = ?U + ?L" using po by (auto simp: pool_ok_def)
  have "i64 (?T + amount q) = ?T + amount q" "i64 (?U - rented) = ?U - rented" "i64 (?L + rented) = ?L + rented"
    "i64 (?U - rented + amount q) = ?U - rented + amount q" "i64 (?U + amount q + ?L) = ?U + amount q + ?L"
    using S w q t by (auto intro!: i64_fits simp: rex_cap_def)
  moreover have "i64 (?U - rented + amount q + (?L + rented)) = ?U + ?L + amount q"
    using S w q by (intro i64_fits [THEN trans]) (auto simp: rex_cap_def)
  ultimately show "pool_ok core rp'" "amount (total_lendable rp') = amount (total_lendable rp) + amount q"
    "amount (total_lent rp') = ?L + rented" "amount (total_rex rp') = amount (total_rex rp)"
    using po S w q t R by (auto simp: rp'_def add_loan_to_rex_pool_def Let_def pool_ok_def rex_ratio_def)
qed

lemma funds_loans:
  "transfer_to_fund c n q s = Inr s' \<Longrightarrow> transfer_to_fund c n q (set_loans kind m s) = Inr (set_loans kind m s')"
  by (cases kind) (auto simp: transfer_to_fund_def res_simps core_sym_def)

lemma same_rexing_loans: "same Rexing s s' \<Longrightarrow> same Rexing (set_loans kind m s) (set_loans kind m s')"
  by (cases kind) auto

section \<open>Maintenance\<close>

lemma limits_same: "update_resource_limits c r dn dp s = Inr s' \<Longrightarrow> same Rexing s s' \<and> outbox s' = outbox s"
  by (auto elim!: update_resource_limits_parts)

lemma limits_for_same: "limits_for kind c r d s = Inr s' \<Longrightarrow> same Rexing s s' \<and> outbox s' = outbox s"
  by (cases kind) (auto dest: limits_same)

lemma loan_delta_same:
  "(if d \<noteq> 0 then limits_for kind c r d s else Inr s) = Inr s' \<Longrightarrow> same Rexing s s' \<and> outbox s' = outbox s"
  using limits_for_same by (cases "d = 0") auto

lemma fine_sums:
  assumes "rex_fine core s"
  shows "rex_lent s = fmsum staked_val (cpu_loans s) + fmsum staked_val (net_loans s)"
    "rex_shares s = fmsum share_val (rexbalance s)" "rexpool s = Some rp \<Longrightarrow> pool_ok core rp"
  using assms by (auto simp: rex_fine_def pool_fine_def)

lemma loan_and_lendable:
  assumes rf: "rex_fine core s" and l: "fmlookup (loans_of kind s) k = Some l"
  shows "amount (loan_balance l) + lendable s \<le> rex_owed s"
  using loan_row_le(1) [OF rf l] rex_parts [OF rf] by (cases kind) (auto simp: rex_owed_def)

text \<open>An expired loan ends, and its balance goes to the fund of its owner, or it is renewed and paid for.\<close>

lemma run_loan_step:
  assumes ok: "asset_ops_ok c" and rf: "rex_fine core s" and le: "rex_owed s \<le> rex_cap"
    and l: "fmlookup (loans_of kind s) num = Some loan" and u: "run_loan c kind num loan s = Inr s'"
  shows "rex_step core 0 s s'"
proof -
  have lo: "loan_ok loan" by (rule rex_fineD(2) [OF rf l])
  have lS: "lendable s \<le> rex_cap" using rex_row_bounds(4) [OF rf] le by simp
  obtain del delta s1 s2 where p: "process_expired_loan c kind num loan s = Inr (del, delta, s1)"
    and lim: "(if delta \<noteq> 0 then limits_for kind c (loan_receiver loan) delta s1 else Inr s1) = Inr s2"
    and s': "s' = (if del then set_loans kind (fmdrop num (loans_of kind s2)) s2 else s2)"
    using u by (auto simp: run_loan_def bindr_Inr)
  note lim = loan_delta_same [OF lim]
  from p show ?thesis
  proof (cases rule: process_expired_loan_parts)
    case (1 rp rp1 rented)
    note b = rex_pool_bounds(1,2,4) [OF rf 1(1)]
    have w: "0 < amount (total_staked loan)" "amount (total_staked loan) \<le> amount (total_lent rp)"
      using lo b(2) [OF l] by (auto simp: loan_ok_def)
    have S: "amount (total_lendable rp) \<le> rex_cap" using b(3) lS by simp
    note r = remove_loan_pool [OF b(1) S w 1(2)]
    have S1: "amount (total_lendable rp1) \<le> rex_cap" using r(2) S by simp
    have q: "0 < amount (loan_payment loan)" "amount (loan_payment loan) \<le> rex_cap" using lo by (auto simp: loan_ok_def)
    note pr = price_of_loan [OF r(1) S1 q 1(3,6)]
    have bal: "amount (loan_payment loan) \<le> amount (loan_balance loan)" using 1(5) by (simp add: asset_leD [OF ok])
    have S2: "amount (total_lendable rp1) + amount (loan_payment loan) \<le> rex_cap"
      using loan_and_lendable [OF rf l] bal le b(3) r(2) by simp
    have R: "0 < amount (total_rex rp1)" using 1(7) by (simp add: rex_loans_available_def rex_available_def)
    have rn: "0 \<le> rented" using q(1) 1(6) by simp
    note a = add_loan_pool [OF r(1) q(1) S2 R rn pr, of False]
    define loan' where "loan' = snd (update_renewed_loan loan rented)"
    have bl: "amount (loan_balance loan) \<le> rex_cap" using rex_row_bounds(2) [OF rf l] le by simp
    have "i64 (amount (loan_balance loan) - amount (loan_payment loan)) = amount (loan_balance loan) - amount (loan_payment loan)"
      using bl bal q(1) by (intro cap_fits) auto
    then have l': "amount (loan_balance loan') = amount (loan_balance loan) - amount (loan_payment loan)"
      "amount (total_staked loan') = rented" "loan_ok loan'"
      using lo bal q(1) 1(6) by (auto simp: loan'_def update_renewed_loan_def loan_ok_def)
    let ?m = "fmupd num loan' (loans_of kind s)" and ?rp = "add_loan_to_rex_pool (loan_payment loan) rented False rp1"
    have "rex_step core (amount (total_lendable ?rp) - lendable s + fmsum loan_val ?m - fmsum loan_val (loans_of kind s))
      s (set_loans kind ?m (s\<lparr>rexpool := Some ?rp\<rparr>))"
    proof (rule loan_pool_step [OF rf a(1)])
      show "loan_ok x" if "fmlookup ?m k = Some x" for k x
        using that l'(3) rex_fineD(2) [OF rf, of kind k x] by (auto split: if_splits)
      show "amount (total_lent ?rp) = rex_lent s + fmsum staked_val ?m - fmsum staked_val (loans_of kind s)"
        using a(3) r(3) by (simp add: fmsum_upd l staked_val_def l'(2) rex_lent_def 1(1))
    qed (use a(2,4) r(2,4) b(3) q(1) in \<open>simp_all add: rex_shares_def 1(1)\<close>)
    moreover have "fmsum loan_val ?m = fmsum loan_val (loans_of kind s) - amount (loan_payment loan)"
      by (simp add: fmsum_upd l loan_val_def l'(1))
    moreover have "s1 = set_loans kind ?m (s\<lparr>rexpool := Some ?rp\<rparr>)" using 1(9) by (simp add: loan'_def)
    ultimately have s1: "rex_step core 0 s s1" using a(2) r(2) b(3) by simp
    have "rex_step core 0 s1 s2" using rex_step_same [OF rex_stepD(1) [OF s1]] lim by blast
    then show ?thesis using rex_step_trans [OF s1, of 0 s2] 1(4) s' by simp
  next
    case (2 rp rp1)
    note b = rex_pool_bounds(1,2,4) [OF rf 2(1)]
    have w: "0 < amount (total_staked loan)" "amount (total_staked loan) \<le> amount (total_lent rp)"
      using lo b(2) [OF l] by (auto simp: loan_ok_def)
    have S: "amount (total_lendable rp) \<le> rex_cap" using b(3) lS by simp
    note r = remove_loan_pool [OF b(1) S w 2(2)]
    let ?m = "fmdrop num (loans_of kind s)" and ?s1 = "s\<lparr>rexpool := Some rp1\<rparr>"
    have "rex_step core (amount (total_lendable rp1) - lendable s + fmsum loan_val ?m - fmsum loan_val (loans_of kind s))
      s (set_loans kind ?m ?s1)"
    proof (rule loan_pool_step [OF rf r(1)])
      show "loan_ok x" if "fmlookup ?m k = Some x" for k x
        using that rex_fineD(2) [OF rf, of kind k x] by (auto split: if_splits)
      show "amount (total_lent rp1) = rex_lent s + fmsum staked_val ?m - fmsum staked_val (loans_of kind s)"
        using r(3) by (simp add: fmsum_drop l staked_val_def rex_lent_def 2(1))
    qed (use r(2,4) b(3) in \<open>simp_all add: rex_shares_def 2(1)\<close>)
    moreover have "fmsum loan_val ?m = fmsum loan_val (loans_of kind s) - amount (loan_balance loan)"
      by (simp add: fmsum_drop l loan_val_def)
    ultimately have d: "rex_step core (- amount (loan_balance loan)) s (set_loans kind ?m ?s1)" using r(2) b(3) by simp
    have m: "rex_step core (amount (loan_balance loan)) (set_loans kind ?m ?s1) (set_loans kind ?m s1)"
    proof (cases "0 < amount (loan_balance loan)")
      case True
      with 2(5) have "transfer_to_fund c (loan_from loan) (loan_balance loan) ?s1 = Inr s1" by simp
      then show ?thesis
        using rex_stepD(2) [OF d] le by (intro to_fund_step(1) [OF rex_stepD(1) [OF d]] funds_loans) auto
    next
      case False
      then show ?thesis using 2(5) lo rex_stepD(1) [OF d] by (simp add: rex_step_def loan_ok_def)
    qed
    have "loans_of kind s1 = loans_of kind s"
      using 2(5) by (cases kind) (auto simp: transfer_to_fund_def res_simps split: if_splits)
    moreover have "loans_of kind s2 = loans_of kind s1" using lim by (cases kind) auto
    ultimately have "s' = set_loans kind ?m s2" using s' 2(3) by simp
    moreover have "rex_step core 0 (set_loans kind ?m s1) (set_loans kind ?m s2)"
      using lim by (intro rex_step_same [OF rex_stepD(1) [OF m]] same_rexing_loans) simp
    ultimately show ?thesis using rex_step_trans [OF d rex_step_trans [OF m, of 0]] by simp
  qed
qed

lemma first_by_row: "first_by f m = Some (k, v) \<Longrightarrow> fmlookup m k = Some v"
proof -
  assume "first_by f m = Some (k, v)"
  then have "(k, v) \<in> set (index_by f m)" by (cases "index_by f m") (auto simp: first_by_def)
  then show ?thesis
    by (auto simp: index_by_def sorted_list_of_fmap_def fmlookup_dom_iff)
qed

lemma run_loans_step:
  "asset_ops_ok c \<Longrightarrow> rex_fine core s \<Longrightarrow> rex_owed s \<le> rex_cap \<Longrightarrow> run_loans i c kind s = Inr s'
   \<Longrightarrow> rex_step core 0 s s'"
proof (induction i arbitrary: s)
  case (Suc i)
  show ?case
  proof (cases "first_by by_expr (loans_of kind s)")
    case None
    then show ?thesis using Suc.prems by (simp add: rex_step_def)
  next
    case (Some kl)
    obtain num loan where kl: "kl = (num, loan)" by (cases kl)
    have l: "fmlookup (loans_of kind s) num = Some loan"
      by (rule first_by_row) (use Some kl in simp)
    show ?thesis
    proof (cases "now_tp c < expiration loan")
      case True
      then show ?thesis using Suc.prems Some kl by (simp add: rex_step_def)
    next
      case False
      with Suc.prems(4) Some kl obtain s1 where s1: "run_loan c kind num loan s = Inr s1" "run_loans i c kind s1 = Inr s'"
        by (auto simp: bindr_Inr)
      note r = run_loan_step [OF Suc.prems(1-3) l s1(1)]
      show ?thesis
        using rex_step_trans [OF r Suc.IH [OF Suc.prems(1) rex_stepD(1) [OF r] _ s1(2)]] rex_stepD(2) [OF r] Suc.prems(3) by simp
    qed
  qed
qed (simp add: rex_step_def)

section \<open>The account of REX\<close>

text \<open>
  During an action, \<open>b\<close> records the balance of the REX account and the price of the pool before it.
  The account is \<open>solvent\<close> when that balance and what the inline actions sent so far bring in cover
  what is owed, and the price has not fallen; the account has \<open>room\<close> when the sum stays within \<open>rex_cap\<close>, as the balance after the action will.
\<close>

record rex_before =
  start_balance :: int
  start_lendable :: int
  start_shares :: int

definition rex_coming :: "symbol \<Rightarrow> rex_before \<Rightarrow> sys_state \<Rightarrow> int" where
  "rex_coming core b s = start_balance b + flows (sym_code core) rex_account (outbox s)"

definition dearer :: "rex_before \<Rightarrow> sys_state \<Rightarrow> bool" where
  "dearer b s \<longleftrightarrow> 0 \<le> start_lendable b \<and> 0 \<le> start_shares b \<and> rex_shares s * start_lendable b \<le> lendable s * start_shares b"

definition solvent :: "symbol \<Rightarrow> rex_before \<Rightarrow> sys_state \<Rightarrow> bool" where
  "solvent core b s \<longleftrightarrow> rex_wf core s \<and> rex_owed s \<le> rex_coming core b s \<and> dearer b s"

definition room :: "symbol \<Rightarrow> rex_before \<Rightarrow> sys_state \<Rightarrow> bool" where
  "room core b s \<longleftrightarrow> all_sent (outbox s) \<and> rex_coming core b s \<le> rex_cap"

lemma sends_coming:
  assumes "sends F s s'" "rex_account \<notin> F" "all_sent (outbox s')"
  shows "rex_coming core b s \<le> rex_coming core b s'" "all_sent (outbox s)"
proof -
  obtain l where l: "outbox s' = outbox s @ l" "senders l \<subseteq> F" "all_plain l" using assms(1) by (rule sendsD)
  then have "0 \<le> flows (sym_code core) rex_account l" using assms(2,3) by (intro flows_nonneg) auto
  then show "rex_coming core b s \<le> rex_coming core b s'" "all_sent (outbox s)"
    using l assms(3) by (auto simp: rex_coming_def)
qed

lemma room_before: "sends F s s' \<Longrightarrow> rex_account \<notin> F \<Longrightarrow> room core b s' \<Longrightarrow> room core b s"
  using sends_coming(1) [of F s s' core b] sends_coming(2) [of F s s'] by (auto simp: room_def)

lemma solventD:
  assumes "solvent core b s" "room core b s" shows "rex_wf core s" "rex_fine core s" "rex_owed s \<le> rex_cap"
  using assms by (auto simp: solvent_def room_def rex_wf_def)

lemma dearer_later: "dearer b s \<Longrightarrow> pricier s s' \<Longrightarrow> dearer b s'"
  by (simp add: dearer_def pricier_def)

lemma solvent_step:
  assumes "solvent core b s" "rex_step core d s s'" "sends F s s'" "rex_account \<notin> F" "room core b s'" "d \<le> 0"
  shows "solvent core b s'"
  using assms rex_stepD(2,4,5) [OF assms(2)] sends_coming(1) [OF assms(3,4), of core b]
  by (auto simp: solvent_def room_def intro: dearer_later)

lemma solvent_same:
  assumes "solvent core b s" "same Rexing s s'" "sends F s s'" "rex_account \<notin> F" "room core b s'"
  shows "solvent core b s'"
  using solvent_step [OF assms(1) rex_step_same [OF _ assms(2)] assms(3-5)] assms(1) by (auto simp: solvent_def rex_wf_def)

text \<open>Tokens channelled to REX become lendable, unless nobody holds REX.\<close>

lemma channel_solvent:
  assumes w: "solvent core b s" and q: "symb q = core" and n: "n \<noteq> rex_account"
    and r: "room core b (channel_to_rex c n q s)"
  shows "solvent core b (channel_to_rex c n q s)"
proof (cases "rexpool s")
  case None
  then show ?thesis using w by (simp add: channel_to_rex_def)
next
  case (Some rp)
  show ?thesis
  proof (cases "0 < amount (total_rex rp)")
    case False
    then show ?thesis using w Some by (simp add: channel_to_rex_def)
  next
    case True
    have rf: "rex_fine core s" and ord: "order_fine s k" for k using w by (auto simp: solvent_def rex_wf_def)
    note po = rex_pool_bounds(1,4) [OF rf Some] and p = rex_parts [OF rf]
    let ?x = "outbox s @ [ToToken [Perm n active_permission]
         (Transfer n rex_account q (''transfer from '' @ name_to_string c n @ '' to eosio.rex''))]"
    let ?rp = "rp\<lparr>total_unlent := (total_unlent rp)\<lparr>amount := i64 (amount (total_unlent rp) + amount q)\<rparr>,
                total_lendable := (total_lendable rp)\<lparr>amount := i64 (amount (total_lendable rp) + amount q)\<rparr>\<rparr>"
    have e: "channel_to_rex c n q s = s\<lparr>rexpool := Some ?rp, outbox := ?x\<rparr>" using Some True by (simp add: channel_to_rex_def)
    have s: "0 < amount q" "rex_coming core b s + amount q \<le> rex_cap"
      using r q n by (auto simp: room_def rex_coming_def e)
    then have le: "rex_owed s + amount q \<le> rex_cap" using w by (simp add: solvent_def)
    then have i: "i64 (amount (total_unlent rp) + amount q) = amount (total_unlent rp) + amount q"
      "i64 (amount (total_lendable rp) + amount q) = amount (total_lendable rp) + amount q"
      using po s(1) rex_row_bounds(4) [OF rf] by (auto intro!: cap_fits simp: pool_ok_def)
    have po': "pool_ok core ?rp" unfolding i using po s(1) True by (auto simp: pool_ok_def rex_ratio_def)
    have "rex_fine core (channel_to_rex c n q s)"
      using rf po' fine_sums [OF rf] unfolding e by (auto simp: rex_fine_def pool_fine_def pool_amounts Some)
    moreover have "order_fine (channel_to_rex c n q s) k" for k using ord [of k] by (simp add: order_fine_def e)
    moreover have "rex_owed (channel_to_rex c n q s) = rex_owed s + amount q" unfolding e i by (simp add: rex_owed_def lendable_def Some)
    moreover have "pricier s (channel_to_rex c n q s)"
      unfolding e i by (rule pricier_grows) (use s(1) in \<open>simp_all add: pool_amounts Some\<close>)
    then have "dearer b (channel_to_rex c n q s)" using w by (auto simp: solvent_def intro: dearer_later)
    ultimately show ?thesis using w q n s
      by (simp add: solvent_def rex_wf_def) (simp add: e rex_coming_def)
  qed
qed

text \<open>The proceeds of name auctions go to the pool, and are counted no more.\<close>

lemma namebid_same:
  assumes rf: "rex_fine core s"
  shows "rex_step core 0 s (s\<lparr>rexpool := map_option (\<lambda>rt. rt\<lparr>namebid_proceeds := (namebid_proceeds rt)\<lparr>amount := a\<rparr>\<rparr>) (rexpool s)\<rparr>)"
    (is "rex_step core 0 s ?s")
proof -
  have "rex_fine core ?s" using rf fine_sums [OF rf]
    by (cases "rexpool s") (auto simp: rex_fine_def pool_fine_def pool_amounts pool_ok_def)
  moreover have "pricier s ?s" by (rule pricier_grows) (cases "rexpool s"; simp add: pool_amounts)+
  ultimately show ?thesis by (cases "rexpool s") (auto simp: rex_step_def order_fine_def rex_owed_def lendable_def)
qed

lemma proceeds_solvent:
  assumes w: "solvent core b s" and r: "room core b (channel_proceeds c s)"
  shows "solvent core b (channel_proceeds c s)"
proof (cases "rexpool s")
  case None
  then show ?thesis using w by (simp add: channel_proceeds_def)
next
  case (Some rp)
  show ?thesis
  proof (cases "0 < amount (namebid_proceeds rp)")
    case False
    then show ?thesis using w Some by (simp add: channel_proceeds_def)
  next
    case True
    let ?s1 = "channel_to_rex c names_account (namebid_proceeds rp) s"
    have e: "channel_proceeds c s = ?s1\<lparr>rexpool := map_option (\<lambda>rt. rt\<lparr>namebid_proceeds := (namebid_proceeds rt)\<lparr>amount := 0\<rparr>\<rparr>) (rexpool ?s1)\<rparr>"
      using Some True by (simp add: channel_proceeds_def Let_def)
    have rf: "rex_fine core s" using w by (simp add: solvent_def rex_wf_def)
    have sy: "symb (namebid_proceeds rp) = core" using rex_pool_bounds(1) [OF rf Some] by (simp add: pool_ok_def)
    have r1: "room core b ?s1" using r by (simp add: room_def rex_coming_def e)
    have w1: "solvent core b ?s1" by (rule channel_solvent [OF w sy _ r1]) (simp add: account_defs)
    have "rex_fine core ?s1" using w1 by (simp add: solvent_def rex_wf_def)
    from solvent_step [OF w1 namebid_same [OF this, of 0] _ _ _ order_refl, of "{}"] r show ?thesis
      by (simp add: e sends_refl)
  qed
qed

lemma run_loans_solvent:
  assumes "asset_ops_ok c" "solvent core b s" "room core b s'" "run_loans i c kind s = Inr s'"
  shows "solvent core b s'"
proof -
  have k: "sends {} s s'" using keeps_run_loans [OF assms(4)] by (rule keepsD)
  have r: "room core b s" by (rule room_before [OF k _ assms(3)]) simp
  note d = solventD [OF assms(2) r]
  show ?thesis by (rule solvent_step [OF assms(2) run_loans_step [OF assms(1) d(2,3) assms(4)] k _ assms(3)]) simp_all
qed

theorem runrex_solvent:
  assumes ok: "asset_ops_ok c" and w: "solvent core b s" and r: "room core b s'" and u: "runrex c mx s = Inr s'"
  shows "solvent core b s'"
proof -
  obtain s1 s2 where s1: "run_loans mx c CpuLoan (channel_proceeds c s) = Inr s1"
    and s2: "run_loans mx c NetLoan s1 = Inr s2" and s': "run_orders c (take mx (map fst (index_by by_time (rexorders s2)))) s2 = Inr s'"
    by (rule runrex_parts [OF u])
  have k: "sends {} s2 s'" "sends {} s1 s2" "sends {} (channel_proceeds c s) s1"
    using keeps_run_orders [OF s'] keeps_run_loans [OF s2] keeps_run_loans [OF s1] by (auto dest: keepsD)
  have r2: "room core b s2" by (rule room_before [OF k(1) _ r]) simp
  have r1: "room core b s1" by (rule room_before [OF k(2) _ r2]) simp
  have r0: "room core b (channel_proceeds c s)" by (rule room_before [OF k(3) _ r1]) simp
  have w2: "solvent core b s2"
    by (rule run_loans_solvent [OF ok run_loans_solvent [OF ok proceeds_solvent [OF w r0] r1 s1] r2 s2])
  note d = solventD [OF w2 r2]
  have "rex_wf core s' \<and> rex_owed s' = rex_owed s2 \<and> pricier s2 s'" by (rule run_orders_step [OF ok d(1,3) s'])
  then show ?thesis using w2 sends_coming(1) [OF k(1), of core b] r by (auto simp: solvent_def room_def intro: dearer_later)
qed

end
