(* ===== verification/RexSafe.thy ===== *)
theory RexSafe
  imports RexRun
begin

text \<open>
  Every action of REX keeps its account solvent, and so does every other action: the interface of
  an escrow, for a core token of at most \<open>rex_cap\<close> units.
\<close>

section \<open>Rows of REX\<close>

lemma shares_bound:
  assumes rf: "rex_fine core s" and le: "rex_owed s \<le> rex_cap" and rb: "fmlookup (rexbalance s) n = Some rb"
  shows "0 \<le> matured_rex rb" "matured_rex rb \<le> rb_total rb" "rb_total rb \<le> 4600000000000000000"
proof -
  have ok: "rb_ok rb" by (rule rex_fineD(3) [OF rf rb])
  then show "0 \<le> matured_rex rb" "matured_rex rb \<le> rb_total rb"
    using bucket_sum_nonneg [of "rex_maturities rb"] by (auto simp: rb_ok_def rb_fine_def rb_total_def)
  have "share_val n rb \<le> fmsum share_val (rexbalance s)"
    by (rule fmsum_row_le [OF rb]) (rule rb_ok_share [OF rex_fineD(3) [OF rf]])
  then have t: "rb_total rb \<le> rex_shares s" using ok fine_sums(2) [OF rf] by (simp add: rb_ok_def share_val_def)
  show "rb_total rb \<le> 4600000000000000000"
  proof (cases "rexpool s")
    case (Some rp)
    then have "rex_shares s \<le> rex_ratio * lendable s" using rex_pool_bounds(1) [OF rf Some] by (auto simp: pool_ok_def pool_amounts Some)
    then show ?thesis using t rex_row_bounds(4) [OF rf] le by (simp add: rex_ratio_def rex_cap_def)
  qed (use t in \<open>simp add: rex_shares_def\<close>)
qed

lemma in_order_bounds:
  assumes "rex_fine core s" "order_fine s n" "fmlookup (rexbalance s) n = Some rb"
  shows "0 \<le> in_order s n" "in_order s n \<le> matured_rex rb"
  using assms(2,3) rex_fineD(3) [OF assms(1,3)]
  by (auto simp: in_order_def order_fine_def rb_ok_def rb_fine_def split: option.splits)

text \<open>A row may change as long as its total stays, and the open order stays covered.\<close>

lemma row_step:
  assumes rf: "rex_fine core s" and rb: "fmlookup (rexbalance s) n = Some rb"
    and rb': "rb_ok rb'" "amount (rex_bal rb') = amount (rex_bal rb)"
    and m: "order_fine s n \<Longrightarrow> in_order s n \<le> matured_rex rb'"
  shows "rex_step core 0 s (s\<lparr>rexbalance := fmupd n rb' (rexbalance s)\<rparr>)" (is "rex_step core 0 s ?s")
proof -
  have "rex_fine core ?s"
    using rf rb rb' by (auto simp: rex_fine_def pool_fine_def pool_amounts fmsum_upd share_val_def)
  moreover have "order_fine ?s k" if "order_fine s k" for k
    using that m by (cases "k = n") (auto simp: order_fine_def in_order_def)
  ultimately show ?thesis by (simp add: rex_step_def rex_owed_def lendable_def pricier_pool)
qed

lemma maturities_step:
  assumes rf: "rex_fine core s" and le: "rex_owed s \<le> rex_cap" and rb: "fmlookup (rexbalance s) n = Some rb"
  shows "rex_step core 0 s (s\<lparr>rexbalance := fmupd n (process_rex_maturities c rb) (rexbalance s)\<rparr>)"
proof -
  have ok: "rb_ok rb" by (rule rex_fineD(3) [OF rf rb])
  have "rb_total rb < 9223372036854775808" using shares_bound(3) [OF rf le rb] by simp
  note p = process_maturities_keeps [OF conjunct1 [OF ok [unfolded rb_ok_def]] this, of c]
  show ?thesis
    by (rule row_step [OF rf rb]) (use p ok in_order_bounds(2) [OF rf _ rb] in \<open>auto simp: rb_ok_def\<close>)
qed

section \<open>Settling within an action\<close>

lemma account_solvent:
  assumes ok: "asset_ops_ok c" and w: "solvent core b s" and r: "room core b s'" and z: "amount p = 0"
    and u: "update_rex_account c n p d f s = Inr (x, s')"
  shows "solvent core b s'" "room core b s" "rex_step core 0 s s'"
proof -
  have k: "sends {} s s'" using keeps_account [OF u] by (rule keepsD)
  show rs: "room core b s" by (rule room_before [OF k _ r]) simp
  note d = solventD [OF w rs]
  show st: "rex_step core 0 s s'" using account_step(1) [OF ok d(2) _ _ u] z d(3) by simp
  show "solvent core b s'" by (rule solvent_step [OF w st k _ r]) simp_all
qed

lemma result_solvent [simp]:
  assumes "sender a = {}" "plain a" "inline_flow (sym_code core) rex_account a = 0" "sent a"
  shows "solvent core b (send_result a s) = solvent core b s" "room core b (send_result a s) = room core b s"
proof -
  have "same Rexing s (send_result a s)" "same Rexing (send_result a s) s" by (simp_all add: send_result_def)
  then show "solvent core b (send_result a s) = solvent core b s"
    using rex_same [of s "send_result a s"] rex_same [of "send_result a s" s] assms
    by (auto simp: solvent_def rex_coming_def send_result_def dearer_def pool_amounts)
  show "room core b (send_result a s) = room core b s"
    using assms by (auto simp: room_def rex_coming_def send_result_def)
qed

text \<open>Maintenance within an action: the room before it, and what it keeps.\<close>

lemma runrex_within:
  assumes "asset_ops_ok c" "solvent core b s" "runrex c mx s = Inr s1" "room core b s1"
  shows "solvent core b s1" "rex_wf core s1" "rex_fine core s1" "rex_owed s1 \<le> rex_cap"
proof -
  show w: "solvent core b s1" by (rule runrex_solvent [OF assms(1,2,4,3)])
  show "rex_wf core s1" "rex_fine core s1" "rex_owed s1 \<le> rex_cap" using solventD [OF w assms(4)] by auto
qed

lemma names_not_rex [simp]: "rex_account \<notin> {names_account}" "rex_account \<noteq> names_account"
  by (simp_all add: account_defs)

section \<open>Funds, purchases and sales\<close>

lemma sent_coming:
  assumes "outbox s' = outbox s @ [ToToken ps (Transfer f rex_account q memo)]" "symb q = core" "f \<noteq> rex_account"
  shows "rex_coming core b s' = rex_coming core b s + amount q"
  using assms by (simp add: rex_coming_def)

lemma deposit_solvent:
  assumes ok: "asset_ops_ok c" and mk: "market_ok core s" and w: "solvent core b s" and r: "room core b s'"
    and na: "\<not> has_auth c rex_account" and u: "deposit c n q s = Inr s'"
  shows "solvent core b s'"
proof -
  let ?s1 = "send_transfer [Perm n active_permission] n rex_account q ''deposit to REX fund'' s"
  from u have a: "has_auth c n" "core_sym s = Some (symb q)" and f: "transfer_to_fund c n q ?s1 = Inr s'"
    by (auto simp: deposit_def res_simps)
  have n: "n \<noteq> rex_account" using a(1) na by blast
  have sy: "symb q = core" by (rule market_ok_core [OF mk a(2)])
  have k: "sends {} ?s1 s'" using keeps_to_fund [OF f] by (rule keepsD)
  have r1: "room core b ?s1" by (rule room_before [OF k _ r]) simp
  have cm: "rex_coming core b ?s1 = rex_coming core b s + amount q" using sy n by (simp add: rex_coming_def send_transfer_def)
  have sm: "same Rexing s ?s1" by (simp add: send_transfer_def)
  have rf: "rex_fine core ?s1" using w rex_same(2) [OF sm] by (simp add: solvent_def rex_wf_def)
  have le: "rex_owed ?s1 + amount q \<le> rex_coming core b ?s1" using w rex_same(1) [OF sm] cm by (simp add: solvent_def)
  have st: "rex_step core (amount q) ?s1 s'"
    by (rule to_fund_step(1) [OF rf _ f]) (use le r1 in \<open>simp add: room_def\<close>)
  have "rex_coming core b ?s1 \<le> rex_coming core b s'"
    using sends_coming(1) [OF k _ conjunct1 [OF r [unfolded room_def]]] by simp
  moreover have "rex_wf core ?s1" using w rex_same(4) [OF sm] by (simp add: solvent_def)
  moreover have "dearer b ?s1" by (rule dearer_later [of _ s]) (use w in \<open>simp_all add: solvent_def send_transfer_def pricier_pool\<close>)
  ultimately show ?thesis using rex_stepD(2,4,5) [OF st] le by (auto simp: solvent_def intro: dearer_later)
qed

lemma withdraw_solvent:
  assumes ok: "asset_ops_ok c" and mk: "market_ok core s" and w: "solvent core b s" and r0: "room core b s"
    and r: "room core b s'" and u: "withdraw c n q s = Inr s'"
  shows "solvent core b s'"
proof -
  from u have cs: "core_sym s = Some (symb q)" by (auto simp: withdraw_def res_simps)
  from u obtain sx z y s1 s2 where z: "asset_new c 0 sx = Inr z" and s1: "update_rex_account c n z z False s = Inr (y, s1)"
    and s2: "transfer_from_fund c n q s1 = Inr s2"
    and s': "s' = send_transfer [Perm rex_account active_permission] rex_account n q ''withdraw from REX fund'' s2"
    unfolding withdraw_def res_simps by blast
  have sy: "symb q = core" by (rule market_ok_core [OF mk cs])
  note d = solventD [OF w r0]
  have z0: "amount z = 0" using z by (simp add: asset_newD [OF ok])
  have a: "rex_step core 0 s s1" using account_step(1) [OF ok d(2) _ _ s1] z0 d(3) by simp
  have f: "rex_step core (- amount q) s1 s2"
    by (rule from_fund_step(1) [OF ok rex_stepD(1) [OF a] _ s2]) (use rex_stepD(2) [OF a] d(3) in simp)
  have st: "rex_step core (- amount q) s s2" using rex_step_trans [OF a f] by simp
  have "keeps {} s s2" by (rule keeps_then [OF keeps_account [OF s1] keeps_from_fund [OF s2]])
  then have k: "sends {} s s2" by (rule keepsD)
  have sn: "all_sent (outbox s2)" "n \<noteq> rex_account" using r by (auto simp: room_def s' send_transfer_def)
  have "rex_coming core b s \<le> rex_coming core b s2" by (rule sends_coming(1) [OF k _ sn(1)]) simp
  moreover have "rex_coming core b s' = rex_coming core b s2 - amount q"
    using sy sn(2) by (simp add: s' rex_coming_def send_transfer_def)
  moreover have "rex_wf core s'" "rex_owed s' = rex_owed s2"
    using rex_stepD(4) [OF st d(1)] rex_same [of s2 s'] by (auto simp: s' send_transfer_def)
  moreover have "dearer b s'"
    by (rule dearer_later [OF dearer_later [OF _ rex_stepD(5) [OF st]]])
      (use w in \<open>simp_all add: solvent_def s' send_transfer_def pricier_pool\<close>)
  ultimately show ?thesis using w rex_stepD(2) [OF st] by (simp add: solvent_def)
qed

text \<open>A purchase into an empty pool sets the price anew; the price was not bounded before it.\<close>

definition at_start :: "rex_before \<Rightarrow> sys_state \<Rightarrow> bool" where
  "at_start b s \<longleftrightarrow> start_lendable b = lendable s \<and> start_shares b = rex_shares s"

lemma bought_dearer:
  assumes "rex_fine core s" "at_start b s" "dearer b s" "rex_shares s \<noteq> 0 \<Longrightarrow> pricier s s'"
  shows "dearer b s'"
proof (cases "rex_shares s = 0")
  case True
  with shares_worth(4) [OF assms(1)] assms(2) show ?thesis by (simp add: dearer_def at_start_def)
next
  case False
  with assms(3,4) show ?thesis by (auto intro: dearer_later)
qed

lemma buyrex_solvent:
  assumes ok: "asset_ops_ok c" and mk: "market_ok core s" and w: "solvent core b s" and st: "at_start b s"
    and r: "room core b s'" and u: "buyrex c n q s = Inr s'"
  shows "solvent core b s'"
  using u
proof (cases rule: buyrex_parts)
  case (1 sy rec d z r2 s1 s2 s3 s4 s5)
  have r5: "room core b s5" using r by (simp add: 1(12))
  have "keeps {names_account} s4 s5" by (rule keeps_account [OF 1(11)])
  then have "sends {names_account} s4 s5" by (rule keepsD)
  then have r4: "room core b s4" by (rule room_before [OF _ _ r5]) simp
  have r3: "room core b s3" by (rule room_before [OF keepsD(10) [OF keeps_runrex [OF 1(8)]] _ r4]) simp
  have k: "keeps {} s s3" by (rule keeps_chain [OF keeps_from_fund [OF 1(5)] keeps_add_pool [OF 1(6)] keeps_add_balance [OF 1(7)]])
  have r0: "room core b s" by (rule room_before [OF keepsD(10) [OF k] _ r3]) simp
  note d = solventD [OF w r0]
  have cs: "core_sym s1 = Some core"
    using core_sym_cong [OF keepsD(1) [OF keeps_from_fund [OF 1(5)]]] 1(2) market_ok_core [OF mk 1(2)] by simp
  note f = from_fund_step [OF ok d(2,3) 1(5)]
  have le1: "rex_owed s1 + amount q \<le> rex_cap" using rex_stepD(2) [OF f(1)] d(3) by simp
  note bs = buy_step [OF ok rex_stepD(1) [OF f(1)] cs 1(4) le1 1(6,7)]
  have "rexpool s1 = rexpool s" using 1(5) by (auto simp: transfer_from_fund_def res_simps)
  then have st1: "at_start b s1" using st by (simp add: at_start_def pool_amounts)
  have "dearer b s1" using w dearer_later [OF _ rex_stepD(5) [OF f(1)]] by (simp add: solvent_def)
  then have "dearer b s3" by (rule bought_dearer [OF rex_stepD(1) [OF f(1)] st1 _ bs(4)])
  moreover have "rex_wf core s3" using bs(1,3) rex_stepD(4) [OF f(1) d(1)] by (simp add: rex_wf_def)
  moreover have "rex_owed s3 = rex_owed s" using bs(2) rex_stepD(2) [OF f(1)] by simp
  ultimately have w3: "solvent core b s3"
    using w sends_coming(1) [OF keepsD(10) [OF k], of core b] r3 by (simp add: solvent_def room_def)
  have w4: "solvent core b s4" by (rule runrex_solvent [OF ok w3 r4 1(8)])
  have "amount z = 0" using 1(9) by (simp add: asset_newD [OF ok])
  from account_solvent(1) [OF ok w4 r5 this 1(11)] show ?thesis by (simp add: 1(12))
qed

lemma unstaketorex_solvent:
  assumes ok: "asset_ops_ok c" and mk: "market_ok core s" and w: "solvent core b s" and st: "at_start b s"
    and r: "room core b s'" and u: "unstaketorex c n rc nq cq s = Inr s'"
  shows "solvent core b s'"
  using u
proof (cases rule: unstaketorex_parts)
  case (1 d d1 s1 s2 pay rec s3 x s4 s5 z y s6)
  let ?s2 = "send_transfer [Perm stake_account active_permission] stake_account rex_account pay ''buy REX with staked tokens'' s2"
  have r6: "room core b s6" using r by (simp add: 1(19))
  have "sends {names_account} s5 s6" by (rule keepsD [OF keeps_account [OF 1(18)]])
  then have r5: "room core b s5" by (rule room_before [OF _ _ r6]) simp
  have r4: "room core b s4" by (rule room_before [OF keepsD(10) [OF keeps_runrex [OF 1(16)]] _ r5]) simp
  have k: "sends {} ?s2 s4" by (rule keepsD [OF keeps_then [OF keeps_add_pool [OF 1(14)] keeps_add_balance [OF 1(15)]]])
  have r2: "room core b ?s2" by (rule room_before [OF k _ r4]) simp
  have sy: "symb nq = core" by (rule market_ok_core [OF mk 1(2)])
  have pay: "amount pay = amount nq + amount cq" "symb pay = core" using 1(13) sy by (auto simp: asset_addD [OF ok])
  have cm: "rex_coming core b ?s2 = rex_coming core b s2 + amount pay"
    using pay(2) by (simp add: rex_coming_def send_transfer_def account_defs)
  have sm: "same Rexing s1 s2" "outbox s2 = outbox s1" using limits_same [OF 1(12)] by auto
  have "same Rexing s ?s2" using sm(1) by (simp add: 1(11) send_transfer_def)
  note e = rex_same [OF this]
  have le: "rex_owed ?s2 + amount pay \<le> rex_coming core b ?s2"
    using w e(1) cm sm(2) by (simp add: solvent_def rex_coming_def 1(11))
  have rf: "rex_fine core ?s2" using w e(2) by (simp add: solvent_def rex_wf_def)
  have "rammarket ?s2 = rammarket s" using keepsD(1) [OF keeps_limits [OF 1(12), of "{}"]] by (simp add: 1(11) send_transfer_def)
  then have cs: "core_sym ?s2 = Some core" using 1(2) sy by (simp add: core_sym_cong [of ?s2 s])
  have pos: "0 < amount pay" and cap: "rex_owed ?s2 + amount pay \<le> rex_cap" using 1(4-6) pay le r2 by (auto simp: room_def)
  note bs = buy_step [OF ok rf cs pos cap 1(14,15)]
  have pl: "rexpool ?s2 = rexpool s" using sm(1) by (simp add: 1(11) send_transfer_def)
  have "dearer b ?s2" by (rule dearer_later [OF _ pricier_pool [OF pl]]) (use w in \<open>simp add: solvent_def\<close>)
  moreover have "at_start b ?s2" using st by (simp add: at_start_def pool_amounts pl)
  ultimately have dr: "dearer b s4" using bought_dearer [OF rf _ _ bs(4)] by blast
  have "rex_coming core b ?s2 \<le> rex_coming core b s4"
    by (rule sends_coming(1) [OF k _ conjunct1 [OF r4 [unfolded room_def]]]) simp
  then have w4: "solvent core b s4"
    using bs(1-3) le w e(4) dr by (auto simp: solvent_def rex_wf_def)
  have w5: "solvent core b s5" by (rule runrex_solvent [OF ok w4 r5 1(16)])
  have "amount z = 0" using 1(17) by (auto simp: core_asset_Inr asset_newD [OF ok])
  from account_solvent(1) [OF ok w5 r6 this 1(18)] show ?thesis by (simp add: 1(19))
qed

text \<open>
  A sale: what is left matured covers the order that stays open, for the code checks it at the end;
  the sum of two requests fits into an \<open>int64_t\<close> because REX are so few.
\<close>

lemma queue_step:
  assumes ok: "asset_ops_ok c" and rf: "rex_fine core s" and op: "\<forall>ord. fmlookup (rexorders s) n = Some ord \<longrightarrow> is_open ord"
    and u: "queue_order c n q s = Inr (ord, s')"
  shows "rex_fine core s'" "rex_owed s' = rex_owed s" "\<And>k. k \<noteq> n \<Longrightarrow> order_fine s k \<Longrightarrow> order_fine s' k"
    "amount (rex_requested ord) = (case fmlookup (rexorders s) n of None \<Rightarrow> amount q | Some o1 \<Rightarrow> i64 (amount (rex_requested o1) + amount q))"
    "s' = s\<lparr>rexorders := fmupd n ord (rexorders s)\<rparr>" "is_open ord"
proof -
  show s': "s' = s\<lparr>rexorders := fmupd n ord (rexorders s)\<rparr>" by (rule queue_order_state [OF u])
  show o: "is_open ord" and "amount (rex_requested ord) = (case fmlookup (rexorders s) n of None \<Rightarrow> amount q
      | Some o1 \<Rightarrow> i64 (amount (rex_requested o1) + amount q))"
    using u op by (auto simp: queue_order_def res_simps split: option.splits)
  show "rex_fine core s'" using rf o by (auto simp: rex_fine_def pool_fine_def pool_amounts s' split: if_splits)
  have "row_val order_val n (fmlookup (rexorders s) n) = 0"
    using op by (cases "fmlookup (rexorders s) n") (auto simp: order_val_def)
  then show "rex_owed s' = rex_owed s" using o by (simp add: rex_owed_def lendable_def s' fmsum_upd order_val_def)
  show "order_fine s' k" if "k \<noteq> n" "order_fine s k" for k using that by (simp add: order_fine_def s')
qed

lemma sellrex_solvent:
  assumes ok: "asset_ops_ok c" and w: "solvent core b s" and r: "room core b s'" and u: "sellrex c n q s = Inr s'"
  shows "solvent core b s'"
  using u
proof (cases rule: sellrex_parts)
  case (1 s1 rb s2 ord s3 z s4 pend s5 rb2)
  have r5: "room core b s5" using r by (auto simp: 1(14) split: if_splits)
  have "keeps {} s4 s5" using 1(11) by (auto dest!: queue_order_state split: if_splits)
  then have "keeps {} s2 s5" by (rule keeps_chain [OF keeps_fill [OF 1(8)] keeps_account [OF 1(10)]])
  then have k: "sends {} s1 s5" by (intro keepsD(10) [OF keeps_then [of _ _ s2]]) (simp_all add: 1(6))
  have r1: "room core b s1" by (rule room_before [OF k _ r5]) simp
  note w1 = runrex_within [OF ok w 1(2) r1]
  have st: "rex_step core 0 s1 s2" unfolding 1(6) by (rule maturities_step [OF w1(3,4) 1(3)])
  have w2: "rex_wf core s2" "rex_fine core s2" "rex_owed s2 = rex_owed s1"
    using rex_stepD [OF st] w1(2) by auto
  have of: "order_fine s2 m" for m using w2(1) by (simp add: rex_wf_def)
  have row: "fmlookup (rexbalance s2) n = Some (process_rex_maturities c rb)" by (simp add: 1(6))
  have le2: "rex_owed s2 \<le> rex_cap" using w2(3) w1(4) by simp
  have "rex_wf core s5 \<and> rex_owed s5 = rex_owed s1 \<and> pricier s1 s5"
  proof (cases "success ord")
    case True
    then have s5: "s5 = s4" "pend = z" using 1(11) by auto
    note f = fill_step [OF ok w2(2) le2 row 1(4,7,8) True]
    have a: "rex_step core (amount (out_proceeds ord)) s3 s4" "amount z = in_order s3 n"
      "\<forall>o1. fmlookup (rexorders s4) n = Some o1 \<longrightarrow> is_open o1 \<and> fmlookup (rexorders s3) n = Some o1"
      using account_step [OF ok f(1,3) _ 1(10)] f(2) le2 by auto
    have "order_fine s4 m" for m
    proof (cases "m = n")
      case True
      show ?thesis using a(2,3) of [of n] f(4) 1(12,13) by (auto simp: True order_fine_def s5 in_order_def)
    next
      case False
      then show ?thesis by (intro rex_stepD(3) [OF a(1)] f(5) of)
    qed
    moreover have "pricier s1 s5"
      using rex_stepD(5) [OF st] f(7) rex_stepD(5) [OF a(1)] by (auto simp: s5 intro: pricier_trans)
    ultimately show ?thesis using rex_stepD [OF a(1)] f(2) w2(3) by (simp add: rex_wf_def s5)
  next
    case False
    then have s3: "s3 = s2" "amount (out_proceeds ord) = 0"
      using 1(8) by (auto simp: fill_rex_order_def with_pool_def res_simps Let_def split: if_splits)
    from 1(11) False obtain o2 where qo: "queue_order c n q s4 = Inr (o2, s5)" and pend: "amount pend = amount (rex_requested o2)"
      by auto
    have a: "rex_step core 0 s2 s4" "\<forall>o1. fmlookup (rexorders s4) n = Some o1 \<longrightarrow> is_open o1 \<and> fmlookup (rexorders s3) n = Some o1"
      using account_step [OF ok _ _ _ 1(10)] w2(2) le2 s3 by auto
    have rf4: "rex_fine core s4" using rex_stepD(1) [OF a(1)] .
    have "\<forall>o1. fmlookup (rexorders s4) n = Some o1 \<longrightarrow> is_open o1" using a(2) by blast
    note qs = queue_step [OF ok rf4 this qo]
    note sb = shares_bound [OF w2(2) le2 row]
    have pos: "0 < amount (rex_requested o2)"
    proof (cases "fmlookup (rexorders s4) n")
      case None
      then show ?thesis using qs(4) 1(4) by simp
    next
      case (Some o1)
      then have "0 < amount (rex_requested o1)" "amount (rex_requested o1) \<le> 4600000000000000000"
        using a(2) s3(1) of [of n] row sb by (auto simp: order_fine_def)
      moreover have "amount q \<le> 4600000000000000000" using 1(7) sb by simp
      ultimately have "i64 (amount (rex_requested o1) + amount q) = amount (rex_requested o1) + amount q"
        using 1(4) by (intro i64_fits) auto
      then show ?thesis using qs(4) Some 1(4) \<open>0 < amount (rex_requested o1)\<close> by simp
    qed
    have "order_fine s5 m" for m
    proof (cases "m = n")
      case True
      show ?thesis using pos pend 1(12,13) by (simp add: True order_fine_def qs(5))
    next
      case False
      then show ?thesis by (intro qs(3) rex_stepD(3) [OF a(1)] of)
    qed
    moreover have "pricier s4 s5" by (simp add: qs(5) pricier_pool)
    then have "pricier s1 s5" using rex_stepD(5) [OF st] rex_stepD(5) [OF a(1)] by (blast intro: pricier_trans)
    ultimately show ?thesis using qs(1,2) rex_stepD(2) [OF a(1)] w2(3) by (simp add: rex_wf_def)
  qed
  then have "solvent core b s5"
    using w1(1) sends_coming(1) [OF k, of core b] r5 by (auto simp: solvent_def room_def intro: dearer_later)
  then show ?thesis by (auto simp: 1(14))
qed

lemma cnclrexorder_solvent:
  assumes w: "solvent core b s" and r: "room core b s'" and u: "cnclrexorder c n s = Inr s'"
  shows "solvent core b s'"
proof -
  from u obtain ord where ord: "fmlookup (rexorders s) n = Some ord" "is_open ord"
    and s': "s' = s\<lparr>rexorders := fmdrop n (rexorders s)\<rparr>" by (auto simp: cnclrexorder_def res_simps)
  have "rex_fine core s" using w by (simp add: solvent_def rex_wf_def)
  then have "rex_fine core s'" by (auto simp: rex_fine_def pool_fine_def pool_amounts s' split: if_splits)
  then have "rex_step core 0 s s'"
    using ord by (auto simp: rex_step_def order_fine_def s' rex_owed_def lendable_def fmsum_drop order_val_def pricier_pool split: if_splits)
  then show ?thesis by (rule solvent_step [OF w _ _ _ r, where F = "{}"]) (simp_all add: s' sends_refl)
qed

section \<open>Loans\<close>

lemma rentrex_solvent:
  assumes ok: "asset_ops_ok c" and w: "solvent core b s" and r: "room core b s'"
    and u: "rentrex kind c from receiver pay fund s = Inr s'"
  shows "solvent core b s'"
  using u
proof (cases rule: rentrex_parts)
  case (1 s1 sy s2 rp rented a s3)
  from 1(9) obtain q where q: "asset_add c pay fund = Inr q" and s2: "transfer_from_fund c from q s1 = Inr s2" by blast
  let ?rp = "add_loan_to_rex_pool pay rented True rp" and ?old = "loans_of kind s2"
  let ?loan = "\<lparr>loan_from = from, loan_receiver = receiver, loan_payment = pay, loan_balance = fund,
      total_staked = a, expiration = i64 (now_tp c + thirty_days)\<rparr>"
  let ?m = "fmupd (next_loan_num ?rp) ?loan ?old"
  define s3' where "s3' = set_loans kind ?m (s2\<lparr>rexpool := Some ?rp\<rparr>)"
  have s3: "s3 = send_result (RentResult a) s3'" unfolding s3'_def by (rule 1(15))
  note l = limits_for_same [OF 1(16)]
  have r3: "room core b s3" using r l by (simp add: room_def rex_coming_def)
  have k3: "sends {} s1 s3'"
    using keeps_from_fund [OF s2, of "{}"] by (simp add: s3'_def keeps_def sends_def)
  have r3': "room core b s3'" using r3 by (simp add: s3)
  have r1: "room core b s1" by (rule room_before [OF k3 _ r3']) simp
  note w1 = runrex_within [OF ok w 1(2) r1]
  note f = from_fund_step [OF ok w1(3,4) s2]
  have qv: "amount q = amount pay + amount fund" using q by (auto simp: asset_addD [OF ok])
  note rf2 = rex_stepD(1) [OF f(1)] and o2 = rex_stepD(2) [OF f(1)]
  note pb = rex_pool_bounds(1,4) [OF rf2 1(10)]
  have S: "amount (total_lendable rp) + amount pay \<le> rex_cap" "amount (total_lendable rp) \<le> rex_cap"
    and p: "amount pay \<le> rex_cap" and fl: "amount fund \<le> rex_cap"
    using pb(2) rex_row_bounds(4,5) [OF rf2] o2 qv w1(4) 1(7,8) by auto
  note pr = price_of_loan [OF pb(1) S(2) 1(7) p 1(11,12)]
  have "rexpool s2 = rexpool s1" using s2 by (auto simp: transfer_from_fund_def res_simps)
  then have R: "0 < amount (total_rex rp)"
    using 1(3,10) by (auto simp: rex_loans_available_def rex_available_def split: option.splits)
  note ad = add_loan_pool [OF pb(1) 1(7) S(1) R _ pr, of True]
  have av: "amount a = rented" using 1(14) by (auto simp: core_asset_Inr asset_newD [OF ok])
  have st: "rex_step core (amount (total_lendable ?rp) - lendable s2 + fmsum loan_val ?m - fmsum loan_val ?old) s2 s3'"
    unfolding s3'_def
  proof (rule loan_pool_step [OF rf2 ad(1)])
    show "loan_ok x" if "fmlookup ?m k = Some x" for k x
      using that rex_fineD(2) [OF rf2, of kind k x] 1(7,8,12) av p
      by (auto simp: loan_ok_def split: if_splits)
    show "amount (total_lent ?rp) = rex_lent s2 + fmsum staked_val ?m - fmsum staked_val ?old"
      using ad(3) 1(7,12) by (simp add: fmsum_upd 1(13) staked_val_def av rex_lent_def 1(10))
  qed (use ad(2,4) 1(7,12) pb(2) in \<open>simp_all add: rex_shares_def 1(10)\<close>)
  have "fmsum loan_val ?m = fmsum loan_val ?old + amount fund" by (simp add: fmsum_upd 1(13) loan_val_def)
  then have "rex_step core (- amount q + (amount pay + amount fund)) s1 s3'"
    using rex_step_trans [OF f(1) st] ad(2) pb(2) 1(7,12) by simp
  then have "rex_step core 0 s1 s3'" using qv by simp
  then have "solvent core b s3'" by (rule solvent_step [OF w1(1) _ k3 _ r3']) simp_all
  then have "solvent core b s3" by (simp add: s3)
  then show ?thesis using solvent_same [of core b s3 s' "{}"] l r by (simp add: sends_refl)
qed

lemma loan_row_step:
  assumes rf: "rex_fine core s" and rp: "rexpool s = Some rp" and l: "fmlookup (loans_of kind s) num = Some loan" and a: "0 \<le> a"
  shows "rex_step core (a - amount (loan_balance loan)) s
    (set_loans kind (fmupd num (loan\<lparr>loan_balance := (loan_balance loan)\<lparr>amount := a\<rparr>\<rparr>) (loans_of kind s)) s)"
proof -
  let ?l = "loan\<lparr>loan_balance := (loan_balance loan)\<lparr>amount := a\<rparr>\<rparr>"
  let ?m = "fmupd num ?l (loans_of kind s)"
  have "rex_step core (amount (total_lendable rp) - lendable s + fmsum loan_val ?m - fmsum loan_val (loans_of kind s))
    s (set_loans kind ?m (s\<lparr>rexpool := Some rp\<rparr>))"
  proof (rule loan_pool_step [OF rf rex_pool_bounds(1) [OF rf rp]])
    show "loan_ok x" if "fmlookup ?m k = Some x" for k x
      using that rex_fineD(2) [OF rf] l a by (auto simp: loan_ok_def split: if_splits)
    show "amount (total_lent rp) = rex_lent s + fmsum staked_val ?m - fmsum staked_val (loans_of kind s)"
      by (simp add: fmsum_upd l staked_val_def rex_lent_def rp)
  qed (simp_all add: pool_amounts rp)
  moreover have "s\<lparr>rexpool := Some rp\<rparr> = s" using rp by simp
  ultimately show ?thesis by (simp add: fmsum_upd l loan_val_def lendable_def rp)
qed

lemma loan_needs_pool:
  assumes rf: "rex_fine core s" and l: "fmlookup (loans_of kind s) num = Some loan"
  obtains rp where "rexpool s = Some rp"
proof -
  have "0 < rex_lent s"
    using loan_row_le(2) [OF rf l] rex_fineD(2) [OF rf l] rex_parts(6,7) [OF rf] fine_sums(1) [OF rf]
    by (cases kind) (auto simp: loan_ok_def)
  then show ?thesis using that by (auto simp: rex_lent_def split: option.splits)
qed

lemma fundloan_solvent:
  assumes ok: "asset_ops_ok c" and w: "solvent core b s" and r: "room core b s'" and u: "fundloan kind c n num q s = Inr s'"
  shows "solvent core b s'"
proof -
  have k: "sends {} s s'" by (rule keepsD [OF keeps_fund_loan [OF u]])
  have r0: "room core b s" by (rule room_before [OF k _ r]) simp
  note d = solventD [OF w r0]
  from u show ?thesis
  proof (cases rule: fund_loan_parts)
    case (1 s1 loan)
    note f = from_fund_step [OF ok d(2,3) 1(3)]
    note rf = rex_stepD(1) [OF f(1)]
    obtain rp where rp: "rexpool s1 = Some rp" by (rule loan_needs_pool [OF rf 1(4)])
    have "0 \<le> amount (loan_balance loan)" "amount (loan_balance loan) + amount q \<le> rex_cap"
      using rex_row_bounds(2) [OF rf 1(4)] rex_stepD(2) [OF f(1)] d(3) rex_fineD(2) [OF rf 1(4)] by (auto simp: loan_ok_def)
    moreover from this have "i64 (amount (loan_balance loan) + amount q) = amount (loan_balance loan) + amount q"
      using f(2) by (intro cap_fits) auto
    ultimately have "rex_step core (amount q) s1 s'"
      using loan_row_step [OF rf rp 1(4), of "amount (loan_balance loan) + amount q"] f(2) by (simp add: 1(7))
    then have "rex_step core 0 s s'" using rex_step_trans [OF f(1)] by fastforce
    then show ?thesis by (rule solvent_step [OF w _ k _ r]) simp_all
  qed
qed

lemma defloan_solvent:
  assumes ok: "asset_ops_ok c" and w: "solvent core b s" and r: "room core b s'" and u: "defloan kind c n num q s = Inr s'"
  shows "solvent core b s'"
proof -
  have k: "sends {} s s'" by (rule keepsD [OF keeps_defund_loan [OF u]])
  have r0: "room core b s" by (rule room_before [OF k _ r]) simp
  note d = solventD [OF w r0]
  from u show ?thesis
  proof (cases rule: defund_loan_parts)
    case (1 loan)
    obtain rp where rp: "rexpool s = Some rp" by (rule loan_needs_pool [OF d(2) 1(3)])
    have q: "0 < amount q" using 1(7) by (auto simp: transfer_to_fund_def res_simps)
    have le: "amount q \<le> amount (loan_balance loan)" using 1(6) by (simp add: asset_leD [OF ok])
    have "amount (loan_balance loan) \<le> rex_cap" using rex_row_bounds(2) [OF d(2) 1(3)] d(3) by simp
    then have i: "i64 (amount (loan_balance loan) - amount q) = amount (loan_balance loan) - amount q"
      using le q by (intro cap_fits) auto
    have st: "rex_step core (- amount q) s (set_loans kind (fmupd num
       (loan\<lparr>loan_balance := (loan_balance loan)\<lparr>amount := i64 (amount (loan_balance loan) - amount q)\<rparr>\<rparr>)
       (loans_of kind s)) s)"
      using loan_row_step [OF d(2) rp 1(3), of "amount (loan_balance loan) - amount q"] le unfolding i by simp
    have "rex_step core (amount q) (set_loans kind (fmupd num
       (loan\<lparr>loan_balance := (loan_balance loan)\<lparr>amount := i64 (amount (loan_balance loan) - amount q)\<rparr>\<rparr>)
       (loans_of kind s)) s) s'"
      by (rule to_fund_step(1) [OF rex_stepD(1) [OF st] _ 1(7)]) (use rex_stepD(2) [OF st] d(3) in simp)
    then have "rex_step core 0 s s'" using rex_step_trans [OF st] by fastforce
    then show ?thesis by (rule solvent_step [OF w _ k _ r]) simp_all
  qed
qed

section \<open>Upkeep\<close>

lemma setrex_solvent:
  assumes w: "solvent core b s" and r: "room core b s'" and u: "setrex c q s = Inr s'" and q: "amount q \<le> 2 * rex_cap"
  shows "solvent core b s'"
proof -
  from u obtain rp where rp: "rexpool s = Some rp" and p: "0 < amount q" and s': "s' = s\<lparr>rexpool := Some (rp\<lparr>total_rent := q\<rparr>)\<rparr>"
    by (auto simp: setrex_def res_simps)
  have rf: "rex_fine core s" using w by (simp add: solvent_def rex_wf_def)
  have "pool_ok core (rp\<lparr>total_rent := q\<rparr>)" using rex_pool_bounds(1) [OF rf rp] p q by (auto simp: pool_ok_def)
  then have "rex_fine core s'" using rf fine_sums [OF rf] by (auto simp: rex_fine_def pool_fine_def pool_amounts s' rp)
  moreover have "pricier s s'" by (rule pricier_grows) (simp_all add: pool_amounts s' rp)
  ultimately have "rex_step core 0 s s'" by (simp add: rex_step_def order_fine_def s' rex_owed_def lendable_def rp)
  then show ?thesis by (rule solvent_step [OF w _ _ _ r, where F = "{}"]) (simp_all add: s' sends_refl)
qed

lemma rexexec_solvent:
  assumes "asset_ops_ok c" "solvent core b s" "room core b s'" "rexexec c n mx s = Inr s'"
  shows "solvent core b s'"
  using runrex_solvent [OF assms(1-3), of "nat mx"] assms(4) by (simp add: rexexec_def require_auth_Inr)

lemma updaterex_solvent:
  assumes ok: "asset_ops_ok c" and w: "solvent core b s" and r: "room core b s'" and u: "updaterex c n s = Inr s'"
  shows "solvent core b s'"
  using u
proof (cases rule: updaterex_parts)
  case (1 s1 rb rp z stake change x s3 rb3)
  let ?s2 = "s1\<lparr>rexbalance := fmupd n (rb\<lparr>vote_stake := z\<lparr>amount := stake\<rparr>\<rparr>) (rexbalance s1)\<rparr>"
  have r3: "room core b s3" using r by (simp add: 1(10) room_def rex_coming_def)
  have k: "sends {} ?s2 s3" by (rule keepsD [OF keeps_account [OF 1(8)]])
  have r2: "room core b ?s2" by (rule room_before [OF k _ r3]) simp
  then have r1: "room core b s1" by (simp add: room_def rex_coming_def)
  note w1 = runrex_within [OF ok w 1(2) r1]
  have z0: "amount z = 0" using 1(5) by (auto simp: core_asset_Inr asset_newD [OF ok])
  have "rb_ok rb" by (rule rex_fineD(3) [OF w1(3) 1(3)])
  then have "rex_step core 0 s1 ?s2"
    using in_order_bounds(2) [OF w1(3) _ 1(3)] by (intro row_step [OF w1(3) 1(3)]) (auto simp: rb_ok_def rb_fine_def rb_total_def)
  then have w2: "solvent core b ?s2"
    by (rule solvent_step [OF w1(1) _ _ _ r2, where F = "{}"]) (simp_all add: sends_refl)
  have c0: "amount z = 0" by (rule z0)
  have w3: "solvent core b s3" by (rule account_solvent(1) [OF ok w2 r3 z0 1(8)])
  note d = solventD [OF w3 r3]
  show ?thesis
    by (rule solvent_step [OF w3 maturities_step [OF d(2,3) 1(9), of c, folded 1(10)] _ _ r, where F = "{}"])
      (simp_all add: 1(10) sends_refl)
qed

text \<open>The actions on the owner's row after maintenance and settlement share these facts.\<close>

lemma settled_row:
  assumes ok: "asset_ops_ok c" and w: "solvent core b s" and r: "room core b s2"
    and u: "runrex c 2 s = Inr s1" "update_rex_account c n z z False s1 = Inr (x, s2)" and z: "core_asset c s1 0 Inr = Inr z"
  shows "solvent core b s2" "rex_fine core s2" "rex_owed s2 \<le> rex_cap" "rex_wf core s2" "amount x = in_order s2 n"
proof -
  have z0: "amount z = 0" using z by (auto simp: core_asset_Inr asset_newD [OF ok])
  have k: "sends {} s1 s2" by (rule keepsD [OF keeps_account [OF u(2)]])
  have r1: "room core b s1" by (rule room_before [OF k _ r]) simp
  note w1 = runrex_within [OF ok w u(1) r1]
  show w2: "solvent core b s2" by (rule account_solvent(1) [OF ok w1(1) r z0 u(2)])
  show "rex_fine core s2" "rex_owed s2 \<le> rex_cap" "rex_wf core s2" using solventD [OF w2 r] by auto
  have "0 \<le> amount z" "rex_owed s1 + amount z \<le> rex_cap" using z0 w1(4) by auto
  then show "amount x = in_order s2 n" using account_step(2,3) [OF ok w1(3) _ _ u(2)] by simp
qed

lemma row_solvent:
  assumes w: "solvent core b s" and rf: "rex_fine core s" and r: "room core b (s\<lparr>rexbalance := fmupd n rb' (rexbalance s)\<rparr>)"
    and rb: "fmlookup (rexbalance s) n = Some rb" and rb': "rb_ok rb'" "amount (rex_bal rb') = amount (rex_bal rb)"
    and m: "in_order s n \<le> matured_rex rb'"
  shows "solvent core b (s\<lparr>rexbalance := fmupd n rb' (rexbalance s)\<rparr>)"
  by (rule solvent_step [OF w row_step [OF rf rb rb' m] _ _ r, where F = "{}"]) (simp_all add: sends_refl)

lemma consolidate_solvent:
  assumes ok: "asset_ops_ok c" and w: "solvent core b s" and r: "room core b s'" and u: "consolidate c n s = Inr s'"
  shows "solvent core b s'"
  using u
proof (cases rule: consolidate_parts)
  case (1 s1 z x s2 rb)
  have r2: "room core b s2" using r by (simp add: 1(7) room_def rex_coming_def)
  note sr = settled_row [OF ok w r2 1(2,5,4)]
  have of: "order_fine s2 n" using sr(4) by (simp add: rex_wf_def)
  note io = in_order_bounds [OF sr(2) of 1(6)] and sb = shares_bound [OF sr(2,3) 1(6)]
  have row: "rb_ok rb" by (rule rex_fineD(3) [OF sr(2) 1(6)])
  have "rb_total rb < 9223372036854775808" using sb by simp
  then have ck: "rb_fine (consolidate_rex_balance c x rb)" "rb_total (consolidate_rex_balance c x rb) = rb_total rb"
    "matured_rex (consolidate_rex_balance c x rb) = amount x" "rex_bal (consolidate_rex_balance c x rb) = rex_bal rb"
    using consolidate_keeps [of rb x c] row io sr(5) by (auto simp: rb_ok_def)
  show ?thesis unfolding 1(7)
    by (rule row_solvent [OF sr(1,2) r [unfolded 1(7)] 1(6)]) (use ck row sr(5) in \<open>auto simp: rb_ok_def\<close>)
qed

lemma mvtosavings_solvent:
  assumes ok: "asset_ops_ok c" and w: "solvent core b s" and r: "room core b s'" and u: "mvtosavings c n q s = Inr s'"
    and q: "amount q < 9223372036854775808"
  shows "solvent core b s'"
  using u
proof (cases rule: mvtosavings_parts)
  case (1 s1 rb0 z x s2 rb1 sav rb2 rb3)
  have r2: "room core b s2" using r by (simp add: 1(11) room_def rex_coming_def)
  note sr = settled_row [OF ok w r2 1(2,6,5)]
  have of: "order_fine s2 n" using sr(4) by (simp add: rex_wf_def)
  note io = in_order_bounds [OF sr(2) of 1(7)] and sb = shares_bound [OF sr(2,3) 1(7)]
  have row: "rb_ok rb1" by (rule rex_fineD(3) [OF sr(2) 1(7)])
  note rd = read_savings_keeps [OF 1(8)]
  have f2: "rb_fine rb2" "0 \<le> sav" using rd(2) row by (auto simp: rb_ok_def)
  have t2: "rb_total rb2 + sav \<le> 4600000000000000000" using rd(1) sb by simp
  then have "rb_total rb2 < 9223372036854775808" using f2 by simp
  note pm = process_maturities_keeps [OF f2(1) this, of c]
  have mv: "rb_fine rb3" "rb_total rb3 = rb_total (process_rex_maturities c rb2) - amount q"
    "amount x \<le> matured_rex rb3" "rex_bal rb3 = rex_bal (process_rex_maturities c rb2)"
    using move_to_savings_keeps [OF 1(10) pm(1)] pm(2,3) t2 f2(2) 1(4) q io sr(5) rd(3) by auto
  have "0 \<le> rb_total rb3" using mv(1) bucket_sum_nonneg [of "rex_maturities rb3"] by (auto simp: rb_fine_def rb_total_def)
  then have "amount q \<le> rb_total rb2" using mv(2) pm(2) by simp
  then have i: "i64 (sav + amount q) = sav + amount q" using t2 f2(2) 1(4) by (intro i64_fits) auto
  have ps: "rb_fine (put_rex_savings (sav + amount q) rb3)" "rb_total (put_rex_savings (sav + amount q) rb3) = rb_total rb3 + (sav + amount q)"
    "matured_rex (put_rex_savings (sav + amount q) rb3) = matured_rex rb3" "rex_bal (put_rex_savings (sav + amount q) rb3) = rex_bal rb3"
    using put_savings_keeps [OF mv(1), of "sav + amount q"] f2(2) 1(4) mv(2) pm(2) t2 by auto
  show ?thesis unfolding 1(11)
    by (rule row_solvent [OF sr(1,2) r [unfolded 1(11)] 1(7)])
      (use ps mv pm rd row sr(5) in \<open>auto simp: rb_ok_def i\<close>)
qed

lemma mvfrsavings_solvent:
  assumes ok: "asset_ops_ok c" and w: "solvent core b s" and r: "room core b s'" and u: "mvfrsavings c n q s = Inr s'"
  shows "solvent core b s'"
  using u
proof (cases rule: mvfrsavings_parts)
  case (1 s1 rb0 sav rb1 s2 z x)
  have k: "sends {} s2 s'" by (rule keepsD [OF keeps_account [OF 1(9)]])
  have r2: "room core b s2" by (rule room_before [OF k _ r]) simp
  then have r1: "room core b s1" by (simp add: 1(7) room_def rex_coming_def)
  note w1 = runrex_within [OF ok w 1(2) r1]
  have of: "order_fine s1 n" using w1(2) by (simp add: rex_wf_def)
  note io = in_order_bounds [OF w1(3) of 1(3)] and sb = shares_bound [OF w1(3,4) 1(3)]
  have row: "rb_ok rb0" by (rule rex_fineD(3) [OF w1(3) 1(3)])
  note rd = read_savings_keeps [OF 1(5)]
  have f1: "rb_fine rb1" "0 \<le> sav" using rd(2) row by (auto simp: rb_ok_def)
  have t1: "rb_total rb1 + sav \<le> 4600000000000000000" using rd(1) sb by simp
  then have "rb_total rb1 < 9223372036854775808" using f1 by simp
  note pm = process_maturities_keeps [OF f1(1) this, of c]
  let ?b = "add_bucket (get_rex_maturity c) (amount q) (process_rex_maturities c rb1)"
  have ab: "rb_fine ?b" "rb_total ?b = rb_total rb1 + amount q" "matured_rex ?b = matured_rex (process_rex_maturities c rb1)"
    "rex_bal ?b = rex_bal rb1"
    using add_bucket_keeps [OF pm(1), of "amount q" "get_rex_maturity c"] pm t1 f1(2) 1(4,6) by auto
  have i: "i64 (sav - amount q) = sav - amount q"
    using 1(4,6) t1 f1(1) bucket_sum_nonneg [of "rex_maturities rb1"] by (intro i64_fits) (auto simp: rb_fine_def rb_total_def)
  let ?p = "put_rex_savings (sav - amount q) ?b"
  have ps: "rb_fine ?p" "rb_total ?p = rb_total rb1 + sav" "matured_rex ?p = matured_rex ?b" "rex_bal ?p = rex_bal ?b"
    using put_savings_keeps [OF ab(1), of "sav - amount q"] 1(6) ab(2) t1 by auto
  have w2: "solvent core b s2" unfolding 1(7)
    by (rule row_solvent [OF w1(1,3) r2 [unfolded 1(7)] 1(3)]) (use ps ab pm(3) rd row io in \<open>auto simp: rb_ok_def i\<close>)
  have "amount z = 0" using 1(8) by (auto simp: core_asset_Inr asset_newD [OF ok])
  from account_solvent(1) [OF ok w2 r this 1(9)] show ?thesis .
qed

lemma closerex_solvent:
  assumes ok: "asset_ops_ok c" and w: "solvent core b s" and r: "room core b s'" and u: "closerex c n s = Inr s'"
  shows "solvent core b s'"
  using u
proof (cases rule: closerex_parts)
  case (1 s1 z x s2 f s3)
  have ob: "outbox s' = outbox s2" using 1(5,7) by auto
  then have r2: "room core b s2" using r by (simp add: room_def rex_coming_def)
  have k: "sends {} s1 s2" by (rule keepsD [OF keeps_account [OF 1(4)]])
  have r1: "room core b s1" by (rule room_before [OF k _ r2]) simp
  have w1: "solvent core b s1" using 1(2) w runrex_solvent [OF ok w r1] by (auto split: if_splits)
  have "amount z = 0" using 1(3) by (auto simp: core_asset_Inr asset_newD [OF ok])
  then have w2: "solvent core b s2" by (rule account_solvent(1) [OF ok w1 r2 _ 1(4)])
  note d = solventD [OF w2 r2]
  have f: "fmsum fund_val f = fmsum fund_val (rexfunds s2)" "\<forall>k q. fmlookup f k = Some q \<longrightarrow> 0 \<le> amount q"
    using 1(6) rex_fineD(1) [OF d(2)] by (auto simp: fmsum_drop fund_val_def split: if_splits)
  have "rex_fine core s3" using d(2) f by (auto simp: rex_fine_def pool_fine_def pool_amounts 1(5))
  then have st: "rex_step core 0 s2 s3"
    using f by (simp add: rex_step_def order_fine_def rex_owed_def lendable_def 1(5) pricier_pool)
  have "rex_step core 0 s3 s'"
  proof (cases "s' = s3")
    case True
    then show ?thesis using rex_stepD(1) [OF st] by (simp add: rex_step_def)
  next
    case False
    with 1(7) obtain rb where s': "s' = s3\<lparr>rexbalance := fmdrop n (rexbalance s3)\<rparr>"
      and rb: "fmlookup (rexbalance s3) n = Some rb" "amount (rex_bal rb) = 0" by blast
    have rok: "rb_ok rb" by (rule rex_fineD(3) [OF rex_stepD(1) [OF st] rb(1)])
    have "matured_rex rb \<le> 0"
      using rok rb(2) bucket_sum_nonneg [of "rex_maturities rb"] by (auto simp: rb_ok_def rb_fine_def rb_total_def)
    then have "order_fine s' m" if "order_fine s3 m" for m
      using that rb(1) by (cases "m = n") (fastforce simp: order_fine_def s')+
    moreover have "rex_fine core s'"
      using rex_stepD(1) [OF st] rb by (auto simp: rex_fine_def pool_fine_def pool_amounts s' fmsum_drop share_val_def split: if_splits)
    ultimately show ?thesis by (simp add: rex_step_def rex_owed_def lendable_def s' pricier_pool)
  qed
  then have "rex_step core 0 s2 s'" using rex_step_trans [OF st] by fastforce
  then show ?thesis by (rule solvent_step [OF w2 _ _ _ r, where F = "{}"]) (simp_all add: ob sends_refl)
qed

section \<open>RAM fees and name auctions\<close>

lemma footprint_solvent:
  assumes w: "solvent core b s" and f: "footprint A F s s'" "Rexing \<notin> A" "rex_account \<notin> F" and r: "room core b s'"
  shows "solvent core b s'"
  using solvent_same [OF w footprintD(1) [OF f(1,2)] footprintD(3) [OF f(1)] f(3) r] .

lemma channel_room:
  assumes "n \<noteq> rex_account" "room core b (channel_to_rex c n q s)" shows "room core b s"
  by (rule room_before [OF keepsD(10) [OF keeps_channel] _ assms(2)]) (use assms(1) in simp)

lemma pay_ram_solvent:
  assumes w: "solvent core b s" and p: "payer \<noteq> rex_account" and sy: "symb fee = core"
    and r: "room core b (pay_ram c payer price fee s)"
  shows "solvent core b (pay_ram c payer price fee s)"
proof -
  let ?s1 = "send_transfer [Perm payer active_permission, Perm ram_account active_permission] payer ram_account price ''buy ram'' s"
  let ?s2 = "send_transfer [Perm payer active_permission] payer ramfee_account fee ''ram fee'' ?s1"
  have t: "footprint {} {payer} x (send_transfer ps payer to q m x)" for ps to q m x by (rule footprint_transfer) simp
  have rr: "rex_account \<notin> {payer}" and fr: "ramfee_account \<noteq> rex_account" using p by (auto simp: account_defs)
  show ?thesis
  proof (cases "0 < amount fee")
    case True
    then have e: "pay_ram c payer price fee s = channel_to_rex c ramfee_account fee ?s2" by (simp add: pay_ram_def Let_def)
    have r2: "room core b ?s2" by (rule channel_room [OF fr]) (use r e in simp)
    have r1: "room core b ?s1" by (rule room_before [OF footprintD(3) [OF t] rr r2])
    have "solvent core b ?s2"
      by (rule footprint_solvent [OF footprint_solvent [OF w t _ rr r1] t _ rr r2]) simp_all
    then show ?thesis unfolding e by (rule channel_solvent [OF _ sy fr]) (use r e in simp)
  next
    case False
    then have e: "pay_ram c payer price fee s = ?s1" by (simp add: pay_ram_def Let_def)
    show ?thesis unfolding e by (rule footprint_solvent [OF w t _ rr]) (use r e in simp_all)
  qed
qed

lemma buyram_solvent:
  assumes ok: "asset_ops_ok c" and mk: "market_ok core s0" and na: "\<not> has_auth c rex_account"
    and w: "solvent core b s0" and r: "room core b s'" and u: "buyram c n rc q s0 = Inr s'"
  shows "solvent core b s'"
  using u
proof (cases rule: buyram_parts)
  case (1 s fee price s2 m m1 out)
  let ?s3 = "s2\<lparr>rammarket := Some m1, gstate := (gstate s2)\<lparr>
       total_ram_bytes_reserved := u64 (total_ram_bytes_reserved (gstate s2) + u64 (amount out)),
       total_ram_stake := i64 (total_ram_stake (gstate s2) + amount price)\<rparr>\<rparr>"
  have n: "n \<noteq> rex_account" using 1(1) na by blast
  have f3: "footprint {Ramming, Weighing} {} ?s3 s'" by (rule footprint_credit_ram [OF 1(11)])
  have f2: "footprint {Ramming, Weighing} {} s2 ?s3" by (rule footprint_ramming) simp_all
  have f23: "footprint {Ramming, Weighing} {} s2 s'" by (rule footprint_then [OF f2 f3])
  have r2: "room core b s2" by (rule room_before [OF footprintD(3) [OF f23] _ r]) simp
  have "sends {n, ramfee_account} s s2" using footprintD(3) [OF footprint_pay_ram] by (simp add: 1(7))
  then have r1: "room core b s" by (rule room_before [OF _ _ r2]) (use n in \<open>simp add: account_defs\<close>)
  have w1: "solvent core b s"
    by (rule footprint_solvent [OF w footprint_update_ram_supply [OF 1(2), of "{}"] _ _ r1]) simp_all
  have sy: "symb fee = core" using market_ok_core [OF market_ok_supply [OF 1(2) mk] 1(3)] by (simp add: 1(5))
  have "solvent core b s2" unfolding 1(7) by (rule pay_ram_solvent [OF w1 n sy]) (use r2 1(7) in simp)
  then show ?thesis by (rule footprint_solvent [OF _ f23 _ _ r]) simp_all
qed

lemma pay_seller_solvent:
  assumes ok: "asset_ops_ok c" and w: "solvent core b s" and n: "n \<noteq> rex_account" and mk: "market_ok core s'"
    and r: "room core b s'" and u: "pay_seller c n q s = Inr s'"
  shows "solvent core b s'"
proof -
  let ?s1 = "send_transfer [Perm ram_account active_permission, Perm n active_permission] ram_account n q ''sell ram'' s"
  let ?s2 = "\<lambda>x. send_transfer [Perm n active_permission] n ramfee_account x ''sell ram fee'' ?s1"
  have fr: "ramfee_account \<noteq> rex_account" "rex_account \<notin> {ram_account}" "rex_account \<notin> {n}" using n by (simp_all add: account_defs)
  have t1: "footprint {} {ram_account} s ?s1" and t2: "footprint {} {n} ?s1 (?s2 x)" for x by (rule footprint_transfer, simp)+
  show ?thesis
  proof (cases "0 < ram_fee (amount q)")
    case False
    then have 1: "s' = ?s1" using u by (simp add: pay_seller_def Let_def)
    show ?thesis unfolding 1 by (rule footprint_solvent [OF w t1 _ fr(2)]) (use r 1 in simp_all)
  next
    case True
    from u have "core_asset c ?s1 (ram_fee (amount q)) (\<lambda>x. Inr (channel_to_rex c ramfee_account x (?s2 x))) = Inr s'"
      by (simp only: pay_seller_def Let_def if_P [OF True])
    then obtain x sy where 2: "core_sym ?s1 = Some sy" "asset_new c (ram_fee (amount q)) sy = Inr x"
      "channel_to_rex c ramfee_account x (?s2 x) = s'"
      unfolding core_asset_Inr sum.inject by blast
    have "rammarket s' = rammarket ?s1" using pay_seller_sel(1) [OF u] by simp
    then have "core_sym s' = Some sy" using 2(1) by (simp add: core_sym_cong [of s' ?s1])
    then have sy: "symb x = core" using market_ok_core [OF mk] 2(2) by (auto simp: asset_newD [OF ok])
    have r2: "room core b (?s2 x)" by (rule channel_room [OF fr(1)]) (rule r [folded 2(3)])
    have r1: "room core b ?s1" by (rule room_before [OF footprintD(3) [OF t2] fr(3) r2])
    have "solvent core b (?s2 x)"
      by (rule footprint_solvent [OF footprint_solvent [OF w t1 _ fr(2) r1] t2 _ fr(3) r2]) simp_all
    then show ?thesis unfolding 2(3) [symmetric] by (rule channel_solvent [OF _ sy fr(1) r [folded 2(3)]])
  qed
qed

lemma sellram_solvent:
  assumes ok: "asset_ops_ok c" and mk: "market_ok core s'" and na: "\<not> has_auth c rex_account"
    and w: "solvent core b s0" and r: "room core b s'" and u: "sellram c n bs s0 = Inr s'"
  shows "solvent core b s'"
  using u
proof (cases rule: sellram_parts)
  case (1 s rw m q sy out m1 stake r1)
  let ?s2 = "s\<lparr>rammarket := Some m1,
       gstate := (gstate s)\<lparr>total_ram_bytes_reserved := u64 (total_ram_bytes_reserved (gstate s) - u64 bs),
         total_ram_stake := stake\<rparr>, userres := fmupd n r1 (userres s)\<rparr>"
  let ?s3 = "set_ram_limit n (ram_bytes r1) ?s2"
  have n: "n \<noteq> rex_account" using 1(1) na by blast
  have acc: "rex_account \<notin> {ram_account, n, ramfee_account}" using n by (simp add: account_defs)
  have r3: "room core b ?s3" by (rule room_before [OF footprintD(3) [OF footprint_pay_seller [OF 1(14)]] acc r])
  have f1: "footprint {Ramming} {} s0 s" by (rule footprint_update_ram_supply [OF 1(2)])
  have "footprint {Ramming, Weighing} {} s ?s2" by (rule footprint_ramming(3)) simp_all
  then have f2: "footprint {Ramming, Weighing} {} s ?s3" by (rule footprint_then) simp
  have f: "footprint {Ramming, Weighing} {} s0 ?s3" by (rule footprint_trans [OF f1 f2]) auto
  have "solvent core b ?s3" by (rule footprint_solvent [OF w f _ _ r3]) simp_all
  then show ?thesis by (rule pay_seller_solvent [OF ok _ n mk r 1(14)])
qed

text \<open>Closing an auction only counts its proceeds; maintenance brings the tokens in later.\<close>

lemma namebid_step:
  assumes w: "solvent core b s" and r: "room core b (channel_namebid_to_rex x s)"
  shows "solvent core b (channel_namebid_to_rex x s)"
proof (cases "rexpool s")
  case None
  then show ?thesis using w by (simp add: channel_namebid_to_rex_def)
next
  case (Some rp)
  have "rex_fine core s" using w by (simp add: solvent_def rex_wf_def)
  note st = namebid_same [OF this, of "i64 (amount (namebid_proceeds rp) + x)"]
  show ?thesis
  proof (cases "0 < amount (total_rex rp)")
    case True
    then have "channel_namebid_to_rex x s = s\<lparr>rexpool := map_option (\<lambda>rt. rt\<lparr>namebid_proceeds := (namebid_proceeds rt)
        \<lparr>amount := i64 (amount (namebid_proceeds rp) + x)\<rparr>\<rparr>) (rexpool s)\<rparr>"
      by (simp add: channel_namebid_to_rex_def Some)
    then show ?thesis using solvent_step [OF w st, of "{}"] r by (simp add: sends_refl)
  qed (use w in \<open>simp add: channel_namebid_to_rex_def Some\<close>)
qed

lemma close_bid_solvent:
  assumes w: "solvent core b s" and r: "room core b (close_highest_bid c t s)"
  shows "solvent core b (close_highest_bid c t s)"
proof (cases "close_highest_bid c t s = s")
  case False
  then obtain n x m where e: "close_highest_bid c t s
      = (channel_namebid_to_rex x (s\<lparr>gstate := (gstate s)\<lparr>last_name_close := t\<rparr>\<rparr>))\<lparr>namebids := m\<rparr>"
    by (auto simp: close_highest_bid_def Let_def split: option.splits if_splits)
  let ?s1 = "s\<lparr>gstate := (gstate s)\<lparr>last_name_close := t\<rparr>\<rparr>" and ?s2 = "channel_namebid_to_rex x (s\<lparr>gstate := (gstate s)\<lparr>last_name_close := t\<rparr>\<rparr>)"
  have ob: "outbox ?s2 = outbox s" by (simp add: channel_namebid_to_rex_def split: option.splits)
  have rs: "room core b s" "room core b ?s1" "room core b ?s2" using r ob by (auto simp: e room_def rex_coming_def)
  have "solvent core b ?s1" by (rule solvent_same [OF w _ _ _ rs(2), of "{}"]) (simp_all add: sends_refl)
  then have "solvent core b ?s2" by (rule namebid_step [OF _ rs(3)])
  then show ?thesis by (rule solvent_same [where F = "{}"]) (use r in \<open>simp_all add: e sends_refl\<close>)
qed (use w in simp)

lemma onblock_solvent:
  assumes w: "solvent core b s" and r: "room core b s'" and u: "onblock c t n s = Inr s'"
  shows "solvent core b s'"
  using u
proof (cases rule: onblock_parts)
  case (1 s1 s2 s3)
  have f1: "footprint {Paying} {} s s1" unfolding 1(2) by simp
  have f2: "footprint {Paying} {} s1 s2" using 1(4)
    by (auto simp: 1(2) intro!: footprint_gstate) (simp_all add: g_view_def)
  have f3: "footprint {Paying} {} s s3"
    unfolding 1(5) by (rule footprint_then [OF footprint_then [OF f1 f2] footprint_count])
  let ?s4 = "update_elected_producers c t s3"
  have f4: "footprint {Paying} {} s ?s4" by (rule footprint_then [OF f3]) simp
  have quiet: "solvent core b x" if "footprint {Paying} {} s x" "room core b x" for x
    by (rule footprint_solvent [OF w that(1) _ _ that(2)]) simp_all
  from 1(6) consider "s' = s1" | "s' = s3" | "s' = ?s4" | "s' = close_highest_bid c t ?s4" by blast
  then show ?thesis
  proof cases
    case 4
    have "room core b ?s4" by (rule room_before [OF footprintD(3) [OF footprint_close], of "{}"]) (use r 4 in simp_all)
    from close_bid_solvent [OF quiet [OF f4 this], of c t] show ?thesis using r 4 by simp
  qed (use r f1 f3 f4 quiet in simp_all)
qed

section \<open>The escrow of REX\<close>

text \<open>
  Set by the producers, the rents may not exceed what double arithmetic can price; the amount of an
  asset fits into an \<open>int64_t\<close>.
\<close>

fun rex_fair :: "sys_action \<Rightarrow> bool" where
  "rex_fair (SetRex q) \<longleftrightarrow> amount q \<le> 2 * rex_cap"
| "rex_fair (MvToSavings n q) \<longleftrightarrow> in_i64 (amount q)"
| "rex_fair _ \<longleftrightarrow> True"

lemma action_solvent:
  assumes g: "good_ctx c" "good_action core a" "rex_fair a" and mk: "market_ok core s" and w: "solvent core b s"
    and st: "at_start b s" and r0: "room core b s" and ob: "outbox s = []" and r: "room core b s'" and u: "apply_sys c a s = Inr s'"
  shows "solvent core b s'"
proof (cases "Rexing \<in> touches a")
  case False
  have na: "rex_account \<notin> spenders c a"
    by (rule good_held [OF g(1)]) (use False in \<open>cases a; simp add: held_accounts_def account_defs\<close>)+
  show ?thesis by (rule footprint_solvent [OF w action_footprint [OF u] False na r])
next
  case True
  have ok: "asset_ops_ok c" and na: "\<not> has_auth c rex_account" using g(1) by (auto simp: good_ctx_def held_accounts_def)
  have mk': "market_ok core s'" by (rule action_market_ok [OF g(1,2) mk u])
  note acts = deposit_solvent [OF ok mk w r na] withdraw_solvent [OF ok mk w r0 r] buyrex_solvent [OF ok mk w st r]
    unstaketorex_solvent [OF ok mk w st r] sellrex_solvent [OF ok w r] cnclrexorder_solvent [OF w r]
    rentrex_solvent [OF ok w r] fundloan_solvent [OF ok w r] defloan_solvent [OF ok w r] updaterex_solvent [OF ok w r]
    rexexec_solvent [OF ok w r] consolidate_solvent [OF ok w r] mvfrsavings_solvent [OF ok w r] closerex_solvent [OF ok w r]
    buyram_solvent [OF ok mk na w r] sellram_solvent [OF ok mk' na w r] onblock_solvent [OF w r]
  show ?thesis
  proof (cases a)
    case (SetRex q)
    with u g(3) show ?thesis by (auto intro: setrex_solvent [OF w r])
  next
    case (MvToSavings n q)
    with u g(3) show ?thesis by (auto simp: in_i64_def intro: mvtosavings_solvent [OF ok w r])
  next
    case (BuyRamBytes n m q)
    with u show ?thesis by (auto elim!: buyrambytes_parts intro: acts)
  qed (use u True in \<open>auto intro: acts\<close>)
qed

lemma same_effects: "same Rexing s (s\<lparr>outbox := l\<rparr>)" "same Rexing (s\<lparr>outbox := l\<rparr>) s"
  "same Rexing s (s\<lparr>tokens := t\<rparr>)" "same Rexing (s\<lparr>tokens := t\<rparr>) s"
  by simp_all

lemma rex_wf_effects [simp]:
  "rex_wf core (s\<lparr>outbox := l\<rparr>) = rex_wf core s" "rex_wf core (s\<lparr>tokens := t\<rparr>) = rex_wf core s"
  "rex_owed (s\<lparr>outbox := l\<rparr>) = rex_owed s" "rex_owed (s\<lparr>tokens := t\<rparr>) = rex_owed s"
  using rex_same(4) [OF same_effects(1)] rex_same(4) [OF same_effects(2)]
    rex_same(4) [OF same_effects(3)] rex_same(4) [OF same_effects(4)]
    rex_same(1) [OF same_effects(1)] rex_same(1) [OF same_effects(3)] by blast+

interpretation rex_tokens: capped_escrow rex_cap rex_fair core rex_account "\<lambda>s. market_ok core s \<and> rex_wf core s" rex_owed for core
proof unfold_locales
  fix c a s s'
  assume g: "good_ctx c" "good_action core a" "rex_fair a" and m: "market_ok core s \<and> rex_wf core s" and ob: "outbox s = []"
    and b: "0 \<le> bal (sym_code core) (tokens s) rex_account" "bal (sym_code core) (tokens s) rex_account \<le> rex_cap"
    "rex_owed s \<le> bal (sym_code core) (tokens s) rex_account" and u: "apply_sys c a s = Inr s'"
  let ?b = "\<lparr>start_balance = rex_owed s, start_lendable = lendable s, start_shares = rex_shares s\<rparr>"
  have "0 \<le> lendable s" "0 \<le> rex_shares s" using m shares_worth(1) rex_parts(4) by (auto simp: rex_wf_def)
  then have w: "solvent core ?b s" and r0: "room core ?b s" and st: "at_start ?b s"
    using m b ob by (auto simp: solvent_def room_def rex_coming_def dearer_def at_start_def mult.commute)
  have "market_ok core s' \<and> rex_wf core s' \<and> rex_owed s' \<le> rex_owed s + flows (sym_code core) rex_account (outbox s')"
    if "all_sent (outbox s')" "bal (sym_code core) (tokens s) rex_account + flows (sym_code core) rex_account (outbox s') \<le> rex_cap"
  proof -
    have "room core ?b s'" using that b by (simp add: room_def rex_coming_def)
    from action_solvent [OF g conjunct1 [OF m] w st r0 ob this u] show ?thesis
      using action_market_ok [OF g(1,2) conjunct1 [OF m] u] by (simp add: solvent_def rex_coming_def)
  qed
  then show "all_plain (outbox s') \<and> tokens s' = tokens s
    \<and> (all_sent (outbox s') \<longrightarrow> bal (sym_code core) (tokens s) rex_account + flows (sym_code core) rex_account (outbox s') \<le> rex_cap
      \<longrightarrow> (market_ok core s' \<and> rex_wf core s') \<and> rex_owed s' \<le> rex_owed s + flows (sym_code core) rex_account (outbox s'))"
    using action_plain [OF ob u] by blast
qed (auto simp: held_accounts_def rex_cap_def)

end
