(* ===== verification/RexProps.thy ===== *)
theory RexProps
  imports Votes Safety RexSafe
begin

text \<open>
  Claims on REX over runs of the chain, and a run in which an account deposits tokens and buys REX
  with some of them.
\<close>

definition ex_rex :: "event list" where
  "ex_rex = [Sys (ref_sys [ex_alice] ex_now) (Deposit ex_alice (ast 1000000 ex_sy)),
     Sys (ref_sys [ex_alice] ex_now) (BuyRex ex_alice (ast 400000 ex_sy))]"

definition ex_deposited :: sys_state where
  "ex_deposited = ex_voted\<lparr>rexfunds := fmupd ex_alice (ast 1000000 ex_sy) fmempty,
     tokens := (tokens ex_staked)\<lparr>accounts := fmupd (rex_account, 5459781) \<lparr>balance = ast 1000000 ex_sy\<rparr>
         (fmupd (ex_alice, 5459781) \<lparr>balance = ast 998850000 ex_sy\<rparr> (accounts (tokens ex_staked))),
       notified := notified (tokens ex_staked) @ [ex_alice, rex_account]\<rparr>\<rparr>"

definition ex_pool :: rex_pool where
  "ex_pool = \<lparr>total_lent = ast 0 ex_sy, total_unlent = ast 400000 ex_sy, total_rent = ast 200000000 ex_sy,
     total_lendable = ast 400000 ex_sy, total_rex = ast 4000000000 rex_symbol,
     namebid_proceeds = ast 0 ex_sy, next_loan_num = 0\<rparr>"

definition ex_bought :: sys_state where
  "ex_bought = ex_deposited\<lparr>
     voters := fmupd ex_alice (default_voter\<lparr>staked := 550000, last_vote_weight := Fin 1100000, v_proxy := ex_bob\<rparr>)
       (fmupd ex_bob (default_voter\<lparr>is_proxy := True, proxied_vote_weight := Fin 1100000, last_vote_weight := Fin 1100000\<rparr>)
         fmempty),
     rexpool := Some ex_pool, rexfunds := fmupd ex_alice (ast 600000 ex_sy) fmempty,
     rexbalance := fmupd ex_alice \<lparr>vote_stake = ast 400000 ex_sy, rex_bal = ast 4000000000 rex_symbol,
       matured_rex = 0, rex_maturities = [(get_rex_maturity (ref_sys [ex_alice] ex_now), 4000000000)]\<rparr> fmempty\<rparr>"

lemma ex_deposit: "world_step (Sys (ref_sys [ex_alice] ex_now) (Deposit ex_alice (ast 1000000 ex_sy))) ex_voted = Inr ex_deposited"
  by (simp add: deposit_def ex_deposited_def ex_voted_def ex_staked_def ex_open_def ex_genesis_def genesis_def ex_eval
      ex_stake_eval ex_vote_eval transfer_to_fund_def send_transfer_def ex_tokens_def ex_market_def fmupd_idem)

lemma first_by_empty [simp]: "first_by f fmempty = None" "index_by f fmempty = []"
  by (simp_all add: first_by_def index_by_def)

lemma run_loans_none: "loans_of kind s = fmempty \<Longrightarrow> run_loans n c kind s = Inr s"
  by (cases n) simp_all

lemma ex_buy: "world_step (Sys (ref_sys [ex_alice] ex_now) (BuyRex ex_alice (ast 400000 ex_sy))) ex_deposited = Inr ex_bought"
  by (simp add: ex_bought_def buyrex_def ex_deposited_def ex_voted_def ex_staked_def ex_open_def ex_genesis_def genesis_def ex_eval
      ex_stake_eval ex_vote_eval transfer_from_fund_def send_transfer_def ex_tokens_def ex_market_def fmupd_idem
      check_voting_requirement_def add_to_rex_pool_def add_to_rex_balance_def rex_ratio_def rex_symbol_def ex_pool_def
      runrex_def rex_system_initialized_def channel_proceeds_def run_loans_none first_by_def index_by_def
      update_rex_account_def settle_order_def read_rex_savings_def process_rex_maturities_def add_bucket_def put_rex_savings_def
     send_result_def)

lemma ex_rex_run: "run_all world_step (((ex_launch @ [ex_stake]) @ ex_votes) @ ex_rex) ex_genesis = Inr ex_bought"
  unfolding run_all_append [of world_step "(ex_launch @ [ex_stake]) @ ex_votes"] ex_votes_run bindr_simps
  by (simp add: ex_rex_def ex_deposit ex_buy del: world_step.simps)

lemma ex_rex_modest: "e \<in> set (((ex_launch @ [ex_stake]) @ ex_votes) @ ex_rex) \<Longrightarrow> modest_event rex_cap rex_fair ex_sy e"
proof -
  assume e: "e \<in> set (((ex_launch @ [ex_stake]) @ ex_votes) @ ex_rex)"
  have "good_event ex_sy e"
    using e ex_votes_good [of e] by (auto simp: ex_rex_def held_accounts_def account_defs intro!: ref_sys_good)
  then show ?thesis using e by (auto simp: ex_launch_def ex_stake_def ex_votes_def ex_rex_def rex_cap_def)
qed

text \<open>A chain starts without REX.\<close>

lemma genesis_rex [simp]: "rex_owed (genesis p l t) = 0" "rex_wf core (genesis p l t)"
  by (simp_all add: rex_owed_def lendable_def rex_wf_def rex_fine_def order_fine_def pool_fine_def pool_amounts)

lemma reachable_rex:
  assumes "core_ok core" "ledger_inv t" "capped rex_cap core t" "\<forall>e\<in>set es. modest_event rex_cap rex_fair core e"
    and "run_all world_step es (genesis params lims t) = Inr s"
  shows "rex_wf core s" "rex_owed s \<le> bal (sym_code core) (tokens s) rex_account" "rex_owed s \<le> rex_cap"
proof -
  have i: "((market_ok core s \<and> rex_wf core s) \<and> covers core rex_account rex_owed s \<and> outbox s = []) \<and> capped rex_cap core (tokens s)"
    by (rule rex_tokens.bounded.run_inv [OF _ _ assms(5)]) (use assms(1-4) in \<open>auto intro: genesis_covers\<close>)
  then show "rex_wf core s" and c: "rex_owed s \<le> bal (sym_code core) (tokens s) rex_account" by (auto simp: covers_def)
  have "bal (sym_code core) (tokens s) rex_account \<le> rex_cap"
    using i by (intro bal_le_cap) (auto simp: covers_def rex_cap_def)
  with c show "rex_owed s \<le> rex_cap" by simp
qed

text \<open>
  C22: The REX account can always pay: over any run of the chain, with whatever purchases, sales,
  loans, renewals, name auctions and RAM fees, its balance covers the funds of all users, the
  balances of all loans, the proceeds of all filled orders and everything lendable, which is what
  all REX together is worth. The core token has at most 46 billion units of four decimals, and the
  producers never set rents beyond twice that.
\<close>

theorem rex_is_covered:
  assumes "core_ok core" "ledger_inv t" "capped rex_cap core t" "\<forall>e\<in>set es. modest_event rex_cap rex_fair core e"
    and "run_all world_step es (genesis params lims t) = Inr s"
  shows "fmsum fund_val (rexfunds s) + fmsum loan_val (cpu_loans s) + fmsum loan_val (net_loans s) + lendable s
    + fmsum order_val (rexorders s) \<le> bal (sym_code core) (tokens s) rex_account"
  using reachable_rex(2) [OF assms] by (simp add: rex_owed_def)

theorem rex_is_covered_witness:
  "fmsum fund_val (rexfunds ex_bought) = 600000 \<and> lendable ex_bought = 400000
     \<and> fmsum fund_val (rexfunds ex_bought) + fmsum loan_val (cpu_loans ex_bought) + fmsum loan_val (net_loans ex_bought)
       + lendable ex_bought + fmsum order_val (rexorders ex_bought) \<le> bal 5459781 (tokens ex_bought) rex_account"
proof -
  have "capped rex_cap ex_sy empty_token_state" by (simp add: capped_def empty_token_state_def)
  from rex_is_covered [OF ex_core_ok ledger_inv_empty this _ ex_rex_run [unfolded ex_genesis_def]] ex_rex_modest
  show ?thesis by (auto simp: ex_sy_def ex_bought_def fmsum_upd fund_val_def lendable_def ex_pool_def)
qed

text \<open>
  C23: The books of REX balance, over any run: what is lendable is lent or unlent, what is lent is
  what the loans have rented, the REX in circulation are those in the owners' balances, each owner's
  balance is what has matured, what is maturing and what is saved, and no REX is worth less than
  it cost at the start, one ten-thousandth of a token unit.
\<close>

theorem rex_books_balance:
  assumes "core_ok core" "ledger_inv t" "capped rex_cap core t" "\<forall>e\<in>set es. modest_event rex_cap rex_fair core e"
    and "run_all world_step es (genesis params lims t) = Inr s" and "rexpool s = Some rp"
  shows "amount (total_lendable rp) = amount (total_unlent rp) + amount (total_lent rp)
    \<and> amount (total_lent rp) = fmsum staked_val (cpu_loans s) + fmsum staked_val (net_loans s)
    \<and> amount (total_rex rp) = fmsum share_val (rexbalance s)
    \<and> (\<forall>n rb. fmlookup (rexbalance s) n = Some rb
         \<longrightarrow> amount (rex_bal rb) = matured_rex rb + sum_list (map snd (rex_maturities rb)))
    \<and> amount (total_rex rp) \<le> 10000 * amount (total_lendable rp)"
proof -
  have rf: "rex_fine core s" using reachable_rex(1) [OF assms(1-5)] by (simp add: rex_wf_def)
  have "amount (rex_bal rb) = matured_rex rb + sum_list (map snd (rex_maturities rb))"
    if "fmlookup (rexbalance s) n = Some rb" for n rb
    using rex_fineD(3) [OF rf that] by (simp add: rb_ok_def rb_total_def bucket_sum_def)
  then show ?thesis using rex_pool_bounds [OF rf assms(6)] by (simp add: pool_ok_def rex_ratio_def)
qed

theorem rex_books_balance_witness:
  "4000000000 = fmsum share_val (rexbalance ex_bought)"
proof -
  have p: "rexpool ex_bought = Some ex_pool" by (simp add: ex_bought_def)
  have "capped rex_cap ex_sy empty_token_state" by (simp add: capped_def empty_token_state_def)
  from rex_books_balance [OF ex_core_ok ledger_inv_empty this _ ex_rex_run [unfolded ex_genesis_def] p] ex_rex_modest
  show ?thesis by (simp add: ex_pool_def)
qed

text \<open>
  C24: Buying REX and selling it again gains nothing: in any reachable state, if the REX that a
  payment buys are sold right after at the price the pool then has, the proceeds are at most the
  payment. Both roundings are in favour of the pool.
\<close>

theorem buying_then_selling_gains_nothing:
  assumes ok: "asset_ops_ok c" and run: "core_ok core" "ledger_inv t" "capped rex_cap core t"
      "\<forall>e\<in>set es. modest_event rex_cap rex_fair core e" "run_all world_step es (genesis params lims t) = Inr s"
    and core: "core_sym s = Some core" and q: "0 < amount q" "rex_owed s + amount q \<le> rex_cap"
    and buy: "add_to_rex_pool c q s = Inr (received, s1)" and row: "rexpool s2 = rexpool s1"
    and sell: "fill_rex_order c n received s2 = Inr (out, s3)"
  shows "amount (out_proceeds out) \<le> amount q"
proof -
  have rf: "rex_fine core s" using reachable_rex(1) [OF run] by (simp add: rex_wf_def)
  obtain rp where s1: "s1 = s\<lparr>rexpool := Some rp\<rparr>" and po: "pool_ok core rp" "amount (total_lent rp) = rex_lent s"
    "amount (total_lendable rp) = lendable s + amount q" "amount (total_rex rp) = rex_shares s + amount received"
    "0 \<le> amount received" "amount (total_rex rp) \<le> 4600000000000000000"
    "rex_shares s \<noteq> 0 \<longrightarrow> amount (total_rex rp) * lendable s \<le> (lendable s + amount q) * rex_shares s"
    by (rule add_pool_step [OF ok rf core q buy])
  let ?S = "amount (total_lendable rp)" and ?R = "amount (total_rex rp)" and ?r = "amount received"
  have rp: "rexpool s2 = Some rp" using row by (simp add: s1)
  obtain p where m: "muldiv ?r ?S ?R = Inr p" and out: "amount (out_proceeds out) = p \<or> amount (out_proceeds out) = 0"
    using sell by (auto simp: fill_rex_order_def with_pool_def rp res_simps Let_def asset_newD [OF ok] split: if_splits)
  have S: "0 \<le> lendable s" "?S \<le> rex_cap" "0 \<le> ?S" "amount q \<le> rex_cap"
    using rex_parts(4) [OF rf] rex_row_bounds(4,5) [OF rf] po(3) q by auto
  have R0: "0 \<le> rex_shares s"
    using rex_parts(8) [OF rf] fine_sums(2) [OF rf] by simp
  have R: "0 < ?R"
  proof (rule ccontr)
    assume "\<not> 0 < ?R"
    then have "?S = 0" using po(1) by (auto simp: pool_ok_def)
    then show False using po(3) S(1) q(1) by simp
  qed
  have ge: "?r * ?S \<le> amount q * ?R"
  proof (cases "rex_shares s = 0")
    case True
    then have "lendable s = 0" using rf fine_sums(3) [OF rf]
      by (cases "rexpool s") (auto simp: pool_amounts pool_ok_def)
    then show ?thesis using True po(3,4) by simp
  next
    case False
    then have "?R * lendable s \<le> ?S * rex_shares s" using po(3,7) by simp
    then show ?thesis using po(3,4) by (simp add: algebra_simps)
  qed
  have "?r * ?S div ?R \<le> amount q * ?R div ?R" using ge R by (intro zdiv_mono1)
  then have le: "?r * ?S div ?R \<le> amount q" using R by simp
  have "p = ?r * ?S div ?R"
    by (rule muldiv_exact [OF m]) (use po(4-6) R R0 S q le in \<open>auto simp: rex_cap_def\<close>)
  then show ?thesis using out le q(1) by auto
qed

lemma ex_deposit_run: "run_all world_step (((ex_launch @ [ex_stake]) @ ex_votes) @ [hd ex_rex]) ex_genesis = Inr ex_deposited"
  unfolding run_all_append [of world_step "(ex_launch @ [ex_stake]) @ ex_votes"] ex_votes_run bindr_simps
  by (simp add: ex_rex_def ex_deposit del: world_step.simps)

lemma ex_pool_bought: "add_to_rex_pool (ref_sys [] 0) (ast 400000 ex_sy) ex_deposited
    = Inr (ast 4000000000 rex_symbol, ex_deposited\<lparr>rexpool := Some ex_pool\<rparr>)"
  by (simp add: ex_deposited_def ex_voted_def ex_staked_def ex_open_def ex_genesis_def genesis_def ex_eval
      ex_stake_eval ex_vote_eval ex_market_def add_to_rex_pool_def rex_ratio_def rex_symbol_def ex_pool_def)

lemma ex_bought_sel: "rammarket ex_bought = Some ex_market" "rexpool ex_bought = Some ex_pool" "core_sym ex_bought = Some ex_sy"
  "fmlookup (rexbalance ex_bought) ex_alice = Some \<lparr>vote_stake = ast 400000 ex_sy, rex_bal = ast 4000000000 rex_symbol,
     matured_rex = 0, rex_maturities = [(get_rex_maturity (ref_sys [ex_alice] ex_now), 4000000000)]\<rparr>"
  by (simp_all add: ex_bought_def core_sym_def ex_deposited_def ex_voted_def ex_staked_def ex_open_def ex_market_def)

lemma ex_sold: "\<exists>out s3. fill_rex_order (ref_sys [] 0) ex_alice (ast 4000000000 rex_symbol) ex_bought = Inr (out, s3)
    \<and> amount (out_proceeds out) = 400000"
proof -
  have m: "muldiv 4000000000 400000 4000000000 = Inr 400000" by (simp add: muldiv_def u128_def i64_def)
  have z: "core_asset (ref_sys [] 0) ex_bought n k = k (ast n ex_sy)" if "\<bar>n\<bar> \<le> max_amount" for n and k :: "asset \<Rightarrow> 'a res"
    using that by (simp add: core_asset_def with_core_def ex_bought_sel ex_market_def ex_sy_def ref_chain_def)
  have u: "i64 (u128 (2 * u128 0) div 10) = 0" "i64 400000 = 400000" by (simp_all add: u128_def i64_def)
  show ?thesis
    unfolding fill_rex_order_def with_pool_def ex_bought_sel the_row_simps Let_def ex_pool_def
    by (simp add: m z u max_amount_def)
qed

theorem buying_then_selling_gains_nothing_witness:
  "\<exists>out s3. fill_rex_order (ref_sys [] 0) ex_alice (ast 4000000000 rex_symbol) ex_bought = Inr (out, s3)
     \<and> amount (out_proceeds out) = 400000 \<and> amount (out_proceeds out) \<le> amount (ast 400000 ex_sy)"
proof -
  obtain out s3 where f: "fill_rex_order (ref_sys [] 0) ex_alice (ast 4000000000 rex_symbol) ex_bought = Inr (out, s3)"
    "amount (out_proceeds out) = 400000" using ex_sold by blast
  have c: "capped rex_cap ex_sy empty_token_state" by (simp add: capped_def empty_token_state_def)
  have e: "\<forall>e\<in>set (((ex_launch @ [ex_stake]) @ ex_votes) @ [hd ex_rex]). modest_event rex_cap rex_fair ex_sy e"
  proof
    fix e assume "e \<in> set (((ex_launch @ [ex_stake]) @ ex_votes) @ [hd ex_rex])"
    then have "e \<in> set (((ex_launch @ [ex_stake]) @ ex_votes) @ ex_rex)" by (auto simp: ex_rex_def)
    then show "modest_event rex_cap rex_fair ex_sy e" by (rule ex_rex_modest)
  qed
  have o: "rex_owed ex_deposited + amount (ast 400000 ex_sy) \<le> rex_cap"
    by (simp add: rex_owed_def lendable_def ex_deposited_def ex_voted_def ex_staked_def ex_open_def ex_genesis_def
        fmsum_upd fund_val_def rex_cap_def)
  have y: "core_sym ex_deposited = Some ex_sy"
    by (simp add: core_sym_def ex_deposited_def ex_voted_def ex_staked_def ex_open_def ex_market_def)
  have "amount (out_proceeds out) \<le> amount (ast 400000 ex_sy)"
    by (rule buying_then_selling_gains_nothing [OF ref_sys_ops(1) ex_core_ok ledger_inv_empty c e
          ex_deposit_run [unfolded ex_genesis_def] y _ o ex_pool_bought _ f(1)]) (simp_all add: ex_bought_def)
  then show ?thesis using f by blast
qed

end
