(* ===== verification/RexPrice.thy ===== *)
theory RexPrice
  imports RexProps
begin

text \<open>
  The price of REX over runs of the chain: what one REX is worth never falls while there are any.
\<close>

lemma reachable_rex_state:
  assumes "core_ok core" "ledger_inv t" "capped rex_cap core t" "\<forall>e\<in>set es. modest_event rex_cap rex_fair core e"
    and "run_all world_step es (genesis params lims t) = Inr s"
  shows "((market_ok core s \<and> rex_wf core s) \<and> covers core rex_account rex_owed s \<and> outbox s = []) \<and> capped rex_cap core (tokens s)"
  by (rule rex_tokens.bounded.run_inv [OF _ _ assms(5)]) (use assms(1-4) in \<open>auto intro: genesis_covers\<close>)

text \<open>The price before an event, compared with the price after it.\<close>

definition rex_before_event :: "sys_state \<Rightarrow> rex_before" where
  "rex_before_event s = \<lparr>start_balance = rex_owed s, start_lendable = lendable s, start_shares = rex_shares s\<rparr>"

lemma event_dearer:
  assumes i: "((market_ok core s \<and> rex_wf core s) \<and> covers core rex_account rex_owed s \<and> outbox s = []) \<and> capped rex_cap core (tokens s)"
    and e: "modest_event rex_cap rex_fair core e" and u: "world_step e s = Inr s'"
  shows "rex_shares s' * lendable s \<le> lendable s' * rex_shares s"
proof (cases e)
  case (Sys c a)
  with u obtain s1 t where s1: "apply_sys c a (s\<lparr>outbox := []\<rparr>) = Inr s1"
    and t: "run_outbox c (outbox s1) (tokens s1) = Inr t" and s': "s' = s1\<lparr>outbox := [], tokens := t\<rparr>"
    by (auto simp: exec_sys_def res_simps)
  have g: "good_ctx c" "good_action core a" "rex_fair a" using e Sys by auto
  have ok: "asset_ops_ok c" using g(1) by (simp add: good_ctx_def)
  have s: "s\<lparr>outbox := []\<rparr> = s" using i by simp
  note s1 = s1 [unfolded s]
  have p: "all_plain (outbox s1)" "tokens s1 = tokens s" using action_plain [OF _ s1] i by auto
  have inv: "ledger_inv (tokens s)" and owed: "rex_owed s \<le> bal (sym_code core) (tokens s) rex_account"
    using i by (auto simp: covers_def)
  have inv': "ledger_inv t" using run_outbox_inv [OF ok _ t] inv p(2) by simp
  have cap': "capped rex_cap core t" using run_outbox_capped [OF ok p(1) _ t] i p(2) by simp
  have "bal (sym_code core) t rex_account \<le> rex_cap" by (rule bal_le_cap [OF inv' cap']) (simp add: rex_cap_def)
  then have room': "room core (rex_before_event s) s1"
    using run_outbox_flows [OF ok p(1) t, of "sym_code core" rex_account] p(2) owed
    by (simp add: room_def rex_coming_def rex_before_event_def)
  have "bal (sym_code core) (tokens s) rex_account \<le> rex_cap" by (rule bal_le_cap [OF inv conjunct2 [OF i]]) (simp add: rex_cap_def)
  then have r0: "room core (rex_before_event s) s" using i owed by (simp add: room_def rex_coming_def rex_before_event_def)
  have wf: "rex_wf core s" "market_ok core s" "outbox s = []" using i by auto
  have "0 \<le> lendable s" "0 \<le> rex_shares s" using wf(1) shares_worth(1) rex_parts(4) by (auto simp: rex_wf_def)
  then have w: "solvent core (rex_before_event s) s" and st: "at_start (rex_before_event s) s"
    using wf by (auto simp: solvent_def rex_coming_def dearer_def at_start_def rex_before_event_def mult.commute)
  have "solvent core (rex_before_event s) s1" by (rule action_solvent [OF g wf(2) w st r0 wf(3) room' s1])
  then show ?thesis by (simp add: solvent_def dearer_def rex_before_event_def s' pool_amounts)
next
  case (Tok c a)
  with u have "rexpool s' = rexpool s" by (auto simp: res_simps)
  then show ?thesis by (simp add: pool_amounts)
qed

lemma shares_positive:
  assumes "rex_wf core s" "0 < rex_shares s" shows "0 < lendable s"
  using shares_worth(3) [of core s] assms by (simp add: rex_wf_def)

lemma price_trans:
  fixes R S R1 S1 R2 S2 :: int
  assumes "R1 * S \<le> S1 * R" "R2 * S1 \<le> S2 * R1" "0 < S1" "0 \<le> S" "0 \<le> S2"
  shows "R2 * S \<le> S2 * R"
proof -
  have "R2 * S1 * S \<le> S2 * R1 * S" using assms(2,4) by (rule mult_right_mono)
  also have "\<dots> = S2 * (R1 * S)" by simp
  also have "\<dots> \<le> S2 * (S1 * R)" using assms(1,5) by (rule mult_left_mono)
  finally have "S1 * (R2 * S) \<le> S1 * (S2 * R)" by (simp add: algebra_simps)
  then show ?thesis using assms(3) by simp
qed

lemma run_dearer:
  assumes "((market_ok core s \<and> rex_wf core s) \<and> covers core rex_account rex_owed s \<and> outbox s = []) \<and> capped rex_cap core (tokens s)"
    and "\<forall>e\<in>set es. modest_event rex_cap rex_fair core e" "run_all world_step es s = Inr s'"
    and "\<And>es1 es2 s1. es = es1 @ es2 \<Longrightarrow> run_all world_step es1 s = Inr s1 \<Longrightarrow> 0 < rex_shares s1"
  shows "rex_shares s' * lendable s \<le> lendable s' * rex_shares s"
  using assms
proof (induction es arbitrary: s)
  case (Cons e es)
  from Cons.prems(3) obtain s1 where s1: "world_step e s = Inr s1" and r: "run_all world_step es s1 = Inr s'" by (auto simp: bindr_Inr)
  have e: "modest_event rex_cap rex_fair core e" using Cons.prems(2) by simp
  note i1 = rex_tokens.bounded.step_inv [OF e Cons.prems(1) s1]
  have "0 < rex_shares s1" using Cons.prems(4) [of "[e]" es s1] s1 by simp
  then have p1: "0 < lendable s1" using shares_positive i1 by blast
  have is': "rex_wf core s'" using rex_tokens.bounded.run_inv [OF _ i1 r] Cons.prems(2) by auto
  have "rex_shares s' * lendable s1 \<le> lendable s' * rex_shares s1"
  proof (rule Cons.IH [OF i1 _ r])
    show "\<forall>e\<in>set es. modest_event rex_cap rex_fair core e" using Cons.prems(2) by simp
    show "0 < rex_shares s2" if "es = es1 @ es2" "run_all world_step es1 s1 = Inr s2" for es1 es2 s2
      using Cons.prems(4) [of "e # es1" es2 s2] that s1 by simp
  qed
  moreover have "0 \<le> lendable s" "0 \<le> lendable s'" using Cons.prems(1) is' rex_parts(4) by (auto simp: rex_wf_def)
  ultimately show ?case using price_trans [OF event_dearer [OF Cons.prems(1) e s1] _ p1] by blast
qed (simp add: mult.commute)

text \<open>
  C33: REX never lose value: from any state the chain can reach, over any further run during which
  the pool is never emptied, the tokens lendable per REX do not fall, whatever is bought, sold, rented,
  renewed, expired, channelled in or filled on the way, and however the divisions round.
\<close>

theorem rex_price_never_falls:
  assumes "core_ok core" "ledger_inv t" "capped rex_cap core t"
    and "\<forall>e\<in>set (es @ fs). modest_event rex_cap rex_fair core e"
    and "run_all world_step es (genesis params lims t) = Inr s" "run_all world_step fs s = Inr s'"
    and "\<And>fs1 fs2 s1. fs = fs1 @ fs2 \<Longrightarrow> run_all world_step fs1 s = Inr s1 \<Longrightarrow> 0 < rex_shares s1"
  shows "rex_shares s' * lendable s \<le> lendable s' * rex_shares s"
proof -
  have "((market_ok core s \<and> rex_wf core s) \<and> covers core rex_account rex_owed s \<and> outbox s = []) \<and> capped rex_cap core (tokens s)"
    by (rule reachable_rex_state [OF assms(1-3) _ assms(5)]) (use assms(4) in simp)
  then show ?thesis by (rule run_dearer [OF _ _ assms(6,7)]) (use assms(4) in simp)
qed

text \<open>A second purchase, on the day of the first.\<close>

definition ex_buy_more :: event where
  "ex_buy_more = Sys (ref_sys [ex_alice] ex_now) (BuyRex ex_alice (ast 100000 ex_sy))"

definition ex_pool_more :: rex_pool where
  "ex_pool_more = ex_pool\<lparr>total_unlent := ast 500000 ex_sy, total_lendable := ast 500000 ex_sy,
     total_rex := ast 5000000000 rex_symbol\<rparr>"

definition ex_more_rex :: rex_balance where
  "ex_more_rex = \<lparr>vote_stake = ast 500000 ex_sy, rex_bal = ast 5000000000 rex_symbol,
     matured_rex = 0, rex_maturities = [(get_rex_maturity (ref_sys [ex_alice] ex_now), 5000000000)]\<rparr>"

definition ex_bought_more :: sys_state where
  "ex_bought_more = ex_bought\<lparr>
     voters := fmupd ex_alice (default_voter\<lparr>staked := 650000, last_vote_weight := Fin 1300000, v_proxy := ex_bob\<rparr>)
       (fmupd ex_bob (default_voter\<lparr>is_proxy := True, proxied_vote_weight := Fin 1300000, last_vote_weight := Fin 1300000\<rparr>)
         fmempty),
     rexpool := Some ex_pool_more, rexfunds := fmupd ex_alice (ast 500000 ex_sy) fmempty,
     rexbalance := fmupd ex_alice ex_more_rex fmempty\<rparr>"

lemmas ex_bought_eval = ex_bought_def ex_deposited_def ex_voted_def ex_staked_def ex_open_def ex_genesis_def genesis_def
  ex_market_def ex_pool_def ex_pool_more_def

lemma ex_now_maturity: "get_rex_maturity (ref_sys [ex_alice] ex_now) = 1600387200"
  by (simp add: get_rex_maturity_def now_sec_def now_tp_def i64_def Let_def ref_chain_def ex_now_def u32_def seconds_per_day_def)

lemma ex_now_second: "now_sec (ref_sys [ex_alice] ex_now) = 1600000000"
  by (simp add: now_sec_def now_tp_def i64_def ref_chain_def ex_now_def u32_def)

lemma muldiv_at: "muldiv 500000 4000000000 400000 = Inr 5000000000" "muldiv 5000000000 500000 5000000000 = Inr 500000"
  by (simp_all add: muldiv_def u128_def i64_def)

lemma ex_more_fund: "transfer_from_fund (ref_sys [ex_alice] ex_now) ex_alice (ast 100000 ex_sy) ex_bought
    = Inr (ex_bought\<lparr>rexfunds := fmupd ex_alice (ast 500000 ex_sy) fmempty\<rparr>)"
  by (simp add: transfer_from_fund_def with_core_def ex_bought_eval ex_eval i64_def fmupd_idem)

lemma ex_more_pool: "add_to_rex_pool (ref_sys [ex_alice] ex_now) (ast 100000 ex_sy)
      (ex_bought\<lparr>rexfunds := fmupd ex_alice (ast 500000 ex_sy) fmempty\<rparr>)
    = Inr (ast 1000000000 rex_symbol, ex_bought\<lparr>rexfunds := fmupd ex_alice (ast 500000 ex_sy) fmempty,
        rexpool := Some ex_pool_more\<rparr>)"
  by (simp add: add_to_rex_pool_def core_asset_def with_core_def ex_bought_eval ex_eval muldiv_at i64_def rex_symbol_def)

lemma ex_more_balance: "add_to_rex_balance (ref_sys [ex_alice] ex_now) ex_alice (ast 100000 ex_sy) (ast 1000000000 rex_symbol)
      (ex_bought\<lparr>rexfunds := fmupd ex_alice (ast 500000 ex_sy) fmempty, rexpool := Some ex_pool_more\<rparr>)
    = Inr (ast 100000 ex_sy, ex_bought\<lparr>rexfunds := fmupd ex_alice (ast 500000 ex_sy) fmempty,
        rexpool := Some ex_pool_more, rexbalance := fmupd ex_alice ex_more_rex fmempty\<rparr>)"
  by (simp add: add_to_rex_balance_def core_asset_def with_core_def with_pool_def ex_bought_eval ex_eval muldiv_at i64_def
      rex_symbol_def ex_more_rex_def ex_now_maturity read_rex_savings_def end_of_days_def process_rex_maturities_def add_bucket_def
      put_rex_savings_def fmupd_idem ex_now_maturity [unfolded ex_now_def] ex_now_second [unfolded ex_now_def])

lemma ex_bought_core: "with_core ex_bought k = k ex_sy" "check_voting_requirement ex_alice voting_msg ex_bought k' = k'"
  "ex_bought\<lparr>outbox := []\<rparr> = ex_bought"
  by (simp_all add: with_core_def check_voting_requirement_def ex_bought_eval)

abbreviation ex_buying_more :: sys_state where
  "ex_buying_more \<equiv> ex_bought\<lparr>rexfunds := fmupd ex_alice (ast 500000 ex_sy) fmempty,
        rexpool := Some ex_pool_more, rexbalance := fmupd ex_alice ex_more_rex fmempty\<rparr>"

lemma ex_more_rest: "runrex (ref_sys [ex_alice] ex_now) 2 ex_buying_more = Inr ex_buying_more"
  "core_asset (ref_sys [ex_alice] ex_now) ex_buying_more 0 k = k (ast 0 ex_sy)"
  by (simp_all add: runrex_def rex_system_initialized_def channel_proceeds_def run_loans_none core_asset_def with_core_def
      ex_bought_eval ex_eval)

lemma ex_more_account: "update_rex_account (ref_sys [ex_alice] ex_now) ex_alice (ast 0 ex_sy) (ast 100000 ex_sy) False ex_buying_more
    = Inr (ast 0 rex_symbol, ex_bought_more)"
  by (simp add: update_rex_account_def settle_order_def ex_bought_more_def ex_bought_eval ex_eval ex_stake_eval ex_vote_eval
        rex_symbol_def fmupd_idem)

lemma ex_more_idle: "outbox ex_bought_more = []" "ex_bought_more\<lparr>outbox := [], tokens := tokens ex_bought_more\<rparr> = ex_bought_more"
  by (simp_all add: ex_bought_more_def ex_bought_eval)

lemma ex_more: "world_step ex_buy_more ex_bought = Inr ex_bought_more"
proof -
  have "buyrex (ref_sys [ex_alice] ex_now) ex_alice (ast 100000 ex_sy) ex_bought
      = Inr (send_result (BuyResult (ast 1000000000 rex_symbol)) ex_bought_more)"
    by (simp add: buyrex_def require_auth_def ex_bought_core ex_more_fund ex_more_pool ex_more_balance ex_more_rest ex_more_account)
  then show ?thesis by (simp add: ex_buy_more_def exec_sys_def ex_bought_core ex_more_idle send_result_def)
qed

theorem rex_price_never_falls_witness:
  "rex_shares ex_bought_more * lendable ex_bought \<le> lendable ex_bought_more * rex_shares ex_bought
     \<and> rex_shares ex_bought = 4000000000 \<and> rex_shares ex_bought_more = 5000000000"
proof -
  have c: "capped rex_cap ex_sy empty_token_state" by (simp add: capped_def empty_token_state_def)
  have m: "\<forall>e\<in>set ((((ex_launch @ [ex_stake]) @ ex_votes) @ ex_rex) @ [ex_buy_more]). modest_event rex_cap rex_fair ex_sy e"
    using ex_rex_modest
    by (auto simp: ex_buy_more_def held_accounts_def account_defs rex_cap_def intro!: ref_sys_good)
  have r: "run_all world_step [ex_buy_more] ex_bought = Inr ex_bought_more" by (simp add: ex_more del: world_step.simps)
  have s: "rex_shares ex_bought = 4000000000" "rex_shares ex_bought_more = 5000000000"
    by (simp_all add: ex_bought_more_def ex_bought_def pool_amounts ex_pool_def ex_pool_more_def)
  have p: "0 < rex_shares s1" if "[ex_buy_more] = fs1 @ fs2" "run_all world_step fs1 ex_bought = Inr s1" for fs1 fs2 s1
    using that s ex_more by (cases fs1) (auto simp del: world_step.simps)
  from rex_price_never_falls [OF ex_core_ok ledger_inv_empty c m ex_rex_run [unfolded ex_genesis_def] r p]
  show ?thesis by (simp add: s)
qed

end
