(* ===== verification/NamesLedger.thy ===== *)
theory NamesLedger
  imports Safety
begin

text \<open>
  The account of the name auctions holds the standing bids, the refunds of those outbid, and the
  proceeds of closed auctions until the maintenance of REX fetches them. Everything REX does takes
  no more out of that account than the counter of proceeds goes down by.
\<close>

section \<open>The counter of proceeds\<close>

definition proceeds_left :: "sys_state \<Rightarrow> int" where
  "proceeds_left s = (case rexpool s of None \<Rightarrow> 0 | Some rp \<Rightarrow> amount (namebid_proceeds rp))"

definition proceeds_ok :: "symbol \<Rightarrow> sys_state \<Rightarrow> bool" where
  "proceeds_ok core s \<longleftrightarrow> (\<forall>rp. rexpool s = Some rp \<longrightarrow> symb (namebid_proceeds rp) = core \<and> 0 \<le> amount (namebid_proceeds rp))"

definition counter :: "sys_state \<Rightarrow> asset option" where
  "counter s = map_option namebid_proceeds (rexpool s)"

lemma counter_same: "counter s' = counter s \<Longrightarrow> proceeds_left s' = proceeds_left s \<and> proceeds_ok core s' = proceeds_ok core s"
  by (auto simp: counter_def proceeds_left_def proceeds_ok_def split: option.splits)

lemma proceeds_nonneg: "proceeds_ok core s \<Longrightarrow> 0 \<le> proceeds_left s"
  by (auto simp: proceeds_ok_def proceeds_left_def split: option.splits)

text \<open>A procedure \<open>drains\<close> the account when what it sends from there is counted off.\<close>

definition core_only :: "symbol \<Rightarrow> sys_state \<Rightarrow> bool" where
  "core_only core s \<longleftrightarrow> (\<forall>sy. core_sym s = Some sy \<longrightarrow> sy = core)"

definition drains :: "symbol \<Rightarrow> sys_state \<Rightarrow> sys_state \<Rightarrow> bool" where
  "drains core s s' \<longleftrightarrow> core_sym s' = core_sym s \<and> (\<exists>l. outbox s' = outbox s @ l
     \<and> (core_only core s \<longrightarrow> proceeds_ok core s \<longrightarrow> all_sent l
       \<longrightarrow> proceeds_ok core s' \<and> proceeds_left s' \<le> proceeds_left s + flows (sym_code core) names_account l))"

lemma drains_refl [simp]: "drains core s s"
  by (auto simp: drains_def intro: exI [of _ "[]"])

lemma drains_trans:
  assumes "drains core s s1" "drains core s1 s2" shows "drains core s s2"
proof -
  from assms obtain l m where "outbox s1 = outbox s @ l" "outbox s2 = outbox s1 @ m" "core_sym s1 = core_sym s" "core_sym s2 = core_sym s1"
    and l: "core_only core s \<longrightarrow> proceeds_ok core s \<longrightarrow> all_sent l
       \<longrightarrow> proceeds_ok core s1 \<and> proceeds_left s1 \<le> proceeds_left s + flows (sym_code core) names_account l"
    and m: "core_only core s1 \<longrightarrow> proceeds_ok core s1 \<longrightarrow> all_sent m
       \<longrightarrow> proceeds_ok core s2 \<and> proceeds_left s2 \<le> proceeds_left s1 + flows (sym_code core) names_account m"
    unfolding drains_def by blast
  then show ?thesis unfolding drains_def by (auto simp: core_only_def intro!: exI [of _ "l @ m"])
qed

lemma drains_quiet:
  assumes "counter s' = counter s" "sends F s s'" "names_account \<notin> F" "rammarket s' = rammarket s"
  shows "drains core s s'"
proof -
  obtain l where l: "outbox s' = outbox s @ l" "senders l \<subseteq> F" using assms(2) by (auto simp: sends_def)
  have "all_sent l \<Longrightarrow> 0 \<le> flows (sym_code core) names_account l" using l assms(3) by (intro flows_nonneg) auto
  then show ?thesis using counter_same [OF assms(1)] core_sym_cong [OF assms(4)] l(1) by (auto simp: drains_def)
qed

lemma drains_keeps:
  assumes "counter s' = counter s" "keeps F s s'" "names_account \<notin> F" shows "drains core s s'"
  by (rule drains_quiet [OF assms(1) keepsD(10) [OF assms(2)] assms(3) keepsD(1) [OF assms(2)]])

named_theorems drains \<open>procedures that take from the account of the auctions only what they count off\<close>

section \<open>The procedures of REX\<close>

lemma counter_set_loans [simp]: "counter (set_loans kind m s) = counter s"
  by (cases kind) (simp_all add: counter_def)

lemma counter_funds:
  "transfer_from_fund c n q s = Inr s' \<Longrightarrow> counter s' = counter s" "transfer_to_fund c n q s = Inr s' \<Longrightarrow> counter s' = counter s"
  by (auto simp: transfer_from_fund_def transfer_to_fund_def res_simps counter_def)

lemma drains_funds [drains]:
  "transfer_from_fund c n q s = Inr s' \<Longrightarrow> drains core s s'" "transfer_to_fund c n q s = Inr s' \<Longrightarrow> drains core s s'"
  by (auto intro: drains_keeps counter_funds keeps_from_fund keeps_to_fund [of _ _ _ _ _ "{}"])

lemma drains_add_pool [drains]:
  assumes ok: "asset_ops_ok c" and u: "add_to_rex_pool c q s = Inr (r, s')" shows "drains core s s'"
proof (cases "rexpool s")
  case None
  from u [unfolded add_to_rex_pool_def None option.case Let_def bindr_Inr core_asset_Inr]
  obtain rp sy zero where s': "s' = s\<lparr>rexpool := Some rp\<rparr>" "namebid_proceeds rp = zero"
    and z: "core_sym s = Some sy" "asset_new c 0 sy = Inr zero" by auto
  then show ?thesis
    by (auto simp: drains_def core_only_def proceeds_ok_def proceeds_left_def None asset_newD [OF ok] core_sym_def intro: exI [of _ "[]"])
next
  case (Some rp)
  have "counter s' = counter s"
    using u unfolding add_to_rex_pool_def Some option.case Let_def bindr_Inr core_asset_Inr
    by (auto simp: counter_def Some res_simps split: if_splits)
  then show ?thesis by (rule drains_keeps [OF _ keeps_add_pool [OF u, of "{}"]]) simp
qed

lemma drains_add_balance [drains]: "add_to_rex_balance c n q r s = Inr (d, s') \<Longrightarrow> drains core s s'"
  by (rule drains_keeps [OF _ keeps_add_balance, where F = "{}"])
    (auto simp: add_to_rex_balance_def res_simps Let_def counter_def split: option.splits)

lemma drains_fill [drains]: "fill_rex_order c n q s = Inr (d, s') \<Longrightarrow> drains core s s'"
  by (rule drains_keeps [OF _ keeps_fill, where F = "{}"])
    (auto simp: fill_rex_order_def with_pool_def res_simps Let_def counter_def split: if_splits)

lemma counter_view: "view s' = view s \<Longrightarrow> counter s' = counter s"
  using viewD [of s' s] by (simp add: counter_def)

lemma drains_account [drains]:
  assumes "update_rex_account c n p d b s = Inr (r, s')" shows "drains core s s'"
proof -
  from update_rex_account_parts [OF assms] obtain z q1 q2 s1 s2 where
    "settle_order z n p d s = (q1, q2, r, s1)"
    "(if 0 < amount q1 then transfer_to_fund c n q1 s1 else Inr s1) = Inr s2"
    "(if b \<or> amount q2 \<noteq> 0 then update_voting_power c n q2 s2 else Inr s2) = Inr s'" .
  then have "counter s1 = counter s" "counter s2 = counter s1" "counter s' = counter s2"
    by (auto simp: settle_order_def counter_def dest: counter_funds(2) [unfolded counter_def]
        counter_view [OF view_update_voting_power, unfolded counter_def] split: option.splits if_splits)
  then show ?thesis by (intro drains_keeps [OF _ keeps_account [OF assms, of "{}"]]) simp_all
qed

lemma drains_limits_for [drains]:
  assumes "limits_for kind c r d s = Inr s'" shows "drains core s s'"
proof -
  have "counter s' = counter s"
    using assms by (cases kind) (auto simp: counter_def elim!: update_resource_limits_parts)
  then show ?thesis by (rule drains_keeps [OF _ keeps_limits_for [OF assms, of "{}"]]) simp
qed

lemma drains_process_loan:
  assumes "process_expired_loan c kind num loan s = Inr (del, delta, s')" shows "drains core s s'"
proof -
  have rm: "counter (s\<lparr>rexpool := Some rp'\<rparr>) = counter s"
    if "rexpool s = Some rp" "remove_loan_from_rex_pool loan rp = Inr rp'" for rp rp'
    using that by (auto simp: counter_def remove_loan_from_rex_pool_def bindr_Inr Let_def)
  have "counter s' = counter s"
    using assms
  proof (cases rule: process_expired_loan_parts)
    case (1 rp rp1 rented)
    have "counter s' = counter (s\<lparr>rexpool := Some rp1\<rparr>)"
      unfolding 1(9) counter_set_loans by (simp add: counter_def add_loan_to_rex_pool_def Let_def)
    then show ?thesis using rm [OF 1(1,2)] by simp
  next
    case (2 rp rp1)
    then show ?thesis using rm [OF 2(1,2)] by (auto dest: counter_funds split: if_splits)
  qed
  then show ?thesis by (rule drains_keeps [OF _ keeps_process_loan [OF assms, of "{}"]]) simp
qed

lemma drains_run_loan [drains]:
  assumes "run_loan c kind num loan s = Inr s'" shows "drains core s s'"
proof -
  from assms obtain del delta s1 s2 where p: "process_expired_loan c kind num loan s = Inr (del, delta, s1)"
    and s2: "(if delta \<noteq> 0 then limits_for kind c (loan_receiver loan) delta s1 else Inr s1) = Inr s2"
    and s': "s' = (if del then set_loans kind (fmdrop num (loans_of kind s2)) s2 else s2)"
    by (auto simp: run_loan_def bindr_Inr)
  have "drains core s1 s2" using s2 by (auto intro: drains_limits_for split: if_splits)
  moreover have "drains core s2 s'"
    by (rule drains_keeps [of _ _ "{}"]) (simp_all add: s')
  ultimately show ?thesis using drains_process_loan [OF p] by (blast intro: drains_trans)
qed

lemma drains_run_loans [drains]: "run_loans i c kind s = Inr s' \<Longrightarrow> drains core s s'"
proof (induction i arbitrary: s)
  case (Suc i)
  then show ?case by (auto simp: bindr_Inr split: option.splits prod.splits if_splits dest!: drains_run_loan intro: drains_trans)
qed simp

lemma drains_run_order:
  assumes "run_order c n ord s = Inr s'" shows "drains core s s'"
proof (cases "fmlookup (rexbalance s) n")
  case None
  then show ?thesis using assms by (simp add: run_order_def)
next
  case (Some rb)
  with assms obtain d s1 where f: "fill_rex_order c n (rex_requested ord) s = Inr (d, s1)"
    and k: "s' = s1 \<or> (\<exists>m q. s' = s1\<lparr>rexorders := m, outbox := outbox s1 @ [OrderResult n q]\<rparr>)"
    by (auto simp: run_order_def bindr_Inr split: if_splits)
  have "drains core s1 s'"
    using k by (auto intro!: drains_quiet [of _ _ "{}"] simp: counter_def sends_def)
  then show ?thesis using drains_fill [OF f] by (blast intro: drains_trans)
qed

lemma drains_run_orders [drains]: "run_orders c ns s = Inr s' \<Longrightarrow> drains core s s'"
proof (induction ns arbitrary: s)
  case (Cons n ns)
  then show ?case by (auto simp: bindr_Inr split: option.splits if_splits dest!: drains_run_order intro: drains_trans)
qed simp

text \<open>Maintenance counts off what it fetches; when nobody holds REX, it forgets the proceeds.\<close>

lemma channel_counter [simp]: "counter (channel_to_rex c n q s) = counter s"
  by (auto simp: channel_to_rex_def counter_def split: option.splits)

lemma drains_proceeds [drains]: "drains core s (channel_proceeds c s)"
proof (cases "\<exists>rp. rexpool s = Some rp \<and> 0 < amount (namebid_proceeds rp)")
  case False
  then show ?thesis by (auto simp: channel_proceeds_def split: option.splits)
next
  case True
  then obtain rp where rp: "rexpool s = Some rp" "0 < amount (namebid_proceeds rp)" by blast
  let ?q = "namebid_proceeds rp"
  let ?s1 = "channel_to_rex c names_account ?q s"
  have e: "channel_proceeds c s = ?s1\<lparr>rexpool := map_option (\<lambda>rt. rt\<lparr>namebid_proceeds := (namebid_proceeds rt)\<lparr>amount := 0\<rparr>\<rparr>) (rexpool ?s1)\<rparr>"
    using rp by (simp add: channel_proceeds_def Let_def)
  have p: "proceeds_ok core (channel_proceeds c s) \<and> proceeds_left (channel_proceeds c s) = 0" if "proceeds_ok core s"
    using that rp by (auto simp: e proceeds_ok_def proceeds_left_def channel_to_rex_def)
  have c: "core_sym (channel_proceeds c s) = core_sym s" by (intro core_sym_cong) (simp add: e channel_to_rex_def split: option.splits)
  show ?thesis
  proof (cases "0 < amount (total_rex rp)")
    case True
    then have o: "outbox (channel_proceeds c s) = outbox s @ [ToToken [Perm names_account active_permission]
        (Transfer names_account rex_account ?q (''transfer from '' @ name_to_string c names_account @ '' to eosio.rex''))]"
      by (simp add: e channel_to_rex_def rp)
    have "flows (sym_code core) names_account [ToToken [Perm names_account active_permission]
        (Transfer names_account rex_account ?q m)] = - amount ?q" if "proceeds_ok core s" for m
      using that rp by (simp add: proceeds_ok_def account_defs)
    then show ?thesis using p c o rp by (auto simp: drains_def proceeds_left_def)
  next
    case False
    then have "outbox (channel_proceeds c s) = outbox s @ []" by (simp add: e channel_to_rex_def rp)
    then show ?thesis using p c rp unfolding drains_def by (auto simp: proceeds_left_def)
  qed
qed

lemma drains_runrex [drains]:
  assumes "runrex c mx s = Inr s'" shows "drains core s s'"
  using assms
proof (cases rule: runrex_parts)
  case (1 s1 s2)
  then show ?thesis by (meson drains_trans drains_proceeds drains_run_loans drains_run_orders)
qed

section \<open>The actions\<close>

lemma drains_field [simp]:
  "drains core s (s\<lparr>rexbalance := b\<rparr>)" "drains core s (s\<lparr>rexfunds := f\<rparr>)" "drains core s (s\<lparr>rexorders := r\<rparr>)"
  "drains core s (s\<lparr>delband := d\<rparr>)" "drains core s (set_loans kind m s)"
  by (rule drains_quiet [where F = "{}"]; cases kind; simp add: counter_def sends_refl)+

lemma drains_result [simp]: "sender a = {} \<Longrightarrow> plain a \<Longrightarrow> drains core s (send_result a s)"
  by (rule drains_quiet [where F = "{}"]) (auto simp: counter_def send_result_def intro: sends_one)

lemma drains_transfer: "f \<noteq> names_account \<Longrightarrow> drains core s (send_transfer ps f t q m s)"
  by (rule drains_quiet [where F = "{f}"]) (auto simp: counter_def send_transfer_def intro: sends_one)

lemma drains_pool: "counter (s\<lparr>rexpool := p\<rparr>) = counter s \<Longrightarrow> drains core s (s\<lparr>rexpool := p\<rparr>)"
  by (rule drains_quiet [where F = "{}"]) (simp_all add: sends_refl)

lemma drains_chain: "drains core s s1 \<Longrightarrow> drains core s1 s2 \<Longrightarrow> drains core s2 s3 \<Longrightarrow> drains core s s3"
  by (blast intro: drains_trans)

lemma drains_deposit:
  assumes "n \<noteq> names_account" "deposit c n q s = Inr s'" shows "drains core s s'"
proof -
  from assms(2) have "transfer_to_fund c n q (send_transfer [Perm n active_permission] n rex_account q ''deposit to REX fund'' s) = Inr s'"
    by (auto simp: deposit_def res_simps)
  then show ?thesis by (rule drains_trans [OF drains_transfer [OF assms(1)] drains_funds(2)])
qed

lemma drains_withdraw:
  assumes "withdraw c n q s = Inr s'" shows "drains core s s'"
proof -
  from assms obtain z r s1 s2 where s1: "update_rex_account c n z z False s = Inr (r, s1)"
    and s2: "transfer_from_fund c n q s1 = Inr s2"
    and s': "s' = send_transfer [Perm rex_account active_permission] rex_account n q ''withdraw from REX fund'' s2"
    unfolding withdraw_def res_simps by blast
  show ?thesis unfolding s' by (rule drains_chain [OF drains_account [OF s1] drains_funds(1) [OF s2] drains_transfer]) (simp add: account_defs)
qed

lemma drains_buyrex:
  assumes ok: "asset_ops_ok c" and u: "buyrex c n q s = Inr s'" shows "drains core s s'"
  using u
proof (cases rule: buyrex_parts)
  case (1 sy r d z r2 s1 s2 s3 s4 s5)
  have "drains core s s3" by (rule drains_chain [OF drains_funds(1) [OF 1(5)] drains_add_pool [OF ok 1(6)] drains_add_balance [OF 1(7)]])
  moreover have "drains core s3 s'"
    unfolding 1(12) by (rule drains_chain [OF drains_runrex [OF 1(8)] drains_account [OF 1(11)]]) simp
  ultimately show ?thesis by (rule drains_trans)
qed

lemma drains_unstaketorex:
  assumes ok: "asset_ops_ok c" and u: "unstaketorex c n r nq cq s = Inr s'" shows "drains core s s'"
  using u
proof (cases rule: unstaketorex_parts)
  case (1 d d1 s1 s2 pay rec s3 x s4 s5 z y s6)
  let ?s2 = "send_transfer [Perm stake_account active_permission] stake_account rex_account pay ''buy REX with staked tokens'' s2"
  have a: "drains core s s1" unfolding 1(11) by simp
  have "counter s2 = counter s1" using 1(12) by (auto simp: counter_def elim!: update_resource_limits_parts)
  then have "drains core s1 s2" by (rule drains_keeps [OF _ keeps_limits [OF 1(12), of "{}"]]) simp
  moreover have "drains core s2 ?s2" by (rule drains_transfer) (simp add: account_defs)
  ultimately have "drains core s ?s2" using a by (blast intro: drains_trans)
  then have "drains core s s4" by (rule drains_chain [OF _ drains_add_pool [OF ok 1(14)] drains_add_balance [OF 1(15)]])
  moreover have "drains core s4 s'"
    unfolding 1(19) by (rule drains_chain [OF drains_runrex [OF 1(16)] drains_account [OF 1(18)]]) simp
  ultimately show ?thesis by (rule drains_trans)
qed

lemma drains_sellrex:
  assumes "sellrex c n q s = Inr s'" shows "drains core s s'"
  using assms
proof (cases rule: sellrex_parts)
  case (1 s1 rb s2 ord s3 z s4 pend s5 rb2)
  have "drains core s s2" unfolding 1(6) by (rule drains_trans [OF drains_runrex [OF 1(2)]]) simp
  then have "drains core s s4" by (rule drains_chain [OF _ drains_fill [OF 1(8)] drains_account [OF 1(10)]])
  moreover have "drains core s4 s5" using 1(11) by (auto dest!: queue_order_state split: if_splits)
  moreover have "drains core s5 s'" by (simp add: 1(14))
  ultimately show ?thesis by (rule drains_chain)
qed

lemma drains_rentrex:
  assumes "rentrex kind c from receiver pay fund s = Inr s'" shows "drains core s s'"
  using assms
proof (cases rule: rentrex_parts)
  case (1 s1 sy s2 rp rented a s3)
  have "drains core s1 s2" using 1(9) by (auto intro: drains_funds)
  then have "drains core s s2" using drains_runrex [OF 1(2)] by (blast intro: drains_trans)
  moreover have "drains core s2 s3"
  proof -
    let ?s = "s2\<lparr>rexpool := Some (add_loan_to_rex_pool pay rented True rp)\<rparr>"
    have "drains core s2 ?s" by (rule drains_pool) (simp add: counter_def 1(10) add_loan_to_rex_pool_def Let_def)
    then show ?thesis unfolding 1(15) by (rule drains_chain [OF _ drains_field(5) drains_result]) simp_all
  qed
  ultimately show ?thesis by (rule drains_chain [OF _ _ drains_limits_for [OF 1(16)]])
qed

lemma drains_fundloan: "fundloan kind c n num q s = Inr s' \<Longrightarrow> drains core s s'"
  by (erule fund_loan_parts) (auto intro: drains_trans [OF drains_funds(1)])

lemma drains_defloan: "defloan kind c n num q s = Inr s' \<Longrightarrow> drains core s s'"
  by (erule defund_loan_parts) (rule drains_trans [OF _ drains_funds(2)], auto)

lemma drains_updaterex:
  assumes "updaterex c n s = Inr s'" shows "drains core s s'"
  using assms
proof (cases rule: updaterex_parts)
  case (1 s1 rb rp z stake change r s3 rb3)
  have "drains core s s3" by (rule drains_chain [OF drains_runrex [OF 1(2)] _ drains_account [OF 1(8)]]) simp
  then show ?thesis unfolding 1(10) by (rule drains_trans) simp
qed

lemma drains_setrex: "setrex c q s = Inr s' \<Longrightarrow> drains core s s'"
  by (auto simp: setrex_def res_simps counter_def intro!: drains_pool)

lemma drains_consolidate:
  assumes "consolidate c n s = Inr s'" shows "drains core s s'"
  using assms
proof (cases rule: consolidate_parts)
  case (1 s1 z r s2 rb)
  show ?thesis unfolding 1(7) by (rule drains_chain [OF drains_runrex [OF 1(2)] drains_account [OF 1(5)]]) simp
qed

lemma drains_mvtosavings:
  assumes "mvtosavings c n q s = Inr s'" shows "drains core s s'"
  using assms
proof (cases rule: mvtosavings_parts)
  case (1 s1 rb0 z r s2 rb1 sav rb2 rb3)
  show ?thesis unfolding 1(11) by (rule drains_chain [OF drains_runrex [OF 1(2)] drains_account [OF 1(6)]]) simp
qed

lemma drains_mvfrsavings:
  assumes "mvfrsavings c n q s = Inr s'" shows "drains core s s'"
  using assms
proof (cases rule: mvfrsavings_parts)
  case (1 s1 rb0 sav rb1 s2 z r)
  show ?thesis by (rule drains_chain [OF drains_runrex [OF 1(2)] _ drains_account [OF 1(9)]]) (simp add: 1(7))
qed

lemma drains_closerex:
  assumes "closerex c n s = Inr s'" shows "drains core s s'"
  using assms
proof (cases rule: closerex_parts)
  case (1 s1 z r s2 f s3)
  have "drains core s s1" using 1(2) by (auto intro: drains_runrex split: if_splits)
  moreover have "drains core s2 s'"
    by (rule drains_trans [of _ _ s3]) (use 1(5,7) in auto)
  ultimately show ?thesis using drains_account [OF 1(4)] by (blast intro: drains_trans)
qed

section \<open>Bids and refunds\<close>

definition bid_val :: "'k \<Rightarrow> name_bid \<Rightarrow> int" where "bid_val k b = max 0 (high_bid b)"
definition bidder_val :: "'k \<Rightarrow> asset \<Rightarrow> int" where "bidder_val k q = amount q"

definition names_owed :: "sys_state \<Rightarrow> int" where
  "names_owed s = fmsum bid_val (namebids s) + fmsum bidder_val (bidrefunds s) + proceeds_left s"

definition refunds_ok :: "symbol \<Rightarrow> sys_state \<Rightarrow> bool" where
  "refunds_ok core s \<longleftrightarrow> (\<forall>k q. fmlookup (bidrefunds s) k = Some q \<longrightarrow> 0 \<le> amount q \<and> symb q = core)"

definition bids_small :: "sys_state \<Rightarrow> bool" where
  "bids_small s \<longleftrightarrow> (\<forall>n b. fmlookup (namebids s) n = Some b \<longrightarrow> \<bar>high_bid b\<bar> \<le> max_amount)"

definition names_wf :: "symbol \<Rightarrow> sys_state \<Rightarrow> bool" where
  "names_wf core s \<longleftrightarrow> refunds_ok core s \<and> proceeds_ok core s \<and> bids_small s"

lemma names_parts:
  assumes "names_wf core s"
  shows "0 \<le> fmsum bid_val (namebids s)" "0 \<le> fmsum bidder_val (bidrefunds s)" "0 \<le> proceeds_left s"
proof -
  show "0 \<le> fmsum bid_val (namebids s)" by (rule fmsum_nonneg) (simp add: bid_val_def)
  show "0 \<le> fmsum bidder_val (bidrefunds s)"
    by (rule fmsum_nonneg) (use assms in \<open>auto simp: bidder_val_def names_wf_def refunds_ok_def\<close>)
  show "0 \<le> proceeds_left s" using assms proceeds_nonneg by (auto simp: names_wf_def)
qed

lemma bid_le:
  assumes "names_wf core s" "fmlookup (namebids s) n = Some b" shows "high_bid b \<le> names_owed s"
proof -
  have "bid_val n b \<le> fmsum bid_val (namebids s)" by (rule fmsum_row_le [OF assms(2)]) (simp add: bid_val_def)
  then show ?thesis using names_parts [OF assms(1)] by (simp add: names_owed_def bid_val_def)
qed

lemma names_effects [simp]:
  "names_owed (s\<lparr>outbox := l\<rparr>) = names_owed s" "names_owed (s\<lparr>tokens := t\<rparr>) = names_owed s"
  "names_wf core (s\<lparr>outbox := l\<rparr>) = names_wf core s" "names_wf core (s\<lparr>tokens := t\<rparr>) = names_wf core s"
  by (simp_all add: names_owed_def names_wf_def refunds_ok_def proceeds_ok_def bids_small_def proceeds_left_def)

lemma bidname_names:
  assumes ok: "asset_ops_ok c" and mk: "market_ok core s" and w: "names_wf core s" and ob: "outbox s = []"
    and le: "names_owed s \<le> max_amount" and na: "\<not> has_auth c names_account" and snt: "all_sent (outbox s')"
    and u: "bidname c b n q s = Inr s'"
  shows "names_wf core s' \<and> names_owed s' = names_owed s + flows (sym_code core) names_account (outbox s')"
  using u
proof (cases rule: bidname_parts)
  case (1 s1 row)
  have n: "b \<noteq> names_account" using 1(1) na by blast
  have sy: "symb q = core" by (rule market_ok_core [OF mk 1(2)])
  have qs: "\<bar>amount q\<bar> \<le> max_amount" using snt 1(3) by (simp add: 1(4,7) send_transfer_def)
  show ?thesis using w n sy 1(3) ob qs
    by (auto simp: 1(4,5,7) send_transfer_def names_wf_def refunds_ok_def proceeds_ok_def bids_small_def names_owed_def
        proceeds_left_def fmsum_upd bid_val_def 1(6))
next
  case (2 s1 row cur s2 p)
  have n: "b \<noteq> names_account" using 2(1) na by blast
  have sy: "symb q = core" by (rule market_ok_core [OF mk 2(2)])
  obtain x r where x: "core_asset c s1 (high_bid cur) Inr = Inr x"
    and r: "(case fmlookup (bidrefunds s1) (n, high_bidder cur) of None \<Rightarrow> Inr x | Some r0 \<Rightarrow> asset_add c r0 x) = Inr r"
    and s2: "s2 = s1\<lparr>bidrefunds := fmupd (n, high_bidder cur) r (bidrefunds s1)\<rparr>"
    by (rule add_bid_refund_parts [OF 2(10)])
  have c1: "core_sym s1 = core_sym s" by (rule core_sym_cong) (simp add: 2(4) send_transfer_def)
  have xv: "amount x = high_bid cur" "symb x = core"
    using x 2(2) sy by (auto simp: core_asset_Inr asset_newD [OF ok] c1)
  have b1: "bidrefunds s1 = bidrefunds s" by (simp add: 2(4) send_transfer_def)
  have rv: "amount r = row_val bidder_val (n, high_bidder cur) (fmlookup (bidrefunds s) (n, high_bidder cur)) + high_bid cur"
    "symb r = core" "0 \<le> amount r"
    using r w xv 2(7) by (auto simp: b1 bidder_val_def asset_addD [OF ok] names_wf_def refunds_ok_def split: option.splits)
  have qs: "\<bar>amount q\<bar> \<le> max_amount" using snt 2(3) by (simp add: 2(4,11) s2 send_transfer_def)
  show ?thesis using w n sy 2(3,7) ob rv qs
    by (auto simp: 2(11) s2 2(4,5) send_transfer_def names_wf_def refunds_ok_def proceeds_ok_def bids_small_def names_owed_def
        proceeds_left_def fmsum_upd bid_val_def 2(6) bidder_val_def)
qed

lemma bidrefund_names:
  assumes w: "names_wf core s" and ob: "outbox s = []" and snt: "all_sent (outbox s')" and u: "bidrefund c b n s = Inr s'"
  shows "names_wf core s' \<and> names_owed s' = names_owed s + flows (sym_code core) names_account (outbox s')"
  using u
proof (cases rule: bidrefund_parts)
  case (1 q)
  then have "b \<noteq> names_account" "symb q = core" using snt w by (auto simp: send_transfer_def names_wf_def refunds_ok_def)
  then show ?thesis using w ob
    by (auto simp: 1(2) send_transfer_def names_wf_def refunds_ok_def proceeds_ok_def bids_small_def names_owed_def
        proceeds_left_def fmsum_drop bidder_val_def 1(1) split: if_splits)
qed

lemma newaccount_names:
  assumes w: "names_wf core s" and u: "newaccount c k n s = Inr s'"
  shows "names_wf core s' \<and> names_owed s' = names_owed s"
  using u
proof (cases rule: newaccount_parts)
  case (1 nb z)
  have "fmsum bid_val nb = fmsum bid_val (namebids s)" using 1(1) by (auto simp: fmsum_drop bid_val_def)
  moreover have "\<forall>k b. fmlookup nb k = Some b \<longrightarrow> \<bar>high_bid b\<bar> \<le> max_amount"
    using 1(1) w by (auto simp: names_wf_def bids_small_def split: if_splits)
  ultimately show ?thesis using w
    by (simp add: 1(4) set_limits_def names_wf_def refunds_ok_def proceeds_ok_def bids_small_def names_owed_def proceeds_left_def)
qed

lemma index_by_row: "(k, v) \<in> set (index_by f m) \<Longrightarrow> fmlookup m k = Some v"
  by (auto simp: index_by_def sorted_list_of_fmap_def fmlookup_dom_iff)

lemma highest_bid_row:
  assumes "highest_bid s = Some (n, b)" shows "fmlookup (namebids s) n = Some b"
proof -
  let ?l = "dropWhile (\<lambda>(k, b). by_high_bid k b < 9223372036854775807) (index_by by_high_bid (namebids s))"
  have "(n, b) \<in> set ?l" using assms by (cases ?l) (auto simp: highest_bid_def)
  then show ?thesis by (rule index_by_row [OF set_dropWhileD])
qed

text \<open>Closing an auction turns a standing bid into proceeds, or drops it from the books.\<close>

lemma close_names:
  assumes w: "names_wf core s" and le: "names_owed s \<le> max_amount"
  shows "names_wf core (close_highest_bid c t s) \<and> names_owed (close_highest_bid c t s) \<le> names_owed s"
proof (cases "close_highest_bid c t s = s")
  case False
  then obtain n b where h: "highest_bid s = Some (n, b)" and pos: "0 < high_bid b"
    and e: "close_highest_bid c t s = (let s1 = channel_namebid_to_rex (high_bid b) (s\<lparr>gstate := (gstate s)\<lparr>last_name_close := t\<rparr>\<rparr>) in
            s1\<lparr>namebids := fmupd n (b\<lparr>high_bid := i64 (- high_bid b)\<rparr>) (namebids s1)\<rparr>)"
    by (auto simp: close_highest_bid_def split: option.splits if_splits)
  have row: "fmlookup (namebids s) n = Some b" by (rule highest_bid_row [OF h])
  have bl: "high_bid b \<le> max_amount" using bid_le [OF w row] le by simp
  have i: "i64 (- high_bid b) = - high_bid b" using pos bl by (intro i64_id) (auto simp: in_i64_def max_amount_def)
  let ?s1 = "channel_namebid_to_rex (high_bid b) (s\<lparr>gstate := (gstate s)\<lparr>last_name_close := t\<rparr>\<rparr>)"
  have "bid_val n b \<le> fmsum bid_val (namebids s)" by (rule fmsum_row_le [OF row]) (simp add: bid_val_def)
  then have pl: "proceeds_left s + high_bid b \<le> max_amount"
    using le names_parts(2) [OF w] pos by (simp add: names_owed_def bid_val_def)
  have s1: "proceeds_ok core ?s1 \<and> proceeds_left ?s1 \<le> proceeds_left s + high_bid b \<and> namebids ?s1 = namebids s
      \<and> bidrefunds ?s1 = bidrefunds s"
  proof (cases "rexpool s")
    case (Some rp)
    have "0 \<le> amount (namebid_proceeds rp)" using w Some by (auto simp: names_wf_def proceeds_ok_def)
    then have "i64 (amount (namebid_proceeds rp) + high_bid b) = amount (namebid_proceeds rp) + high_bid b"
      using pl pos by (intro i64_small) (auto simp: proceeds_left_def Some)
    then show ?thesis using w Some pos
      by (auto simp: channel_namebid_to_rex_def names_wf_def proceeds_ok_def proceeds_left_def)
  qed (use w pos in \<open>auto simp: channel_namebid_to_rex_def names_wf_def proceeds_ok_def proceeds_left_def\<close>)
  have "fmsum bid_val (fmupd n (b\<lparr>high_bid := - high_bid b\<rparr>) (namebids s)) = fmsum bid_val (namebids s) - high_bid b"
    using pos by (simp add: fmsum_upd row bid_val_def)
  then show ?thesis using s1 w pos bl
    by (simp add: e Let_def i names_owed_def names_wf_def refunds_ok_def proceeds_ok_def bids_small_def proceeds_left_def)
qed (use w in simp)

lemma onblock_names:
  assumes w: "names_wf core s" and le: "names_owed s \<le> max_amount" and u: "onblock c t n s = Inr s'"
  shows "names_wf core s' \<and> names_owed s' \<le> names_owed s"
  using u
proof (cases rule: onblock_parts)
  case (1 s1 s2 s3)
  have f1: "footprint {Paying} {} s s1" unfolding 1(2) by simp
  have f2: "footprint {Paying} {} s1 s2" using 1(4)
    by (auto simp: 1(2) intro!: footprint_gstate) (simp_all add: g_view_def)
  have f3: "footprint {Paying} {} s s3"
    unfolding 1(5) by (rule footprint_then [OF footprint_then [OF f1 f2] footprint_count])
  let ?s4 = "update_elected_producers c t s3"
  have f4: "footprint {Paying} {} s ?s4" by (rule footprint_then [OF f3]) simp
  have quiet: "names_wf core x \<and> names_owed x = names_owed s" if "footprint {Paying} {} s x" for x
    using footprintD(1) [OF that, of Naming] footprintD(1) [OF that, of Rexing] w
    by (simp add: names_wf_def refunds_ok_def proceeds_ok_def bids_small_def names_owed_def proceeds_left_def)
  from 1(6) consider "s' = s1" | "s' = s3" | "s' = ?s4" | "s' = close_highest_bid c t ?s4" by blast
  then show ?thesis
  proof cases
    case 1
    then show ?thesis using quiet [OF f1] by simp
  next
    case 2
    then show ?thesis using quiet [OF f3] by simp
  next
    case 3
    then show ?thesis using quiet [OF f4] by simp
  next
    case 4
    then show ?thesis using close_names [of core ?s4 c t] quiet [OF f4] le by simp
  qed
qed

section \<open>The escrow of the auctions\<close>

lemma counter_upd [simp]:
  "counter (s\<lparr>gstate := g\<rparr>) = counter s" "counter (s\<lparr>rammarket := x, gstate := g\<rparr>) = counter s"
  "counter (s\<lparr>rammarket := x, gstate := g, userres := y\<rparr>) = counter s"
  "counter (s\<lparr>userres := y\<rparr>) = counter s" "counter (s\<lparr>rammarket := x\<rparr>) = counter s"
  "counter (send_transfer ps f to q memo s) = counter s" "counter (set_limits n r s) = counter s"
  by (simp_all add: counter_def send_transfer_def set_limits_def)

lemma counter_ram_limit [simp]: "counter (set_ram_limit n k s) = counter s"
  by (simp add: set_ram_limit_def split: prod.splits)

lemma counter_foot: "footprint A {} s s' \<Longrightarrow> Rexing \<notin> A \<Longrightarrow> counter s' = counter s"
  using footprintD(1) [of A "{}" s s' Rexing] by (simp add: counter_def)

lemma counter_supply: "update_ram_supply c s = Inr s' \<Longrightarrow> counter s' = counter s"
  by (rule counter_foot [OF footprint_update_ram_supply]) simp_all

lemma counter_credit: "credit_ram c n b s = Inr s' \<Longrightarrow> counter s' = counter s"
  by (rule counter_foot [OF footprint_credit_ram]) simp_all

lemma counter_pay_ram [simp]: "counter (pay_ram c n p f s) = counter s"
  by (simp add: pay_ram_def Let_def)

lemma counter_pay_seller: "pay_seller c n q s = Inr s' \<Longrightarrow> counter s' = counter s"
  by (auto simp: pay_seller_def Let_def core_asset_Inr split: if_splits)

lemma counter_buyram: "buyram c n r q s = Inr s' \<Longrightarrow> counter s' = counter s"
  by (elim buyram_parts) (drule counter_supply counter_credit, simp)+

lemma counter_sellram: "sellram c n k s = Inr s' \<Longrightarrow> counter s' = counter s"
  by (elim sellram_parts) (drule counter_supply counter_pay_seller, simp)+

lemma counter_ram:
  assumes "Ramming \<in> touches a" "Rexing \<in> touches a" "apply_sys c a s = Inr s'" shows "counter s' = counter s"
  using assms by (cases a) (auto elim!: buyrambytes_parts intro: counter_buyram counter_sellram)

lemma drains_rexexec: "rexexec c n k s = Inr s' \<Longrightarrow> drains core s s'"
  by (auto simp: rexexec_def require_auth_Inr intro: drains_runrex)

lemma drains_cnclrexorder: "cnclrexorder c n s = Inr s' \<Longrightarrow> drains core s s'"
  by (auto simp: cnclrexorder_def res_simps)

lemma action_drains:
  assumes ok: "asset_ops_ok c" and na: "\<not> has_auth c names_account" and t: "Rexing \<in> touches a" "Naming \<notin> touches a" "Ramming \<notin> touches a"
    and u: "apply_sys c a s = Inr s'"
  shows "drains core s s'"
proof (cases a)
  case (Deposit n q)
  with u have d: "deposit c n q s = Inr s'" by simp
  then have "n \<noteq> names_account" using deposit_auth na by metis
  then show ?thesis using d by (rule drains_deposit)
next
  case (BuyRex n q)
  then show ?thesis using drains_buyrex [OF ok] u by simp
next
  case (UnstakeToRex n r p q)
  then show ?thesis using drains_unstaketorex [OF ok] u by simp
qed (use u t in \<open>simp_all add: drains_withdraw drains_sellrex drains_rentrex drains_fundloan drains_defloan
      drains_updaterex drains_setrex drains_consolidate drains_mvtosavings drains_mvfrsavings drains_closerex
      drains_rexexec drains_cnclrexorder\<close>)

lemma action_names_owed:
  assumes g: "good_ctx c" "good_action core a" and mk: "market_ok core s" and w: "names_wf core s" and ob: "outbox s = []"
    and le: "names_owed s \<le> max_amount" and u: "apply_sys c a s = Inr s'" and snt: "all_sent (outbox s')"
  shows "names_wf core s' \<and> names_owed s' \<le> names_owed s + flows (sym_code core) names_account (outbox s')"
proof -
  have ok: "asset_ops_ok c" and na: "\<not> has_auth c names_account" using g(1) by (auto simp: good_ctx_def held_accounts_def)
  have h: "names_account \<in> held_accounts" by (simp add: held_accounts_def)
  note quiet = quiet_flow [OF g(1) h _ ob u snt, of "sym_code core"]
  show ?thesis
  proof (cases "Naming \<in> touches a")
    case True
    have q0: "0 \<le> flows (sym_code core) names_account (outbox s')" if "names_account \<notin> held_senders a" using quiet [OF that] .
    show ?thesis
    proof (cases a)
      case (OnBlock t n)
      with u q0 onblock_names [OF w le, of c t n s'] show ?thesis by simp
    next
      case (BidName b n q)
      with u bidname_names [OF ok mk w ob le na snt] show ?thesis by simp
    next
      case (BidRefund b n)
      with u bidrefund_names [OF w ob snt] show ?thesis by simp
    next
      case (NewAccount k n)
      with u q0 newaccount_names [OF w] show ?thesis by simp
    qed (use True in simp_all)
  next
    case nm: False
    then have e: "namebids s' = namebids s" "bidrefunds s' = bidrefunds s"
      using footprintD(1) [OF action_footprint [OF u] nm] by simp_all
    have "proceeds_ok core s' \<and> proceeds_left s' \<le> proceeds_left s + flows (sym_code core) names_account (outbox s')"
    proof (cases "Rexing \<in> touches a \<and> Ramming \<notin> touches a")
      case True
      have d: "drains core s s'" by (rule action_drains [OF ok na _ nm _ u]) (use True in auto)
      have "core_only core s" using market_ok_core [OF mk] by (auto simp: core_only_def)
      then show ?thesis using d w ob snt by (auto simp: drains_def names_wf_def)
    next
      case False
      have "counter s' = counter s"
      proof (cases "Rexing \<in> touches a")
        case True
        with False counter_ram [OF _ True u] show ?thesis by blast
      next
        case False
        then show ?thesis using footprintD(1) [OF action_footprint [OF u], of Rexing] by (simp add: counter_def)
      qed
      moreover have "names_account \<notin> held_senders a" using False nm by (cases a) (auto simp: account_defs)
      ultimately show ?thesis using quiet counter_same [of s' s] w unfolding names_wf_def by force
    qed
    then show ?thesis using w e by (simp add: names_wf_def refunds_ok_def bids_small_def names_owed_def)
  qed
qed

interpretation auction_tokens: escrow core names_account "\<lambda>s. market_ok core s \<and> names_wf core s" names_owed for core
proof unfold_locales
  fix c a s s'
  assume g: "good_ctx c" "good_action core a" and w: "market_ok core s \<and> names_wf core s" and o: "outbox s = []"
    and m: "bal (sym_code core) (tokens s) names_account \<le> max_amount"
    and v: "names_owed s \<le> bal (sym_code core) (tokens s) names_account" and u: "apply_sys c a s = Inr s'"
  have "market_ok core s'" by (rule action_market_ok [OF g _ u]) (use w in simp)
  moreover have "names_wf core s' \<and> names_owed s' \<le> names_owed s + flows (sym_code core) names_account (outbox s')"
    if "all_sent (outbox s')" by (rule action_names_owed [OF g _ _ o _ u that]) (use w m v in auto)
  ultimately show "all_plain (outbox s') \<and> tokens s' = tokens s \<and> (all_sent (outbox s')
      \<longrightarrow> bal (sym_code core) (tokens s) names_account + flows (sym_code core) names_account (outbox s') \<le> max_amount
      \<longrightarrow> (market_ok core s' \<and> names_wf core s') \<and> names_owed s' \<le> names_owed s + flows (sym_code core) names_account (outbox s'))"
    using action_plain [OF o u] by auto
qed (auto simp: held_accounts_def max_amount_def)

text \<open>An account bids for a name that is still free.\<close>

definition ex_name :: name where "ex_name = 9223372036854775808"

definition ex_bidder :: "name \<Rightarrow> sys_chain" where
  "ex_bidder n = (ref_sys [n] ex_now)\<lparr>is_account := (\<lambda>m. m \<noteq> ex_name)\<rparr>"

definition ex_bid :: event where
  "ex_bid = Sys (ex_bidder ex_alice) (BidName ex_alice ex_name (ast 5000 ex_sy))"

definition ex_auctioned :: sys_state where
  "ex_auctioned = ex_staked\<lparr>
     namebids := fmupd ex_name \<lparr>high_bidder = ex_alice, high_bid = 5000, last_bid_time = ex_now\<rparr> fmempty,
     tokens := (tokens ex_staked)\<lparr>accounts := fmupd (names_account, 5459781) \<lparr>balance = ast 5000 ex_sy\<rparr>
         (fmupd (ex_alice, 5459781) \<lparr>balance = ast 999845000 ex_sy\<rparr> (accounts (tokens ex_staked))),
       notified := notified (tokens ex_staked) @ [ex_alice, names_account]\<rparr>\<rparr>"

lemma truncate_accounts [simp]: "chain.truncate (c\<lparr>is_account := f\<rparr>) = (chain.truncate c)\<lparr>is_account := f\<rparr>"
  by (cases c) (simp add: chain.defs)

lemma ex_bid_run: "run_all world_step ((ex_launch @ [ex_stake]) @ [ex_bid]) ex_genesis = Inr ex_auctioned"
proof -
  have "world_step ex_bid ex_staked = Inr ex_auctioned"
    by (simp add: ex_bid_def ex_bidder_def ex_auctioned_def ex_staked_def ex_open_def ex_tokens_def ex_market_def ex_genesis_def
        genesis_def ex_eval bidname_def ex_name_def with_core_def core_sym_def send_transfer_def fmupd_idem now_tp_def i64_def)
  then show ?thesis
    unfolding run_all_append [of world_step "ex_launch @ [ex_stake]"] ex_stake_run bindr_simps by simp
qed

lemma ex_bid_good: "e \<in> set ((ex_launch @ [ex_stake]) @ [ex_bid]) \<Longrightarrow> good_event ex_sy e"
  using ex_run_good [of e] ref_sys_good [of "[ex_alice]" ex_now]
  by (auto simp: ex_bid_def ex_bidder_def good_ctx_def asset_ops_ok_def time_ops_ok_def held_accounts_def account_defs)

text \<open>
  C25: Every bidder gets the tokens back: over any run of the chain, the account of the name auctions
  holds all standing bids, all refunds of bidders who were outbid, and the proceeds of the closed
  auctions that the maintenance of REX has not fetched yet.
\<close>

theorem bids_are_covered:
  assumes "core_ok core" "ledger_inv t" "\<forall>e\<in>set es. good_event core e"
    and "run_all world_step es (genesis params lims t) = Inr s"
  shows "fmsum (\<lambda>_ b. max 0 (high_bid b)) (namebids s) + fmsum (\<lambda>_. amount) (bidrefunds s) + proceeds_left s
    \<le> bal (sym_code core) (tokens s) names_account"
proof -
  have "(market_ok core s \<and> names_wf core s) \<and> covers core names_account names_owed s \<and> outbox s = []"
    by (rule auction_tokens.chain.run_inv [OF _ _ assms(4)])
      (use assms in \<open>auto simp: names_wf_def refunds_ok_def proceeds_ok_def bids_small_def intro!: genesis_covers,
         simp add: names_owed_def proceeds_left_def\<close>)
  then show ?thesis by (simp add: covers_def names_owed_def bid_val_def [abs_def] bidder_val_def [abs_def])
qed

theorem bids_are_covered_witness:
  "fmsum (\<lambda>_ b. max 0 (high_bid b)) (namebids ex_auctioned) = 5000
     \<and> fmsum (\<lambda>_ b. max 0 (high_bid b)) (namebids ex_auctioned) + fmsum (\<lambda>_. amount) (bidrefunds ex_auctioned)
       + proceeds_left ex_auctioned \<le> bal 5459781 (tokens ex_auctioned) names_account"
  using bids_are_covered [OF ex_core_ok ledger_inv_empty _ ex_bid_run [unfolded ex_genesis_def]] ex_bid_good
  by (auto simp: ex_auctioned_def fmsum_upd ex_sy_def)

end
