(* ===== verification/RexWalk.thy ===== *)
theory RexWalk
  imports RexFrame
begin

text \<open>
  The procedures of REX as walks of elementary steps: a relation between states that every step
  respects holds between the state before any REX action and the state after it. The pool, the REX
  balances, the orders, the loans and the inline actions may change at will; the steps that matter
  are those on the funds, the resource rows and the votes.
\<close>

text \<open>The actions of rex.cpp.\<close>

fun rex_action :: "sys_action \<Rightarrow> bool" where
  "rex_action (SetRex q) = True" | "rex_action (Deposit n q) = True" | "rex_action (Withdraw n q) = True"
| "rex_action (BuyRex n q) = True" | "rex_action (UnstakeToRex n r q p) = True" | "rex_action (SellRex n q) = True"
| "rex_action (CnclRexOrder n) = True" | "rex_action (RentCpu f r q p) = True" | "rex_action (RentNet f r q p) = True"
| "rex_action (FundCpuLoan n k q) = True" | "rex_action (FundNetLoan n k q) = True"
| "rex_action (DefCpuLoan n k q) = True" | "rex_action (DefNetLoan n k q) = True"
| "rex_action (UpdateRex n) = True" | "rex_action (RexExec n mx) = True" | "rex_action (Consolidate n) = True"
| "rex_action (MvToSavings n q) = True" | "rex_action (MvFrSavings n q) = True" | "rex_action (CloseRex n) = True"
| "rex_action _ = False"

locale rex_walk =
  fixes R :: "sys_state \<Rightarrow> sys_state \<Rightarrow> bool"
  assumes same_state: "R s s" and onward: "R s s1 \<Longrightarrow> R s1 s2 \<Longrightarrow> R s s2"
    and free_write: "R s (s\<lparr>rexpool := p\<rparr>)" "R s (s\<lparr>rexbalance := b\<rparr>)" "R s (s\<lparr>rexorders := r\<rparr>)"
      "R s (s\<lparr>cpu_loans := l\<rparr>)" "R s (s\<lparr>net_loans := l\<rparr>)" "R s (s\<lparr>outbox := x\<rparr>)" "R s (s\<lparr>delband := d\<rparr>)"
    and drop_fund: "R s (s\<lparr>rexfunds := fmdrop n (rexfunds s)\<rparr>)"
    and fund_step: "transfer_to_fund c n q s = Inr s' \<Longrightarrow> R s s'" "transfer_from_fund c n q s = Inr s' \<Longrightarrow> R s s'"
    and vote_step: "update_voting_power c n q s = Inr s' \<Longrightarrow> R s s'"
    and limit_step: "update_resource_limits c n dn dp s = Inr s' \<Longrightarrow> R s s'"
begin

lemma onward3: "R s s1 \<Longrightarrow> R s1 s2 \<Longrightarrow> R s2 s3 \<Longrightarrow> R s s3"
  using onward by blast

lemma walk_free: "R s (s\<lparr>rexpool := p, rexbalance := b\<rparr>)" "R s (s\<lparr>rexorders := r, outbox := x\<rparr>)"
  "R s (set_loans kind m s)" "R s (s\<lparr>rexpool := p, outbox := x\<rparr>)"
proof -
  show "R s (s\<lparr>rexpool := p, rexbalance := b\<rparr>)" by (rule onward [OF free_write(1) free_write(2)])
  show "R s (s\<lparr>rexorders := r, outbox := x\<rparr>)" by (rule onward [OF free_write(3) free_write(6)])
  show "R s (s\<lparr>rexpool := p, outbox := x\<rparr>)" by (rule onward [OF free_write(1) free_write(6)])
  show "R s (set_loans kind m s)" using free_write(4,5) by (cases kind) simp_all
qed

lemmas walk_steps = same_state free_write walk_free

lemma walk_send: "R s (send_transfer ps f t q m s)" "R s (send_result a s)"
  unfolding send_transfer_def send_result_def by (rule free_write)+

lemma walk_add_pool: "add_to_rex_pool c q s = Inr (r, s') \<Longrightarrow> R s s'"
  unfolding add_to_rex_pool_def res_simps by (auto simp: Let_def res_simps split: option.splits if_splits intro: walk_steps)

lemma walk_add_balance: "add_to_rex_balance c n q r s = Inr (d, s') \<Longrightarrow> R s s'"
  unfolding add_to_rex_balance_def res_simps by (auto simp: Let_def bindr_Inr split: prod.splits intro: walk_steps)

lemma walk_fill: "fill_rex_order c n q s = Inr (d, s') \<Longrightarrow> R s s'"
  unfolding fill_rex_order_def with_pool_def Let_def res_simps by (auto simp: res_simps split: if_splits intro: walk_steps)

lemma walk_account: assumes "update_rex_account c n p d b s = Inr (r, s')" shows "R s s'"
proof -
  from update_rex_account_parts [OF assms] obtain z q1 q2 s1 s2 where
    "settle_order z n p d s = (q1, q2, r, s1)"
    "(if 0 < amount q1 then transfer_to_fund c n q1 s1 else Inr s1) = Inr s2"
    "(if b \<or> amount q2 \<noteq> 0 then update_voting_power c n q2 s2 else Inr s2) = Inr s'" .
  then show ?thesis
    by (intro onward3 [of s s1 s2 s'])
      (auto simp: settle_order_def intro: walk_steps fund_step vote_step split: option.splits if_splits)
qed

lemma walk_limits_for: "limits_for kind c r d s = Inr s' \<Longrightarrow> R s s'"
  by (cases kind) (auto intro: limit_step)

lemma walk_process_loan:
  assumes "process_expired_loan c kind num loan s = Inr (del, delta, s')" shows "R s s'"
  using assms
proof (cases rule: process_expired_loan_parts)
  case (1 rp rp1 rented)
  then show ?thesis using onward [OF free_write(1) walk_free(3)] by metis
next
  case (2 rp rp1)
  have "R (s\<lparr>rexpool := Some rp1\<rparr>) s'" using 2(5) by (auto intro: fund_step same_state split: if_splits)
  then show ?thesis by (rule onward [OF free_write(1)])
qed

lemma walk_run_loan: assumes "run_loan c kind num loan s = Inr s'" shows "R s s'"
proof -
  from assms obtain del delta s1 s2 where s1: "process_expired_loan c kind num loan s = Inr (del, delta, s1)"
    and s2: "(if delta \<noteq> 0 then limits_for kind c (loan_receiver loan) delta s1 else Inr s1) = Inr s2"
    and s': "s' = (if del then set_loans kind (fmdrop num (loans_of kind s2)) s2 else s2)"
    unfolding run_loan_def res_simps by blast
  have "R s1 s2" using s2 by (auto intro: walk_limits_for same_state split: if_splits)
  moreover have "R s2 s'" by (auto simp: s' intro: walk_steps)
  ultimately show ?thesis using walk_process_loan [OF s1] onward by blast
qed

lemma walk_run_loans: "run_loans i c kind s = Inr s' \<Longrightarrow> R s s'"
proof (induction i arbitrary: s)
  case (Suc i)
  from Suc.prems consider "s' = s" | num loan x where "run_loan c kind num loan s = Inr x"
      "run_loans i c kind x = Inr s'"
    by (auto simp: bindr_Inr split: option.splits if_splits)
  then show ?case by cases (simp add: same_state, blast intro: onward [OF walk_run_loan Suc.IH])
qed (simp add: same_state)

lemma walk_run_order: assumes "run_order c n ord s = Inr s'" shows "R s s'"
proof (cases "fmlookup (rexbalance s) n")
  case None
  with assms show ?thesis by (simp add: run_order_def same_state)
next
  case (Some rb)
  with assms obtain o1 s1 where s1: "fill_rex_order c n (rex_requested ord) s = Inr (o1, s1)"
    and s': "s' = s1 \<or> (\<exists>r x. s' = s1\<lparr>rexorders := r, outbox := x\<rparr>)"
    by (auto simp: run_order_def res_simps split: if_splits)
  have "R s1 s'" using s' by (auto intro: walk_steps)
  with walk_fill [OF s1] show ?thesis by (rule onward)
qed

lemma walk_run_orders: "run_orders c ns s = Inr s' \<Longrightarrow> R s s'"
proof (induction ns arbitrary: s)
  case (Cons n ns)
  from Cons.prems consider "s' = s" | ord x where "run_order c n ord s = Inr x" "run_orders c ns x = Inr s'"
    by (auto simp: bindr_Inr split: option.splits if_splits)
  then show ?case by cases (simp add: same_state, blast intro: onward [OF walk_run_order Cons.IH])
qed (simp add: same_state)

lemma walk_proceeds: "R s (channel_proceeds c s)"
proof -
  have "R s (channel_to_rex c f q s)" for f q
    by (auto simp: channel_to_rex_def intro: walk_steps split: option.splits)
  then have "R s (channel_to_rex c f q s\<lparr>rexpool := p\<rparr>)" for f q p using onward free_write(1) by blast
  then show ?thesis by (auto simp: channel_proceeds_def Let_def intro: same_state split: option.splits)
qed

lemma walk_runrex: assumes "runrex c mx s = Inr s'" shows "R s s'"
  using assms
proof (cases rule: runrex_parts)
  case (1 s1 s2)
  then show ?thesis using onward3 [OF onward [OF walk_proceeds walk_run_loans] walk_run_loans walk_run_orders] by blast
qed

lemma walk_deposit: assumes "deposit c n q s = Inr s'" shows "R s s'"
proof -
  from assms have "transfer_to_fund c n q (send_transfer [Perm n active_permission] n rex_account q ''deposit to REX fund'' s) = Inr s'"
    by (auto simp: deposit_def res_simps)
  then show ?thesis by (rule onward [OF walk_send(1) fund_step(1)])
qed

lemma walk_withdraw: assumes "withdraw c n q s = Inr s'" shows "R s s'"
proof -
  from assms obtain z r s1 s2 where s1: "update_rex_account c n z z False s = Inr (r, s1)"
    and s2: "transfer_from_fund c n q s1 = Inr s2"
    and s': "s' = send_transfer [Perm rex_account active_permission] rex_account n q ''withdraw from REX fund'' s2"
    unfolding withdraw_def res_simps by blast
  show ?thesis unfolding s' by (rule onward3 [OF walk_account [OF s1] fund_step(2) [OF s2] walk_send(1)])
qed

lemma walk_buyrex: assumes "buyrex c n q s = Inr s'" shows "R s s'"
  using assms
proof (cases rule: buyrex_parts)
  case (1 sy r d z r2 s1 s2 s3 s4 s5)
  have "R s s3" by (rule onward3 [OF fund_step(2) [OF 1(5)] walk_add_pool [OF 1(6)] walk_add_balance [OF 1(7)]])
  moreover have "R s3 s'" unfolding 1(12) by (rule onward3 [OF walk_runrex [OF 1(8)] walk_account [OF 1(11)] walk_send(2)])
  ultimately show ?thesis by (rule onward)
qed

lemma walk_unstaketorex: assumes "unstaketorex c n r nq cq s = Inr s'" shows "R s s'"
  using assms
proof (cases rule: unstaketorex_parts)
  case (1 d d1 s1 s2 pay rec s3 x s4 s5 z y s6)
  have "R s s1" unfolding 1(11) by (rule free_write)
  then have "R s s2" by (rule onward [OF _ limit_step [OF 1(12)]])
  then have "R s s4" by (rule onward3 [OF onward [OF _ walk_send(1)] walk_add_pool [OF 1(14)] walk_add_balance [OF 1(15)]])
  moreover have "R s4 s'" unfolding 1(19) by (rule onward3 [OF walk_runrex [OF 1(16)] walk_account [OF 1(18)] walk_send(2)])
  ultimately show ?thesis by (rule onward)
qed

lemma walk_sellrex: assumes "sellrex c n q s = Inr s'" shows "R s s'"
  using assms
proof (cases rule: sellrex_parts)
  case (1 s1 rb s2 ord s3 z s4 pend s5 rb2)
  have "R s s2" unfolding 1(6) by (rule onward [OF walk_runrex [OF 1(2)] free_write(2)])
  then have "R s s4" by (rule onward3 [OF _ walk_fill [OF 1(8)] walk_account [OF 1(10)]])
  moreover have "R s4 s5" using 1(11) by (auto dest!: queue_order_state intro: walk_steps split: if_splits)
  moreover have "R s5 s'" using walk_send(2) same_state by (simp add: 1(14))
  ultimately show ?thesis by (rule onward3)
qed

lemma walk_rentrex: assumes "rentrex kind c from receiver pay fund s = Inr s'" shows "R s s'"
  using assms
proof (cases rule: rentrex_parts)
  case (1 s1 sy s2 rp rented a s3)
  have "R s1 s2" using 1(9) by (auto intro: fund_step)
  then have "R s s2" by (rule onward [OF walk_runrex [OF 1(2)]])
  moreover have "R s2 s3" unfolding 1(15) by (rule onward3 [OF free_write(1) walk_free(3) walk_send(2)])
  ultimately show ?thesis by (rule onward3 [OF _ _ walk_limits_for [OF 1(16)]])
qed

lemma walk_fundloan: "fundloan kind c n num q s = Inr s' \<Longrightarrow> R s s'"
  by (erule fund_loan_parts) (auto intro: onward [OF fund_step(2) walk_free(3)])

lemma walk_defloan: "defloan kind c n num q s = Inr s' \<Longrightarrow> R s s'"
  by (erule defund_loan_parts) (rule onward [OF walk_free(3) fund_step(1)])

lemma walk_updaterex: assumes "updaterex c n s = Inr s'" shows "R s s'"
  using assms
proof (cases rule: updaterex_parts)
  case (1 s1 rb rp z stake change r s3 rb3)
  have "R s s3" by (rule onward3 [OF walk_runrex [OF 1(2)] free_write(2) walk_account [OF 1(8)]])
  then show ?thesis unfolding 1(10) by (rule onward [OF _ free_write(2)])
qed

lemma walk_setrex: "setrex c q s = Inr s' \<Longrightarrow> R s s'"
  by (auto simp: setrex_def res_simps intro: walk_steps)

lemma walk_consolidate: assumes "consolidate c n s = Inr s'" shows "R s s'"
  using assms
proof (cases rule: consolidate_parts)
  case (1 s1 z r s2 rb)
  show ?thesis unfolding 1(7) by (rule onward3 [OF walk_runrex [OF 1(2)] walk_account [OF 1(5)] free_write(2)])
qed

lemma walk_mvtosavings: assumes "mvtosavings c n q s = Inr s'" shows "R s s'"
  using assms
proof (cases rule: mvtosavings_parts)
  case (1 s1 rb0 z r s2 rb1 sav rb2 rb3)
  show ?thesis unfolding 1(11) by (rule onward3 [OF walk_runrex [OF 1(2)] walk_account [OF 1(6)] free_write(2)])
qed

lemma walk_mvfrsavings: assumes "mvfrsavings c n q s = Inr s'" shows "R s s'"
  using assms
proof (cases rule: mvfrsavings_parts)
  case (1 s1 rb0 sav rb1 s2 z r)
  have "R s1 s2" unfolding 1(7) by (rule free_write)
  then show ?thesis by (rule onward3 [OF walk_runrex [OF 1(2)] _ walk_account [OF 1(9)]])
qed

lemma walk_closerex: assumes "closerex c n s = Inr s'" shows "R s s'"
  using assms
proof (cases rule: closerex_parts)
  case (1 s1 z r s2 f s3)
  have "R s s1" using 1(2) by (auto intro: walk_runrex same_state split: if_splits)
  moreover have "R s2 s3" using 1(5,6) drop_fund [of s2 n] same_state [of s2] by auto
  moreover have "R s3 s'" using 1(7) by (auto intro: walk_steps)
  ultimately show ?thesis using walk_account [OF 1(4)] onward by blast
qed

lemma walk_cnclrexorder: "cnclrexorder c n s = Inr s' \<Longrightarrow> R s s'"
  by (auto simp: cnclrexorder_def res_simps intro: walk_steps)

lemma walk_rexexec: "rexexec c u mx s = Inr s' \<Longrightarrow> R s s'"
  by (auto simp: rexexec_def intro: walk_runrex)

lemma walk_action: "rex_action a \<Longrightarrow> apply_sys c a s = Inr s' \<Longrightarrow> R s s'"
  by (cases a)
    (auto intro: walk_setrex walk_deposit walk_withdraw walk_buyrex walk_unstaketorex walk_sellrex walk_cnclrexorder walk_rentrex
      walk_fundloan walk_defloan walk_updaterex walk_rexexec walk_consolidate walk_mvtosavings walk_mvfrsavings walk_closerex)

end

end
