(* ===== verification/Payouts.thy ===== *)
theory Payouts
  imports Votes NamesLedger RexWalk
begin

text \<open>
  What the contract owes can be collected. The rows of the staking and auction tables hold assets of
  the core token, and the token contract lists that token, so that the transfers that pay out a
  refund never fail.
\<close>

section \<open>The core token is listed\<close>

definition listed :: "symbol \<Rightarrow> token_state \<Rightarrow> bool" where
  "listed core t \<longleftrightarrow> (\<exists>st. fmlookup (stats t) (sym_code core) = Some st \<and> symb (cur_supply st) = core)"

lemma listed_only [simp]:
  "listed core (t\<lparr>inlines := l\<rparr>) = listed core t" "listed core (t\<lparr>notified := n\<rparr>) = listed core t"
  "listed core (t\<lparr>accounts := a\<rparr>) = listed core t"
  by (simp_all add: listed_def)

lemma listed_cong: "stats t' = stats t \<Longrightarrow> listed core t' = listed core t"
  by (simp add: listed_def)

lemma listed_upd:
  assumes "listed core t" "fmlookup (stats t) k = Some st" "symb (cur_supply st') = symb (cur_supply st)"
  shows "listed core (t\<lparr>stats := fmupd k st' (stats t)\<rparr>)"
  using assms by (auto simp: listed_def)

lemma transfer_stats: "transfer c f to q memo t = Inr t' \<Longrightarrow> stats t' = stats t"
  by (auto simp: transfer_def Let_def res_simps dest!: sub_balance_stats add_balance_stats)

lemma apply_token_listed:
  assumes ok: "asset_ops_ok c" and l: "listed core t" and u: "apply_token c a t = Inr t'"
  shows "listed core t'"
proof (cases a)
  case (Create i q)
  with u have "create c i q t = Inr t'" by simp
  then show ?thesis using l by (auto simp: create_def Let_def res_simps listed_def)
next
  case (Issue to q memo)
  with u have "issue c to q memo t = Inr t'" by simp
  then show ?thesis
  proof (rule issue_parts [OF ok])
    fix st s2
    let ?t = "t\<lparr>stats := fmupd (sym_code (symb q)) (st\<lparr>cur_supply := ast (amount (cur_supply st) + amount q) (symb q)\<rparr>) (stats t)\<rparr>"
    assume st: "fmlookup (stats t) (sym_code (symb q)) = Some st" "symb (cur_supply st) = symb q"
      and b: "add_balance c (issuer st) q ?t = Inr s2"
      and t': "t' = (if to \<noteq> issuer st then s2\<lparr>inlines := inlines s2 @
        [([Perm (issuer st) active_permission], Transfer (issuer st) to q memo)]\<rparr> else s2)"
    have "listed core ?t" by (rule listed_upd [OF l st(1)]) (simp add: st(2))
    then have "listed core s2" using listed_cong [of s2 ?t] add_balance_stats [OF b] by simp
    then show ?thesis by (simp add: t')
  qed
next
  case (Retire q memo)
  with u have "retire c q memo t = Inr t'" by simp
  then show ?thesis
  proof (rule retire_parts [OF ok])
    fix st
    let ?t = "t\<lparr>stats := fmupd (sym_code (symb q)) (st\<lparr>cur_supply := ast (amount (cur_supply st) - amount q) (symb q)\<rparr>) (stats t)\<rparr>"
    assume st: "fmlookup (stats t) (sym_code (symb q)) = Some st" "symb (cur_supply st) = symb q"
      and b: "sub_balance c (issuer st) q ?t = Inr t'"
    have "listed core ?t" by (rule listed_upd [OF l st(1)]) (simp add: st(2))
    then show ?thesis using listed_cong [of t' ?t] sub_balance_stats [OF b] by simp
  qed
next
  case (Transfer f to q memo)
  with u l listed_cong [OF transfer_stats] show ?thesis by simp
next
  case (Open n sy p)
  with u l show ?thesis by (auto simp: open_row_def res_simps split: option.splits)
next
  case (Close n sy)
  with u l show ?thesis by (auto simp: close_row_def res_simps)
qed

lemma run_inlines_listed:
  "asset_ops_ok c \<Longrightarrow> listed core t \<Longrightarrow> run_inlines c as t = Inr t' \<Longrightarrow> listed core t'"
proof (induction as arbitrary: t)
  case (Cons x as)
  then show ?case by (cases x) (auto simp: bindr_Inr dest: apply_token_listed [rotated 2])
qed simp

lemma exec_token_listed:
  assumes "asset_ops_ok c" "listed core t" "exec_token c a t = Inr t'" shows "listed core t'"
proof -
  from assms(3) obtain t1 where "apply_token c a (t\<lparr>inlines := []\<rparr>) = Inr t1" "run_inlines c (inlines t1) (t1\<lparr>inlines := []\<rparr>) = Inr t'"
    by (auto simp: exec_token_def bindr_Inr)
  then show ?thesis using apply_token_listed [OF assms(1)] run_inlines_listed [OF assms(1)] assms(2) listed_only by metis
qed

lemma run_outbox_listed:
  "asset_ops_ok c \<Longrightarrow> listed core t \<Longrightarrow> run_outbox c as t = Inr t' \<Longrightarrow> listed core t'"
proof (induction as arbitrary: t)
  case (Cons x as)
  then show ?case by (cases x) (auto simp: bindr_Inr dest: exec_token_listed [OF token_ctx_ok])
qed simp

section \<open>Rows of the staking and auction tables\<close>

definition dbw_typed :: "symbol \<Rightarrow> delegated_bandwidth \<Rightarrow> bool" where
  "dbw_typed core d \<longleftrightarrow> symb (dbw_net d) = core \<and> symb (dbw_cpu d) = core \<and> \<not> dbw_empty d"

definition req_typed :: "symbol \<Rightarrow> refund_request \<Rightarrow> bool" where
  "req_typed core r \<longleftrightarrow> symb (net_amount r) = core \<and> symb (cpu_amount r) = core \<and> req_ok r
     \<and> 0 < amount (net_amount r) + amount (cpu_amount r)"

definition stakes_typed :: "symbol \<Rightarrow> sys_state \<Rightarrow> bool" where
  "stakes_typed core s \<longleftrightarrow> (\<forall>k d. fmlookup (delband s) k = Some d \<longrightarrow> dbw_typed core d)
     \<and> (\<forall>n r. fmlookup (refunds s) n = Some r \<longrightarrow> req_typed core r)"

definition bids_typed :: "symbol \<Rightarrow> sys_state \<Rightarrow> bool" where
  "bids_typed core s \<longleftrightarrow> (\<forall>n b q. fmlookup (bidrefunds s) (n, b) = Some q \<longrightarrow> symb q = core \<and> 0 < amount q \<and> b \<noteq> names_account)
     \<and> (\<forall>n b. fmlookup (namebids s) n = Some b \<longrightarrow> high_bidder b \<noteq> names_account)"

lemma stakes_typedD:
  assumes "stakes_typed core s"
  shows "fmlookup (delband s) k = Some d \<Longrightarrow> dbw_typed core d" "fmlookup (refunds s) n = Some r \<Longrightarrow> req_typed core r"
  using assms unfolding stakes_typed_def by blast+

lemma stakes_typed_same: "same Staking s s' \<Longrightarrow> stakes_typed core s \<Longrightarrow> stakes_typed core s'"
  by (simp add: stakes_typed_def)

lemma update_delband_typed:
  assumes ok: "asset_ops_ok c" and i: "stakes_typed core s" and sy: "symb nd = core" "symb cd = core"
    and u: "update_delband c n r nd cd s = Inr s'"
  shows "stakes_typed core s'"
proof -
  from u obtain d where d: "(case fmlookup (delband s) (n, r) of
         None \<Rightarrow> Inr \<lparr>dbw_net = nd, dbw_cpu = cd\<rparr>
       | Some d \<Rightarrow>
           bindr (asset_add c (dbw_net d) nd) (\<lambda>n.
           bindr (asset_add c (dbw_cpu d) cd) (\<lambda>p.
           Inr \<lparr>dbw_net = n, dbw_cpu = p\<rparr>))) = Inr d" and dok: "dbw_ok d"
    and s': "s' = s\<lparr>delband := if dbw_empty d then fmdrop (n, r) (delband s) else fmupd (n, r) d (delband s)\<rparr>"
    unfolding update_delband_def dbw_ok_def bindr_Inr check_Inr by blast
  have "symb (dbw_net d) = core" "symb (dbw_cpu d) = core"
    using d dok sy i by (auto simp: bindr_Inr asset_addD [OF ok] dbw_typed_def stakes_typed_def split: option.splits)
  then show ?thesis using i by (auto simp: s' stakes_typed_def dbw_typed_def split: if_splits)
qed

lemma refund_row_typed:
  assumes "stakes_typed core s" "req_typed core r \<or> refund_empty r"
    "s' = (if refund_empty r then s\<lparr>refunds := fmdrop n (refunds s)\<rparr> else s\<lparr>refunds := fmupd n r (refunds s)\<rparr>)"
  shows "stakes_typed core s'"
  using assms by (auto simp: stakes_typed_def)

lemma update_refund_typed:
  assumes ok: "asset_ops_ok c" and mk: "market_ok core s" and i: "stakes_typed core s"
    and sy: "symb nd = core" "symb cd = core" and u: "update_refund c n nd cd s = Inr (nl, cl, b, s')"
  shows "stakes_typed core s'"
proof (cases "fmlookup (refunds s) n")
  case (Some req)
  define t where "t = (if amount nd < 0 \<or> amount cd < 0 then now_sec c else request_time req)"
  from u obtain n1 nt c1 ct where n: "pay_from_refund c (net_amount req) nd = Inr (n1, nt)"
    and p: "pay_from_refund c (cpu_amount req) cd = Inr (c1, ct)"
    and k: "(if refund_empty \<lparr>request_time = t, net_amount = nt, cpu_amount = ct\<rparr>
       then (n1, c1, False, s\<lparr>refunds := fmdrop n (refunds s)\<rparr>)
       else (n1, c1, True, s\<lparr>refunds := fmupd n \<lparr>request_time = t, net_amount = nt, cpu_amount = ct\<rparr> (refunds s)\<rparr>))
       = (nl, cl, b, s')"
    unfolding update_refund_def Some option.case Let_def t_def [symmetric] bindr_Inr case_prod_Inr check_Inr sum.inject by blast
  let ?r = "\<lparr>request_time = t, net_amount = nt, cpu_amount = ct\<rparr>"
  have s': "s' = (if refund_empty ?r then s\<lparr>refunds := fmdrop n (refunds s)\<rparr> else s\<lparr>refunds := fmupd n ?r (refunds s)\<rparr>)"
    using k by (cases "refund_empty ?r") simp_all
  have "symb nt = core" "symb ct = core" "0 \<le> amount nt" "0 \<le> amount ct"
    using pay_from_refund_eq(3,5) [OF ok n] pay_from_refund_eq(3,5) [OF ok p] sy by simp_all
  then have "req_typed core ?r \<or> refund_empty ?r" by (auto simp: req_typed_def req_ok_def refund_empty_def)
  then show ?thesis by (rule refund_row_typed [OF i _ s'])
next
  case None
  show ?thesis
  proof (cases "amount nd < 0 \<or> amount cd < 0")
    case True
    from u obtain sm z where cs: "core_sym s = Some sm" and zn: "asset_new c 0 sm = Inr z"
      and k: "(if amount nd < 0 then nd\<lparr>amount := 0\<rparr> else nd, if amount cd < 0 then cd\<lparr>amount := 0\<rparr> else cd, True,
         s\<lparr>refunds := fmupd n \<lparr>request_time = now_sec c, net_amount = if amount nd < 0 then asset_neg c nd else z,
           cpu_amount = if amount cd < 0 then asset_neg c cd else z\<rparr> (refunds s)\<rparr>) = (nl, cl, b, s')"
      unfolding update_refund_def None option.case if_P [OF True] Let_def core_asset_Inr sum.inject by blast
    have z: "z = ast 0 core" using zero_core(1) [OF ok mk, of 0 z] cs zn by (simp add: core_asset_Inr)
    let ?r = "\<lparr>request_time = now_sec c, net_amount = if amount nd < 0 then asset_neg c nd else z,
      cpu_amount = if amount cd < 0 then asset_neg c cd else z\<rparr>"
    have r: "req_typed core ?r" using True sy by (auto simp: z req_typed_def req_ok_def asset_negD [OF ok])
    then have "\<not> refund_empty ?r" by (auto simp: req_typed_def refund_empty_def)
    then show ?thesis using refund_row_typed [OF i disjI1 [OF r], of s' n] k by simp
  qed (use u None i in \<open>auto simp: update_refund_def\<close>)
qed

lemma changebw_typed:
  assumes ok: "asset_ops_ok c" and mk: "market_ok core s" and i: "stakes_typed core s"
    and sy: "symb nd = core" "symb cd = core" and u: "changebw c src r nd cd tr s = Inr s'"
  shows "stakes_typed core s'"
  using u
proof (cases rule: changebw_parts)
  case (1 n q s1 s2 s3 s4)
  have i1: "stakes_typed core s1" by (rule update_delband_typed [OF ok i sy 1(6)])
  have i2: "stakes_typed core s2"
    using stakes_typed_same [OF footprintD(1) [OF footprint_update_totals [OF 1(7)], of Staking] i1] by simp
  have r1: "rammarket s1 = rammarket s" using 1(6) by (auto simp: update_delband_def res_simps)
  have r2: "rammarket s2 = rammarket s1" using 1(7) by (elim update_totals_parts) (simp add: store_totals_def)
  have mk2: "market_ok core s2" using mk market_ok_cong [of s2 s core] r1 r2 by simp
  have i3: "stakes_typed core s3"
  proof (cases "stake_account \<noteq> src")
    case True
    with 1(8) have "stake_or_refund c src n r tr nd cd s2 = Inr s3" by simp
    then show ?thesis
    proof (cases rule: stake_or_refund_parts)
      case (1 nb cb need sx p qx)
      have "stakes_typed core sx"
      proof (cases "(\<not> tr \<and> n = r) \<or> i64 (amount nd + amount cd) < 0")
        case True
        with 1(1) have "update_refund c n nd cd s2 = Inr (nb, cb, need, sx)" by simp
        then show ?thesis by (rule update_refund_typed [OF ok mk2 i2 sy])
      next
        case False
        from 1(1) [unfolded if_not_P [OF False]] i2 show ?thesis by simp
      qed
      then show ?thesis by (simp add: 1(3) stakes_typed_def send_transfer_def)
    qed
  next
    case False
    with 1(8) i2 show ?thesis by simp
  qed
  have "view s' = view s3" using view_update_rex_stake [OF 1(9)] view_update_voting_power [OF 1(10)] by simp
  then have "same Staking s3 s'" by (auto dest: viewD(9,10))
  then show ?thesis by (rule stakes_typed_same [OF _ i3])
qed

lemma unstaketorex_staking:
  assumes "unstaketorex c n r nq cq s = Inr s'"
  obtains d d1 where "fmlookup (delband s) (n, r) = Some d" "symb (dbw_net d1) = symb (dbw_net d)" "symb (dbw_cpu d1) = symb (dbw_cpu d)"
    "delband s' = (if dbw_empty d1 then fmdrop (n, r) (delband s) else fmupd (n, r) d1 (delband s))" "refunds s' = refunds s"
  using assms
proof (cases rule: unstaketorex_parts)
  case (1 d d1 s1 s2 pay rec s3 x s4 s5 z y s6)
  let ?t = "send_transfer [Perm stake_account active_permission] stake_account rex_account pay ''buy REX with staked tokens'' s2"
  have "keeps {names_account} ?t s4" by (rule keeps_then [OF keeps_add_pool [OF 1(14)] keeps_add_balance [OF 1(15)]])
  moreover have "keeps {names_account} s4 s6" by (rule keeps_then [OF keeps_runrex [OF 1(16)] keeps_account [OF 1(18)]])
  moreover have "keeps {names_account} s6 s'" unfolding 1(19) by simp
  ultimately have k: "keeps {names_account} ?t s'" by (meson keeps_then)
  have "same Staking s1 s'" using keepsD(2,3) [OF keeps_limits [OF 1(12)]] keepsD(2,3) [OF k] by (simp add: send_transfer_def)
  then show ?thesis by (intro that [OF 1(7), of d1]) (simp_all add: 1(10,11))
qed

lemma action_stakes_typed:
  assumes g: "good_ctx c" and mk: "market_ok core s" and i: "stakes_typed core s" and u: "apply_sys c a s = Inr s'"
  shows "stakes_typed core s'"
proof (cases "Staking \<in> touches a")
  case False
  show ?thesis by (rule stakes_typed_same [OF footprintD(1) [OF action_footprint [OF u] False] i])
next
  case True
  have ok: "asset_ops_ok c" using g by (simp add: good_ctx_def)
  from staking_touched [OF disjI2 [OF True]] show ?thesis
  proof (elim disjE exE)
    fix n r x y b assume "a = DelegateBw n r x y b"
    with u have "delegatebw c n r x y b s = Inr s'" by simp
    then show ?thesis
    proof (cases rule: delegatebw_parts)
      case (1 z)
      have "symb x = core" "symb y = core" using 1(2,3) zero_core(1) [OF ok mk 1(1)] by (auto simp: asset_leD [OF ok])
      then show ?thesis by (rule changebw_typed [OF ok mk i _ _ 1(5)])
    qed
  next
    fix n r x y assume "a = UndelegateBw n r x y"
    with u have "undelegatebw c n r x y s = Inr s'" by simp
    then show ?thesis
    proof (cases rule: undelegatebw_parts)
      case (1 z)
      have "symb x = core" "symb y = core" using 1(2,3) zero_core(1) [OF ok mk 1(1)] by (auto simp: asset_leD [OF ok])
      then show ?thesis using changebw_typed [OF ok mk i _ _ 1(6)] by (simp add: asset_negD [OF ok])
    qed
  next
    fix n assume "a = Refund n"
    with u i show ?thesis by (auto elim!: refund_parts simp: stakes_typed_def send_transfer_def split: if_splits)
  next
    fix n r x y assume "a = UnstakeToRex n r x y"
    with u have "unstaketorex c n r x y s = Inr s'" by simp
    then obtain d d1 where d: "fmlookup (delband s) (n, r) = Some d" "symb (dbw_net d1) = symb (dbw_net d)" "symb (dbw_cpu d1) = symb (dbw_cpu d)"
      "delband s' = (if dbw_empty d1 then fmdrop (n, r) (delband s) else fmupd (n, r) d1 (delband s))" "refunds s' = refunds s"
      by (rule unstaketorex_staking)
    then have "symb (dbw_net d1) = core" "symb (dbw_cpu d1) = core" using stakes_typedD(1) [OF i d(1)] by (simp_all add: dbw_typed_def)
    then show ?thesis using i by (auto simp: stakes_typed_def dbw_typed_def d(4,5) split: if_splits)
  qed
qed

lemma bids_typed_fields [simp]:
  "bids_typed core (s\<lparr>outbox := l\<rparr>) = bids_typed core s" "bids_typed core (s\<lparr>tokens := t\<rparr>) = bids_typed core s"
  "bids_typed core (s\<lparr>gstate := g\<rparr>) = bids_typed core s"
  by (simp_all add: bids_typed_def)

lemma bids_typed_same: "same Naming s s' \<Longrightarrow> bids_typed core s \<Longrightarrow> bids_typed core s'"
  by (simp add: bids_typed_def)

lemma close_typed: "bids_typed core s \<Longrightarrow> bids_typed core (close_highest_bid c t s)"
  using highest_bid_row [of s]
  by (auto simp: close_highest_bid_def Let_def channel_namebid_to_rex_def bids_typed_def split: option.splits)

lemma onblock_frame:
  assumes u: "onblock c t n s = Inr s'"
  obtains s4 where "same Naming s s4" "s' = s4 \<or> s' = close_highest_bid c t s4"
  using u
proof (cases rule: onblock_parts)
  case (1 s1 s2 s3)
  have f1: "footprint {Paying} {} s s1" unfolding 1(2) by simp
  have f2: "footprint {Paying} {} s1 s2" using 1(4)
    by (auto simp: 1(2) intro!: footprint_gstate) (simp_all add: g_view_def)
  have f3: "footprint {Paying} {} s s3"
    unfolding 1(5) by (rule footprint_then [OF footprint_then [OF f1 f2] footprint_count])
  let ?s4 = "update_elected_producers c t s3"
  have f4: "footprint {Paying} {} s ?s4" by (rule footprint_then [OF f3]) simp
  have "same Naming s x" if "footprint {Paying} {} s x" for x using footprintD(1) [OF that, of Naming] by simp
  then show ?thesis using 1(6) that f1 f3 f4 by metis
qed

lemma onblock_typed:
  assumes w: "bids_typed core s" and u: "onblock c t n s = Inr s'" shows "bids_typed core s'"
  using u by (rule onblock_frame) (use bids_typed_same [OF _ w] close_typed in blast)

lemma bidname_typed:
  assumes ok: "asset_ops_ok c" and mk: "market_ok core s" and w: "bids_typed core s"
    and na: "\<not> has_auth c names_account" and u: "bidname c b n q s = Inr s'"
  shows "bids_typed core s'"
  using u
proof (cases rule: bidname_parts)
  case (1 s1 row)
  then have "b \<noteq> names_account" using na by blast
  then show ?thesis using w by (auto simp: 1(4,5,7) bids_typed_def send_transfer_def)
next
  case (2 s1 row cur s2 p)
  have b: "b \<noteq> names_account" using 2(1) na by blast
  have h: "high_bidder cur \<noteq> names_account" using w 2(6) by (auto simp: bids_typed_def)
  obtain x r where x: "core_asset c s1 (high_bid cur) Inr = Inr x"
    and r: "(case fmlookup (bidrefunds s1) (n, high_bidder cur) of None \<Rightarrow> Inr x | Some r0 \<Rightarrow> asset_add c r0 x) = Inr r"
    and s2: "s2 = s1\<lparr>bidrefunds := fmupd (n, high_bidder cur) r (bidrefunds s1)\<rparr>"
    by (rule add_bid_refund_parts [OF 2(10)])
  have m1: "market_ok core s1" using mk by (simp add: 2(4) send_transfer_def)
  have xv: "x = ast (high_bid cur) core" by (rule zero_core(1) [OF ok m1 x])
  have e1: "bidrefunds s1 = bidrefunds s" "namebids s1 = namebids s" by (simp_all add: 2(4) send_transfer_def)
  have "symb r = core \<and> 0 < amount r"
    using r w 2(7) by (auto simp: e1 xv asset_addD [OF ok] bids_typed_def split: option.splits intro: add_pos_pos)
  then show ?thesis using w b h by (auto simp: 2(11) s2 e1 2(5) bids_typed_def)
qed

lemma bids_typed_drop: "bids_typed core s \<Longrightarrow> bids_typed core (s\<lparr>bidrefunds := fmdrop k (bidrefunds s)\<rparr>)"
  by (simp add: bids_typed_def)

lemma action_bids_typed:
  assumes g: "good_ctx c" and mk: "market_ok core s" and w: "bids_typed core s" and u: "apply_sys c a s = Inr s'"
  shows "bids_typed core s'"
proof (cases "Naming \<in> touches a")
  case False
  show ?thesis by (rule bids_typed_same [OF footprintD(1) [OF action_footprint [OF u] False] w])
next
  case True
  have ok: "asset_ops_ok c" and na: "\<not> has_auth c names_account" using g by (auto simp: good_ctx_def held_accounts_def)
  show ?thesis
  proof (cases a)
    case (OnBlock t n)
    with u onblock_typed [OF w, of c t n s'] show ?thesis by simp
  next
    case (BidName b n q)
    with u bidname_typed [OF ok mk w na] show ?thesis by simp
  next
    case (BidRefund b n)
    with u have "bidrefund c b n s = Inr s'" by simp
    then show ?thesis by (rule bidrefund_parts) (simp add: send_transfer_def bids_typed_drop [OF w])
  next
    case (NewAccount k n)
    with u have "newaccount c k n s = Inr s'" by simp
    then show ?thesis
    proof (cases rule: newaccount_parts)
      case (1 nb z)
      then show ?thesis using w by (auto simp: 1(4) set_limits_def bids_typed_def split: if_splits)
    qed
  qed (use True in simp_all)
qed

section \<open>REX funds are core tokens\<close>

definition funds_from :: "sys_state \<Rightarrow> sys_state \<Rightarrow> bool" where
  "funds_from s s' \<longleftrightarrow> rammarket s' = rammarket s \<and> (\<forall>n q. fmlookup (rexfunds s') n = Some q \<longrightarrow>
     core_sym s = Some (symb q) \<or> (\<exists>p. fmlookup (rexfunds s) n = Some p \<and> symb p = symb q))"

lemma funds_from_same: "rammarket s' = rammarket s \<Longrightarrow> rexfunds s' = rexfunds s \<Longrightarrow> funds_from s s'"
  by (simp add: funds_from_def)

interpretation fund_rows: rex_walk funds_from
proof unfold_locales
  show "funds_from s s2" if "funds_from s s1" "funds_from s1 s2" for s s1 s2
    using that core_sym_cong [of s1 s] unfolding funds_from_def by metis
  show "funds_from s s'" if "transfer_to_fund c n q s = Inr s'" for c n q s s'
    using that by (auto simp: transfer_to_fund_def res_simps funds_from_def split: if_splits option.splits)
  show "funds_from s s'" if "transfer_from_fund c n q s = Inr s'" for c n q s s'
    using that by (auto simp: transfer_from_fund_def res_simps funds_from_def split: if_splits)
  show "funds_from s s'" if "update_voting_power c n q s = Inr s'" for c n q s s'
    using viewD [OF view_update_voting_power [OF that]] by (simp add: funds_from_same)
  show "funds_from s s'" if "update_resource_limits c n dn dp s = Inr s'" for c n dn dp s s'
    using that by (rule update_resource_limits_parts) (simp_all add: funds_from_def)
qed (auto simp: funds_from_def)

lemma rexfunds_sel [simp]:
  "rexfunds (channel_to_rex c f q s) = rexfunds s" "rexfunds (send_transfer ps f to q memo s) = rexfunds s"
  "rexfunds (set_ram_limit n b s) = rexfunds s" "rexfunds (pay_ram c n price fee s) = rexfunds s"
  "rexfunds (close_highest_bid c t s) = rexfunds s" "rexfunds (count_block c n s) = rexfunds s"
  "rexfunds (update_elected_producers c t s) = rexfunds s"
proof -
  show ch: "rexfunds (channel_to_rex c f q s) = rexfunds s" for f q s by (auto simp: channel_to_rex_def split: option.splits)
  show se: "rexfunds (send_transfer ps f to q memo s) = rexfunds s" for ps f to q memo s by (simp add: send_transfer_def)
  show "rexfunds (set_ram_limit n b s) = rexfunds s" by (auto simp: set_ram_limit_def set_limits_def split: prod.splits)
  show "rexfunds (pay_ram c n price fee s) = rexfunds s" by (simp add: pay_ram_def Let_def ch se)
  show "rexfunds (close_highest_bid c t s) = rexfunds s"
    by (auto simp: close_highest_bid_def Let_def channel_namebid_to_rex_def split: option.splits)
  show "rexfunds (count_block c n s) = rexfunds s" by (auto simp: count_block_def split: option.splits)
  show "rexfunds (update_elected_producers c t s) = rexfunds s" by (auto simp: update_elected_producers_def Let_def)
qed

lemma rexfunds_ram:
  "update_ram_supply c s = Inr s' \<Longrightarrow> rexfunds s' = rexfunds s" "credit_ram c n b s = Inr s' \<Longrightarrow> rexfunds s' = rexfunds s"
  "pay_seller c n q s = Inr s' \<Longrightarrow> rexfunds s' = rexfunds s"
  by (auto elim!: update_ram_supply_parts credit_ram_parts simp: pay_seller_def Let_def core_asset_Inr split: if_splits)

lemma buyram_funds: "buyram c n r q s = Inr s' \<Longrightarrow> rexfunds s' = rexfunds s"
  by (erule buyram_parts) (auto dest!: rexfunds_ram)

text \<open>Of the other actions only those on RAM and \<open>onblock\<close> touch REX at all, and they pay into the pool.\<close>

lemma other_funds:
  assumes u: "apply_sys c a s = Inr s'" and a: "\<not> rex_action a" shows "rexfunds s' = rexfunds s"
proof (cases "Rexing \<in> touches a")
  case False
  from footprintD(1) [OF action_footprint [OF u] False] show ?thesis by simp
next
  case True
  with a have "(\<exists>t n. a = OnBlock t n) \<or> (\<exists>n r q. a = BuyRam n r q) \<or> (\<exists>n r b. a = BuyRamBytes n r b) \<or> (\<exists>n b. a = SellRam n b)"
    by (cases a) simp_all
  then show ?thesis using u
    by (elim disjE exE)
      (auto elim!: onblock_parts buyrambytes_parts sellram_parts dest!: rexfunds_ram buyram_funds)
qed

definition funds_typed :: "symbol \<Rightarrow> sys_state \<Rightarrow> bool" where
  "funds_typed core s \<longleftrightarrow> (\<forall>n q. fmlookup (rexfunds s) n = Some q \<longrightarrow> symb q = core)"

lemma action_funds_typed:
  assumes "market_ok core s" "funds_typed core s" "apply_sys c a s = Inr s'" shows "funds_typed core s'"
proof (cases "rex_action a")
  case True
  from fund_rows.walk_action [OF True assms(3)] assms(1,2) show ?thesis
    unfolding funds_from_def funds_typed_def by (metis market_ok_core)
qed (use other_funds assms in \<open>simp add: funds_typed_def\<close>)

interpretation typed_rows: steady core "\<lambda>s. market_ok core s \<and> stakes_typed core s \<and> bids_typed core s \<and> funds_typed core s" for core
proof unfold_locales
  fix c a s s'
  assume "good_ctx c" "good_action core a" "market_ok core s \<and> stakes_typed core s \<and> bids_typed core s \<and> funds_typed core s"
    "apply_sys c a s = Inr s'"
  then show "market_ok core s' \<and> stakes_typed core s' \<and> bids_typed core s' \<and> funds_typed core s'"
    using action_market_ok [of c core a s s'] action_stakes_typed [of c core s a s'] action_bids_typed [of c core s a s']
      action_funds_typed [of core s c a s'] by blast
qed (simp_all add: stakes_typed_def funds_typed_def)

section \<open>The core token stays listed\<close>

lemma market_absent:
  assumes "rammarket s = None" "apply_sys c a s = Inr s'" "\<And>v sy. a \<noteq> Init v sy" shows "rammarket s' = None"
proof (cases "Ramming \<in> touches a")
  case False
  from footprintD(1) [OF action_footprint [OF assms(2)] False] assms(1) show ?thesis by simp
next
  case True
  have s: "rammarket s1 = None" if "update_ram_supply c s = Inr s1" for s1
    using that assms(1) by (elim update_ram_supply_parts) auto
  have b: "\<not> buyram c n r q s = Inr s'" for n r q
    by (rule notI, erule buyram_parts) (use s in simp)
  from ramming_touched [OF disjI2 [OF True]] assms show ?thesis
    by (elim disjE exE) (auto elim!: setram_parts buyrambytes_parts sellram_parts simp: b setramrate_def bindr_Inr dest!: s)
qed

text \<open>Before \<open>init\<close> nothing is owed; afterwards the core token is listed.\<close>

definition idle :: "sys_state \<Rightarrow> bool" where
  "idle s \<longleftrightarrow> rammarket s = None \<and> refunds s = fmempty \<and> bidrefunds s = fmempty \<and> rexfunds s = fmempty"

definition core_listed :: "symbol \<Rightarrow> sys_state \<Rightarrow> bool" where
  "core_listed core s \<longleftrightarrow> outbox s = [] \<and> (idle s \<or> listed core (tokens s))"

lemma idle_refunds:
  assumes i: "idle s" and u: "apply_sys c a s = Inr s'" shows "refunds s' = fmempty"
proof (cases "Staking \<in> touches a")
  case False
  from footprintD(1) [OF action_footprint [OF u] False] i show ?thesis by (simp add: idle_def)
next
  case True
  have n: "core_sym s = None" using i by (simp add: idle_def core_sym_def)
  from staking_touched [OF disjI2 [OF True]] u i n show ?thesis
    by (elim disjE exE) (auto elim!: delegatebw_parts undelegatebw_parts refund_parts unstaketorex_parts simp: core_asset_Inr idle_def)
qed

lemma idle_bidrefunds:
  assumes i: "idle s" and u: "apply_sys c a s = Inr s'" shows "bidrefunds s' = fmempty"
proof (cases "Naming \<in> touches a")
  case False
  from footprintD(1) [OF action_footprint [OF u] False] i show ?thesis by (simp add: idle_def)
next
  case True
  have n: "core_sym s = None" "bidrefunds s = fmempty" using i by (simp_all add: idle_def core_sym_def)
  show ?thesis
  proof (cases a)
    case (OnBlock t p)
    have "bidrefunds (close_highest_bid c t x) = bidrefunds x" for x
      by (auto simp: close_highest_bid_def Let_def channel_namebid_to_rex_def split: option.splits)
    moreover from u OnBlock have "onblock c t p s = Inr s'" by simp
    ultimately show ?thesis using n(2) by (auto elim!: onblock_frame)
  next
    case (NewAccount k m)
    with u n show ?thesis by (auto elim!: newaccount_parts simp: core_asset_Inr)
  qed (use u True n in \<open>auto elim!: bidname_parts bidrefund_parts\<close>)
qed

lemma idle_funds:
  assumes i: "idle s" and u: "apply_sys c a s = Inr s'" shows "rexfunds s' = fmempty"
proof (cases "rex_action a")
  case True
  have n: "core_sym s = None" "rexfunds s = fmempty" using i by (simp_all add: idle_def core_sym_def)
  have "fmlookup (rexfunds s') m = None" for m
    using fund_rows.walk_action [OF True u] n by (cases "fmlookup (rexfunds s') m") (auto simp: funds_from_def)
  then show ?thesis by (intro fmap_ext) simp
qed (use other_funds [OF u] i in \<open>simp add: idle_def\<close>)

lemma core_listed_step:
  assumes e: "good_event core e" and i: "core_listed core s" and u: "world_step e s = Inr s'"
  shows "core_listed core s'"
proof (cases e)
  case (Sys c a)
  with u obtain s1 t where s1: "apply_sys c a (s\<lparr>outbox := []\<rparr>) = Inr s1"
    and t: "run_outbox c (outbox s1) (tokens s1) = Inr t" and s': "s' = s1\<lparr>outbox := [], tokens := t\<rparr>"
    by (auto simp: exec_sys_def res_simps)
  have ok: "asset_ops_ok c" and ga: "good_action core a" using e Sys by (auto simp: good_ctx_def)
  have s: "s\<lparr>outbox := []\<rparr> = s" using i by (simp add: core_listed_def)
  have tk: "tokens s1 = tokens s" using action_plain [OF _ s1] by simp
  have "idle s1 \<or> listed core (tokens s1)"
  proof (cases "idle s")
    case True
    show ?thesis
    proof (cases "\<exists>v sy. a = Init v sy")
      case True
      then obtain v sy where a: "a = Init v sy" by blast
      with ga s1 s have "init c v core s = Inr s1" by simp
      then show ?thesis by (auto simp: tk init_def res_simps get_supply_def listed_def)
    next
      case False
      then have "rammarket s1 = None" using market_absent [OF _ s1 [unfolded s]] True by (auto simp: idle_def)
      then show ?thesis using idle_refunds [OF True s1 [unfolded s]] idle_bidrefunds [OF True s1 [unfolded s]]
        idle_funds [OF True s1 [unfolded s]] by (simp add: idle_def)
    qed
  qed (use i tk in \<open>auto simp: core_listed_def\<close>)
  then show ?thesis using run_outbox_listed [OF ok _ t] by (auto simp: core_listed_def s' idle_def)
next
  case (Tok c a)
  with e u i show ?thesis by (auto simp: res_simps core_listed_def idle_def intro: exec_token_listed)
qed

interpretation listing: machine world_step "good_event core" "core_listed core" for core
  by unfold_locales (rule core_listed_step)

section \<open>A transfer that pays out\<close>

lemma payout_runs:
  assumes ok: "asset_ops_ok c" and inv: "ledger_inv t" and l: "listed core t"
    and q: "symb q = core" "0 < amount q" "amount q \<le> bal (sym_code core) t f" and ne: "f \<noteq> to"
    and ac: "is_account c to" and v: "symbol_valid c core" and m: "length memo \<le> 256"
  shows "\<exists>t'. run_outbox c [ToToken (Perm f active_permission # ps) (Transfer f to q memo)] t = Inr t'
    \<and> (\<forall>n. bal (sym_code core) t' n = bal (sym_code core) t n + (if n = to then amount q else 0) - (if n = f then amount q else 0))"
proof -
  let ?c = "token_ctx c (Perm f active_permission # ps)"
  have okc: "asset_ops_ok ?c" using ok by simp
  from l obtain st where st: "fmlookup (stats t) (sym_code core) = Some st" "symb (cur_supply st) = core" by (auto simp: listed_def)
  have le: "amount q \<le> max_amount" using q bal_le_cap [OF inv capped_always [OF inv], of core f] by (simp add: max_amount_def)
  have sel: "has_auth ?c f" "is_account ?c to" "asset_valid ?c q"
    using ac v le q asset_validD [OF okc, of q] by (simp_all add: token_ctx_def with_auth_def chain.defs)
  let ?t = "t\<lparr>inlines := []\<rparr>"
  have "succeeds (bindr (sub_balance ?c f q (?t\<lparr>notified := notified ?t @ [f, to]\<rparr>)) (add_balance ?c to q))"
    by (rule transfer_moves [OF okc]) (use inv st q ne in auto)
  then obtain t' where t': "bindr (sub_balance ?c f q (?t\<lparr>notified := notified ?t @ [f, to]\<rparr>)) (add_balance ?c to q) = Inr t'" ..
  then have tr: "transfer ?c f to q memo ?t = Inr t'"
    using sel st q ne m by (simp add: transfer_def require_auth_def)
  moreover have "inlines t' = []"
    using tr by (auto simp: transfer_def Let_def res_simps dest!: sub_balance_stats add_balance_stats)
  ultimately have x: "exec_token ?c (Transfer f to q memo) t = Inr (t'\<lparr>inlines := []\<rparr>)" by (simp add: exec_token_def)
  have "bal (sym_code core) t' n = bal (sym_code core) t n + (if n = to then amount q else 0) - (if n = f then amount q else 0)" for n
    using transfer_bal [OF okc tr, of "sym_code core" n] q(1) by simp
  then show ?thesis using x by auto
qed

section \<open>What is owed can be collected\<close>

lemma reachable_rows:
  assumes "core_ok core" "ledger_inv t" "\<forall>e\<in>set es. good_event core e"
    and "run_all world_step es (genesis params lims t) = Inr s"
  shows "stakes_typed core s" "bids_typed core s" "funds_typed core s" "core_listed core s" "ledger_inv (tokens s)"
    "stakes_ok s" "stake_owed s \<le> bal (sym_code core) (tokens s) stake_account"
    "names_wf core s" "names_owed s \<le> bal (sym_code core) (tokens s) names_account"
proof -
  have "market_ok core s \<and> stakes_typed core s \<and> bids_typed core s \<and> funds_typed core s"
    by (rule typed_rows.world.run_inv [OF _ _ assms(4)]) (use assms in \<open>auto simp: stakes_typed_def bids_typed_def funds_typed_def\<close>)
  then show "stakes_typed core s" "bids_typed core s" "funds_typed core s" by blast+
  show "core_listed core s"
    by (rule listing.run_inv [OF _ _ assms(4)]) (use assms in \<open>auto simp: core_listed_def idle_def\<close>)
  have "(market_ok core s \<and> stakes_ok s) \<and> covers core stake_account stake_owed s \<and> outbox s = []"
    by (rule stakes.chain.run_inv [OF _ _ assms(4)])
      (use assms in \<open>auto simp: stakes_ok_def intro!: genesis_covers, simp add: stake_owed_def\<close>)
  then show "ledger_inv (tokens s)" "stakes_ok s" "stake_owed s \<le> bal (sym_code core) (tokens s) stake_account"
    by (simp_all add: covers_def)
  have "(market_ok core s \<and> names_wf core s) \<and> covers core names_account names_owed s \<and> outbox s = []"
    by (rule auction_tokens.chain.run_inv [OF _ _ assms(4)])
      (use assms in \<open>auto simp: names_wf_def refunds_ok_def proceeds_ok_def bids_small_def intro!: genesis_covers,
         simp add: names_owed_def proceeds_left_def\<close>)
  then show "names_wf core s" "names_owed s \<le> bal (sym_code core) (tokens s) names_account" by (simp_all add: covers_def)
qed

lemma listed_when_owing:
  "core_listed core s \<Longrightarrow> fmlookup (refunds s) n = Some r \<or> fmlookup (bidrefunds s) k = Some q \<or> fmlookup (rexfunds s) n = Some p
     \<Longrightarrow> listed core (tokens s)"
  by (auto simp: core_listed_def idle_def)

text \<open>A payment sent by a handler is carried out when the transfer is.\<close>

lemma payout_step:
  assumes "apply_sys c a s = Inr s1" "outbox s = []" "outbox s1 = [p]" "run_outbox c [p] (tokens s1) = Inr t"
  shows "world_step (Sys c a) s = Inr (s1\<lparr>outbox := [], tokens := t\<rparr>)"
proof -
  have s: "s\<lparr>outbox := []\<rparr> = s" using assms(2) by simp
  show ?thesis unfolding world_step.simps exec_sys_def s assms(1) bindr_simps assms(3) assms(4) ..
qed

text \<open>
  C28: Every row is of its type: over any run of the chain, what is delegated, what is to be refunded
  and what outbid bidders get back is held as core tokens and never negative, no row of these three
  tables is empty, and no outbid bidder is the account the refunds are paid from. A REX fund is held in
  core tokens (it may be zero: \<open>withdraw\<close> keeps the row).
\<close>

theorem staking_rows_are_typed:
  assumes "core_ok core" "ledger_inv t" "\<forall>e\<in>set es. good_event core e"
    and "run_all world_step es (genesis params lims t) = Inr s"
  shows "fmpred (\<lambda>_ d. symb (dbw_net d) = core \<and> symb (dbw_cpu d) = core \<and> 0 \<le> amount (dbw_net d) \<and> 0 \<le> amount (dbw_cpu d)
        \<and> (0 < amount (dbw_net d) \<or> 0 < amount (dbw_cpu d))) (delband s)
    \<and> fmpred (\<lambda>_ r. symb (net_amount r) = core \<and> symb (cpu_amount r) = core \<and> 0 \<le> amount (net_amount r)
        \<and> 0 \<le> amount (cpu_amount r) \<and> (0 < amount (net_amount r) \<or> 0 < amount (cpu_amount r))) (refunds s)
    \<and> fmpred (\<lambda>k q. symb q = core \<and> 0 < amount q \<and> snd k \<noteq> names_account) (bidrefunds s)
    \<and> fmpred (\<lambda>_ q. symb q = core) (rexfunds s)"
proof -
  note r = reachable_rows [OF assms]
  have "symb (dbw_net d) = core \<and> symb (dbw_cpu d) = core \<and> 0 \<le> amount (dbw_net d) \<and> 0 \<le> amount (dbw_cpu d)
      \<and> (0 < amount (dbw_net d) \<or> 0 < amount (dbw_cpu d))" if "fmlookup (delband s) k = Some d" for k d
    using stakes_typedD(1) [OF r(1) that] stakes_okD(1) [OF r(6) that] by (auto simp: dbw_typed_def dbw_ok_def dbw_empty_def)
  moreover have "symb (net_amount q) = core \<and> symb (cpu_amount q) = core \<and> 0 \<le> amount (net_amount q)
      \<and> 0 \<le> amount (cpu_amount q) \<and> (0 < amount (net_amount q) \<or> 0 < amount (cpu_amount q))"
    if "fmlookup (refunds s) k = Some q" for k q
    using stakes_typedD(2) [OF r(1) that] by (auto simp: req_typed_def req_ok_def)
  moreover have "symb q = core \<and> 0 < amount q \<and> snd k \<noteq> names_account"
    if "fmlookup (bidrefunds s) k = Some q" for k q
    using r(2) that unfolding bids_typed_def by (cases k) simp
  moreover have "symb q = core" if "fmlookup (rexfunds s) n = Some q" for n q
    using r(3) that by (simp add: funds_typed_def)
  ultimately show ?thesis by (intro conjI fmpredI) simp_all
qed

text \<open>
  C29: A refund request is always paid: in every state the chain can reach, three days after the last
  unstaking the owner's \<open>refund\<close> goes through, pays out the whole request and removes it.
\<close>

theorem refund_is_paid:
  assumes "core_ok core" "ledger_inv t" "\<forall>e\<in>set es. good_event core e"
    and "run_all world_step es (genesis params lims t) = Inr s"
    and "fmlookup (refunds s) n = Some req" "good_ctx c" "has_auth c n" "is_account c n" "symbol_valid c core"
    and "i64 (request_time req * 1000000 + refund_delay_sec * 1000000) \<le> now_tp c"
  shows "\<exists>s'. world_step (Sys c (Refund n)) s = Inr s' \<and> refunds s' = fmdrop n (refunds s)
    \<and> bal (sym_code core) (tokens s') n = bal (sym_code core) (tokens s) n + amount (net_amount req) + amount (cpu_amount req)"
proof -
  note r = reachable_rows [OF assms(1-4)]
  have ok: "asset_ops_ok c" and ne: "stake_account \<noteq> n" using assms(6,7) by (auto simp: good_ctx_def held_accounts_def)
  have ob: "outbox s = []" using r(4) by (simp add: core_listed_def)
  have req: "req_typed core req" by (rule stakes_typedD(2) [OF r(1) assms(5)])
  define q where "q = ast (amount (net_amount req) + amount (cpu_amount req)) core"
  have le: "amount q \<le> bal (sym_code core) (tokens s) stake_account"
    using stakes_bounds(2) [OF r(6) assms(5)] r(7) by (simp add: q_def refund_of_def)
  have cap: "amount q \<le> max_amount" using le bal_le_cap [OF r(5) capped_always [OF r(5)], of core stake_account] by (simp add: max_amount_def)
  have pos: "0 < amount q" using req by (simp add: req_typed_def q_def)
  have q: "asset_add c (net_amount req) (cpu_amount req) = Inr q"
    using req cap pos by (simp add: asset_addD [OF ok] req_typed_def q_def)
  let ?p = "ToToken [Perm stake_account active_permission, Perm n active_permission] (Transfer stake_account n q ''unstake'')"
  let ?s1 = "s\<lparr>outbox := outbox s @ [?p], refunds := fmdrop n (refunds s)\<rparr>"
  have a: "apply_sys c (Refund n) s = Inr ?s1"
    using assms(5,7,10) q by (simp add: refund_def require_auth_def)
  obtain t' where t': "run_outbox c [?p] (tokens s) = Inr t'"
    "\<forall>m. bal (sym_code core) t' m = bal (sym_code core) (tokens s) m + (if m = n then amount q else 0) - (if m = stake_account then amount q else 0)"
    using payout_runs [OF ok r(5) listed_when_owing [OF r(4) disjI1 [OF assms(5)]], of q stake_account n "''unstake''"]
      pos le ne assms(8,9) by (auto simp: q_def simp del: run_outbox.simps)
  have "world_step (Sys c (Refund n)) s = Inr (?s1\<lparr>outbox := [], tokens := t'\<rparr>)"
    by (rule payout_step [OF a ob]) (use t'(1) ob in \<open>simp_all del: run_outbox.simps\<close>)
  then show ?thesis using t'(2) ne by (simp add: q_def)
qed

text \<open>
  C30: An outbid bidder gets the bid back: in every state the chain can reach, \<open>bidrefund\<close> goes through
  for every refund on record, whoever calls it, pays it out to the bidder and removes it.
\<close>

theorem bid_refund_is_paid:
  assumes "core_ok core" "ledger_inv t" "\<forall>e\<in>set es. good_event core e"
    and "run_all world_step es (genesis params lims t) = Inr s"
    and "fmlookup (bidrefunds s) (newname, n) = Some q" "good_ctx c" "is_account c n" "symbol_valid c core"
    and "length (name_to_string c newname) \<le> 13"
  shows "\<exists>s'. world_step (Sys c (BidRefund n newname)) s = Inr s' \<and> bidrefunds s' = fmdrop (newname, n) (bidrefunds s)
    \<and> bal (sym_code core) (tokens s') n = bal (sym_code core) (tokens s) n + amount q"
proof -
  note r = reachable_rows [OF assms(1-4)]
  have ok: "asset_ops_ok c" using assms(6) by (simp add: good_ctx_def)
  have ob: "outbox s = []" using r(4) by (simp add: core_listed_def)
  have q: "symb q = core" "0 < amount q" "names_account \<noteq> n" using r(2) assms(5) by (auto simp: bids_typed_def)
  have "bidder_val (newname, n) q \<le> fmsum bidder_val (bidrefunds s)"
    by (rule fmsum_row_le [OF assms(5)]) (use r(2) in \<open>auto simp: bidder_val_def bids_typed_def intro: less_imp_le\<close>)
  then have le: "amount q \<le> bal (sym_code core) (tokens s) names_account"
    using names_parts [OF r(8)] r(9) by (simp add: names_owed_def bidder_val_def)
  let ?m = "''refund bid on name '' @ name_to_string c newname"
  let ?p = "ToToken [Perm names_account active_permission, Perm n active_permission] (Transfer names_account n q ?m)"
  let ?s1 = "s\<lparr>bidrefunds := fmdrop (newname, n) (bidrefunds s), outbox := outbox s @ [?p]\<rparr>"
  have a: "apply_sys c (BidRefund n newname) s = Inr ?s1"
    using assms(5) by (simp add: bidrefund_def send_transfer_def)
  obtain t' where t': "run_outbox c [?p] (tokens s) = Inr t'"
    "\<forall>m. bal (sym_code core) t' m = bal (sym_code core) (tokens s) m + (if m = n then amount q else 0) - (if m = names_account then amount q else 0)"
    using payout_runs [OF ok r(5) listed_when_owing [OF r(4) disjI2 [OF disjI1 [OF assms(5)]]] q(1,2) le q(3) assms(7,8), of ?m] assms(9) by auto
  have "world_step (Sys c (BidRefund n newname)) s = Inr (?s1\<lparr>outbox := [], tokens := t'\<rparr>)"
    by (rule payout_step [OF a ob]) (use t'(1) ob in \<open>simp_all del: run_outbox.simps\<close>)
  then show ?thesis using t'(2) q(3) by simp
qed

section \<open>Examples of payouts\<close>

text \<open>Enough is staked and voted with to activate the chain, and some of it is unstaked again.\<close>

definition ex_activate :: "event list" where
  "ex_activate =
     [Tok (ref_chain token_account [eosio_account] ex_now) (Issue ex_alice (ast 5000000000000 ex_sy) ''''),
      Sys (ref_sys [ex_alice] ex_now) (DelegateBw ex_alice ex_alice (ast 1000000000000 ex_sy) (ast 1000000000000 ex_sy) False),
      Sys (ref_sys [ex_alice] ex_now) (VoteProducer ex_alice 0 [])]"

definition ex_active :: sys_state where
  "ex_active = ex_open\<lparr>
     voters := fmupd ex_alice (default_voter\<lparr>staked := 2000000000000, last_vote_weight := Fin 4000000000000\<rparr>) fmempty,
     gstate := (gstate ex_open)\<lparr>total_activated_stake := 2000000000000, thresh_activated_stake_time := ex_now\<rparr>,
     gstate3 := \<lparr>last_vpay_state_update = ex_now, total_vpay_share_change_rate = Fin 0\<rparr>,
     userres := fmupd ex_alice \<lparr>net_weight = ast 1000000000000 ex_sy, cpu_weight = ast 1000000000000 ex_sy, ram_bytes = 0\<rparr> fmempty,
     delband := fmupd (ex_alice, ex_alice) \<lparr>dbw_net = ast 1000000000000 ex_sy, dbw_cpu = ast 1000000000000 ex_sy\<rparr> fmempty,
     res_limits := (\<lambda>_. (0, 0, 0))(ex_alice := (1400, 1000000000000, 1000000000000)),
     tokens := \<lparr>accounts = fmupd (stake_account, 5459781) \<lparr>balance = ast 2000000000000 ex_sy\<rparr>
         (fmupd (ex_alice, 5459781) \<lparr>balance = ast 3001000000000 ex_sy\<rparr> (accounts ex_tokens)),
       stats = fmupd 5459781 \<lparr>cur_supply = ast 5001000000000 ex_sy, max_supply = ast 100000000000000 ex_sy, issuer = eosio_account\<rparr> fmempty,
       inlines = [], notified = [eosio_account, ex_alice, eosio_account, ex_alice, ex_alice, stake_account]\<rparr>\<rparr>"

lemma ex_activate_run: "run_all world_step ex_activate ex_open = Inr ex_active"
  by (simp add: ex_activate_def ex_active_def ex_open_def ex_tokens_def ex_market_def ex_genesis_def genesis_def ex_eval
      ex_stake_eval fmupd_idem ex_vote_eval strictly_sorted_def)

definition ex_unstake :: event where
  "ex_unstake = Sys (ref_sys [ex_alice] ex_now) (UndelegateBw ex_alice ex_alice (ast 100000 ex_sy) (ast 50000 ex_sy))"

definition ex_unstaked :: sys_state where
  "ex_unstaked = ex_active\<lparr>
     voters := fmupd ex_alice (default_voter\<lparr>staked := 1999999850000, last_vote_weight := Fin 4000000000000\<rparr>) fmempty,
     userres := fmupd ex_alice \<lparr>net_weight = ast 999999900000 ex_sy, cpu_weight = ast 999999950000 ex_sy, ram_bytes = 0\<rparr> fmempty,
     delband := fmupd (ex_alice, ex_alice) \<lparr>dbw_net = ast 999999900000 ex_sy, dbw_cpu = ast 999999950000 ex_sy\<rparr> fmempty,
     res_limits := (\<lambda>_. (0, 0, 0))(ex_alice := (1400, 999999900000, 999999950000)),
     refunds := fmupd ex_alice \<lparr>request_time = 1600000000, net_amount = ast 100000 ex_sy, cpu_amount = ast 50000 ex_sy\<rparr> fmempty,
     pending := fmupd (uint ex_alice) (DeferredRefund ex_alice refund_delay_sec) fmempty\<rparr>"


lemma ex_unstake_run: "world_step ex_unstake ex_active = Inr ex_unstaked"
  by (simp add: ex_unstake_def ex_unstaked_def ex_active_def ex_open_def ex_market_def ex_genesis_def genesis_def ex_eval
      ex_stake_eval fmupd_idem undelegatebw_def min_activated_stake_def now_sec_def now_tp_def u32_def has_field_def)

lemma ex_unstaked_run: "run_all world_step ((ex_launch @ ex_activate) @ [ex_unstake]) ex_genesis = Inr ex_unstaked"
  unfolding run_all_append ex_launch_run bindr_simps ex_activate_run by (simp add: ex_unstake_run)

lemma ex_unstaked_good: "e \<in> set ((ex_launch @ ex_activate) @ [ex_unstake]) \<Longrightarrow> good_event ex_sy e"
  using ex_run_good [of e] ref_sys_good [of "[ex_alice]" ex_now]
  by (auto simp: ex_activate_def ex_unstake_def held_accounts_def account_defs)

text \<open>A second bidder gets tokens and outbids the first.\<close>

definition ex_outbid :: "event list" where
  "ex_outbid =
     [Tok (ref_chain token_account [ex_alice] ex_now) (Transfer ex_alice ex_bob (ast 10000 ex_sy) ''''),
      Sys (ex_bidder ex_bob) (BidName ex_bob ex_name (ast 6000 ex_sy))]"

definition ex_outbidden :: sys_state where
  "ex_outbidden = ex_auctioned\<lparr>
     namebids := fmupd ex_name \<lparr>high_bidder = ex_bob, high_bid = 6000, last_bid_time = ex_now\<rparr> fmempty,
     bidrefunds := fmupd (ex_name, ex_alice) (ast 5000 ex_sy) fmempty,
     pending := fmupd (uint ex_name * 18446744073709551616 + uint ex_alice) (DeferredBidRefund ex_alice ex_name 0) fmempty,
     tokens := (tokens ex_auctioned)\<lparr>accounts := fmupd (names_account, 5459781) \<lparr>balance = ast 11000 ex_sy\<rparr>
         (fmupd (ex_alice, 5459781) \<lparr>balance = ast 999835000 ex_sy\<rparr>
         (fmupd (ex_bob, 5459781) \<lparr>balance = ast 4000 ex_sy\<rparr> (accounts (tokens ex_auctioned)))),
       notified := notified (tokens ex_auctioned) @ [ex_alice, ex_bob, ex_bob, names_account]\<rparr>\<rparr>"

lemma ex_outbid_run: "run_all world_step ex_outbid ex_auctioned = Inr ex_outbidden"
  by (simp add: ex_outbid_def ex_outbidden_def ex_bidder_def ex_auctioned_def ex_staked_def ex_open_def ex_tokens_def ex_market_def
      ex_genesis_def genesis_def ex_eval bidname_def ex_name_def with_core_def core_sym_def send_transfer_def fmupd_idem now_tp_def
      i64_def add_bid_refund_def core_asset_def)

lemma ex_outbidden_run: "run_all world_step (((ex_launch @ [ex_stake]) @ [ex_bid]) @ ex_outbid) ex_genesis = Inr ex_outbidden"
  unfolding run_all_append [of world_step "(ex_launch @ [ex_stake]) @ [ex_bid]"] ex_bid_run bindr_simps by (rule ex_outbid_run)

lemma ex_bidder_good: "n \<notin> held_accounts \<Longrightarrow> good_ctx (ex_bidder n)"
  using ref_sys_good [of "[n]" ex_now] by (auto simp: ex_bidder_def good_ctx_def asset_ops_ok_def time_ops_ok_def)

lemma ex_outbidden_good: "e \<in> set (((ex_launch @ [ex_stake]) @ [ex_bid]) @ ex_outbid) \<Longrightarrow> good_event ex_sy e"
  using ex_bid_good [of e] ex_bidder_good [of ex_bob]
  by (auto simp: ex_outbid_def held_accounts_def account_defs)

theorem staking_rows_are_typed_witness:
  "fmpred (\<lambda>_ r. symb (net_amount r) = ex_sy \<and> symb (cpu_amount r) = ex_sy \<and> 0 \<le> amount (net_amount r)
        \<and> 0 \<le> amount (cpu_amount r) \<and> (0 < amount (net_amount r) \<or> 0 < amount (cpu_amount r))) (refunds ex_unstaked)
     \<and> refunds ex_unstaked \<noteq> fmempty
     \<and> fmpred (\<lambda>_ d. 0 < amount (dbw_net d) \<or> 0 < amount (dbw_cpu d)) (delband ex_unstaked) \<and> delband ex_unstaked \<noteq> fmempty"
proof -
  have good: "\<forall>e\<in>set ((ex_launch @ ex_activate) @ [ex_unstake]). good_event ex_sy e" using ex_unstaked_good by blast
  note h = staking_rows_are_typed [OF ex_core_ok ledger_inv_empty good ex_unstaked_run [unfolded ex_genesis_def]]
  have "refunds ex_unstaked \<noteq> fmempty" "delband ex_unstaked \<noteq> fmempty" by (auto simp: ex_unstaked_def)
  with h show ?thesis by (auto simp: fmpred_iff)
qed

theorem refund_is_paid_witness:
  "\<exists>s'. world_step (Sys (ref_sys [ex_alice] 1600000260000000000) (Refund ex_alice)) ex_unstaked = Inr s' \<and> refunds s' = fmempty
     \<and> bal 5459781 (tokens s') ex_alice = bal 5459781 (tokens ex_unstaked) ex_alice + 150000"
proof -
  have good: "\<forall>e\<in>set ((ex_launch @ ex_activate) @ [ex_unstake]). good_event ex_sy e" using ex_unstaked_good by blast
  have c: "good_ctx (ref_sys [ex_alice] 1600000260000000000)" by (rule ref_sys_good) (simp add: held_accounts_def account_defs)
  have row: "fmlookup (refunds ex_unstaked) ex_alice
      = Some \<lparr>request_time = 1600000000, net_amount = ast 100000 ex_sy, cpu_amount = ast 50000 ex_sy\<rparr>"
    by (simp add: ex_unstaked_def)
  show ?thesis
    using refund_is_paid [OF ex_core_ok ledger_inv_empty good ex_unstaked_run [unfolded ex_genesis_def] row c]
    by (auto simp: ex_sy_def now_tp_def i64_def refund_delay_sec_def ex_unstaked_def fmdrop_fmupd_same)
qed

theorem bid_refund_is_paid_witness:
  "\<exists>s'. world_step (Sys (ref_sys [] ex_now) (BidRefund ex_alice ex_name)) ex_outbidden = Inr s' \<and> bidrefunds s' = fmempty
     \<and> bal 5459781 (tokens s') ex_alice = bal 5459781 (tokens ex_outbidden) ex_alice + 5000"
proof -
  have good: "\<forall>e\<in>set (((ex_launch @ [ex_stake]) @ [ex_bid]) @ ex_outbid). good_event ex_sy e" using ex_outbidden_good by blast
  have c: "good_ctx (ref_sys [] ex_now)" by (rule ref_sys_good) simp
  have row: "fmlookup (bidrefunds ex_outbidden) (ex_name, ex_alice) = Some (ast 5000 ex_sy)" by (simp add: ex_outbidden_def)
  show ?thesis
    using bid_refund_is_paid [OF ex_core_ok ledger_inv_empty good ex_outbidden_run [unfolded ex_genesis_def] row c]
    by (auto simp: ex_sy_def ex_outbidden_def fmdrop_fmupd_same)
qed

end
