(* ===== verification/Auctions.thy ===== *)
theory Auctions
  imports Payouts
begin

text \<open>
  The name auctions as a bidder sees them: which auction a block closes, and what it takes to create
  an account with a short name.
\<close>

section \<open>The auction that is closed\<close>

text \<open>The specification: of the standing bids the highest, ties decided by name.\<close>

definition best_bid :: "sys_state \<Rightarrow> (name \<times> name_bid) option" where
  "best_bid s = (case sort_key (\<lambda>(_, b). - high_bid b) (filter (\<lambda>(_, b). 0 < high_bid b) (sorted_list_of_fmap (namebids s)))
     of [] \<Rightarrow> None | x # _ \<Rightarrow> Some x)"

lemma filter_sorted_suffix:
  fixes f :: "'a \<Rightarrow> 'b::linorder"
  assumes "sorted (map f xs)" "\<forall>x\<in>set xs. P x \<longleftrightarrow> \<not> f x < k"
  shows "filter P xs = dropWhile (\<lambda>x. f x < k) xs"
  using assms
proof (induction xs)
  case (Cons x xs)
  show ?case
  proof (cases "f x < k")
    case False
    then have "P y" if "y \<in> set xs" for y
      using Cons.prems that by (auto simp: not_less intro: order_trans)
    then have "filter P xs = xs" by (simp add: filter_id_conv)
    then show ?thesis using False Cons.prems(2) by simp
  qed (use Cons in auto)
qed simp

lemma sort_key_mono:
  assumes "\<And>x y. x \<in> set xs \<Longrightarrow> y \<in> set xs \<Longrightarrow> f x \<le> f y \<longleftrightarrow> g x \<le> g y"
  shows "sort_key f xs = sort_key g xs"
  using assms
proof (induction xs)
  case (Cons x xs)
  have "insort_key f x ys = insort_key g x ys" if "set ys \<subseteq> set xs" for ys
    using that Cons.prems by (induction ys) auto
  then show ?case using Cons by simp
qed simp

lemma by_high_bid_val:
  assumes "\<bar>high_bid b\<bar> \<le> max_amount"
  shows "by_high_bid n b = (if 0 < high_bid b then 18446744073709551616 - high_bid b else - high_bid b)"
proof (cases "0 < high_bid b")
  case True
  have "u64 (- high_bid b) = u64 (18446744073709551616 - high_bid b)" by (simp add: u64_def mod_diff_left_eq [symmetric])
  also have "\<dots> = 18446744073709551616 - high_bid b" by (rule u64_id) (use True assms in \<open>auto simp: max_amount_def\<close>)
  finally show ?thesis using True by (simp add: by_high_bid_def)
next
  case False
  then have "u64 (- high_bid b) = - high_bid b" by (intro u64_id) (use assms in \<open>auto simp: max_amount_def\<close>)
  then show ?thesis using False by (simp add: by_high_bid_def)
qed

lemma highest_is_best:
  assumes "bids_small s" shows "highest_bid s = best_bid s"
proof -
  let ?l = "sorted_list_of_fmap (namebids s)" and ?P = "\<lambda>(_, b). 0 < high_bid b" and ?f = "\<lambda>(n, b). by_high_bid n b"
  have v: "by_high_bid n b = (if 0 < high_bid b then 18446744073709551616 - high_bid b else - high_bid b) \<and> \<bar>high_bid b\<bar> \<le> max_amount"
    if "(n, b) \<in> set ?l" for n b
    using that assms by_high_bid_val [of b n] by (auto simp: set_sorted_list_of_fmap bids_small_def)
  have P: "?P x \<longleftrightarrow> \<not> ?f x < 9223372036854775807" if "x \<in> set ?l" for x
  proof (cases x)
    case (Pair n b)
    with that v [of n b] show ?thesis by (auto simp: max_amount_def)
  qed
  have "dropWhile (\<lambda>x. ?f x < 9223372036854775807) (sort_key ?f ?l) = filter ?P (sort_key ?f ?l)"
    by (rule filter_sorted_suffix [symmetric]) (use P in auto)
  also have "\<dots> = sort_key ?f (filter ?P ?l)" by (rule filter_sort)
  also have "\<dots> = sort_key (\<lambda>(_, b). - high_bid b) (filter ?P ?l)"
    by (rule sort_key_mono) (use v in auto)
  finally show ?thesis by (simp add: highest_bid_def best_bid_def index_by_def case_prod_unfold)
qed

text \<open>
  C31: Every day the best bid wins: in any state the chain can reach, the row that \<open>onblock\<close> closes (the
  first at or after \<open>numeric_limits<uint64_t>::max() / 2\<close> in the index of bids cast to unsigned) is the
  highest standing bid of all, found by filtering and sorting; closed auctions are never picked again.
\<close>

theorem highest_bid_wins:
  assumes "core_ok core" "ledger_inv t" "\<forall>e\<in>set es. good_event core e"
    and "run_all world_step es (genesis params lims t) = Inr s"
  shows "highest_bid s = (case sort_key (\<lambda>(_, b). - high_bid b)
      (filter (\<lambda>(_, b). 0 < high_bid b) (sorted_list_of_fmap (namebids s))) of [] \<Rightarrow> None | x # _ \<Rightarrow> Some x)"
  using highest_is_best [of s] reachable_rows(8) [OF assms] by (simp add: names_wf_def best_bid_def)

theorem highest_bid_wins_witness:
  "highest_bid ex_auctioned = Some (ex_name, \<lparr>high_bidder = ex_alice, high_bid = 5000, last_bid_time = ex_now\<rparr>)"
proof -
  have "\<forall>e\<in>set ((ex_launch @ [ex_stake]) @ [ex_bid]). good_event ex_sy e" using ex_bid_good by blast
  from highest_bid_wins [OF ex_core_ok ledger_inv_empty this ex_bid_run [unfolded ex_genesis_def]] show ?thesis
    by (simp add: ex_auctioned_def sorted_list_of_fmap_def sorted_list_of_fset.rep_eq)
qed

section \<open>How a short name is earned\<close>

text \<open>
  Every row of the auctions tells of the last bid on its name in the history: an open row is that bid
  itself, signed and positive, and a closed one was made of it by a block that found it to be the
  highest bid of all, more than a day old.
\<close>

definition bids_on :: "name \<Rightarrow> event \<Rightarrow> bool" where
  "bids_on n e \<longleftrightarrow> (\<exists>c b q. e = Sys c (BidName b n q))"

definition bid_row :: "sys_chain \<Rightarrow> name \<Rightarrow> asset \<Rightarrow> name_bid" where
  "bid_row c b q = \<lparr>high_bidder = b, high_bid = amount q, last_bid_time = now_tp c\<rparr>"

definition closed_row :: "name_bid \<Rightarrow> name_bid" where
  "closed_row b = b\<lparr>high_bid := i64 (- high_bid b)\<rparr>"

definition standing :: "event list \<Rightarrow> name \<Rightarrow> name_bid \<Rightarrow> bool" where
  "standing h n b \<longleftrightarrow> (\<exists>h1 c q h2. h = h1 @ Sys c (BidName (high_bidder b) n q) # h2 \<and> has_auth c (high_bidder b)
     \<and> 0 < amount q \<and> b = bid_row c (high_bidder b) q \<and> (\<forall>e\<in>set h2. \<not> bids_on n e))"

definition closes :: "sys_chain \<Rightarrow> slot \<Rightarrow> name \<Rightarrow> sys_state \<Rightarrow> sys_state \<Rightarrow> name \<Rightarrow> name_bid \<Rightarrow> bool" where
  "closes c t p s s' n b \<longleftrightarrow> world_step (Sys c (OnBlock t p)) s = Inr s' \<and> highest_bid s = Some (n, b)
     \<and> useconds_per_day < i64 (now_tp c - last_bid_time b) \<and> fmlookup (namebids s') n = Some (closed_row b)"

definition was_closed :: "sys_state \<Rightarrow> event list \<Rightarrow> name \<Rightarrow> name_bid \<Rightarrow> bool" where
  "was_closed s0 h n b \<longleftrightarrow> (\<exists>h1 c t p h2 sa sb b0. h = h1 @ Sys c (OnBlock t p) # h2 \<and> (\<forall>e\<in>set h2. \<not> bids_on n e)
     \<and> run_all world_step h1 s0 = Inr sa \<and> standing h1 n b0 \<and> closes c t p sa sb n b0 \<and> high_bidder b = high_bidder b0)"

definition bids_traced :: "sys_state \<Rightarrow> event list \<Rightarrow> sys_state \<Rightarrow> bool" where
  "bids_traced s0 h s \<longleftrightarrow> outbox s = [] \<and> run_all world_step h s0 = Inr s
     \<and> (\<forall>n b. fmlookup (namebids s) n = Some b \<longrightarrow> standing h n b \<or> was_closed s0 h n b)"

lemma standing_more:
  assumes "standing h n b" "\<not> bids_on n e" shows "standing (h @ [e]) n b"
proof -
  from assms(1) obtain h1 c q h2 where h: "h = h1 @ Sys c (BidName (high_bidder b) n q) # h2" "has_auth c (high_bidder b)"
    "0 < amount q" "b = bid_row c (high_bidder b) q" "\<forall>e\<in>set h2. \<not> bids_on n e"
    unfolding standing_def by blast
  show ?thesis unfolding standing_def
    by (intro exI [of _ h1] exI [of _ c] exI [of _ q] exI [of _ "h2 @ [e]"]) (use h assms(2) in auto)
qed

lemma standing_new:
  assumes "has_auth c b" "0 < amount q" shows "standing (h @ [Sys c (BidName b n q)]) n (bid_row c b q)"
  unfolding standing_def by (intro exI [of _ h] exI [of _ c] exI [of _ q] exI [of _ "[]"]) (use assms in \<open>simp add: bid_row_def\<close>)

lemma standing_positive:
  assumes "standing h n b" shows "0 < high_bid b"
proof -
  from assms obtain c q where "0 < amount q" "b = bid_row c (high_bidder b) q" unfolding standing_def by blast
  then show ?thesis by (metis bid_row_def name_bid.select_convs(2))
qed

lemma closed_more:
  assumes "was_closed s0 h n b" "\<not> bids_on n e" "high_bidder b' = high_bidder b" shows "was_closed s0 (h @ [e]) n b'"
proof -
  from assms(1) obtain h1 c t p h2 sa sb b0 where h: "h = h1 @ Sys c (OnBlock t p) # h2" "\<forall>e\<in>set h2. \<not> bids_on n e"
    "run_all world_step h1 s0 = Inr sa" "standing h1 n b0" "closes c t p sa sb n b0" "high_bidder b = high_bidder b0"
    unfolding was_closed_def by blast
  show ?thesis unfolding was_closed_def
    by (intro exI [of _ h1] exI [of _ c] exI [of _ t] exI [of _ p] exI [of _ "h2 @ [e]"] exI [of _ sa] exI [of _ sb] exI [of _ b0])
      (use h assms(2,3) in auto)
qed

lemma closed_new:
  assumes "run_all world_step h s0 = Inr s" "standing h n b0" "closes c t p s s' n b0"
  shows "was_closed s0 (h @ [Sys c (OnBlock t p)]) n (closed_row b0)"
  unfolding was_closed_def
  by (intro exI [of _ h] exI [of _ c] exI [of _ t] exI [of _ p] exI [of _ "[]"] exI [of _ s] exI [of _ s'] exI [of _ b0])
    (use assms in \<open>simp add: closed_row_def\<close>)

lemma highest_bid_cong: "namebids s' = namebids s \<Longrightarrow> highest_bid s' = highest_bid s"
  by (simp add: highest_bid_def)

lemma namebids_channelled: "namebids (channel_namebid_to_rex h s) = namebids s"
  by (simp add: channel_namebid_to_rex_def Let_def split: option.splits)

lemma close_row:
  assumes "fmlookup (namebids (close_highest_bid c t s)) n = Some b"
  obtains "fmlookup (namebids s) n = Some b"
  | b0 where "highest_bid s = Some (n, b0)" "useconds_per_day < i64 (now_tp c - last_bid_time b0)" "b = closed_row b0"
proof (cases "highest_bid s")
  case None
  then show ?thesis using assms that(1) by (simp add: close_highest_bid_def)
next
  case (Some x)
  obtain k b0 where x: "x = (k, b0)" by (cases x)
  show ?thesis
  proof (cases "fmlookup (namebids s) n = Some b")
    case False
    have "k = n \<and> b = closed_row b0 \<and> useconds_per_day < i64 (now_tp c - last_bid_time b0)"
      using assms False by (simp add: close_highest_bid_def Let_def Some x namebids_channelled closed_row_def split: if_splits)
    then show ?thesis using that(2) Some x by simp
  qed (rule that(1))
qed

lemma bids_after:
  assumes "apply_sys c a s = Inr s'" "fmlookup (namebids s') n = Some b"
  obtains "fmlookup (namebids s) n = Some b" "\<not> bids_on n (Sys c a)"
  | t p b0 where "a = OnBlock t p" "highest_bid s = Some (n, b0)" "useconds_per_day < i64 (now_tp c - last_bid_time b0)"
      "b = closed_row b0"
  | b1 q where "a = BidName b1 n q" "has_auth c b1" "0 < amount q" "b = bid_row c b1 q"
proof (cases a)
  case (OnBlock t p)
  with assms(1) have "onblock c t p s = Inr s'" by simp
  then obtain s4 where s4: "same Naming s s4" "s' = s4 \<or> s' = close_highest_bid c t s4" by (rule onblock_frame)
  have nb: "namebids s4 = namebids s" using s4(1) by simp
  note hb = highest_bid_cong [OF nb]
  from s4(2) show ?thesis
  proof
    assume "s' = s4"
    then show ?thesis using assms(2) nb that(1) OnBlock by (simp add: bids_on_def)
  next
    assume "s' = close_highest_bid c t s4"
    with assms(2) have "fmlookup (namebids (close_highest_bid c t s4)) n = Some b" by simp
    then show ?thesis
      by (cases rule: close_row) (use that(1) that(2) [OF OnBlock] OnBlock nb hb in \<open>auto simp: bids_on_def\<close>)
  qed
next
  case (BidName m k q)
  with assms(1) have "bidname c m k q s = Inr s'" by simp
  then show ?thesis
  proof (cases rule: bidname_parts)
    case (1 s1 row)
    then show ?thesis using assms(2) that(1,3) BidName by (auto simp: bids_on_def bid_row_def split: if_splits)
  next
    case (2 s1 row cur s2 p)
    have "namebids s2 = namebids s" using 2(10) by (rule add_bid_refund_parts) (simp add: 2(4) send_transfer_def)
    then show ?thesis using 2 assms(2) that(1,3) BidName by (auto simp: bids_on_def bid_row_def split: if_splits)
  qed
next
  case (NewAccount k m)
  with assms(1) have "newaccount c k m s = Inr s'" by simp
  then show ?thesis
  proof (cases rule: newaccount_parts)
    case (1 nb z)
    then show ?thesis using assms(2) that(1) NewAccount by (auto simp: set_limits_def bids_on_def split: if_splits)
  qed
next
  case (BidRefund m k)
  with assms(1) have "bidrefund c m k s = Inr s'" by simp
  then show ?thesis using assms(2) that(1) BidRefund by (auto elim!: bidrefund_parts simp: send_transfer_def bids_on_def)
qed (use footprintD(1) [OF action_footprint [OF assms(1)], of Naming] assms(2) that(1) in \<open>simp_all add: bids_on_def\<close>)

interpretation bids_told: traced world_step "\<lambda>_ _. True" "bids_traced s0" for s0
proof unfold_locales
  fix h e s s' assume i: "bids_traced s0 h s" and u: "world_step e s = Inr s'"
  have run: "run_all world_step h s0 = Inr s" using i by (simp add: bids_traced_def)
  then have run': "run_all world_step (h @ [e]) s0 = Inr s'" using u by (simp add: run_all_append)
  have old: "standing h n b \<or> was_closed s0 h n b" if "fmlookup (namebids s) n = Some b" for n b
    using i that by (simp add: bids_traced_def)
  show "bids_traced s0 (h @ [e]) s'"
  proof (cases e)
    case (Sys c a)
    with u obtain s1 t where s1: "apply_sys c a (s\<lparr>outbox := []\<rparr>) = Inr s1" and s': "s' = s1\<lparr>outbox := [], tokens := t\<rparr>"
      by (auto simp: exec_sys_def res_simps)
    have s: "s\<lparr>outbox := []\<rparr> = s" using i by (simp add: bids_traced_def)
    have "standing (h @ [e]) n b \<or> was_closed s0 (h @ [e]) n b" if b: "fmlookup (namebids s1) n = Some b" for n b
      using s1 [unfolded s] b
    proof (cases rule: bids_after)
      case 1
      then show ?thesis using old Sys standing_more closed_more by metis
    next
      case (2 t p b0)
      have cl: "closes c t p s s' n b0" using 2 u Sys b by (simp add: closes_def s')
      have nb: "\<not> bids_on n e" using 2(1) Sys by (simp add: bids_on_def)
      have "high_bidder b = high_bidder b0" by (simp add: 2(4) closed_row_def)
      then show ?thesis
        using old [OF highest_bid_row [OF 2(2)]] closed_new [OF run _ cl] closed_more [OF _ nb] 2(1,4) Sys by auto
    next
      case (3 b1 q)
      then show ?thesis using Sys standing_new by auto
    qed
    then show ?thesis using run' by (simp add: bids_traced_def s')
  next
    case (Tok c a)
    have "\<not> bids_on n e" for n using Tok by (simp add: bids_on_def)
    then have "standing (h @ [e]) n b \<or> was_closed s0 (h @ [e]) n b" if "fmlookup (namebids s) n = Some b" for n b
      using old [OF that] standing_more closed_more by metis
    moreover have "namebids s' = namebids s" "outbox s' = outbox s" using u Tok by (auto simp: res_simps)
    ultimately show ?thesis using run' i by (simp add: bids_traced_def)
  qed
qed

text \<open>
  C32: Short names are earned at auction: when an account other than the system contract's creates an
  account whose name is a single suffix, the last bid made on that name, at whatever point of the run,
  was the creator's own, signed by it and positive; a later block, more than a day after it, found this
  bid to be the highest one standing on any name, and closed the auction with it. (The system contract
  itself may create any account: \<open>newaccount\<close> asks nothing of it.)
\<close>

theorem short_names_are_won:
  assumes "run_all world_step (es @ [Sys c (NewAccount creator newname)]) (genesis params lims t) = Inr s"
    and "creator \<noteq> self c" "has_dot newname" "suffix c newname = newname"
  shows "\<exists>es1 c1 q es2 c2 t2 p es3 sa sb. es = es1 @ Sys c1 (BidName creator newname q) # es2 @ Sys c2 (OnBlock t2 p) # es3
    \<and> has_auth c1 creator \<and> 0 < amount q \<and> (\<forall>e\<in>set (es2 @ es3). \<forall>c b q. e \<noteq> Sys c (BidName b newname q))
    \<and> run_all world_step (es1 @ Sys c1 (BidName creator newname q) # es2) (genesis params lims t) = Inr sa
    \<and> highest_bid sa = Some (newname, \<lparr>high_bidder = creator, high_bid = amount q, last_bid_time = now_tp c1\<rparr>)
    \<and> useconds_per_day < i64 (now_tp c2 - now_tp c1)
    \<and> world_step (Sys c2 (OnBlock t2 p)) sa = Inr sb
    \<and> fmlookup (namebids sb) newname = Some \<lparr>high_bidder = creator, high_bid = i64 (- amount q), last_bid_time = now_tp c1\<rparr>"
proof -
  from assms(1) obtain s0 where s0: "run_all world_step es (genesis params lims t) = Inr s0"
    and st: "world_step (Sys c (NewAccount creator newname)) s0 = Inr s"
    by (auto simp: run_all_append bindr_Inr)
  from st obtain s1 where "newaccount c creator newname (s0\<lparr>outbox := []\<rparr>) = Inr s1" by (auto simp: exec_sys_def res_simps)
  then obtain b where b: "fmlookup (namebids s0) newname = Some b" "high_bidder b = creator" "high_bid b < 0"
    using assms(2-4) by (auto simp: newaccount_def bindr_Inr the_row_Inr)
  have "bids_traced (genesis params lims t) es s0"
    by (rule bids_told.trace_inv [OF _ _ s0]) (simp_all add: bids_traced_def)
  moreover have "\<not> standing es newname b" using b(3) standing_positive by fastforce
  ultimately have "was_closed (genesis params lims t) es newname b" using b(1) by (auto simp: bids_traced_def)
  then obtain h1 c2 t2 p es3 sa sb b0 where h: "es = h1 @ Sys c2 (OnBlock t2 p) # es3" "\<forall>e\<in>set es3. \<not> bids_on newname e"
    "run_all world_step h1 (genesis params lims t) = Inr sa" "standing h1 newname b0" "closes c2 t2 p sa sb newname b0"
    "high_bidder b0 = creator"
    unfolding was_closed_def b(2) by metis
  from h(4) obtain es1 c1 q es2 where l: "h1 = es1 @ Sys c1 (BidName creator newname q) # es2" "has_auth c1 creator" "0 < amount q"
    "b0 = bid_row c1 creator q" "\<forall>e\<in>set es2. \<not> bids_on newname e"
    unfolding standing_def h(6) by blast
  have "\<forall>e\<in>set (es2 @ es3). \<forall>c b q. e \<noteq> Sys c (BidName b newname q)" using h(2) l(5) by (auto simp: bids_on_def)
  with h(1,3,5) l(1-4) show ?thesis unfolding closes_def bid_row_def closed_row_def
    by (intro exI [of _ es1] exI [of _ c1] exI [of _ q] exI [of _ es2] exI [of _ c2] exI [of _ t2] exI [of _ p] exI [of _ es3]
        exI [of _ sa] exI [of _ sb]) (simp del: world_step.simps)
qed

text \<open>On the active chain an account bids, a block closes the auction two weeks later, and the account is created.\<close>

definition ex_later :: uint64 where "ex_later = 1601296000000000"

definition ex_win :: "event list" where
  "ex_win = [Sys (ex_bidder ex_alice) (BidName ex_alice ex_name (ast 5000 ex_sy)),
     Sys (ref_sys [eosio_account] ex_later) (OnBlock 1309222400 ex_bob)]"

lemma ref_sys_proposes [simp]: "set_proposed_producers (ref_sys auths now) l = 0"
  by (simp add: ref_sys_def ref_chain_def chain.defs sys_chain.defs)

lemma ex_won: "\<exists>s. run_all world_step (ex_win @ [Sys (ref_sys [] ex_later) (NewAccount ex_alice ex_name)]) ex_active = Inr s"
  by (simp add: ex_win_def ex_later_def ex_bidder_def ex_active_def ex_open_def ex_tokens_def ex_market_def ex_genesis_def
      genesis_def ex_eval bidname_def ex_name_def with_core_def core_sym_def send_transfer_def fmupd_idem now_tp_def i64_def
      onblock_def min_activated_stake_def count_block_def update_elected_producers_def top_producers_def index_by_def
      close_highest_bid_def highest_bid_def sorted_list_of_fmap_def sorted_list_of_fset.rep_eq u32_def u64_def by_high_bid_def
      blocks_per_day_def useconds_per_day_def channel_namebid_to_rex_def newaccount_def has_dot_def set_limits_def core_asset_def)

theorem short_names_are_won_witness:
  "\<exists>s es1 c1 q es2. run_all world_step (ex_win @ [Sys (ref_sys [] ex_later) (NewAccount ex_alice ex_name)]) ex_active = Inr s
     \<and> (ex_launch @ ex_activate) @ ex_win = es1 @ Sys c1 (BidName ex_alice ex_name q) # es2 \<and> has_auth c1 ex_alice"
proof -
  obtain s where s: "run_all world_step (ex_win @ [Sys (ref_sys [] ex_later) (NewAccount ex_alice ex_name)]) ex_active = Inr s"
    using ex_won by blast
  have "run_all world_step (ex_launch @ ex_activate) ex_genesis = Inr ex_active"
    unfolding run_all_append ex_launch_run bindr_simps by (rule ex_activate_run)
  then have r: "run_all world_step (((ex_launch @ ex_activate) @ ex_win) @ [Sys (ref_sys [] ex_later) (NewAccount ex_alice ex_name)]) ex_genesis = Inr s"
    using s unfolding append_assoc [of "ex_launch @ ex_activate"] run_all_append [of world_step "ex_launch @ ex_activate"] by simp
  have "ex_alice \<noteq> self (ref_sys [] ex_later)" "suffix (ref_sys [] ex_later) ex_name = ex_name" by (simp_all add: eosio_account_def)
  moreover have "has_dot ex_name"
    using has_zero_char.simps(2) [of 11 "drop_bit 4 ex_name"] by (simp add: has_dot_def ex_name_def)
  ultimately show ?thesis using short_names_are_won [OF r [unfolded ex_genesis_def]] s by blast
qed

end
