(* ===== verification/WeightLedger.thy ===== *)
theory WeightLedger
  imports NamesLedger RexProps
begin

text \<open>
  The bandwidth an account has is kept in its row of totals, and again, split by where it comes from,
  in the delegations to it and in the loans taken out for it. This theory shows that the three
  tables always agree, in the 64-bit arithmetic of the code.
\<close>

section \<open>Bandwidth and its sources\<close>

fun part_of :: "loan_kind \<Rightarrow> int \<times> int \<Rightarrow> int" where
  "part_of NetLoan w = fst w"
| "part_of CpuLoan w = snd w"

definition given :: "loan_kind \<Rightarrow> name \<Rightarrow> name \<times> name \<Rightarrow> delegated_bandwidth \<Rightarrow> int" where
  "given kind r k d = (if snd k = r then part_of kind (amount (dbw_net d), amount (dbw_cpu d)) else 0)"

definition lent_to :: "name \<Rightarrow> uint64 \<Rightarrow> rex_loan \<Rightarrow> int" where
  "lent_to r k l = (if loan_receiver l = r then amount (total_staked l) else 0)"

definition gap :: "loan_kind \<Rightarrow> name \<Rightarrow> sys_state \<Rightarrow> int" where
  "gap kind r s = part_of kind (weights (userres s) r)
     - fmsum (given kind r) (delband s) - fmsum (lent_to r) (loans_of kind s)"

definition weighed :: "sys_state \<Rightarrow> sys_state \<Rightarrow> bool" where
  "weighed s s' \<longleftrightarrow> (\<forall>kind r. u64 (gap kind r s') = u64 (gap kind r s))"

definition sources where
  "sources s = (weights (userres s), delband s, cpu_loans s, net_loans s)"

lemma sourcesD:
  assumes "sources s' = sources s"
  shows "weights (userres s') = weights (userres s)" "delband s' = delband s" "loans_of kind s' = loans_of kind s"
  using assms by (cases kind; simp add: sources_def)+

lemma weighed_refl [simp]: "weighed s s"
  by (simp add: weighed_def)

lemma weighed_trans: "weighed s s1 \<Longrightarrow> weighed s1 s2 \<Longrightarrow> weighed s s2"
  by (simp add: weighed_def)

lemma weighed_chain: "weighed s s1 \<Longrightarrow> weighed s1 s2 \<Longrightarrow> weighed s2 s3 \<Longrightarrow> weighed s s3"
  by (simp add: weighed_def)

lemma weighed_same: "sources s' = sources s \<Longrightarrow> weighed s s'"
  by (simp add: weighed_def gap_def sourcesD [of s' s])

section \<open>Procedures that leave them alone\<close>

lemma sources_view: "view s' = view s \<Longrightarrow> sources s' = sources s"
  by (simp add: sources_def viewD [of s' s])

lemma sources_upd [simp]:
  "sources (s\<lparr>rexpool := p\<rparr>) = sources s" "sources (s\<lparr>rexfunds := f\<rparr>) = sources s" "sources (s\<lparr>rexbalance := b\<rparr>) = sources s"
  "sources (s\<lparr>rexorders := r\<rparr>) = sources s" "sources (send_result a s) = sources s"
  "sources (send_transfer ps n m q memo s) = sources s" "sources (s\<lparr>res_limits := l\<rparr>) = sources s"
  "sources (s\<lparr>outbox := l1\<rparr>) = sources s" "sources (s\<lparr>tokens := t\<rparr>) = sources s"
  by (simp_all add: sources_def send_result_def send_transfer_def)

lemma sources_funds:
  "transfer_from_fund c n q s = Inr s' \<Longrightarrow> sources s' = sources s" "transfer_to_fund c n q s = Inr s' \<Longrightarrow> sources s' = sources s"
  by (auto simp: transfer_from_fund_def transfer_to_fund_def res_simps)

lemma sources_add_pool: "add_to_rex_pool c q s = Inr (r, s') \<Longrightarrow> sources s' = sources s"
  by (auto simp: add_to_rex_pool_def res_simps Let_def split: option.splits if_splits)

lemma sources_add_balance: "add_to_rex_balance c n q r s = Inr (d, s') \<Longrightarrow> sources s' = sources s"
  by (auto simp: add_to_rex_balance_def res_simps Let_def split: option.splits)

lemma sources_fill: "fill_rex_order c n q s = Inr (d, s') \<Longrightarrow> sources s' = sources s"
  by (auto simp: fill_rex_order_def with_pool_def res_simps Let_def sources_def split: if_splits)

lemma sources_account:
  assumes "update_rex_account c n p d b s = Inr (r, s')" shows "sources s' = sources s"
proof -
  from update_rex_account_parts [OF assms] obtain z q1 q2 s1 s2 where
    "settle_order z n p d s = (q1, q2, r, s1)"
    "(if 0 < amount q1 then transfer_to_fund c n q1 s1 else Inr s1) = Inr s2"
    "(if b \<or> amount q2 \<noteq> 0 then update_voting_power c n q2 s2 else Inr s2) = Inr s'" .
  then have "sources s1 = sources s" "sources s2 = sources s1" "sources s' = sources s2"
    by (auto simp: settle_order_def sources_funds sources_view [OF view_update_voting_power] split: option.splits if_splits)
  then show ?thesis by simp
qed

lemma sources_channel [simp]: "sources (channel_to_rex c n q s) = sources s"
  by (auto simp: channel_to_rex_def sources_def split: option.splits)

lemma sources_proceeds [simp]: "sources (channel_proceeds c s) = sources s"
  by (auto simp: channel_proceeds_def Let_def split: option.splits)

lemma sources_run_order: "run_order c n ord s = Inr s' \<Longrightarrow> sources s' = sources s"
  by (auto simp: run_order_def bindr_Inr sources_def dest: sources_fill [unfolded sources_def] split: option.splits if_splits)

lemma sources_run_orders: "run_orders c ns s = Inr s' \<Longrightarrow> sources s' = sources s"
proof (induction ns arbitrary: s)
  case (Cons n ns)
  then show ?case by (auto simp: bindr_Inr split: option.splits if_splits dest!: sources_run_order)
qed simp

lemma sources_queue: "queue_order c n q s = Inr (ord, s') \<Longrightarrow> sources s' = sources s"
  by (auto dest!: queue_order_state)

section \<open>Loans\<close>

lemma loans_of_set_parts [simp]: "loans_of kind (set_loans kind m s) = m" "kind \<noteq> k \<Longrightarrow> loans_of k (set_loans kind m s) = loans_of k s"
  "weights (userres (set_loans kind m s)) = weights (userres s)" "delband (set_loans kind m s) = delband s"
  by (cases kind; cases k; simp)+

lemma gap_loans: "gap k r (set_loans kind m s) = gap k r s + (if k = kind
    then fmsum (lent_to r) (loans_of kind s) - fmsum (lent_to r) m else 0)"
  by (simp add: gap_def)

lemma gap_limits:
  assumes ok: "asset_ops_ok c" and u: "update_resource_limits c n dn dp s = Inr s'"
  shows "u64 (gap kind r s') = u64 (gap kind r s + (if r = n then part_of kind (dn, dp) else 0))"
  using u
proof (cases rule: update_resource_limits_parts)
  case (2 tot l)
  have same: "delband s' = delband s" "loans_of kind s' = loans_of kind s" by (cases kind; simp add: 2(4))+
  have new: "u64 (amount (net_weight tot)) = u64 (fst (weights (userres s) n) + dn)"
    "u64 (amount (cpu_weight tot)) = u64 (snd (weights (userres s) n) + dp)"
    using 2(1) ok by (auto simp: new_totals_def weights_def res_simps asset_newD split: option.splits)
  have w: "weights (userres s') x = (if x = n then (amount (net_weight tot), amount (cpu_weight tot)) else weights (userres s) x)" for x
    by (simp add: 2(4) weights_def res_empty_def)
  show ?thesis
  proof (cases "r = n")
    case True
    have "u64 (part_of kind (weights (userres s') r)) = u64 (part_of kind (weights (userres s) n) + part_of kind (dn, dp))"
      using new by (cases kind) (simp_all add: w True)
    from u64_diff_cong [OF u64_diff_cong [OF this refl] refl]
    show ?thesis using True by (simp add: gap_def same algebra_simps)
  qed (simp add: gap_def same w)
qed (cases kind; simp)

lemma gap_limits_for:
  assumes "asset_ops_ok c" "limits_for kind c n d s = Inr s'"
  shows "u64 (gap k r s') = u64 (gap k r s + (if r = n \<and> k = kind then d else 0))"
  using assms(2) gap_limits [OF assms(1)] by (cases kind; cases k) fastforce+

lemma u64_undo: "u64 (x + i64 (- y) + y) = u64 x"
proof -
  have "x + i64 (- y) + y = (x + y) + i64 (- y)" by simp
  then show ?thesis by (simp only: u64_i64_add) simp
qed

text \<open>A loan that expires is renewed or removed, and its receiver's bandwidth follows.\<close>

lemma weighed_run_loan:
  assumes ok: "asset_ops_ok c" and u: "run_loan c kind num loan s = Inr s'" and row: "fmlookup (loans_of kind s) num = Some loan"
  shows "weighed s s'"
proof -
  from u obtain del delta s1 s2 where p: "process_expired_loan c kind num loan s = Inr (del, delta, s1)"
    and l: "(if delta \<noteq> 0 then limits_for kind c (loan_receiver loan) delta s1 else Inr s1) = Inr s2"
    and s': "s' = (if del then set_loans kind (fmdrop num (loans_of kind s2)) s2 else s2)"
    by (auto simp: run_loan_def bindr_Inr)
  have g2: "u64 (gap k r s2) = u64 (gap k r s1 + (if r = loan_receiver loan \<and> k = kind then delta else 0))" for k r
    using l by (auto simp: gap_limits_for [OF ok] split: if_splits)
  have l2: "loans_of kind s2 = loans_of kind s1"
    using l by (cases kind) (auto elim!: update_resource_limits_parts split: if_splits)
  show ?thesis
    using p
  proof (cases rule: process_expired_loan_parts)
    case (1 rp rp1 rented)
    let ?l = "snd (update_renewed_loan loan rented)"
    let ?s = "s\<lparr>rexpool := Some (add_loan_to_rex_pool (loan_payment loan) rented False rp1)\<rparr>"
    have n: "loan_receiver ?l = loan_receiver loan" "amount (total_staked ?l) = rented"
      by (simp_all add: update_renewed_loan_def)
    have i: "loans_of kind ?s = loans_of kind s" "gap k r ?s = gap k r s" for k r
      by (cases kind; simp) (cases k; simp add: gap_def)
    have g1: "gap k r s1 = gap k r s + (if k = kind \<and> r = loan_receiver loan then amount (total_staked loan) - rented else 0)" for k r
      unfolding 1(9) gap_loans i by (auto simp: fmsum_upd row lent_to_def n)
    have d: "u64 (x - rented + amount (total_staked loan) + delta) = u64 x" for x
      by (simp add: 1(8) update_renewed_loan_def)
    have "u64 (gap k r s') = u64 (gap k r s)" for k r
      using g2 [of k r] d [of "gap k r s"] 1(4) by (auto simp: g1 s' algebra_simps)
    then show ?thesis by (simp add: weighed_def)
  next
    case (2 rp rp1)
    have "sources s1 = sources s" using 2(5) by (auto dest: sources_funds split: if_splits)
    then have g: "gap k r s1 = gap k r s" and l1: "loans_of kind s1 = loans_of kind s" for k r
      using sourcesD [of s1 s] by (simp_all add: gap_def)
    have "u64 (gap k r s') = u64 (gap k r s)" for k r
    proof (cases "r = loan_receiver loan \<and> k = kind")
      case True
      have "u64 (gap k r s') = u64 (gap k r s2 + amount (total_staked loan))"
        using True 2(3) by (simp add: s' gap_loans l2 l1 fmsum_drop row lent_to_def)
      also have "\<dots> = u64 (gap k r s + delta + amount (total_staked loan))"
        using u64_cong [OF g2 [of k r] refl] True by (simp add: g)
      also have "\<dots> = u64 (gap k r s)" unfolding 2(4) by (rule u64_undo)
      finally show ?thesis .
    next
      case False
      then have "gap k r s' = gap k r s2"
        by (auto simp: s' gap_loans l2 l1 fmsum_drop row lent_to_def)
      then show ?thesis using g2 [of k r] False by (auto simp: g)
    qed
    then show ?thesis by (simp add: weighed_def)
  qed
qed

lemma weighed_run_loans:
  assumes ok: "asset_ops_ok c"
  shows "run_loans i c kind s = Inr s' \<Longrightarrow> weighed s s'"
proof (induction i arbitrary: s)
  case (Suc i)
  from Suc.prems consider "s' = s" | num loan x where "first_by by_expr (loans_of kind s) = Some (num, loan)"
      "run_loan c kind num loan s = Inr x" "run_loans i c kind x = Inr s'"
    by (auto simp: bindr_Inr split: option.splits if_splits)
  then show ?case
    by cases (auto intro: weighed_trans [OF weighed_run_loan [OF ok] Suc.IH] first_by_row)
qed simp

lemma weighed_runrex:
  assumes ok: "asset_ops_ok c" and u: "runrex c mx s = Inr s'" shows "weighed s s'"
  using u
proof (cases rule: runrex_parts)
  case (1 s1 s2)
  have "weighed s (channel_proceeds c s)" by (rule weighed_same) simp
  then have "weighed s s2" by (rule weighed_chain [OF _ weighed_run_loans [OF ok 1(2)] weighed_run_loans [OF ok 1(3)]])
  then show ?thesis by (rule weighed_trans [OF _ weighed_same [OF sources_run_orders [OF 1(4)]]])
qed

section \<open>Actions of REX\<close>

lemma weighed_buyrex:
  assumes ok: "asset_ops_ok c" and u: "buyrex c n q s = Inr s'" shows "weighed s s'"
  using u
proof (cases rule: buyrex_parts)
  case (1 sy r d z r2 s1 s2 s3 s4 s5)
  have "sources s3 = sources s" using sources_funds(1) [OF 1(5)] sources_add_pool [OF 1(6)] sources_add_balance [OF 1(7)] by simp
  moreover have "sources s' = sources s4" using sources_account [OF 1(11)] by (simp add: 1(12))
  ultimately show ?thesis by (rule weighed_chain [OF weighed_same weighed_runrex [OF ok 1(8)] weighed_same])
qed

lemma weighed_sellrex:
  assumes ok: "asset_ops_ok c" and u: "sellrex c n q s = Inr s'" shows "weighed s s'"
  using u
proof (cases rule: sellrex_parts)
  case (1 s1 rb s2 ord s3 z s4 pend s5 rb2)
  have "sources s4 = sources s1" using sources_fill [OF 1(8)] sources_account [OF 1(10)] by (simp add: 1(6))
  moreover have "sources s5 = sources s4" using 1(11) by (auto dest: sources_queue split: if_splits)
  ultimately have "sources s' = sources s1" by (simp add: 1(14))
  then show ?thesis by (rule weighed_trans [OF weighed_runrex [OF ok 1(2)] weighed_same])
qed

lemma weighed_rentrex:
  assumes ok: "asset_ops_ok c" and u: "rentrex kind c from receiver pay fund s = Inr s'" shows "weighed s s'"
  using u
proof (cases rule: rentrex_parts)
  case (1 s1 sy s2 rp rented a s3)
  let ?s = "s2\<lparr>rexpool := Some (add_loan_to_rex_pool pay rented True rp)\<rparr>"
  have s2: "sources s2 = sources s1" using 1(9) by (auto dest: sources_funds)
  have a: "amount a = rented" using 1(14) by (auto simp: core_asset_Inr asset_newD [OF ok])
  have i: "loans_of kind ?s = loans_of kind s2" "gap k r ?s = gap k r s2" for k r
    by (cases kind; simp) (cases k; simp add: gap_def)
  have res: "gap k r (send_result x y) = gap k r y" for k r x y by (cases k; simp add: gap_def send_result_def)
  have g3: "gap k r s3 = gap k r s2 - (if k = kind \<and> r = receiver then rented else 0)" for k r
    unfolding 1(15) res gap_loans i using 1(13) by (auto simp: fmsum_upd lent_to_def a i)
  have "u64 (gap k r s') = u64 (gap k r s3 + (if r = receiver \<and> k = kind then rented else 0))" for k r
    by (rule gap_limits_for [OF ok 1(16)])
  then have "weighed s2 s'" by (simp add: weighed_def g3)
  then show ?thesis by (rule weighed_chain [OF weighed_runrex [OF ok 1(2)] weighed_same [OF s2]])
qed

lemma weighed_reload:
  assumes "fmlookup (loans_of kind s) num = Some loan" "loan_receiver l = loan_receiver loan" "total_staked l = total_staked loan"
  shows "weighed s (set_loans kind (fmupd num l (loans_of kind s)) s)"
proof -
  have "gap k r (set_loans kind (fmupd num l (loans_of kind s)) s) = gap k r s" for k r
    using assms by (simp add: gap_loans fmsum_upd lent_to_def)
  then show ?thesis by (simp add: weighed_def)
qed

lemma weighed_fundloan: "fundloan kind c n num q s = Inr s' \<Longrightarrow> weighed s s'"
  by (erule fund_loan_parts) (auto intro!: weighed_trans [OF weighed_same weighed_reload] sources_funds(1))

lemma weighed_defloan: "defloan kind c n num q s = Inr s' \<Longrightarrow> weighed s s'"
  by (erule defund_loan_parts) (rule weighed_trans [OF weighed_reload weighed_same [OF sources_funds(2)]], auto)

lemma weighed_updaterex:
  assumes ok: "asset_ops_ok c" and u: "updaterex c n s = Inr s'" shows "weighed s s'"
  using u
proof (cases rule: updaterex_parts)
  case (1 s1 rb rp z stake change r s3 rb3)
  have "sources s' = sources s1" using sources_account [OF 1(8)] by (simp add: 1(10))
  then show ?thesis by (rule weighed_trans [OF weighed_runrex [OF ok 1(2)] weighed_same])
qed

lemma weighed_consolidate:
  assumes ok: "asset_ops_ok c" and u: "consolidate c n s = Inr s'" shows "weighed s s'"
  using u
proof (cases rule: consolidate_parts)
  case (1 s1 z r s2 rb)
  have "sources s' = sources s1" using sources_account [OF 1(5)] by (simp add: 1(7))
  then show ?thesis by (rule weighed_trans [OF weighed_runrex [OF ok 1(2)] weighed_same])
qed

lemma weighed_mvtosavings:
  assumes ok: "asset_ops_ok c" and u: "mvtosavings c n q s = Inr s'" shows "weighed s s'"
  using u
proof (cases rule: mvtosavings_parts)
  case (1 s1 rb0 z r s2 rb1 sav rb2 rb3)
  have "sources s' = sources s1" using sources_account [OF 1(6)] by (simp add: 1(11))
  then show ?thesis by (rule weighed_trans [OF weighed_runrex [OF ok 1(2)] weighed_same])
qed

lemma weighed_mvfrsavings:
  assumes ok: "asset_ops_ok c" and u: "mvfrsavings c n q s = Inr s'" shows "weighed s s'"
  using u
proof (cases rule: mvfrsavings_parts)
  case (1 s1 rb0 sav rb1 s2 z r)
  have "sources s' = sources s1" using sources_account [OF 1(9)] by (simp add: 1(7))
  then show ?thesis by (rule weighed_trans [OF weighed_runrex [OF ok 1(2)] weighed_same])
qed

lemma weighed_closerex:
  assumes ok: "asset_ops_ok c" and u: "closerex c n s = Inr s'" shows "weighed s s'"
  using u
proof (cases rule: closerex_parts)
  case (1 s1 z r s2 f s3)
  have "weighed s s1" using 1(2) weighed_runrex [OF ok] by (auto split: if_splits)
  moreover have "sources s' = sources s1" using sources_account [OF 1(4)] 1(5,7) by auto
  ultimately show ?thesis by (rule weighed_trans [OF _ weighed_same])
qed

lemma weighed_simple:
  "deposit c n q s = Inr s' \<Longrightarrow> weighed s s'" "withdraw c n q s = Inr s' \<Longrightarrow> weighed s s'"
  "setrex c q s = Inr s' \<Longrightarrow> weighed s s'" "cnclrexorder c n s = Inr s' \<Longrightarrow> weighed s s'"
  by (rule weighed_same, auto simp: deposit_def withdraw_def setrex_def cnclrexorder_def res_simps dest!: sources_funds sources_account)+

lemma weighed_rexexec: "asset_ops_ok c \<Longrightarrow> rexexec c n mx s = Inr s' \<Longrightarrow> weighed s s'"
  by (auto simp: rexexec_def intro: weighed_runrex)

section \<open>Staking\<close>

lemma gap_totals:
  assumes ok: "asset_ops_ok c" and u: "update_totals c n nd cd s = Inr s'"
  shows "gap kind r s' = gap kind r s + (if r = n then part_of kind (amount nd, amount cd) else 0)"
  using u
proof (cases rule: update_totals_parts)
  case (1 tot l)
  have same: "delband s' = delband s" "loans_of kind s' = loans_of kind s" by (cases kind; simp add: 1(4) store_totals_def)+
  have new: "amount (net_weight tot) = fst (weights (userres s) n) + amount nd"
    "amount (cpu_weight tot) = snd (weights (userres s) n) + amount cd"
    using 1(1) ok by (auto simp: grown_totals_def weights_def res_simps asset_addD split: option.splits)
  have w: "weights (userres s') x = (if x = n then (amount (net_weight tot), amount (cpu_weight tot)) else weights (userres s) x)" for x
    by (simp add: 1(4) weights_def res_empty_def store_totals_def)
  show ?thesis unfolding gap_def same by (cases kind) (simp_all add: w new)
qed

lemma gap_delband:
  assumes ok: "asset_ops_ok c" and u: "update_delband c f n nd cd s = Inr s'"
  shows "gap kind r s' = gap kind r s - (if r = n then part_of kind (amount nd, amount cd) else 0)"
proof -
  obtain d where d: "(case fmlookup (delband s) (f, n) of
         None \<Rightarrow> Inr \<lparr>dbw_net = nd, dbw_cpu = cd\<rparr>
       | Some d \<Rightarrow> bindr (asset_add c (dbw_net d) nd) (\<lambda>x. bindr (asset_add c (dbw_cpu d) cd) (\<lambda>p.
           Inr \<lparr>dbw_net = x, dbw_cpu = p\<rparr>))) = Inr d"
    and s': "s' = s\<lparr>delband := if dbw_empty d then fmdrop (f, n) (delband s) else fmupd (f, n) d (delband s)\<rparr>"
    using u by (auto simp: update_delband_def bindr_Inr)
  have v: "given kind r (f, n) d = row_val (given kind r) (f, n) (fmlookup (delband s) (f, n))
      + (if r = n then part_of kind (amount nd, amount cd) else 0)"
    using d ok by (cases kind) (auto simp: given_def res_simps asset_addD split: option.splits)
  have e: "dbw_empty d \<Longrightarrow> given kind r (f, n) d = 0" by (cases kind) (auto simp: given_def dbw_empty_def)
  have "fmsum (given kind r) (delband s') = fmsum (given kind r) (delband s) + (if r = n then part_of kind (amount nd, amount cd) else 0)"
    using v e by (auto simp: s' fmsum_upd fmsum_drop)
  moreover have "weights (userres s') = weights (userres s)" "loans_of kind s' = loans_of kind s" by (cases kind; simp add: s')+
  ultimately show ?thesis by (simp add: gap_def)
qed

lemma sources_stake_or_refund: "stake_or_refund c src n r tr nd cd s = Inr s' \<Longrightarrow> sources s' = sources s"
proof (erule stake_or_refund_parts)
  fix nb cb need s1 p q
  assume u: "(if (\<not> tr \<and> n = r) \<or> i64 (amount nd + amount cd) < 0 then update_refund c n nd cd s
      else Inr (nd, cd, False, s)) = Inr (nb, cb, need, s1)"
    and s': "s' = (if 0 < amount q then send_transfer [Perm src active_permission] src stake_account q ''stake bandwidth''
       (s1\<lparr>pending := p\<rparr>) else s1\<lparr>pending := p\<rparr>)"
  have "sources s1 = sources s"
    using u by (auto simp: update_refund_def res_simps Let_def sources_def split: option.splits if_splits)
  then show ?thesis by (simp add: s' sources_def send_transfer_def)
qed

lemma weighed_changebw:
  assumes ok: "asset_ops_ok c" and u: "changebw c src r nd cd tr s = Inr s'" shows "weighed s s'"
  using u
proof (cases rule: changebw_parts)
  case (1 n q s1 s2 s3 s4)
  have "weighed s s2"
    using gap_totals [OF ok 1(7)] gap_delband [OF ok 1(6)] by (simp add: weighed_def)
  moreover have "sources s' = sources s2"
    using 1(8) sources_view [OF view_update_rex_stake [OF 1(9)]] sources_view [OF view_update_voting_power [OF 1(10)]]
    by (auto dest: sources_stake_or_refund split: if_splits)
  ultimately show ?thesis by (rule weighed_trans [OF _ weighed_same])
qed

lemma weighed_delegatebw: "asset_ops_ok c \<Longrightarrow> delegatebw c n r nq cq tr s = Inr s' \<Longrightarrow> weighed s s'"
  by (erule delegatebw_parts) (rule weighed_changebw)

lemma weighed_undelegatebw: "asset_ops_ok c \<Longrightarrow> undelegatebw c n r nq cq s = Inr s' \<Longrightarrow> weighed s s'"
  by (erule undelegatebw_parts) (rule weighed_changebw)

lemma weighed_refund: "refund c n s = Inr s' \<Longrightarrow> weighed s s'"
  by (rule weighed_same, erule refund_parts) (simp add: sources_def send_transfer_def)

text \<open>Buying REX with staked tokens takes the same amounts from the delegation and from the totals.\<close>

lemma weighed_unstaketorex:
  assumes ok: "asset_ops_ok c" and u: "unstaketorex c n r nq cq s = Inr s'" shows "weighed s s'"
  using u
proof (cases rule: unstaketorex_parts)
  case (1 d d1 s1 s2 pay rec s3 x s4 s5 z y s6)
  have gv: "u64 (given kind k (n, r) d1 - given kind k (n, r) d) = u64 (if k = r then part_of kind (- amount nq, - amount cq) else 0)" for kind k
  proof -
    have "u64 (i64 (a - b) - a) = u64 (- b)" for a b by simp
    then show ?thesis by (cases kind) (auto simp: given_def 1(10))
  qed
  have e: "dbw_empty d1 \<Longrightarrow> given kind k (n, r) d1 = 0" for kind k by (cases kind) (auto simp: given_def dbw_empty_def)
  have "fmsum (given kind k) (delband s1) = fmsum (given kind k) (delband s) - given kind k (n, r) d + given kind k (n, r) d1" for kind k
    using e by (auto simp: 1(11) fmsum_upd fmsum_drop 1(7))
  moreover have "userres s1 = userres s" "loans_of kind s1 = loans_of kind s" for kind by (cases kind; simp add: 1(11))+
  ultimately have "gap kind k s1 = gap kind k s - (given kind k (n, r) d1 - given kind k (n, r) d)" for kind k
    by (simp add: gap_def)
  then have g1: "u64 (gap kind k s1) = u64 (gap kind k s - (if k = r then part_of kind (- amount nq, - amount cq) else 0))" for kind k
    using u64_diff_cong [OF refl gv] by simp
  have p: "u64 (part_of kind (i64 x, i64 y)) = u64 (part_of kind (x, y))" for kind x y by (cases kind) simp_all
  have "weighed s s2"
    unfolding weighed_def
  proof (intro allI)
    fix kind k
    have "u64 (gap kind k s2) = u64 (gap kind k s1 + (if k = r then part_of kind (i64 (- amount nq), i64 (- amount cq)) else 0))"
      by (rule gap_limits [OF ok 1(12)])
    also have "\<dots> = u64 (gap kind k s - (if k = r then part_of kind (- amount nq, - amount cq) else 0)
        + (if k = r then part_of kind (- amount nq, - amount cq) else 0))"
      by (rule u64_cong [OF g1]) (simp add: p)
    finally show "u64 (gap kind k s2) = u64 (gap kind k s)" by simp
  qed
  moreover have "sources s4 = sources s2" using sources_add_pool [OF 1(14)] sources_add_balance [OF 1(15)] by simp
  ultimately have "weighed s s5" by (rule weighed_chain [OF _ weighed_same weighed_runrex [OF ok 1(16)]])
  moreover have "sources s' = sources s5" using sources_account [OF 1(18)] by (simp add: 1(19))
  ultimately show ?thesis by (rule weighed_trans [OF _ weighed_same])
qed

section \<open>The other actions\<close>

lemma sources_onblock: "onblock c t n s = Inr s' \<Longrightarrow> sources s' = sources s"
proof -
  assume u: "onblock c t n s = Inr s'"
  have "cpu_loans s' = cpu_loans s \<and> net_loans s' = net_loans s"
    using u
  proof (cases rule: onblock_parts)
    case (1 s1 s2 s3)
    have close: "cpu_loans (close_highest_bid c t x) = cpu_loans x \<and> net_loans (close_highest_bid c t x) = net_loans x" for x
      by (auto simp: close_highest_bid_def channel_namebid_to_rex_def Let_def split: option.splits)
    have elect: "cpu_loans (update_elected_producers c t x) = cpu_loans x \<and> net_loans (update_elected_producers c t x) = net_loans x" for x
      using footprintD(1) [of "{}" "{}" x "update_elected_producers c t x" Rexing] by simp
    show ?thesis using 1(2,4,5,6) close elect by (auto simp: count_block_def split: option.splits)
  qed
  then show ?thesis
    using footprintD(1) [OF footprint_onblock [OF u], of Staking] footprintD(1) [OF footprint_onblock [OF u], of Weighing]
    by (simp add: sources_def)
qed

lemma sources_ram_upd [simp]:
  "sources (s\<lparr>gstate := g\<rparr>) = sources s" "sources (s\<lparr>rammarket := m\<rparr>) = sources s" "sources (s\<lparr>namebids := nb\<rparr>) = sources s"
  "sources (s\<lparr>gstate2 := g2\<rparr>) = sources s" "sources (set_limits n l s) = sources s" "sources (set_ram_limit n b s) = sources s"
  by (simp_all add: sources_def set_limits_def set_ram_limit_def split: prod.splits)

lemma sources_supply: "update_ram_supply c s = Inr s' \<Longrightarrow> sources s' = sources s"
  by (auto simp: update_ram_supply_def res_simps Let_def with_market_def sources_def split: if_splits)

lemma sources_row:
  assumes "(amount (net_weight u), amount (cpu_weight u)) = weights (userres s) n"
  shows "sources (s\<lparr>userres := fmupd n u (userres s)\<rparr>) = sources s"
  using assms by (auto simp: sources_def weights_def fun_eq_iff)

lemma sources_buyram:
  assumes ok: "asset_ops_ok c" and u: "buyram c n r q s = Inr s'" shows "sources s' = sources s"
  using u
proof (cases rule: buyram_parts)
  case (1 s1 fee price s2 m m1 out)
  have "sources s2 = sources s" using sources_supply [OF 1(2)] by (simp add: 1(7) pay_ram_def Let_def)
  moreover have "sources y = sources x" if "credit_ram c r b x = Inr y" for b x y
    using that
  proof (cases rule: credit_ram_parts)
    case (1 u)
    have "(amount (net_weight u), amount (cpu_weight u)) = weights (userres x) r"
      using 1(2) by (auto simp: weights_def core_asset_Inr asset_newD [OF ok] split: option.splits)
    then show ?thesis by (simp add: 1(3) sources_row)
  qed
  ultimately show ?thesis using 1(11) by (simp add: sources_def)
qed

lemma sources_sellram:
  assumes "sellram c n b s = Inr s'" shows "sources s' = sources s"
  using assms
proof (cases rule: sellram_parts)
  case (1 s1 r m q sy out m1 stake r1)
  have pay: "sources y = sources x" if "pay_seller c n out x = Inr y" for x y
    using that by (auto simp: pay_seller_def Let_def core_asset_Inr split: if_splits)
  have "(amount (net_weight r1), amount (cpu_weight r1)) = weights (userres s1) n"
    by (simp add: 1(13) weights_def 1(4))
  then have "weights (fmupd n r1 (userres s1)) = weights (userres s1)" by (auto simp: weights_def fun_eq_iff)
  then have "sources (s1\<lparr>rammarket := x, gstate := g, userres := fmupd n r1 (userres s1)\<rparr>) = sources s1" for x g
    by (simp add: sources_def)
  then show ?thesis using pay [OF 1(14)] sources_supply [OF 1(2)] by simp
qed

lemma sources_newaccount:
  assumes ok: "asset_ops_ok c" and u: "newaccount c k n s = Inr s'" shows "sources s' = sources s"
  using u
proof (cases rule: newaccount_parts)
  case (1 nb z)
  have "weights (userres s') = weights (userres s)"
    using 1(2,3) by (auto simp: 1(4) weights_def fun_eq_iff set_limits_def core_asset_Inr asset_newD [OF ok])
  then show ?thesis by (simp add: sources_def) (simp add: 1(4) set_limits_def)
qed

lemma action_weighed:
  assumes g: "good_ctx c" and u: "apply_sys c a s = Inr s'" shows "weighed s s'"
proof (cases "touches a \<inter> {Staking, Rexing, Weighing} = {}")
  case True
  have "sources s' = sources s"
    using footprintD(1) [OF action_footprint [OF u]] True
    by (simp add: sources_def) (metis same.simps(1,5,7) Int_insert_right insert_not_empty)
  then show ?thesis by (rule weighed_same)
next
  case False
  have ok: "asset_ops_ok c" using g by (simp add: good_ctx_def)
  show ?thesis
  proof (cases a)
    case (BuyRamBytes n r b)
    with u show ?thesis by (auto elim!: buyrambytes_parts intro: weighed_same sources_buyram [OF ok])
  qed (use u False in \<open>simp_all add: weighed_buyrex [OF ok] weighed_sellrex [OF ok] weighed_rentrex [OF ok] weighed_fundloan
      weighed_defloan weighed_updaterex [OF ok] weighed_consolidate [OF ok] weighed_mvtosavings [OF ok] weighed_mvfrsavings [OF ok]
      weighed_closerex [OF ok] weighed_simple weighed_rexexec [OF ok] weighed_delegatebw [OF ok] weighed_undelegatebw [OF ok]
      weighed_refund weighed_unstaketorex [OF ok] weighed_same [OF sources_onblock] weighed_same [OF sources_buyram [OF ok]]
      weighed_same [OF sources_sellram] weighed_same [OF sources_newaccount [OF ok]]\<close>)
qed

text \<open>So the difference between the totals and their sources never changes.\<close>

definition balanced :: "sys_state \<Rightarrow> bool" where
  "balanced s \<longleftrightarrow> (\<forall>kind r. u64 (gap kind r s) = 0)"

lemma gap_effects [simp]: "gap kind r (s\<lparr>outbox := l\<rparr>) = gap kind r s" "gap kind r (s\<lparr>tokens := t\<rparr>) = gap kind r s"
  by (cases kind; simp add: gap_def)+

interpretation bandwidth_kept: steady core balanced for core
  by unfold_locales (auto simp: balanced_def dest: action_weighed simp: weighed_def)

text \<open>
  C27: Bandwidth is accounted for, over any run of the chain: the NET of an account is what is delegated
  to it plus what the loans rent for it, and so is its CPU (in the 64-bit arithmetic of the code),
  whatever is staked, unstaked, turned into REX, rented, renewed or expired in between.
\<close>

theorem bandwidth_is_accounted_for:
  assumes "\<forall>e\<in>set es. good_event core e" "run_all world_step es (genesis params lims t) = Inr s"
  shows "u64 (fst (weights (userres s) r))
      = u64 (fmsum (\<lambda>(_, to) d. if to = r then amount (dbw_net d) else 0) (delband s)
         + fmsum (\<lambda>_ l. if loan_receiver l = r then amount (total_staked l) else 0) (net_loans s))
    \<and> u64 (snd (weights (userres s) r))
      = u64 (fmsum (\<lambda>(_, to) d. if to = r then amount (dbw_cpu d) else 0) (delband s)
         + fmsum (\<lambda>_ l. if loan_receiver l = r then amount (total_staked l) else 0) (cpu_loans s))"
proof -
  have "gap kind r (genesis params lims t) = 0" for kind r by (cases kind) (simp_all add: gap_def weights_def)
  then have "balanced (genesis params lims t)" by (simp add: balanced_def u64_def)
  then have b: "balanced s" by (intro bandwidth_kept.world.run_inv [OF _ _ assms(2)]) (use assms(1) in auto)
  have f: "given NetLoan r = (\<lambda>(_, to) d. if to = r then amount (dbw_net d) else 0)"
    "given CpuLoan r = (\<lambda>(_, to) d. if to = r then amount (dbw_cpu d) else 0)"
    "lent_to r = (\<lambda>_ l. if loan_receiver l = r then amount (total_staked l) else 0)"
    by (auto simp: fun_eq_iff given_def lent_to_def)
  have z: "u64 x = u64 (y + z)" if "u64 (x - y - z) = 0" for x y z :: int
    using u64_cong [of "x - y - z" 0 "y + z" "y + z"] that by (simp add: u64_def [of 0])
  show ?thesis
    using b [unfolded balanced_def, rule_format, of NetLoan r] b [unfolded balanced_def, rule_format, of CpuLoan r]
    by (simp add: gap_def f z)
qed

lemma modest_good: "modest_event cap fair core e \<Longrightarrow> good_event core e"
  by (cases e) auto

theorem bandwidth_is_accounted_for_witness:
  "fst (weights (userres ex_bought) ex_alice) = 100000
    \<and> u64 (fst (weights (userres ex_bought) ex_alice))
      = u64 (fmsum (\<lambda>(_, to) d. if to = ex_alice then amount (dbw_net d) else 0) (delband ex_bought)
         + fmsum (\<lambda>_ l. if loan_receiver l = ex_alice then amount (total_staked l) else 0) (net_loans ex_bought))"
proof -
  have "\<forall>e\<in>set (((ex_launch @ [ex_stake]) @ ex_votes) @ ex_rex). good_event ex_sy e"
    using ex_rex_modest modest_good by blast
  from bandwidth_is_accounted_for [OF this ex_rex_run [unfolded ex_genesis_def], of ex_alice]
  show ?thesis by (auto simp: weights_def ex_bought_def ex_deposited_def ex_voted_def ex_staked_def)
qed

end
