(* ===== verification/Funds.thy ===== *)
theory Funds
  imports Payouts RexPrice WeightLedger
begin

text \<open>
  The fund of a REX user as an account: what was deposited can be withdrawn, and a deposit that is
  withdrawn again leaves nothing behind.
\<close>

section \<open>Settling without an order\<close>

definition no_filled_order :: "name \<Rightarrow> sys_state \<Rightarrow> bool" where
  "no_filled_order n s \<longleftrightarrow> (\<forall>ord. fmlookup (rexorders s) n = Some ord \<longrightarrow> is_open ord)"

lemma account_unchanged:
  assumes ok: "asset_ops_ok c" and "symbol_valid c rex_symbol" "no_filled_order n s" "amount z = 0"
  shows "\<exists>r. update_rex_account c n z z False s = Inr (r, s)"
proof -
  have "asset_new c 0 rex_symbol = Inr (ast 0 rex_symbol)"
    using assms(2) by (simp add: asset_newD [OF ok] max_amount_def)
  then show ?thesis using assms(3,4)
    by (auto simp: update_rex_account_def settle_order_def no_filled_order_def split: option.splits)
qed

definition pay_out :: "name \<Rightarrow> asset \<Rightarrow> inline_action" where
  "pay_out n q = ToToken [Perm rex_account active_permission] (Transfer rex_account n q ''withdraw from REX fund'')"

lemma withdraw_runs:
  assumes ok: "asset_ops_ok c" and v: "symbol_valid c rex_symbol" "symbol_valid c core"
    and n: "has_auth c n" "no_filled_order n s" and y: "core_sym s = Some core"
    and f: "fmlookup (rexfunds s) n = Some f" "symb f = core" and q: "symb q = core" "0 < amount q" "amount q \<le> amount f"
    and i: "in_i64 (amount f)"
  shows "apply_sys c (Withdraw n q) s = Inr (s\<lparr>rexfunds := fmupd n (f\<lparr>amount := amount f - amount q\<rparr>) (rexfunds s),
    outbox := outbox s @ [pay_out n q]\<rparr>)"
proof -
  have z: "core_asset c s 0 k = k (ast 0 core)" for k :: "asset \<Rightarrow> sys_state res"
  proof -
    have "asset_new c 0 core = Inr (ast 0 core)" using v(2) by (simp add: asset_newD [OF ok] max_amount_def)
    then show ?thesis by (simp add: core_asset_def y)
  qed
  obtain r where r: "update_rex_account c n (ast 0 core) (ast 0 core) False s = Inr (r, s)"
    using account_unchanged [OF ok v(1) n(2), of "ast 0 core"] by auto
  have "asset_le c q f = Inr True" using q f by (simp add: asset_leD [OF ok])
  moreover have "i64 (amount f - amount q) = amount f - amount q" using q i by (simp add: i64_id in_i64_def)
  ultimately have "transfer_from_fund c n q s = Inr (s\<lparr>rexfunds := fmupd n (f\<lparr>amount := amount f - amount q\<rparr>) (rexfunds s)\<rparr>)"
    using q f y by (simp add: transfer_from_fund_def)
  then show ?thesis
    using n(1) q(1,2) y r by (simp add: withdraw_def require_auth_def z send_transfer_def pay_out_def)
qed

text \<open>Where the REX account covers the funds, a withdrawal is paid.\<close>

lemma withdraw_pays:
  assumes g: "good_ctx c" and v: "symbol_valid c rex_symbol" "symbol_valid c core"
    and n: "has_auth c n" "is_account c n" "no_filled_order n s" and y: "core_sym s = Some core"
    and f: "fmlookup (rexfunds s) n = Some f" "symb f = core" and q: "symb q = core" "0 < amount q" "amount q \<le> amount f"
    and i: "in_i64 (amount f)" and inv: "ledger_inv (tokens s)" and l: "listed core (tokens s)" and ob: "outbox s = []"
    and b: "amount q \<le> bal (sym_code core) (tokens s) rex_account"
  shows "\<exists>t. world_step (Sys c (Withdraw n q)) s = Inr (s\<lparr>rexfunds := fmupd n (f\<lparr>amount := amount f - amount q\<rparr>) (rexfunds s), tokens := t\<rparr>)
    \<and> (\<forall>code m. bal code t m = bal code (tokens s) m
        + (if code = sym_code core then (if m = n then amount q else 0) - (if m = rex_account then amount q else 0) else 0))"
proof -
  have ok: "asset_ops_ok c" and ne: "rex_account \<noteq> n" using g n(1) by (auto simp: good_ctx_def held_accounts_def)
  let ?s1 = "s\<lparr>rexfunds := fmupd n (f\<lparr>amount := amount f - amount q\<rparr>) (rexfunds s), outbox := outbox s @ [pay_out n q]\<rparr>"
  note a = withdraw_runs [OF ok v n(1,3) y f q i]
  obtain t where t: "run_outbox c [pay_out n q] (tokens s) = Inr t"
    using payout_runs [OF ok inv l q(1,2) b ne n(2) v(2), of "''withdraw from REX fund''" "[]"] by (auto simp: pay_out_def)
  have "world_step (Sys c (Withdraw n q)) s = Inr (?s1\<lparr>outbox := [], tokens := t\<rparr>)"
    by (rule payout_step [OF a ob]) (use t(1) ob in \<open>simp_all del: run_outbox.simps\<close>)
  moreover have "?s1\<lparr>outbox := [], tokens := t\<rparr> = s\<lparr>rexfunds := fmupd n (f\<lparr>amount := amount f - amount q\<rparr>) (rexfunds s), tokens := t\<rparr>"
    using ob by simp
  moreover have "bal code t m = bal code (tokens s) m
      + (if code = sym_code core then (if m = n then amount q else 0) - (if m = rex_account then amount q else 0) else 0)" for code m
    using run_outbox_flows [OF ok _ t(1), of code m] q(1) by (simp add: pay_out_def account_defs)
  ultimately show ?thesis by metis
qed

text \<open>
  C36: A REX fund is as good as a balance: in every state the chain can reach, a user without a filled
  order still to settle withdraws any part of the fund, and it arrives in full.
\<close>

theorem fund_is_paid:
  assumes "core_ok core" "ledger_inv t" "capped rex_cap core t" "\<forall>e\<in>set es. modest_event rex_cap rex_fair core e"
    and "run_all world_step es (genesis params lims t) = Inr s"
    and "fmlookup (rexfunds s) n = Some f" "symb q = core" "0 < amount q" "amount q \<le> amount f" "core_sym s = Some core"
    and "good_ctx c" "has_auth c n" "is_account c n" "symbol_valid c core" "symbol_valid c rex_symbol" "no_filled_order n s"
  shows "\<exists>s'. world_step (Sys c (Withdraw n q)) s = Inr s'
    \<and> rexfunds s' = fmupd n (f\<lparr>amount := amount f - amount q\<rparr>) (rexfunds s)
    \<and> bal (sym_code core) (tokens s') n = bal (sym_code core) (tokens s) n + amount q"
proof -
  have good: "\<forall>e\<in>set es. good_event core e" using assms(4) modest_good by blast
  note r = reachable_rows [OF assms(1,2) good assms(5)]
  note x = reachable_rex [OF assms(1-5)]
  have ob: "outbox s = []" using r(4) by (simp add: core_listed_def)
  have ne: "rex_account \<noteq> n" using assms(11,12) by (auto simp: good_ctx_def held_accounts_def)
  have f: "symb f = core" using r(3) assms(6) by (simp add: funds_typed_def)
  have w: "rex_fine core s" using x(1) by (simp add: rex_wf_def)
  have le: "amount f \<le> rex_owed s" by (rule rex_row_bounds(1) [OF w assms(6)])
  have i: "in_i64 (amount f)" using le x(3) rex_fineD(1) [OF w assms(6)] by (simp add: in_i64_def rex_cap_def)
  have b: "amount q \<le> bal (sym_code core) (tokens s) rex_account" using le x(2) assms(9) by simp
  from withdraw_pays [OF assms(11,15,14,12,13,16,10,6) f assms(7-9) i r(5) listed_when_owing [OF r(4) disjI2 [OF disjI2 [OF assms(6)]]] ob b]
  show ?thesis using ne by auto
qed

text \<open>
  C37: A deposit that is withdrawn again leaves nothing behind: from every state the chain can reach
  with REX in it, once a user's deposit has gone through, the withdrawal of the same amount goes
  through, if the user has no filled order still to settle (\<open>withdraw\<close> would settle it on the way),
  and then every balance of every token and every fund is what it was, and every other table is
  untouched.
\<close>

theorem deposit_then_withdraw:
  assumes "core_ok core" "ledger_inv t" "capped rex_cap core t" "\<forall>e\<in>set (es @ [Sys c (Deposit n q)]). modest_event rex_cap rex_fair core e"
    and "run_all world_step es (genesis params lims t) = Inr s" "world_step (Sys c (Deposit n q)) s = Inr s1"
    and "good_ctx d" "has_auth d n" "is_account d n" "symbol_valid d core" "symbol_valid d rex_symbol" "no_filled_order n s"
  shows "\<exists>s2. world_step (Sys d (Withdraw n q)) s1 = Inr s2
    \<and> (\<forall>code m. bal code (tokens s2) m = bal code (tokens s) m)
    \<and> (\<forall>m. row_val fund_val m (fmlookup (rexfunds s2) m) = row_val fund_val m (fmlookup (rexfunds s) m))
    \<and> s2 = s\<lparr>rexfunds := rexfunds s2, tokens := tokens s2\<rparr>"
proof -
  let ?es = "es @ [Sys c (Deposit n q)]"
  have run1: "run_all world_step ?es (genesis params lims t) = Inr s1" using assms(5,6) by (simp add: run_all_append del: world_step.simps)
  have good: "\<forall>e\<in>set ?es. good_event core e" using assms(4) modest_good by blast
  have good0: "\<forall>e\<in>set es. good_event core e" and modest0: "\<forall>e\<in>set es. modest_event rex_cap rex_fair core e"
    using good assms(4) by simp_all
  note r = reachable_rows [OF assms(1,2) good run1] and r0 = reachable_rows [OF assms(1,2) good0 assms(5)]
  note x = reachable_rex [OF assms(1-4) run1] and x0 = reachable_rex [OF assms(1-3) modest0 assms(5)]
  have ok: "asset_ops_ok c" using good by (simp add: good_ctx_def)
  have ob: "outbox s1 = []" "s\<lparr>outbox := []\<rparr> = s" "outbox s = []" using r(4) r0(4) by (simp_all add: core_listed_def)
  let ?p = "ToToken [Perm n active_permission] (Transfer n rex_account q ''deposit to REX fund'')"
  obtain f t1 where y: "core_sym s = Some (symb q)" and q: "0 < amount q"
    and f: "f = (case fmlookup (rexfunds s) n of None \<Rightarrow> q | Some f \<Rightarrow> f\<lparr>amount := i64 (amount f + amount q)\<rparr>)"
    and t1: "run_outbox c [?p] (tokens s) = Inr t1"
    and s1: "s1 = s\<lparr>rexfunds := fmupd n f (rexfunds s), tokens := t1\<rparr>"
    using assms(6) ob(2,3) by (auto simp: exec_sys_def deposit_def transfer_to_fund_def send_transfer_def res_simps)
  have sy: "symb q = core" using market_ok_core [OF _ y] reachable_rex_state [OF assms(1-3) modest0 assms(5)] by simp
  note flow = run_outbox_flows [OF ok _ t1]
  have qm: "amount q \<le> max_amount" using flow [of "sym_code core" n] by simp
  have b1: "bal code t1 m = bal code (tokens s) m
      + (if code = sym_code core then (if m = rex_account then amount q else 0) - (if m = n then amount q else 0) else 0)" for code m
    using flow [of code m] sy by (simp add: account_defs)
  have wf: "rex_fine core s" "rex_fine core s1" using x(1) x0(1) by (simp_all add: rex_wf_def)
  have row: "fmlookup (rexfunds s1) n = Some f" by (simp add: s1)
  have amt: "amount f = row_val fund_val n (fmlookup (rexfunds s) n) + amount q"
  proof (cases "fmlookup (rexfunds s) n")
    case (Some g)
    have "0 \<le> amount g" "amount g \<le> rex_cap" using rex_fineD(1) [OF wf(1) Some] rex_row_bounds(1) [OF wf(1) Some] x0(3) by simp_all
    then show ?thesis using Some f q qm by (simp add: fund_val_def i64_id in_i64_def rex_cap_def max_amount_def)
  qed (simp add: f)
  have nn: "0 \<le> row_val fund_val n (fmlookup (rexfunds s) n)"
    using rex_fineD(1) [OF wf(1)] by (cases "fmlookup (rexfunds s) n") (auto simp: fund_val_def)
  have fs: "symb f = core" using r(3) row by (simp add: funds_typed_def)
  have le: "amount f \<le> rex_owed s1" by (rule rex_row_bounds(1) [OF wf(2) row])
  have i: "in_i64 (amount f)" using le x(3) nn amt q by (simp add: in_i64_def rex_cap_def)
  have y1: "core_sym s1 = Some core" using y sy core_sym_cong [of s1 s] by (simp add: s1)
  have nf: "no_filled_order n s1" using assms(12) by (simp add: no_filled_order_def s1)
  have le': "amount q \<le> amount f" using nn amt by simp
  have lb: "amount q \<le> bal (sym_code core) (tokens s1) rex_account" using le le' x(2) by simp
  obtain t2 where t2: "world_step (Sys d (Withdraw n q)) s1
      = Inr (s1\<lparr>rexfunds := fmupd n (f\<lparr>amount := amount f - amount q\<rparr>) (rexfunds s1), tokens := t2\<rparr>)"
    "\<forall>code m. bal code t2 m = bal code (tokens s1) m
      + (if code = sym_code core then (if m = n then amount q else 0) - (if m = rex_account then amount q else 0) else 0)"
    using withdraw_pays [OF assms(7,11,10,8,9) nf y1 row fs sy q le' i r(5) listed_when_owing [OF r(4) disjI2 [OF disjI2 [OF row]]] ob(1) lb]
    by blast
  show ?thesis
  proof (intro exI conjI allI)
    show "world_step (Sys d (Withdraw n q)) s1 = Inr (s1\<lparr>rexfunds := fmupd n (f\<lparr>amount := amount f - amount q\<rparr>) (rexfunds s1), tokens := t2\<rparr>)"
      by (rule t2(1))
  qed (use t2(2) b1 amt in \<open>auto simp: s1 fund_val_def\<close>)
qed

lemma ex_ctx: "good_ctx (ref_sys [ex_alice] ex_now)" "symbol_valid (ref_sys [ex_alice] ex_now) ex_sy"
  "symbol_valid (ref_sys [ex_alice] ex_now) rex_symbol"
  by (rule ref_sys_good, simp add: held_accounts_def account_defs) (simp_all add: ex_sy_def rex_symbol_def)

theorem fund_is_paid_witness:
  "\<exists>s'. world_step (Sys (ref_sys [ex_alice] ex_now) (Withdraw ex_alice (ast 600000 ex_sy))) ex_bought = Inr s'
     \<and> rexfunds s' = fmupd ex_alice (ast 0 ex_sy) (rexfunds ex_bought)
     \<and> bal 5459781 (tokens s') ex_alice = bal 5459781 (tokens ex_bought) ex_alice + 600000"
proof -
  have c: "capped rex_cap ex_sy empty_token_state" by (simp add: capped_def empty_token_state_def)
  have e: "\<forall>e\<in>set (((ex_launch @ [ex_stake]) @ ex_votes) @ ex_rex). modest_event rex_cap rex_fair ex_sy e" using ex_rex_modest by blast
  have f: "fmlookup (rexfunds ex_bought) ex_alice = Some (ast 600000 ex_sy)" by (simp add: ex_bought_def)
  have n: "no_filled_order ex_alice ex_bought" by (simp add: no_filled_order_def ex_bought_eval)
  from fund_is_paid [OF ex_core_ok ledger_inv_empty c e ex_rex_run [unfolded ex_genesis_def] f, of "ast 600000 ex_sy"
      "ref_sys [ex_alice] ex_now", OF _ _ _ ex_bought_sel(3) ex_ctx(1) _ _ ex_ctx(2,3) n]
  show ?thesis by (simp add: ex_sy_def)
qed

theorem deposit_then_withdraw_witness:
  "\<exists>s2. world_step (Sys (ref_sys [ex_alice] ex_now) (Withdraw ex_alice (ast 1000000 ex_sy))) ex_deposited = Inr s2
     \<and> s2 = ex_voted\<lparr>rexfunds := rexfunds s2, tokens := tokens s2\<rparr>
     \<and> bal 5459781 (tokens s2) ex_alice = bal 5459781 (tokens ex_voted) ex_alice"
proof -
  have c: "capped rex_cap ex_sy empty_token_state" by (simp add: capped_def empty_token_state_def)
  have e: "\<forall>e\<in>set (((ex_launch @ [ex_stake]) @ ex_votes) @ [Sys (ref_sys [ex_alice] ex_now) (Deposit ex_alice (ast 1000000 ex_sy))]).
      modest_event rex_cap rex_fair ex_sy e"
  proof
    fix e assume "e \<in> set (((ex_launch @ [ex_stake]) @ ex_votes) @ [Sys (ref_sys [ex_alice] ex_now) (Deposit ex_alice (ast 1000000 ex_sy))])"
    then have "e \<in> set (((ex_launch @ [ex_stake]) @ ex_votes) @ ex_rex)" by (auto simp: ex_rex_def)
    then show "modest_event rex_cap rex_fair ex_sy e" by (rule ex_rex_modest)
  qed
  have n: "no_filled_order ex_alice ex_voted" by (simp add: no_filled_order_def ex_bought_eval)
  from deposit_then_withdraw [OF ex_core_ok ledger_inv_empty c e ex_votes_run [unfolded ex_genesis_def] ex_deposit ex_ctx(1) _ _ ex_ctx(2,3) n]
  show ?thesis by (auto simp: ex_sy_def)
qed

end
