(* ===== verification/TokenSpec.thy ===== *)
theory TokenSpec
  imports Token
begin

text \<open>
  What eosio.token promises, as an abstract ledger: a coin per symbol code, and a purse per account
  and code that exists or not. One rule per action says when it is accepted and what it does; an
  issue credits the receiver at once. The contract, its tables, its range checks and its inline
  transfers, refines it exactly: it accepts the same actions and reaches the same ledger.
\<close>

section \<open>Refinement of a step function\<close>

definition outcome :: "('s \<Rightarrow> 'a) \<Rightarrow> 's res \<Rightarrow> 'a option" where
  "outcome f m = (case m of Inl _ \<Rightarrow> None | Inr s \<Rightarrow> Some (f s))"

lemma outcome_simps [simp]:
  "outcome f (Inl e) = None" "outcome f (Inr s) = Some (f s)"
  "outcome f (check b msg k) = (if b then outcome f k else None)"
  "outcome f (the_row r msg h) = (case r of None \<Rightarrow> None | Some x \<Rightarrow> outcome f (h x))"
  by (auto simp: outcome_def check_def split: option.splits)

lemma outcome_Some: "outcome f m = Some a \<longleftrightarrow> (\<exists>s. m = Inr s \<and> f s = a)"
  by (auto simp: outcome_def split: sum.splits)

lemma outcome_None: "outcome f m = None \<longleftrightarrow> (\<exists>e. m = Inl e)"
  by (auto simp: outcome_def split: sum.splits)

lemma outcome_bindr: "outcome f (bindr m k) = (case m of Inl _ \<Rightarrow> None | Inr x \<Rightarrow> outcome f (k x))"
  by (auto simp: outcome_def split: sum.splits)

fun run_spec :: "('e \<Rightarrow> 'a \<Rightarrow> 'a option) \<Rightarrow> 'e list \<Rightarrow> 'a \<Rightarrow> 'a option" where
  "run_spec step [] a = Some a"
| "run_spec step (e # es) a = (case step e a of None \<Rightarrow> None | Some b \<Rightarrow> run_spec step es b)"

locale refinement = machine step good inv
  for step :: "'e \<Rightarrow> 's \<Rightarrow> 's res" and good :: "'e \<Rightarrow> bool" and inv :: "'s \<Rightarrow> bool" +
  fixes spec :: "'e \<Rightarrow> 'a \<Rightarrow> 'a option" and view_of :: "'s \<Rightarrow> 'a"
  assumes step_refines: "good e \<Longrightarrow> inv s \<Longrightarrow> outcome view_of (step e s) = spec e (view_of s)"
begin

lemma run_refines:
  "(\<And>e. e \<in> set es \<Longrightarrow> good e) \<Longrightarrow> inv s \<Longrightarrow> outcome view_of (run_all step es s) = run_spec spec es (view_of s)"
proof (induction es arbitrary: s)
  case (Cons e es)
  have st: "outcome view_of (step e s) = spec e (view_of s)" by (rule step_refines) (use Cons.prems in auto)
  show ?case
  proof (cases "step e s")
    case (Inl x)
    with st show ?thesis by (auto simp: outcome_bindr)
  next
    case (Inr s')
    with st have "spec e (view_of s) = Some (view_of s')" by simp
    moreover have "inv s'" using step_inv [OF _ Cons.prems(2) Inr] Cons.prems(1) by simp
    ultimately show ?thesis using Cons.IH [of s'] Cons.prems(1) Inr by simp
  qed
qed simp

end

section \<open>The abstract ledger\<close>

record coin =
  coin_symbol :: symbol
  coin_issuer :: name
  coin_cap :: int
  coin_supply :: int

record ledger =
  coins :: "symbol_code \<Rightarrow> coin option"
  purses :: "name \<times> symbol_code \<Rightarrow> int option"

definition held_by :: "ledger \<Rightarrow> name \<Rightarrow> symbol_code \<Rightarrow> int" where
  "held_by l n k = (case purses l (n, k) of None \<Rightarrow> 0 | Some v \<Rightarrow> v)"

definition pay :: "name \<Rightarrow> symbol_code \<Rightarrow> int \<Rightarrow> ledger \<Rightarrow> ledger" where
  "pay n k d l = l\<lparr>purses := (purses l)((n, k) \<mapsto> held_by l n k + d)\<rparr>"

definition put_coin :: "symbol_code \<Rightarrow> coin \<Rightarrow> ledger \<Rightarrow> ledger" where
  "put_coin k x l = l\<lparr>coins := (coins l)(k \<mapsto> x)\<rparr>"

definition with_coin :: "ledger \<Rightarrow> symbol \<Rightarrow> (coin \<Rightarrow> ledger option) \<Rightarrow> ledger option" where
  "with_coin l sy f = (case coins l (sym_code sy) of None \<Rightarrow> None | Some x \<Rightarrow> if coin_symbol x = sy then f x else None)"

fun ledger_step :: "chain \<times> token_action \<Rightarrow> ledger \<Rightarrow> ledger option" where
  "ledger_step (c, Create i m) l =
     (if has_auth c (self c) \<and> symbol_valid c (symb m) \<and> 0 < amount m \<and> amount m \<le> max_amount
         \<and> coins l (sym_code (symb m)) = None
      then Some (put_coin (sym_code (symb m)) \<lparr>coin_symbol = symb m, coin_issuer = i, coin_cap = amount m, coin_supply = 0\<rparr> l)
      else None)"
| "ledger_step (c, Issue to q memo) l = with_coin l (symb q) (\<lambda>x.
     let k = sym_code (symb q) in
     if has_auth c (coin_issuer x) \<and> symbol_valid c (symb q) \<and> length memo \<le> 256 \<and> 0 < amount q
         \<and> coin_supply x + amount q \<le> coin_cap x \<and> (to = coin_issuer x \<or> is_account c to)
     then Some (pay to k (amount q) (pay (coin_issuer x) k 0 (put_coin k (x\<lparr>coin_supply := coin_supply x + amount q\<rparr>) l)))
     else None)"
| "ledger_step (c, Retire q memo) l = with_coin l (symb q) (\<lambda>x.
     let k = sym_code (symb q) in
     if has_auth c (coin_issuer x) \<and> symbol_valid c (symb q) \<and> length memo \<le> 256 \<and> 0 < amount q
         \<and> amount q \<le> held_by l (coin_issuer x) k
     then Some (pay (coin_issuer x) k (- amount q) (put_coin k (x\<lparr>coin_supply := coin_supply x - amount q\<rparr>) l))
     else None)"
| "ledger_step (c, Transfer f t q memo) l = with_coin l (symb q) (\<lambda>x.
     let k = sym_code (symb q) in
     if f \<noteq> t \<and> has_auth c f \<and> is_account c t \<and> symbol_valid c (symb q) \<and> length memo \<le> 256 \<and> 0 < amount q
         \<and> amount q \<le> held_by l f k
     then Some (pay t k (amount q) (pay f k (- amount q) l)) else None)"
| "ledger_step (c, Open ow sy payer) l = with_coin l sy (\<lambda>x.
     if has_auth c payer \<and> (purses l (ow, sym_code sy) = None \<longrightarrow> symbol_valid c sy)
     then Some (pay ow (sym_code sy) 0 l) else None)"
| "ledger_step (c, Close ow sy) l =
     (if has_auth c ow \<and> purses l (ow, sym_code sy) = Some 0
      then Some (l\<lparr>purses := (purses l)((ow, sym_code sy) := None)\<rparr>) else None)"

section \<open>The tables as a ledger\<close>

definition coin_of :: "currency_stats \<Rightarrow> coin" where
  "coin_of st = \<lparr>coin_symbol = symb (cur_supply st), coin_issuer = issuer st, coin_cap = amount (max_supply st),
     coin_supply = amount (cur_supply st)\<rparr>"

definition ledger_of :: "token_state \<Rightarrow> ledger" where
  "ledger_of s = \<lparr>coins = (\<lambda>k. map_option coin_of (fmlookup (stats s) k)),
     purses = (\<lambda>p. map_option (\<lambda>row. amount (balance row)) (fmlookup (accounts s) p))\<rparr>"

lemma coin_of_sel [simp]:
  "coin_symbol (coin_of st) = symb (cur_supply st)" "coin_issuer (coin_of st) = issuer st"
  "coin_cap (coin_of st) = amount (max_supply st)" "coin_supply (coin_of st) = amount (cur_supply st)"
  by (simp_all add: coin_of_def)

lemma ledger_of_sel [simp]:
  "coins (ledger_of s) k = map_option coin_of (fmlookup (stats s) k)"
  "purses (ledger_of s) p = map_option (\<lambda>row. amount (balance row)) (fmlookup (accounts s) p)"
  by (simp_all add: ledger_of_def)

lemma ledger_of_only [simp]: "ledger_of (s\<lparr>notified := y\<rparr>) = ledger_of s" "ledger_of (s\<lparr>inlines := z\<rparr>) = ledger_of s"
  by (simp_all add: ledger_of_def)

lemma held_by_bal [simp]: "held_by (ledger_of s) n k = bal k s n"
  by (simp add: held_by_def bal_unfold split: option.splits)

lemma held_by_pay [simp]:
  "held_by (pay n k d l) m j = held_by l m j + (if m = n \<and> j = k then d else 0)" "held_by (put_coin i x l) = held_by l"
  by (auto simp: held_by_def pay_def put_coin_def fun_eq_iff)

lemma pay_sel [simp]: "coins (pay n k d l) = coins l" "pay n k d (pay n k e l) = pay n k (e + d) l"
  by (simp_all add: pay_def held_by_def add.assoc)

lemma put_coin_sel: "coins (put_coin k x l) = (coins l)(k \<mapsto> x)"
  by (simp add: put_coin_def)

lemma ledger_of_row: "ledger_of (s\<lparr>accounts := fmupd (n, k) \<lparr>balance = ast (bal k s n + d) sy\<rparr> (accounts s)\<rparr>) = pay n k d (ledger_of s)"
  by (auto simp: ledger_of_def pay_def fun_eq_iff held_by_def bal_unfold split: option.splits)

lemma ledger_of_stat: "ledger_of (s\<lparr>stats := fmupd k st (stats s)\<rparr>) = put_coin k (coin_of st) (ledger_of s)"
  by (auto simp: ledger_of_def put_coin_def fun_eq_iff)

section \<open>Each action refines its rule\<close>

lemma sub_refines:
  assumes ok: "asset_ops_ok c" and q: "0 < amount q"
    and row: "\<And>row. fmlookup (accounts s) (n, sym_code (symb q)) = Some row \<Longrightarrow> symb (balance row) = symb q \<and> amount (balance row) \<le> max_amount"
  shows "outcome ledger_of (sub_balance c n q s) =
    (if amount q \<le> bal (sym_code (symb q)) s n then Some (pay n (sym_code (symb q)) (- amount q) (ledger_of s)) else None)"
proof (cases "amount q \<le> bal (sym_code (symb q)) s n")
  case True
  with q obtain r where r: "fmlookup (accounts s) (n, sym_code (symb q)) = Some r"
    by (cases "fmlookup (accounts s) (n, sym_code (symb q))") (auto simp: bal_unfold)
  then have b: "amount (balance r) = bal (sym_code (symb q)) s n" by (simp add: bal_unfold)
  have "sub_balance c n q s = Inr (s\<lparr>accounts := fmupd (n, sym_code (symb q))
      \<lparr>balance = ast (bal (sym_code (symb q)) s n + - amount q) (symb q)\<rparr> (accounts s)\<rparr>)"
    using row [OF r] True q r b by (simp add: sub_balance_Inr [OF ok])
  then show ?thesis using True by (simp only: outcome_simps ledger_of_row if_True)
next
  case False
  then have "\<not> succeeds (sub_balance c n q s)" by (auto simp: sub_balance_Inr [OF ok] bal_unfold)
  then have "\<exists>e. sub_balance c n q s = Inl e" by (cases "sub_balance c n q s") auto
  then show ?thesis using False by auto
qed

lemma add_refines:
  assumes ok: "asset_ops_ok c" and q: "0 < amount q" "0 \<le> bal (sym_code (symb q)) s n"
      "bal (sym_code (symb q)) s n + amount q \<le> max_amount"
    and row: "\<And>row. fmlookup (accounts s) (n, sym_code (symb q)) = Some row \<Longrightarrow> symb (balance row) = symb q"
  shows "outcome ledger_of (add_balance c n q s) = Some (pay n (sym_code (symb q)) (amount q) (ledger_of s))"
proof -
  have "add_balance c n q s = Inr (s\<lparr>accounts := fmupd (n, sym_code (symb q))
      \<lparr>balance = ast (bal (sym_code (symb q)) s n + amount q) (symb q)\<rparr> (accounts s)\<rparr>)"
    using q row by (cases q) (auto simp: add_balance_Inr [OF ok] bal_unfold split: option.splits)
  then show ?thesis by (simp only: outcome_simps ledger_of_row)
qed

lemma bal_le_supply:
  assumes "ledger_inv s" "fmlookup (stats s) k = Some st" shows "bal k s n \<le> amount (cur_supply st)"
  using bal_two_le_supply [OF assms, of "n + 1" n] bal_nonneg [OF assms(1), of k "n + 1"] by simp

lemma with_coin_of [simp]:
  "with_coin (ledger_of s) sy h = (case fmlookup (stats s) (sym_code sy) of None \<Rightarrow> None
     | Some st \<Rightarrow> if symb (cur_supply st) = sy then h (coin_of st) else None)"
  by (simp add: with_coin_def split: option.splits)

lemma move_refines:
  assumes ok: "asset_ops_ok c" and inv: "ledger_inv s" and st: "fmlookup (stats s) (sym_code (symb q)) = Some st"
    and q: "symb (cur_supply st) = symb q" "0 < amount q" "f \<noteq> t"
  shows "outcome ledger_of (bindr (sub_balance c f q s) (add_balance c t q)) =
    (if amount q \<le> bal (sym_code (symb q)) s f
     then Some (pay t (sym_code (symb q)) (amount q) (pay f (sym_code (symb q)) (- amount q) (ledger_of s))) else None)"
proof -
  let ?k = "sym_code (symb q)"
  have cap: "amount (cur_supply st) \<le> max_amount" using ledger_invD(1) [OF inv st] by (simp add: stat_ok_def)
  have row: "symb (balance r) = symb q \<and> amount (balance r) \<le> max_amount" if "fmlookup (accounts s) (f, ?k) = Some r" for r
    using bal_row [OF inv that st] bal_le_supply [OF inv st, of f] q cap by simp
  note sub = sub_refines [OF ok q(2), of s f, OF row]
  show ?thesis
  proof (cases "amount q \<le> bal ?k s f")
    case False
    then have "outcome ledger_of (sub_balance c f q s) = None" using sub by simp
    with False show ?thesis by (auto simp: outcome_None)
  next
    case True
    then have "outcome ledger_of (sub_balance c f q s) = Some (pay f ?k (- amount q) (ledger_of s))" using sub by simp
    then obtain s1 where s1: "sub_balance c f q s = Inr s1" "ledger_of s1 = pay f ?k (- amount q) (ledger_of s)"
      by (auto simp: outcome_Some)
    have b: "bal ?k s1 t = bal ?k s t" using sub_balance_bal [OF ok s1(1), of ?k t] q(3) by simp
    have "rows_ok s1" by (rule sub_balance_rows [OF ok _ s1(1)]) (use inv in \<open>simp add: ledger_inv_def\<close>)
    then have r1: "symb (balance r) = symb q" if "fmlookup (accounts s1) (t, ?k) = Some r" for r
      using that sub_balance_stats [OF s1(1)] st q(1) by (fastforce simp: rows_ok_def row_ok_def)
    have "outcome ledger_of (add_balance c t q s1) = Some (pay t ?k (amount q) (ledger_of s1))"
      by (rule add_refines [OF ok q(2) _ _ r1])
        (use b bal_nonneg [OF inv, of ?k t] bal_two_le_supply [OF inv st q(3)] True cap in auto)
    then show ?thesis using True s1 by simp
  qed
qed

lemma transfer_refines:
  assumes ok: "asset_ops_ok c" and inv: "ledger_inv s"
  shows "outcome ledger_of (transfer c f t q memo s) = ledger_step (c, Transfer f t q memo) (ledger_of s)"
proof (cases "fmlookup (stats s) (sym_code (symb q))")
  case None
  then show ?thesis by (simp add: transfer_def require_auth_def Let_def)
next
  case (Some st)
  let ?G = "f \<noteq> t \<and> has_auth c f \<and> is_account c t \<and> symbol_valid c (symb q) \<and> length memo \<le> 256 \<and> 0 < amount q
     \<and> symb (cur_supply st) = symb q"
  have cap: "amount (cur_supply st) \<le> max_amount" using ledger_invD(1) [OF inv Some] by (simp add: stat_ok_def)
  have le: "amount q \<le> bal (sym_code (symb q)) s f \<Longrightarrow> amount q \<le> max_amount"
    using bal_le_supply [OF inv Some, of f] cap by simp
  show ?thesis
  proof (cases "?G \<and> amount q \<le> max_amount")
    case True
    then have "transfer c f t q memo s = bindr (sub_balance c f q (s\<lparr>notified := notified s @ [f, t]\<rparr>)) (add_balance c t q)"
      using Some by (simp add: transfer_def require_auth_def Let_def asset_validD [OF ok])
    then show ?thesis using True Some inv
      by (simp add: move_refines [OF ok, of _ _ st] Let_def)
  next
    case False
    then have "outcome ledger_of (transfer c f t q memo s) = None"
      using Some by (auto simp: transfer_def require_auth_def Let_def asset_validD [OF ok])
    moreover have "ledger_step (c, Transfer f t q memo) (ledger_of s) = None"
      using False Some le by (auto simp: Let_def)
    ultimately show ?thesis by simp
  qed
qed

lemma create_refines:
  assumes "asset_ops_ok c"
  shows "outcome ledger_of (create c i m s) = ledger_step (c, Create i m) (ledger_of s)"
  using assms by (auto simp: create_def require_auth_def Let_def asset_validD ledger_of_stat coin_of_def)

lemma open_refines:
  assumes "asset_ops_ok c"
  shows "outcome ledger_of (open_row c ow sy p s) = ledger_step (c, Open ow sy p) (ledger_of s)"
proof (cases "fmlookup (accounts s) (ow, sym_code sy)")
  case None
  then have e: "ledger_of (s\<lparr>accounts := fmupd (ow, sym_code sy) \<lparr>balance = ast 0 sy\<rparr> (accounts s)\<rparr>) = pay ow (sym_code sy) 0 (ledger_of s)"
    using ledger_of_row [where s = s and n = ow and k = "sym_code sy" and d = 0 and sy = sy] by (simp add: bal_unfold)
  have n: "outcome ledger_of (bindr (asset_new c 0 sy) (\<lambda>z. Inr (s\<lparr>accounts := fmupd (ow, sym_code sy) \<lparr>balance = z\<rparr> (accounts s)\<rparr>)))
      = (if symbol_valid c sy then Some (pay ow (sym_code sy) 0 (ledger_of s)) else None)"
  proof (cases "symbol_valid c sy")
    case True
    then have "asset_new c 0 sy = Inr (ast 0 sy)" by (simp add: asset_newD [OF assms] max_amount_def)
    with True e show ?thesis by simp
  next
    case False
    then show ?thesis using asset_newD [OF assms, of 0 sy] by (cases "asset_new c 0 sy") auto
  qed
  from None show ?thesis by (auto simp: open_row_def require_auth_def n split: option.splits)
next
  case (Some r)
  then have "pay ow (sym_code sy) 0 (ledger_of s) = ledger_of s"
    by (auto simp: pay_def ledger_of_def bal_unfold fun_eq_iff held_by_def)
  with Some show ?thesis by (auto simp: open_row_def require_auth_def split: option.splits)
qed

lemma close_refines: "outcome ledger_of (close_row c ow sy s) = ledger_step (c, Close ow sy) (ledger_of s)"
proof -
  have "ledger_of (s\<lparr>accounts := fmdrop (ow, sym_code sy) (accounts s)\<rparr>)
      = (ledger_of s)\<lparr>purses := (purses (ledger_of s))((ow, sym_code sy) := None)\<rparr>"
    by (auto simp: ledger_of_def fun_eq_iff)
  then show ?thesis by (auto simp: close_row_def require_auth_def split: option.splits)
qed

lemma ledger_range:
  assumes "ledger_inv s" "fmlookup (stats s) k = Some st"
  shows "0 \<le> amount (cur_supply st)" "amount (cur_supply st) \<le> amount (max_supply st)" "amount (max_supply st) \<le> max_amount"
    "i64 (amount (max_supply st) - amount (cur_supply st)) = amount (max_supply st) - amount (cur_supply st)"
    "symb (max_supply st) = symb (cur_supply st)" "sym_code (symb (cur_supply st)) = k"
  using ledger_invD(1) [OF assms] by (auto simp: stat_ok_def i64_id in_i64_def max_amount_def)

lemma retire_refines:
  assumes ok: "asset_ops_ok c" and inv: "ledger_inv s"
  shows "outcome ledger_of (retire c q memo s) = ledger_step (c, Retire q memo) (ledger_of s)"
proof (cases "fmlookup (stats s) (sym_code (symb q))")
  case None
  then show ?thesis by (auto simp: retire_def Let_def)
next
  case (Some st)
  let ?k = "sym_code (symb q)"
  let ?G = "has_auth c (issuer st) \<and> symbol_valid c (symb q) \<and> length memo \<le> 256 \<and> 0 < amount q \<and> symb (cur_supply st) = symb q"
  note rg = ledger_range [OF inv Some]
  have le: "amount q \<le> bal ?k s (issuer st) \<Longrightarrow> amount q \<le> max_amount"
    using bal_le_supply [OF inv Some, of "issuer st"] rg by simp
  show ?thesis
  proof (cases "?G \<and> amount q \<le> max_amount")
    case True
    let ?s1 = "s\<lparr>stats := fmupd ?k (st\<lparr>cur_supply := ast (amount (cur_supply st) - amount q) (symb q)\<rparr>) (stats s)\<rparr>"
    have "asset_sub c (cur_supply st) q = Inr (ast (amount (cur_supply st) - amount q) (symb q))"
      using True rg by (auto simp: asset_subD [OF ok] abs_le_iff)
    then have e: "retire c q memo s = sub_balance c (issuer st) q ?s1"
      using Some True by (simp add: retire_def require_auth_def Let_def asset_validD [OF ok])
    have row: "symb (balance r) = symb q \<and> amount (balance r) \<le> max_amount" if "fmlookup (accounts ?s1) (issuer st, ?k) = Some r" for r
      using bal_row [OF inv _ Some, of "issuer st" r] bal_le_supply [OF inv Some, of "issuer st"] that True rg by simp
    have "0 < amount q" using True by simp
    note sub = sub_refines [OF ok this, of ?s1 "issuer st", OF row]
    then show ?thesis using True Some by (simp add: e ledger_of_stat coin_of_def Let_def)
  next
    case False
    then have "outcome ledger_of (retire c q memo s) = None"
      using Some by (auto simp: retire_def require_auth_def Let_def asset_validD [OF ok])
    moreover have "ledger_step (c, Retire q memo) (ledger_of s) = None"
      using False Some le by (auto simp: Let_def)
    ultimately show ?thesis by simp
  qed
qed

text \<open>An issue and the transfer it sends are one rule of the ledger.\<close>

lemma exec_one:
  assumes "\<And>s1. apply_token c a (s\<lparr>inlines := []\<rparr>) = Inr s1 \<Longrightarrow> inlines s1 = []"
  shows "outcome ledger_of (exec_token c a s) = outcome ledger_of (apply_token c a (s\<lparr>inlines := []\<rparr>))"
  using assms by (cases "apply_token c a (s\<lparr>inlines := []\<rparr>)") (simp_all add: exec_token_def)

lemma issue_step:
  assumes ok: "asset_ops_ok c" and inv: "ledger_inv s" and st: "fmlookup (stats s) (sym_code (symb q)) = Some st"
    and g: "has_auth c (issuer st)" "symbol_valid c (symb q)" "length memo \<le> 256" "0 < amount q" "symb (cur_supply st) = symb q"
      "amount (cur_supply st) + amount q \<le> amount (max_supply st)" and i: "inlines s = []"
  obtains s2 where "issue c to q memo s = Inr (if to \<noteq> issuer st then s2\<lparr>inlines :=
       [([Perm (issuer st) active_permission], Transfer (issuer st) to q memo)]\<rparr> else s2)"
    "ledger_inv s2" "inlines s2 = []" "ledger_of s2 = pay (issuer st) (sym_code (symb q)) (amount q)
       (put_coin (sym_code (symb q)) (coin_of st\<lparr>coin_supply := amount (cur_supply st) + amount q\<rparr>) (ledger_of s))"
proof -
  let ?k = "sym_code (symb q)"
  let ?s1 = "s\<lparr>stats := fmupd ?k (st\<lparr>cur_supply := ast (amount (cur_supply st) + amount q) (symb q)\<rparr>) (stats s)\<rparr>"
  note rg = ledger_range [OF inv st]
  have row: "symb (balance r) = symb q" if "fmlookup (accounts ?s1) (issuer st, ?k) = Some r" for r
    using bal_row [OF inv _ st, of "issuer st" r] that g(5) by simp
  have le: "bal ?k ?s1 (issuer st) + amount q \<le> max_amount"
    using bal_le_supply [OF inv st, of "issuer st"] rg g(6) by simp
  have nn: "0 \<le> bal ?k ?s1 (issuer st)" using bal_nonneg [OF inv] by simp
  have "outcome ledger_of (add_balance c (issuer st) q ?s1) = Some (pay (issuer st) ?k (amount q) (ledger_of ?s1))"
    by (rule add_refines [OF ok g(4) nn le row])
  then obtain s2 where s2: "add_balance c (issuer st) q ?s1 = Inr s2" "ledger_of s2 = pay (issuer st) ?k (amount q) (ledger_of ?s1)"
    by (auto simp: outcome_Some)
  have i2: "inlines s2 = []" using add_balance_stats [OF s2(1)] i by simp
  have "asset_add c (cur_supply st) q = Inr (ast (amount (cur_supply st) + amount q) (symb q))"
    using g rg by (auto simp: asset_addD [OF ok] abs_le_iff)
  then have u: "issue c to q memo s = Inr (if to \<noteq> issuer st then s2\<lparr>inlines :=
       [([Perm (issuer st) active_permission], Transfer (issuer st) to q memo)]\<rparr> else s2)" for to
    using st g rg s2(1) i2 by (simp add: issue_def require_auth_def Let_def asset_validD [OF ok])
  have "ledger_inv s2" using issue_inv [OF ok inv u [of "issuer st"]] by simp
  then show ?thesis using s2(2) by (intro that [OF u _ i2]) (simp_all add: ledger_of_stat coin_of_def g(5))
qed

lemma issue_refines:
  assumes ok: "asset_ops_ok c" and inv: "ledger_inv s"
  shows "outcome ledger_of (exec_token c (Issue to q memo) s) = ledger_step (c, Issue to q memo) (ledger_of s)"
proof (cases "fmlookup (stats s) (sym_code (symb q))")
  case None
  then show ?thesis by (auto simp: exec_token_def issue_def Let_def outcome_bindr check_def)
next
  case (Some st)
  let ?k = "sym_code (symb q)"
  let ?G = "has_auth c (issuer st) \<and> symbol_valid c (symb q) \<and> length memo \<le> 256 \<and> 0 < amount q \<and> symb (cur_supply st) = symb q
    \<and> amount (cur_supply st) + amount q \<le> amount (max_supply st)"
  note rg = ledger_range [OF inv Some]
  show ?thesis
  proof (cases ?G)
    case True
    let ?s0 = "s\<lparr>inlines := []\<rparr>"
    obtain s2 where u: "issue c to q memo ?s0 = Inr (if to \<noteq> issuer st then s2\<lparr>inlines :=
         [([Perm (issuer st) active_permission], Transfer (issuer st) to q memo)]\<rparr> else s2)"
      and i2: "ledger_inv s2" "inlines s2 = []" and l2: "ledger_of s2 = pay (issuer st) ?k (amount q)
       (put_coin ?k (coin_of st\<lparr>coin_supply := amount (cur_supply st) + amount q\<rparr>) (ledger_of ?s0))"
      by (rule issue_step [OF ok, of ?s0 q st memo to]) (use inv Some True in auto)
    show ?thesis
    proof (cases "to = issuer st")
      case True
      have "exec_token c (Issue to q memo) s = Inr (s2\<lparr>inlines := []\<rparr>)"
        using u True i2 by (simp add: exec_token_def)
      then show ?thesis using l2 True \<open>?G\<close> Some by (simp add: Let_def)
    next
      case False
      let ?c = "with_auth c [Perm (issuer st) active_permission]"
      let ?s2 = "s2\<lparr>inlines := []\<rparr>"
      have st2: "coins (ledger_of s2) ?k = Some (coin_of st\<lparr>coin_supply := amount (cur_supply st) + amount q\<rparr>)"
        unfolding l2 by (simp add: put_coin_sel)
      have b: "amount q \<le> bal ?k s2 (issuer st)"
        using bal_nonneg [OF inv, of ?k "issuer st"] arg_cong [OF l2, of "\<lambda>l. held_by l (issuer st) ?k"] by simp
      have "outcome ledger_of (transfer ?c (issuer st) to q memo ?s2) = ledger_step (?c, Transfer (issuer st) to q memo) (ledger_of s2)"
        using transfer_refines [of ?c ?s2] ok i2 by simp
      also have "\<dots> = (if is_account c to
          then Some (pay to ?k (amount q) (pay (issuer st) ?k (- amount q) (ledger_of s2))) else None)"
        using False \<open>?G\<close> st2 b unfolding ledger_step.simps with_coin_def Let_def by (simp del: ledger_of_sel) (simp add: with_auth_def)
      finally have tr: "outcome ledger_of (transfer ?c (issuer st) to q memo ?s2) = \<dots>" .
      have "outcome ledger_of (bindr m (run_inlines c [])) = outcome ledger_of m" for m
        by (cases m) simp_all
      then have "outcome ledger_of (exec_token c (Issue to q memo) s) = (if is_account c to
          then Some (pay to ?k (amount q) (pay (issuer st) ?k (- amount q) (ledger_of s2))) else None)"
        using u False tr by (simp add: exec_token_def)
      then show ?thesis using False \<open>?G\<close> Some by (simp add: l2 Let_def)
    qed
  next
    case False
    have "\<not> succeeds (issue c to q memo (s\<lparr>inlines := []\<rparr>))"
    proof clarify
      fix s1 assume u: "issue c to q memo (s\<lparr>inlines := []\<rparr>) = Inr s1"
      then have "symbol_valid c (symb q)" "length memo \<le> 256" by (simp_all add: issue_def Let_def)
      moreover have "has_auth c (issuer st)" "0 < amount q" "symb (cur_supply st) = symb q"
          "amount q \<le> amount (max_supply st) - amount (cur_supply st)"
        using issue_parts [OF ok u] Some rg(4) by force+
      ultimately show False using False by simp
    qed
    then have "outcome ledger_of (exec_token c (Issue to q memo) s) = None"
      unfolding exec_token_def by (cases "issue c to q memo (s\<lparr>inlines := []\<rparr>)") auto
    then show ?thesis using False Some by (auto simp: Let_def)
  qed
qed

lemma no_inlines:
  assumes ok: "asset_ops_ok c" and "\<And>to q memo. a \<noteq> Issue to q memo" and "apply_token c a s = Inr s'"
  shows "inlines s' = inlines s"
proof (cases a)
  case (Retire q memo)
  with assms(3) have "retire c q memo s = Inr s'" by simp
  then show ?thesis by (rule retire_parts [OF ok]) (auto dest: sub_balance_stats)
next
  case (Transfer f t q memo)
  with assms(3) show ?thesis
    by (auto simp: transfer_def Let_def res_simps dest!: sub_balance_stats add_balance_stats)
qed (use assms in \<open>auto simp: create_def open_row_def close_row_def Let_def res_simps split: option.splits\<close>)

lemma exec_refines:
  assumes ok: "asset_ops_ok c" and inv: "ledger_inv s"
  shows "outcome ledger_of (exec_token c a s) = ledger_step (c, a) (ledger_of s)"
proof (cases "\<exists>to q memo. a = Issue to q memo")
  case True
  then show ?thesis using issue_refines [OF ok inv] by auto
next
  case False
  let ?s = "s\<lparr>inlines := []\<rparr>"
  have inv: "ledger_inv ?s" using inv by simp
  have "outcome ledger_of (exec_token c a s) = outcome ledger_of (apply_token c a ?s)"
    by (rule exec_one) (use no_inlines [OF ok] False in fastforce)
  also have "\<dots> = ledger_step (c, a) (ledger_of ?s)"
    using False
    by (cases a) (simp_all only: apply_token.simps create_refines [OF ok] retire_refines [OF ok inv]
        transfer_refines [OF ok inv] open_refines [OF ok] close_refines, blast)
  finally show ?thesis by simp
qed

interpretation token_refines:
  refinement token_step "\<lambda>(c, a). asset_ops_ok c" ledger_inv ledger_step ledger_of
  by unfold_locales (auto simp: exec_refines)

text \<open>
  C26: eosio.token implements its abstract ledger exactly, over any sequence of actions in any
  contexts: the tables accept a sequence precisely when the ledger's rules accept it, and then show
  what the ledger holds. Range checks, wrap-around and inline transfers never make a difference.
\<close>

theorem token_refines_ledger:
  assumes "\<forall>(c, a) \<in> set es. asset_ops_ok c"
  shows "outcome ledger_of (run_all token_step es empty_token_state)
    = run_spec ledger_step es \<lparr>coins = (\<lambda>_. None), purses = (\<lambda>_. None)\<rparr>"
proof -
  have "ledger_of empty_token_state = \<lparr>coins = (\<lambda>_. None), purses = (\<lambda>_. None)\<rparr>"
    by (simp add: ledger_of_def empty_token_state_def)
  then show ?thesis
    using token_refines.run_refines [of es empty_token_state] assms ledger_inv_empty by auto
qed

theorem token_refines_ledger_witness:
  "run_spec ledger_step ex_run \<lparr>coins = (\<lambda>_. None), purses = (\<lambda>_. None)\<rparr> = Some (ledger_of ex_state)
    \<and> purses (ledger_of ex_state) (ex_bob, 5459781) = Some 70"
proof -
  have "\<forall>(c, a) \<in> set ex_run. asset_ops_ok c" by (simp add: ex_run_def)
  from token_refines_ledger [OF this] show ?thesis by (simp add: ex_run_state ex_state_def)
qed

end
