(* ===== verification/TokenErrors.thy ===== *)
theory TokenErrors
  imports TokenSpec
begin

text \<open>
  What eosio.token refuses and what it says: the checks of every action as a list in the order of
  the code, and the proof that a refusal names the first of them that does not hold. No check on
  the way is about arithmetic: the additions and subtractions of balances and supplies never fail.
\<close>

section \<open>Reasons\<close>

definition reason :: "'a res \<Rightarrow> string option" where
  "reason m = (case m of Inl e \<Rightarrow> Some e | Inr _ \<Rightarrow> None)"

fun first_failing :: "(bool \<times> string) list \<Rightarrow> string option" where
  "first_failing [] = None"
| "first_failing ((ok, msg) # cs) = (if ok then first_failing cs else Some msg)"

lemma reason_simps [simp]:
  "reason (Inl e) = Some e" "reason (Inr x) = None"
  "reason (check b msg k) = (if b then reason k else Some msg)"
  "reason (the_row r msg h) = (case r of None \<Rightarrow> Some msg | Some x \<Rightarrow> reason (h x))"
  "reason (require_auth c n k) = (if has_auth c n then reason k else Some ''missing authority'')"
  by (auto simp: reason_def check_def require_auth_def split: option.splits)

lemma reason_None: "reason m = None \<longleftrightarrow> succeeds m"
  by (cases m) auto

lemma reason_bindr: "reason (bindr m k) = (case m of Inl e \<Rightarrow> Some e | Inr x \<Rightarrow> reason (k x))"
  by (auto simp: reason_def split: sum.splits)

section \<open>The checks of every action\<close>

definition purse_checks :: "token_state \<Rightarrow> name \<Rightarrow> asset \<Rightarrow> (bool \<times> string) list" where
  "purse_checks s n q =
     [(fmlookup (accounts s) (n, sym_code (symb q)) \<noteq> None, ''no balance object found''),
      (amount q \<le> bal (sym_code (symb q)) s n, ''overdrawn balance'')]"

definition coin_checks ::
  "token_state \<Rightarrow> symbol_code \<Rightarrow> string \<Rightarrow> (currency_stats \<Rightarrow> (bool \<times> string) list) \<Rightarrow> (bool \<times> string) list" where
  "coin_checks s k msg f = (case fmlookup (stats s) k of None \<Rightarrow> [(False, msg)] | Some st \<Rightarrow> f st)"

fun token_checks :: "chain \<Rightarrow> token_state \<Rightarrow> token_action \<Rightarrow> (bool \<times> string) list" where
  "token_checks c s (Create i m) =
     [(has_auth c (self c), ''missing authority''),
      (symbol_valid c (symb m), ''invalid symbol name''),
      (asset_valid c m, ''invalid supply''),
      (0 < amount m, ''max-supply must be positive''),
      (fmlookup (stats s) (sym_code (symb m)) = None, ''token with symbol already exists'')]"
| "token_checks c s (Issue to q memo) =
     (symbol_valid c (symb q), ''invalid symbol name'') #
     (length memo \<le> 256, ''memo has more than 256 bytes'') #
     coin_checks s (sym_code (symb q)) ''token with symbol does not exist, create token before issue'' (\<lambda>st.
       [(has_auth c (issuer st), ''missing authority''),
        (asset_valid c q, ''invalid quantity''),
        (0 < amount q, ''must issue positive quantity''),
        (symb q = symb (cur_supply st), ''symbol precision mismatch''),
        (amount (cur_supply st) + amount q \<le> amount (max_supply st), ''quantity exceeds available supply''),
        (to = issuer st \<or> is_account c to, ''to account does not exist'')])"
| "token_checks c s (Retire q memo) =
     (symbol_valid c (symb q), ''invalid symbol name'') #
     (length memo \<le> 256, ''memo has more than 256 bytes'') #
     coin_checks s (sym_code (symb q)) ''token with symbol does not exist'' (\<lambda>st.
       [(has_auth c (issuer st), ''missing authority''),
        (asset_valid c q, ''invalid quantity''),
        (0 < amount q, ''must retire positive quantity''),
        (symb q = symb (cur_supply st), ''symbol precision mismatch'')] @ purse_checks s (issuer st) q)"
| "token_checks c s (Transfer f t q memo) =
     (f \<noteq> t, ''cannot transfer to self'') #
     (has_auth c f, ''missing authority'') #
     (is_account c t, ''to account does not exist'') #
     coin_checks s (sym_code (symb q)) ''unable to find key'' (\<lambda>st.
       [(asset_valid c q, ''invalid quantity''),
        (0 < amount q, ''must transfer positive quantity''),
        (symb q = symb (cur_supply st), ''symbol precision mismatch''),
        (length memo \<le> 256, ''memo has more than 256 bytes'')] @ purse_checks s f q)"
| "token_checks c s (Open ow sy payer) =
     (has_auth c payer, ''missing authority'') #
     coin_checks s (sym_code sy) ''symbol does not exist'' (\<lambda>st.
       [(symb (cur_supply st) = sy, ''symbol precision mismatch'')])"
| "token_checks c s (Close ow sy) =
     [(has_auth c ow, ''missing authority''),
      (fmlookup (accounts s) (ow, sym_code sy) \<noteq> None,
       ''Balance row already deleted or never existed. Action won't have any effect.''),
      (bal (sym_code sy) s ow = 0, ''Cannot close because the balance is not zero.'')]"

section \<open>Every refusal names the first check that fails\<close>

lemma sub_reason:
  assumes ok: "asset_ops_ok c" and inv: "ledger_inv s" and st: "fmlookup (stats s) (sym_code (symb q)) = Some st"
    and q: "symb (cur_supply st) = symb q" "0 < amount q" and s1: "accounts s1 = accounts s"
  shows "reason (sub_balance c n q s1) = first_failing (purse_checks s n q)"
proof (cases "fmlookup (accounts s) (n, sym_code (symb q))")
  case None
  then show ?thesis by (simp add: sub_balance_def purse_checks_def Let_def s1)
next
  case (Some r)
  note rg = ledger_range [OF inv st]
  note b = bal_row [OF inv Some st]
  have "bal (sym_code (symb q)) s n \<le> max_amount" using bal_le_supply [OF inv st, of n] rg(2,3) by linarith
  then have "\<bar>amount (balance r) - amount q\<bar> \<le> max_amount" if "amount q \<le> amount (balance r)"
    using that b(1) q(2) by linarith
  then have "asset_sub c (balance r) q = Inr (ast (amount (balance r) - amount q) (symb q))" if "amount q \<le> amount (balance r)"
    using that b(2) q(1) by (simp add: asset_subD [OF ok])
  then show ?thesis using Some b(1) by (simp add: sub_balance_def purse_checks_def Let_def s1 reason_bindr)
qed

lemma move_reason:
  assumes ok: "asset_ops_ok c" and inv: "ledger_inv s" and st: "fmlookup (stats s) (sym_code (symb q)) = Some st"
    and q: "symb (cur_supply st) = symb q" "0 < amount q" "f \<noteq> t"
  shows "reason (bindr (sub_balance c f q (s\<lparr>notified := y\<rparr>)) (add_balance c t q)) = first_failing (purse_checks s f q)"
proof (cases "reason (sub_balance c f q (s\<lparr>notified := y\<rparr>))")
  case None
  with sub_reason [OF ok inv st q(1,2), of "s\<lparr>notified := y\<rparr>" f] have n: "first_failing (purse_checks s f q) = None" by simp
  then have "amount q \<le> bal (sym_code (symb q)) s f" by (auto simp: purse_checks_def split: if_splits)
  then have "succeeds (bindr (sub_balance c f q (s\<lparr>notified := y\<rparr>)) (add_balance c t q))"
    by (intro transfer_moves [OF ok _ _ q(1) [symmetric] q(2) _ q(3)]) (use inv st in simp_all)
  then show ?thesis using n reason_None by metis
next
  case (Some e)
  with sub_reason [OF ok inv st q(1,2), of "s\<lparr>notified := y\<rparr>" f] show ?thesis
    by (auto simp: reason_bindr reason_def split: sum.splits)
qed

lemma transfer_reason:
  assumes ok: "asset_ops_ok c" and inv: "ledger_inv s"
  shows "reason (transfer c f t q memo s) = first_failing (token_checks c s (Transfer f t q memo))"
proof (cases "fmlookup (stats s) (sym_code (symb q))")
  case (Some st)
  then show ?thesis
    using move_reason [OF ok inv Some] by (auto simp: transfer_def Let_def coin_checks_def)
qed (simp add: transfer_def Let_def coin_checks_def)

lemma retire_reason:
  assumes ok: "asset_ops_ok c" and inv: "ledger_inv s"
  shows "reason (retire c q memo s) = first_failing (token_checks c s (Retire q memo))"
proof (cases "fmlookup (stats s) (sym_code (symb q))")
  case (Some st)
  let ?s1 = "s\<lparr>stats := fmupd (sym_code (symb q)) (st\<lparr>cur_supply := ast (amount (cur_supply st) - amount q) (symb q)\<rparr>) (stats s)\<rparr>"
  note rg = ledger_range [OF inv Some]
  have "asset_sub c (cur_supply st) q = Inr (ast (amount (cur_supply st) - amount q) (symb q))"
    if "asset_valid c q" "0 < amount q" "symb q = symb (cur_supply st)"
    using that rg(1-3) by (auto simp: asset_subD [OF ok] asset_validD [OF ok] abs_le_iff)
  moreover have "reason (sub_balance c (issuer st) q ?s1) = first_failing (purse_checks s (issuer st) q)"
    if "0 < amount q" "symb q = symb (cur_supply st)"
    using sub_reason [OF ok inv Some, of ?s1 "issuer st"] that by simp
  ultimately show ?thesis using Some by (simp add: retire_def Let_def coin_checks_def)
qed (simp add: retire_def Let_def coin_checks_def)

lemma open_reason:
  assumes ok: "asset_ops_ok c" and y: "symbol_valid c sy"
  shows "reason (open_row c ow sy p s) = first_failing (token_checks c s (Open ow sy p))"
proof -
  have "asset_new c 0 sy = Inr (ast 0 sy)" using y by (simp add: asset_newD [OF ok] max_amount_def)
  then show ?thesis by (simp add: open_row_def coin_checks_def split: option.splits)
qed

lemma close_reason: "reason (close_row c ow sy s) = first_failing (token_checks c s (Close ow sy))"
  by (auto simp: close_row_def bal_unfold split: option.splits)

lemma create_reason: "reason (create c i m s) = first_failing (token_checks c s (Create i m))"
  by (simp add: create_def Let_def)

text \<open>An issue fails for itself or for the transfer it sends.\<close>

lemma issue_reason:
  assumes ok: "asset_ops_ok c" and inv: "ledger_inv s"
  shows "reason (exec_token c (Issue to q memo) s) = first_failing (token_checks c s (Issue to q memo))"
proof (cases "fmlookup (stats s) (sym_code (symb q))")
  case None
  then show ?thesis by (simp add: exec_token_def issue_def Let_def coin_checks_def reason_bindr check_def)
next
  case (Some st)
  let ?s = "s\<lparr>inlines := []\<rparr>"
  note rg = ledger_range [OF inv Some]
  let ?G = "symbol_valid c (symb q) \<and> length memo \<le> 256 \<and> has_auth c (issuer st) \<and> asset_valid c q \<and> 0 < amount q
    \<and> symb q = symb (cur_supply st) \<and> amount (cur_supply st) + amount q \<le> amount (max_supply st)"
  show ?thesis
  proof (cases ?G)
    case False
    then have "\<exists>e. issue c to q memo ?s = Inl e \<and> first_failing (token_checks c s (Issue to q memo)) = Some e"
      using Some rg(4) by (auto simp: issue_def Let_def coin_checks_def check_def require_auth_def)
    then show ?thesis by (auto simp: exec_token_def)
  next
    case True
    obtain s2 where u: "issue c to q memo ?s = Inr (if to \<noteq> issuer st then s2\<lparr>inlines :=
         [([Perm (issuer st) active_permission], Transfer (issuer st) to q memo)]\<rparr> else s2)"
      and i2: "ledger_inv s2" "inlines s2 = []" and l2: "ledger_of s2 = pay (issuer st) (sym_code (symb q)) (amount q)
       (put_coin (sym_code (symb q)) (coin_of st\<lparr>coin_supply := amount (cur_supply st) + amount q\<rparr>) (ledger_of ?s))"
      by (rule issue_step [OF ok, of ?s q st memo to]) (use inv Some True in auto)
    let ?c = "with_auth c [Perm (issuer st) active_permission]"
    have b: "amount q \<le> bal (sym_code (symb q)) s2 (issuer st)"
      using bal_nonneg [OF inv, of "sym_code (symb q)" "issuer st"] arg_cong [OF l2, of "\<lambda>l. held_by l (issuer st) (sym_code (symb q))"] by simp
    from arg_cong [OF l2, of "\<lambda>l. coins l (sym_code (symb q))"] obtain st2
      where st2: "fmlookup (stats s2) (sym_code (symb q)) = Some st2" "symb (cur_supply st2) = symb q"
      using True by (auto simp: put_coin_sel coin_of_def)
    have r: "fmlookup (accounts s2) (issuer st, sym_code (symb q)) \<noteq> None"
      using b True by (auto simp: bal_unfold split: option.splits)
    have w: "asset_ops_ok ?c" "has_auth ?c (issuer st)" "is_account ?c = is_account c" "asset_valid ?c = asset_valid c"
      using ok by simp (simp_all add: with_auth_def)
    have "reason (transfer ?c (issuer st) to q memo (s2\<lparr>inlines := []\<rparr>)) = first_failing [(to = issuer st \<or> is_account c to, ''to account does not exist'')]"
      if "to \<noteq> issuer st"
      using transfer_reason [of ?c "s2\<lparr>inlines := []\<rparr>" "issuer st" to q memo, OF w(1)] w i2 st2 b r True that
      by (simp add: coin_checks_def purse_checks_def)
    moreover have "reason (bindr m (run_inlines c [])) = reason m" for m by (cases m) simp_all
    ultimately have "reason (exec_token c (Issue to q memo) s) = first_failing [(to = issuer st \<or> is_account c to, ''to account does not exist'')]"
      using u i2 by (simp add: exec_token_def)
    then show ?thesis using True Some by (auto simp: coin_checks_def)
  qed
qed

text \<open>
  C34: What eosio.token answers to an action it refuses: the message of the first check that fails,
  in the order of the table above, and an action that passes all of them is accepted. In particular
  no balance and no supply ever overflows or underflows into a different message.
\<close>

theorem refusals_are_told:
  assumes "asset_ops_ok c" "\<forall>(d, b) \<in> set es. asset_ops_ok d" and "run_all token_step es empty_token_state = Inr s"
    and "\<And>ow sy p. a = Open ow sy p \<Longrightarrow> symbol_valid c sy"
  shows "reason (exec_token c a s) = first_failing (token_checks c s a)"
proof -
  have inv: "ledger_inv s" by (rule token_machine.run_inv [OF _ ledger_inv_empty assms(3)]) (use assms(2) in auto)
  have i: "token_checks c (s\<lparr>inlines := []\<rparr>) a = token_checks c s a"
    by (cases a) (simp_all add: coin_checks_def purse_checks_def)
  show ?thesis
  proof (cases "\<exists>to q memo. a = Issue to q memo")
    case True
    then show ?thesis using issue_reason [OF assms(1) inv] by auto
  next
    case False
    have "reason (exec_token c a s) = reason (apply_token c a (s\<lparr>inlines := []\<rparr>))"
      using False no_inlines [OF assms(1), of a "s\<lparr>inlines := []\<rparr>"]
      by (cases "apply_token c a (s\<lparr>inlines := []\<rparr>)") (auto simp: exec_token_def)
    also have "\<dots> = first_failing (token_checks c s a)"
      using False inv assms(4) unfolding i [symmetric]
      by (cases a) (simp_all only: apply_token.simps create_reason retire_reason [OF assms(1)] transfer_reason [OF assms(1)]
          open_reason [OF assms(1)] close_reason ledger_inv_only, blast)
    finally show ?thesis .
  qed
qed

theorem refusals_are_told_witness:
  "exec_token (ex_ctx ex_bob) (Transfer ex_bob ex_alice (ast 71 ex_sy) []) ex_state = Inl ''overdrawn balance''"
proof -
  have "\<forall>(d, b) \<in> set ex_run. asset_ops_ok d" by (simp add: ex_run_def)
  from refusals_are_told [OF ex_ctx_ok this ex_run_state, of "Transfer ex_bob ex_alice (ast 71 ex_sy) []"]
  have "reason (exec_token (ex_ctx ex_bob) (Transfer ex_bob ex_alice (ast 71 ex_sy) []) ex_state) = Some ''overdrawn balance''"
    by (simp add: coin_checks_def purse_checks_def ex_state_def ex_ctx_def ref_chain_def ex_sy_def max_amount_def bal_unfold)
  then show ?thesis by (simp add: reason_def split: sum.splits)
qed

end
