(* ===== verification/Quotas.thy ===== *)
theory Quotas
  imports RexWalk Market Example
begin

text \<open>
  The limits the host enforces on bandwidth against the rows of totals they are computed from: an
  account that has bandwidth, staked or rented, may use exactly that, unless its limits are managed
  by the producers.
\<close>

section \<open>Quotas\<close>

definition flags :: "sys_state \<Rightarrow> name \<Rightarrow> 32 word" where
  "flags s n = (case fmlookup (voters s) n of None \<Rightarrow> 0 | Some v \<Rightarrow> flags1 v)"

lemma managed_flags: "managed f n s \<longleftrightarrow> has_field (flags s n) f"
  by (simp add: managed_def flags_def has_field_def split: option.splits)

definition quotas where "quotas s = (userres s, res_limits s, flags s)"

lemma quotasD:
  assumes "quotas s' = quotas s" shows "userres s' = userres s" "res_limits s' = res_limits s" "flags s' = flags s"
  using assms by (simp_all add: quotas_def)

lemma quotas_write [simp]:
  "quotas (s\<lparr>producers := p\<rparr>) = quotas s" "quotas (s\<lparr>producers2 := p2\<rparr>) = quotas s" "quotas (s\<lparr>gstate := g\<rparr>) = quotas s"
  "quotas (s\<lparr>gstate2 := g2\<rparr>) = quotas s" "quotas (s\<lparr>gstate3 := g3\<rparr>) = quotas s" "quotas (s\<lparr>rammarket := m\<rparr>) = quotas s"
  "quotas (s\<lparr>rexpool := rp\<rparr>) = quotas s" "quotas (s\<lparr>rexfunds := f\<rparr>) = quotas s" "quotas (s\<lparr>rexbalance := b\<rparr>) = quotas s"
  "quotas (s\<lparr>rexorders := r\<rparr>) = quotas s" "quotas (s\<lparr>cpu_loans := cl\<rparr>) = quotas s" "quotas (s\<lparr>net_loans := cl\<rparr>) = quotas s"
  "quotas (s\<lparr>delband := d\<rparr>) = quotas s" "quotas (s\<lparr>refunds := rf\<rparr>) = quotas s" "quotas (s\<lparr>namebids := nb\<rparr>) = quotas s"
  "quotas (s\<lparr>bidrefunds := br\<rparr>) = quotas s" "quotas (s\<lparr>abihash := ah\<rparr>) = quotas s" "quotas (s\<lparr>privileged := pv\<rparr>) = quotas s"
  "quotas (s\<lparr>active_params := ap\<rparr>) = quotas s" "quotas (s\<lparr>proposed := ps\<rparr>) = quotas s" "quotas (s\<lparr>pending := pd\<rparr>) = quotas s"
  "quotas (s\<lparr>outbox := l\<rparr>) = quotas s" "quotas (s\<lparr>tokens := t\<rparr>) = quotas s"
  by (simp_all add: quotas_def flags_def fun_eq_iff)

lemma quotas_set_voter [simp]: "flags1 v = flags s n \<Longrightarrow> quotas (set_voter n v s) = quotas s"
  by (auto simp: quotas_def set_voter_def flags_def fun_eq_iff)

lemma flags_row: "fmlookup (voters s) n = Some v \<Longrightarrow> flags s n = flags1 v" "fmlookup (voters s) n = None \<Longrightarrow> flags s n = 0"
  by (simp_all add: flags_def)

section \<open>Voting leaves them alone\<close>

lemma quotas_total_share [simp]: "quotas (snd (update_total_votepay_share ct a r s)) = quotas s"
  by (simp add: update_total_votepay_share_def Let_def)

lemma quotas_finish_votepay [simp]: "quotas (finish_votepay c acc) = quotas (snd (snd acc))"
  by (simp add: finish_votepay_def split: prod.splits)

lemma quotas_change_votes [simp]: "quotas (snd (snd (change_producer_votes c clip n delta pr acc))) = quotas (snd (snd acc))"
  by (auto simp: change_producer_votes_def Let_def split: prod.splits option.splits)

lemma quotas_to_producer: "propagate_to_producer c delta n acc = Inr acc' \<Longrightarrow> quotas (snd (snd acc')) = quotas (snd (snd acc))"
  by (auto simp: propagate_to_producer_def the_row_Inr)

lemma quotas_vote_for: "vote_for c voting pd acc = Inr acc' \<Longrightarrow> quotas (snd (snd acc')) = quotas (snd (snd acc))"
  by (auto simp: vote_for_def split: prod.splits option.splits)

lemma quotas_propagate: "propagate f c n s = Inr s' \<Longrightarrow> quotas s' = quotas s"
proof (induction f arbitrary: n s s')
  case (Suc f)
  have loop: "quotas s1 = quotas s"
    if "run_all (propagate_to_producer c d) ps (Fin 0, Fin 0, s) = Inr (x, y, s1)" for d ps x y s s1
    using run_all_keeps [where v = "\<lambda>a. quotas (snd (snd a))", OF quotas_to_producer that] by simp
  from Suc.prems show ?case
    by (auto simp: res_simps Let_def flags_row dest!: loop Suc.IH split: if_splits)
qed simp

lemma quotas_weight_change: "propagate_weight_change c n s = Inr s' \<Longrightarrow> quotas s' = quotas s"
  unfolding propagate_weight_change_def by (rule quotas_propagate)

lemma quotas_activate [simp]: "quotas (activate_stake c v s) = quotas s"
  by (simp add: activate_stake_def Let_def)

lemma quotas_undo: "undo_votes c v s = Inr (d, s') \<Longrightarrow> quotas s' = quotas s"
  by (auto simp: undo_votes_def res_simps flags_row dest!: quotas_weight_change split: if_splits)

lemma quotas_cast: "cast_votes c voting p ps w (d, s) = Inr (d', s') \<Longrightarrow> quotas s' = quotas s"
  by (auto simp: cast_votes_def res_simps flags_row dest!: quotas_weight_change split: if_splits)

lemma quotas_update_votes: "update_votes c n p ps voting s = Inr s' \<Longrightarrow> quotas s' = quotas s"
proof -
  assume "update_votes c n p ps voting s = Inr s'"
  then obtain v d1 s1 d2 s2 acc v3 where
    u: "undo_votes c v (activate_stake c v s) = Inr (d1, s1)"
    and k: "cast_votes c voting p ps (voter_weight c v) (d1, s1) = Inr (d2, s2)"
    and r: "run_all (vote_for c voting) (sorted_list_of_fmap d2) (Fin 0, Fin 0, s2) = Inr acc"
    and v3: "fmlookup (voters (finish_votepay c acc)) n = Some v3"
    and s': "s' = set_voter n (v3\<lparr>last_vote_weight := voter_weight c v, v_producers := ps, v_proxy := p\<rparr>)
      (finish_votepay c acc)"
    unfolding update_votes_def Let_def res_simps by fast
  show ?thesis
    using quotas_undo [OF u] quotas_cast [OF k] v3 s'
      run_all_keeps [where v = "\<lambda>a. quotas (snd (snd a))", OF quotas_vote_for r] by (simp add: flags_row)
qed

lemma quotas_voting_power: "update_voting_power c n q s = Inr s' \<Longrightarrow> quotas s' = quotas s"
  by (auto simp: update_voting_power_def Let_def flags_row default_voter_def dest!: validate_b1_vesting_Inr quotas_update_votes
      split: if_splits option.splits)

lemma quotas_rex_stake: "update_rex_stake c n s = Inr s' \<Longrightarrow> quotas s' = quotas s"
proof -
  assume a: "update_rex_stake c n s = Inr s'"
  define m where "m = (case (fmlookup (rexbalance s) n, rexpool s) of
         (Some rb, Some rp) \<Rightarrow>
           if 0 < amount (total_rex rp) then
             core_asset c s 0 (\<lambda>current.
             bindr (muldiv (amount (rex_bal rb)) (amount (total_lendable rp)) (amount (total_rex rp))) (\<lambda>stake.
             Inr (i64 (stake - amount (vote_stake rb)),
               s\<lparr>rexbalance := fmupd n (rb\<lparr>vote_stake := (vote_stake rb)\<lparr>amount := stake\<rparr>\<rparr>) (rexbalance s)\<rparr>)))
           else Inr (0, s)
       | _ \<Rightarrow> Inr (0, s))"
  have q: "quotas s1 = quotas s" if "m = Inr (d, s1)" for d s1
    using that by (auto simp: m_def res_simps split: option.splits if_splits)
  from a obtain d s1 where "m = Inr (d, s1)" and s': "s' = (if d \<noteq> 0 then
         (case fmlookup (voters s1) n of None \<Rightarrow> s1
          | Some v \<Rightarrow> s1\<lparr>voters := fmupd n (v\<lparr>staked := i64 (staked v + d)\<rparr>) (voters s1)\<rparr>) else s1)"
    unfolding update_rex_stake_def m_def [symmetric] bindr_Inr by (cases m) auto
  then show ?thesis
    using q quotas_set_voter [unfolded set_voter_def] by (auto simp: flags_row split: option.splits)
qed

lemma quotas_regproxy: "regproxy c n b s = Inr s' \<Longrightarrow> quotas s' = quotas s"
  by (auto simp: regproxy_def flags_row default_voter_def dest!: quotas_weight_change split: option.splits)

lemma quotas_voteproducer: "voteproducer c n p ps s = Inr s' \<Longrightarrow> quotas s' = quotas s"
  by (auto simp: voteproducer_def res_simps dest!: quotas_rex_stake quotas_update_votes split: option.splits if_splits)

section \<open>The limits of an account with bandwidth\<close>

definition limits_right :: "sys_state \<Rightarrow> name \<Rightarrow> bool" where
  "limits_right s n \<longleftrightarrow> (\<forall>r ram net cpu. fmlookup (userres s) n = Some r \<longrightarrow> res_limits s n = (ram, net, cpu) \<longrightarrow>
     amount (net_weight r) \<noteq> 0 \<or> amount (cpu_weight r) \<noteq> 0 \<longrightarrow>
     (\<not> has_field (flags s n) net_managed \<longrightarrow> net = amount (net_weight r))
     \<and> (\<not> has_field (flags s n) cpu_managed \<longrightarrow> cpu = amount (cpu_weight r)))"

definition stays_right :: "sys_state \<Rightarrow> sys_state \<Rightarrow> bool" where
  "stays_right s s' \<longleftrightarrow> (\<forall>n. limits_right s n \<longrightarrow> limits_right s' n)"

lemma stays_right_trans: "stays_right s s1 \<Longrightarrow> stays_right s1 s2 \<Longrightarrow> stays_right s s2"
  by (simp add: stays_right_def)

lemma right_cong:
  "fmlookup (userres s') n = fmlookup (userres s) n \<Longrightarrow> res_limits s' n = res_limits s n \<Longrightarrow> flags s' n = flags s n
     \<Longrightarrow> limits_right s' n = limits_right s n"
  by (simp add: limits_right_def)

lemma stays_quotas:
  assumes "quotas s' = quotas s" shows "stays_right s s'"
  by (simp add: stays_right_def limits_right_def quotasD [OF assms])

text \<open>A row is stored together with the limits that follow from it.\<close>

lemma stays_refreshed: "stays_right s (store_totals r tot (refresh_limits r f tot s))"
proof -
  have "limits_right (store_totals r tot (refresh_limits r f tot s)) n" if "limits_right s n" for n
  proof (cases "n = r")
    case True
    have fl: "flags (store_totals r tot (refresh_limits r f tot s)) r = flags s r"
      by (simp add: store_totals_def refresh_limits_def Let_def set_limits_def flags_def split: prod.splits)
    show ?thesis
      unfolding limits_right_def True fl
      by (auto simp: store_totals_def refresh_limits_def Let_def set_limits_def managed_flags split: prod.splits if_splits)
  next
    case False
    with that show ?thesis
      by (subst right_cong [of _ n s])
        (auto simp: store_totals_def refresh_limits_def Let_def set_limits_def flags_def split: prod.splits)
  qed
  then show ?thesis by (simp add: stays_right_def)
qed

lemma stays_resource_limits: "update_resource_limits c n dn dp s = Inr s' \<Longrightarrow> stays_right s s'"
  by (auto simp: update_resource_limits_def res_simps stays_refreshed stays_quotas split: if_splits)

lemma stays_update_totals: "update_totals c n dn dp s = Inr s' \<Longrightarrow> stays_right s s'"
  by (auto simp: update_totals_def res_simps stays_refreshed)

interpretation quota_rows: rex_walk stays_right
proof unfold_locales
  show "stays_right s s2" if "stays_right s s1" "stays_right s1 s2" for s s1 s2
    using that by (rule stays_right_trans)
  show "stays_right s s'" if "transfer_to_fund c n q s = Inr s'" for c n q s s'
    using that by (auto simp: transfer_to_fund_def res_simps intro!: stays_quotas)
  show "stays_right s s'" if "transfer_from_fund c n q s = Inr s'" for c n q s s'
    using that by (auto simp: transfer_from_fund_def res_simps intro!: stays_quotas)
  show "stays_right s s'" if "update_voting_power c n q s = Inr s'" for c n q s s'
    using quotas_voting_power [OF that] by (rule stays_quotas)
  show "stays_right s s'" if "update_resource_limits c n dn dp s = Inr s'" for c n dn dp s s'
    using that by (rule stays_resource_limits)
qed (auto intro: stays_quotas)

section \<open>The other actions\<close>

lemma quotas_send [simp]: "quotas (send_transfer ps f to q memo s) = quotas s"
  by (simp add: send_transfer_def)

lemma stays_changebw: assumes "changebw c src r nd cd tr s = Inr s'" shows "stays_right s s'"
  using assms
proof (cases rule: changebw_parts)
  case (1 n q s1 s2 s3 s4)
  have "quotas s1 = quotas s" using 1(6) by (auto simp: update_delband_def res_simps)
  moreover have "stays_right s1 s2" by (rule stays_update_totals [OF 1(7)])
  moreover have "quotas s3 = quotas s2"
    using 1(8) by (auto simp: update_refund_def res_simps Let_def elim!: stake_or_refund_parts split: if_splits option.splits)
  moreover have "quotas s' = quotas s3" using quotas_rex_stake [OF 1(9)] quotas_voting_power [OF 1(10)] by simp
  ultimately show ?thesis using stays_right_trans stays_quotas by blast
qed

text \<open>RAM has a row and a limit of its own.\<close>

lemma stays_ram_row:
  assumes "case fmlookup (userres s) n of None \<Rightarrow> amount (net_weight r) = 0 \<and> amount (cpu_weight r) = 0
    | Some r0 \<Rightarrow> net_weight r = net_weight r0 \<and> cpu_weight r = cpu_weight r0"
  shows "stays_right s (set_ram_limit n b (s\<lparr>userres := fmupd n r (userres s)\<rparr>))"
proof -
  let ?s = "set_ram_limit n b (s\<lparr>userres := fmupd n r (userres s)\<rparr>)"
  have fl: "flags ?s = flags s" by (auto simp: set_ram_limit_def set_limits_def flags_def fun_eq_iff split: prod.splits)
  have "limits_right ?s m" if "limits_right s m" for m
  proof (cases "m = n")
    case True
    have "snd (res_limits ?s n) = snd (res_limits s n)"
      by (auto simp: set_ram_limit_def set_limits_def split: prod.splits)
    then show ?thesis using that assms unfolding limits_right_def fl True
      by (cases "res_limits s n"; cases "res_limits ?s n") (auto split: option.splits)
  next
    case False
    have "limits_right ?s m = limits_right s m"
      by (rule right_cong) (use False fl in \<open>auto simp: set_ram_limit_def set_limits_def split: prod.splits\<close>)
    with that show ?thesis by simp
  qed
  then show ?thesis by (simp add: stays_right_def)
qed

lemma quotas_supply: "update_ram_supply c s = Inr s' \<Longrightarrow> quotas s' = quotas s"
  by (auto simp: update_ram_supply_def Let_def with_market_Inr split: if_splits)

lemma quotas_channel [simp]: "quotas (channel_to_rex c f q s) = quotas s"
  by (auto simp: channel_to_rex_def split: option.splits)

lemma stays_credit_ram:
  assumes ok: "asset_ops_ok c" and u: "credit_ram c n b s = Inr s'" shows "stays_right s s'"
  using u
proof (cases rule: credit_ram_parts)
  case (1 r)
  show ?thesis unfolding 1(3)
    by (rule stays_ram_row) (use 1(2) asset_newD [OF ok] in \<open>auto simp: res_simps split: option.splits\<close>)
qed

lemma stays_buyram: assumes "asset_ops_ok c" "buyram c n r q s = Inr s'" shows "stays_right s s'"
  using assms(2)
proof (cases rule: buyram_parts)
  case (1 s1 fee price s2 m m1 out)
  have "quotas s2 = quotas s" using quotas_supply [OF 1(2)] by (simp add: 1(7) pay_ram_def Let_def)
  then have "stays_right s (s2\<lparr>rammarket := Some m1, gstate := g\<rparr>)" for g by (intro stays_quotas) simp
  then show ?thesis using stays_credit_ram [OF assms(1) 1(11)] stays_right_trans by blast
qed

lemma stays_sellram: assumes "sellram c n b s = Inr s'" shows "stays_right s s'"
  using assms
proof (cases rule: sellram_parts)
  case (1 s1 r m q sy out m1 stake r1)
  define s2 where "s2 = s1\<lparr>rammarket := Some m1, gstate := (gstate s1)\<lparr>total_ram_bytes_reserved :=
     u64 (total_ram_bytes_reserved (gstate s1) - u64 b), total_ram_stake := stake\<rparr>\<rparr>"
  have a: "stays_right s s2" using quotas_supply [OF 1(2)] by (intro stays_quotas) (simp add: s2_def)
  have b: "stays_right s2 (set_ram_limit n (ram_bytes r1) (s2\<lparr>userres := fmupd n r1 (userres s2)\<rparr>))"
    by (rule stays_ram_row) (simp add: s2_def 1(4) 1(13))
  have "pay_seller c n out (set_ram_limit n (ram_bytes r1) (s2\<lparr>userres := fmupd n r1 (userres s2)\<rparr>)) = Inr s'"
    using 1(14) by (simp add: s2_def)
  then have "quotas s' = quotas (set_ram_limit n (ram_bytes r1) (s2\<lparr>userres := fmupd n r1 (userres s2)\<rparr>))"
    by (auto simp: pay_seller_def Let_def core_asset_Inr split: if_splits)
  then show ?thesis by (rule stays_right_trans [OF stays_right_trans [OF a b] stays_quotas])
qed

lemma stays_newaccount:
  assumes ok: "asset_ops_ok c" and u: "newaccount c k n s = Inr s'" shows "stays_right s s'"
  using u
proof (cases rule: newaccount_parts)
  case (1 nb z)
  have z: "amount z = 0" using 1(3) by (auto simp: core_asset_Inr asset_newD [OF ok])
  have "limits_right s' m" if "limits_right s m" for m
  proof (cases "m = n")
    case False
    have "limits_right s' m = limits_right s m"
      by (rule right_cong) (use False in \<open>simp_all add: 1(4) set_limits_def flags_def\<close>)
    with that show ?thesis by simp
  qed (simp add: limits_right_def 1(4) set_limits_def z)
  then show ?thesis by (simp add: stays_right_def)
qed

text \<open>The limits of unlimited accounts, and the management of a resource.\<close>

lemma stays_setalimits: assumes "setalimits c n ram net cpu s = Inr s'" shows "stays_right s s'"
proof -
  have s': "s' = set_limits n (ram, net, cpu) s" and r: "fmlookup (userres s) n = None"
    using assms by (auto simp: setalimits_def)
  have "limits_right s' m" if "limits_right s m" for m
  proof (cases "m = n")
    case False
    have "limits_right s' m = limits_right s m"
      by (rule right_cong) (use False in \<open>simp_all add: s' set_limits_def flags_def\<close>)
    with that show ?thesis by simp
  qed (simp add: limits_right_def s' set_limits_def r)
  then show ?thesis by (simp add: stays_right_def)
qed

lemma and_fields [simp]: "(ram_managed::32 word) AND net_managed = 0" "(ram_managed::32 word) AND cpu_managed = 0"
  "(net_managed::32 word) AND ram_managed = 0" "(net_managed::32 word) AND cpu_managed = 0"
  "(cpu_managed::32 word) AND ram_managed = 0" "(cpu_managed::32 word) AND net_managed = 0"
  by (simp_all add: ram_managed_def net_managed_def cpu_managed_def)

lemma and_not_fields [simp]: "NOT ram_managed AND net_managed = (net_managed::32 word)" "NOT ram_managed AND cpu_managed = (cpu_managed::32 word)"
  "NOT net_managed AND cpu_managed = (cpu_managed::32 word)" "NOT cpu_managed AND net_managed = (net_managed::32 word)"
  by (simp_all add: ram_managed_def net_managed_def cpu_managed_def)

lemma has_set_other [simp]:
  "has_field (set_field w ram_managed b) net_managed = has_field w net_managed"
  "has_field (set_field w ram_managed b) cpu_managed = has_field w cpu_managed"
  "has_field (set_field w net_managed b) cpu_managed = has_field w cpu_managed"
  "has_field (set_field w cpu_managed b) net_managed = has_field w net_managed"
  by (simp_all add: has_field_def set_field_def bit.conj_disj_distrib2 and.assoc)

lemma has_set_own [simp]: "f \<noteq> 0 \<Longrightarrow> has_field (set_field w f b) f = b"
  by (simp add: has_field_def set_field_def bit.conj_disj_distrib2 and.assoc)

lemma fields_nonzero [simp]: "net_managed \<noteq> 0" "cpu_managed \<noteq> 0" "ram_managed \<noteq> 0"
  by (simp_all add: ram_managed_def net_managed_def cpu_managed_def)

lemma flags_set_managed: "flags (set_limits n l (set_managed f b n s)) = (flags s)(n := set_field (flags s n) f b)"
  by (auto simp: fun_eq_iff flags_def set_managed_def set_voter_def set_limits_def Let_def default_voter_def split: option.splits)

lemma managed_views [simp]: "userres (set_limits n l (set_managed f b n s)) = userres s"
  "res_limits (set_limits n l (set_managed f b n s)) = (res_limits s)(n := l)"
  by (simp_all add: set_managed_def set_voter_def set_limits_def Let_def)

lemma stays_managed:
  assumes "limits_right s n \<Longrightarrow> limits_right (set_limits n l (set_managed f b n s)) n"
  shows "stays_right s (set_limits n l (set_managed f b n s))"
proof -
  let ?s = "set_limits n l (set_managed f b n s)"
  have "limits_right ?s m" if "limits_right s m" for m
  proof (cases "m = n")
    case False
    have "limits_right ?s m = limits_right s m"
      by (rule right_cong) (use False in \<open>simp_all add: flags_set_managed\<close>)
    with that show ?thesis by simp
  qed (use assms that in simp)
  then show ?thesis by (simp add: stays_right_def)
qed

lemma stays_setacctram: "setacctram c n v s = Inr s' \<Longrightarrow> stays_right s s'"
  by (auto simp: setacctram_def Let_def limits_right_def flags_set_managed intro!: stays_managed split: option.splits prod.splits)

lemma stays_setacctnet: "setacctnet c n v s = Inr s' \<Longrightarrow> stays_right s s'"
  by (auto simp: setacctnet_def Let_def limits_right_def flags_set_managed intro!: stays_managed split: option.splits prod.splits)

lemma stays_setacctcpu: "setacctcpu c n v s = Inr s' \<Longrightarrow> stays_right s s'"
  by (auto simp: setacctcpu_def Let_def limits_right_def flags_set_managed intro!: stays_managed split: option.splits prod.splits)

text \<open>What is left does not touch them.\<close>

lemma quotas_onblock: assumes "onblock c t n s = Inr s'" shows "quotas s' = quotas s"
  using assms
proof (cases rule: onblock_parts)
  case (1 s1 s2 s3)
  have "quotas (count_block c n x) = quotas x" for x by (simp add: count_block_def split: option.splits)
  moreover have "quotas (update_elected_producers c t x) = quotas x" for x
    by (simp add: update_elected_producers_def Let_def)
  moreover have "quotas (close_highest_bid c t x) = quotas x" for x
    by (simp add: close_highest_bid_def channel_namebid_to_rex_def Let_def split: option.splits prod.splits)
  ultimately show ?thesis using 1 by auto
qed

lemma quotas_pay_producer: "pay_producer c b n x memo s = Inr s' \<Longrightarrow> quotas s' = quotas s"
  by (erule pay_producer_parts) simp_all

lemma quotas_claimrewards: assumes "claimrewards c n s = Inr s'" shows "quotas s' = quotas s"
  using assms
proof (cases rule: claimrewards_parts)
  case (1 p sy q s1 upd share s2 pay s3 s4)
  have "quotas s1 = quotas s" using 1(8) by (rule fill_buckets_parts) (auto simp: quotas_def flags_def fun_eq_iff)
  moreover have "quotas s2 = quotas s1" using 1(9) by (auto simp: claim_share_def Let_def split: option.splits prod.splits)
  moreover have "quotas s3 = quotas s2" using 1(10) by (rule vote_pay_parts) auto
  moreover have "quotas (settle_claim c n p upd share x pay s3) = quotas s3" for x by (simp add: settle_claim_def Let_def)
  ultimately show ?thesis using quotas_pay_producer [OF 1(11)] quotas_pay_producer [OF 1(12)] by simp
qed

lemma quotas_bidname: "bidname c b n q s = Inr s' \<Longrightarrow> quotas s' = quotas s"
  by (erule bidname_parts) (auto elim!: add_bid_refund_parts)

lemma quotas_regproducer: "regproducer c n k u l s = Inr s' \<Longrightarrow> quotas s' = quotas s"
  by (auto simp: regproducer_def Let_def split: option.splits)

lemma stays_admin:
  "setparams c ps s = Inr s' \<Longrightarrow> stays_right s s'" "setpriv c n b s = Inr s' \<Longrightarrow> stays_right s s'"
  "updtrevision c r s = Inr s' \<Longrightarrow> stays_right s s'" "setabi c n ab s = Inr s' \<Longrightarrow> stays_right s s'"
  by (auto simp: setparams_def setpriv_def updtrevision_def setabi_def intro!: stays_quotas)

lemma stays_action:
  assumes ok: "asset_ops_ok c" and a: "apply_sys c a s = Inr s'" shows "stays_right s s'"
proof (cases "rex_action a")
  case True
  then show ?thesis using a by (rule quota_rows.walk_action)
next
  case False
  note stays = stays_setalimits stays_setacctram stays_setacctnet stays_setacctcpu stays_newaccount [OF ok] stays_buyram [OF ok] stays_sellram
  note same = stays_quotas [OF quotas_onblock] stays_quotas [OF quotas_claimrewards] stays_quotas [OF quotas_bidname]
    stays_quotas [OF quotas_regproducer] stays_quotas [OF quotas_voteproducer] stays_quotas [OF quotas_regproxy]
  show ?thesis
  proof (cases a)
    case (DelegateBw f r n p t)
    then show ?thesis using a by (auto elim!: delegatebw_parts intro: stays_changebw)
  next
    case (UndelegateBw f r n p)
    then show ?thesis using a by (auto elim!: undelegatebw_parts intro: stays_changebw)
  next
    case (BuyRamBytes p r n)
    then show ?thesis using a by (auto elim!: buyrambytes_parts intro: stays_buyram [OF ok])
  next
    case (Init v sy)
    then show ?thesis using a by (auto simp: init_def res_simps intro!: stays_quotas)
  next
    case (Refund n)
    then show ?thesis using a by (auto elim!: refund_parts intro!: stays_quotas)
  next
    case (BidRefund b n)
    then show ?thesis using a by (auto elim!: bidrefund_parts intro!: stays_quotas)
  next
    case (SetRam n)
    then show ?thesis using a by (auto elim!: setram_parts intro!: stays_quotas)
  next
    case (SetRamRate n)
    then show ?thesis using a by (auto simp: setramrate_def res_simps dest: quotas_supply intro!: stays_quotas)
  next
    case (UnregProd n)
    then show ?thesis using a by (auto simp: unregprod_def res_simps intro!: stays_quotas)
  next
    case (RmvProducer n)
    then show ?thesis using a by (auto simp: rmvproducer_def res_simps intro!: stays_quotas)
  qed (use a False in \<open>auto intro: stays same stays_admin\<close>)
qed

interpretation limits_kept: steady core "\<lambda>s. \<forall>n. limits_right s n"
proof unfold_locales
  show "(\<forall>n. limits_right (s\<lparr>outbox := l\<rparr>) n) \<longleftrightarrow> (\<forall>n. limits_right s n)"
    "(\<forall>n. limits_right (s\<lparr>tokens := t\<rparr>) n) \<longleftrightarrow> (\<forall>n. limits_right s n)" for s l t
    by (simp_all add: limits_right_def flags_def)
  show "\<forall>n. limits_right s' n" if "good_ctx c" "\<forall>n. limits_right s n" "apply_sys c a s = Inr s'" for c a s s'
    using stays_action [OF _ that(3)] that(1,2) by (simp add: stays_right_def good_ctx_def)
qed

section \<open>The property\<close>

text \<open>
  C38: Bandwidth is what it says. After any sequence of actions of the chain from its genesis, an
  account whose row of totals shows bandwidth, staked or rented, has at the host exactly the NET
  and the CPU limit of that row, each unless the producers have taken that resource of the account
  under their own management.
\<close>

theorem limits_follow_bandwidth:
  assumes "\<forall>e\<in>set es. good_event core e" "run_all world_step es (genesis params lims t) = Inr s"
    and "fmlookup (userres s) n = Some r" "amount (net_weight r) \<noteq> 0 \<or> amount (cpu_weight r) \<noteq> 0"
  shows "(managed net_managed n s \<or> fst (snd (res_limits s n)) = amount (net_weight r))
    \<and> (managed cpu_managed n s \<or> snd (snd (res_limits s n)) = amount (cpu_weight r))"
proof -
  have "\<forall>m. limits_right (genesis params lims t) m" by (simp add: limits_right_def genesis_def)
  moreover have "good_event core e" if "e \<in> set es" for e using assms(1) that by blast
  ultimately have "limits_right s n" using limits_kept.world.run_inv [OF _ _ assms(2)] by blast
  then show ?thesis
    using assms(3,4) unfolding limits_right_def managed_flags by (cases "res_limits s n") auto
qed

theorem limits_follow_bandwidth_witness:
  "\<not> managed net_managed ex_alice ex_staked \<and> fst (snd (res_limits ex_staked ex_alice)) = 100000
    \<and> \<not> managed cpu_managed ex_alice ex_staked \<and> snd (snd (res_limits ex_staked ex_alice)) = 50000"
proof -
  have r: "fmlookup (userres ex_staked) ex_alice = Some \<lparr>net_weight = ast 100000 ex_sy, cpu_weight = ast 50000 ex_sy, ram_bytes = 0\<rparr>"
    by (simp add: ex_staked_def)
  have m: "\<not> managed f ex_alice ex_staked" for f
    by (simp add: managed_def has_field_def ex_staked_def default_voter_def)
  show ?thesis
    using limits_follow_bandwidth [OF _ ex_stake_run [unfolded ex_genesis_def] r] ex_run_good m by auto
qed

end
