(* ===== verification/RexLock.thy ===== *)
theory RexLock
  imports RexPrice
begin

text \<open>
  The time lock of REX: bought REX are put in a bucket that matures at the end of the fourth full
  day, so until four days after the purchase nothing of them can be sold. The proof follows the row
  of one owner through every procedure: while the owner has no open order, only the owner's own
  actions change the row, and each of them leaves every bucket where it is or puts it later.
\<close>

section \<open>The row of an owner, and what others do to it\<close>

definition stock :: "name \<Rightarrow> sys_state \<Rightarrow> (asset \<times> int64 \<times> (time_point_sec \<times> int64) list) option" where
  "stock n s = map_option rb_view (fmlookup (rexbalance s) n)"

definition no_open_order :: "name \<Rightarrow> sys_state \<Rightarrow> bool" where
  "no_open_order n s \<longleftrightarrow> (\<forall>ord. fmlookup (rexorders s) n = Some ord \<longrightarrow> \<not> is_open ord)"

definition spared :: "name \<Rightarrow> sys_state \<Rightarrow> sys_state \<Rightarrow> bool" where
  "spared n s s' \<longleftrightarrow> (no_open_order n s \<longrightarrow> stock n s' = stock n s \<and> no_open_order n s')"

lemma spared_refl [simp]: "spared n s s"
  by (simp add: spared_def)

lemma spared_trans: "spared n s s1 \<Longrightarrow> spared n s1 s2 \<Longrightarrow> spared n s s2"
  by (auto simp: spared_def)

lemma spared_trans3: "spared n s s1 \<Longrightarrow> spared n s1 s2 \<Longrightarrow> spared n s2 s3 \<Longrightarrow> spared n s s3"
  by (auto simp: spared_def)

lemma spared_tables:
  assumes "fmmap rb_view (rexbalance s') = fmmap rb_view (rexbalance s)" "rexorders s' = rexorders s"
  shows "spared n s s'"
proof -
  have "fmlookup (fmmap rb_view (rexbalance s')) n = fmlookup (fmmap rb_view (rexbalance s)) n" using assms(1) by simp
  then show ?thesis using assms(2) by (simp add: spared_def stock_def no_open_order_def)
qed

lemma spared_same: "same Rexing s s' \<Longrightarrow> spared n s s'"
  by (rule spared_tables) simp_all

lemma spared_frame: "rexbalance s' = rexbalance s \<Longrightarrow> rexorders s' = rexorders s \<Longrightarrow> spared n s s'"
  by (rule spared_tables) simp_all

lemma spared_other: "m \<noteq> n \<Longrightarrow> rexbalance s' = fmupd m rb (rexbalance s) \<Longrightarrow> rexorders s' = rexorders s \<Longrightarrow> spared n s s'"
  by (simp add: spared_def stock_def no_open_order_def)

lemma fund_tables:
  "transfer_to_fund c m q s = Inr s' \<Longrightarrow> rexbalance s' = rexbalance s \<and> rexorders s' = rexorders s"
  "transfer_from_fund c m q s = Inr s' \<Longrightarrow> rexbalance s' = rexbalance s \<and> rexorders s' = rexorders s"
  by (auto simp: transfer_to_fund_def transfer_from_fund_def res_simps)

lemma pool_tables: "add_to_rex_pool c q s = Inr (r, s') \<Longrightarrow> rexbalance s' = rexbalance s \<and> rexorders s' = rexorders s"
  by (auto simp: add_to_rex_pool_def res_simps Let_def split: option.splits if_splits)

lemma spared_power: "update_voting_power c m q s = Inr s' \<Longrightarrow> spared n s s'"
  using view_update_voting_power viewD by (blast intro: spared_tables)

lemma spared_settle: "settle_order z m p d s = (q1, q2, r, s1) \<Longrightarrow> spared n s s1"
  by (auto simp: settle_order_def spared_def stock_def no_open_order_def split: option.splits if_splits)

lemma spared_account:
  assumes "update_rex_account c m p d b s = Inr (r, s')" shows "spared n s s'"
proof -
  from update_rex_account_parts [OF assms] obtain z q1 q2 s1 s2 where a: "settle_order z m p d s = (q1, q2, r, s1)"
    "(if 0 < amount q1 then transfer_to_fund c m q1 s1 else Inr s1) = Inr s2"
    "(if b \<or> amount q2 \<noteq> 0 then update_voting_power c m q2 s2 else Inr s2) = Inr s'" .
  have "spared n s1 s2" using a(2) fund_tables(1) by (auto intro: spared_frame split: if_splits)
  moreover have "spared n s2 s'" using a(3) by (auto intro: spared_power split: if_splits)
  ultimately show ?thesis using spared_settle [OF a(1)] spared_trans3 by blast
qed

lemma account_row:
  assumes "asset_ops_ok c" "update_rex_account c m p d b s = Inr (r, s')" "no_open_order m s" shows "amount r = 0"
  using assms
  by (auto simp: settle_order_def no_open_order_def asset_newD elim!: update_rex_account_parts split: option.splits if_splits)

section \<open>Maintenance\<close>

lemma spared_channel: "spared n s (channel_to_rex c f q s)"
  by (rule spared_frame) (auto simp: channel_to_rex_def split: option.splits)

lemma spared_proceeds: "spared n s (channel_proceeds c s)"
proof -
  have "rexbalance (channel_to_rex c f q s) = rexbalance s" "rexorders (channel_to_rex c f q s) = rexorders s" for f q
    by (auto simp: channel_to_rex_def split: option.splits)
  then show ?thesis by (intro spared_frame) (auto simp: channel_proceeds_def Let_def split: option.splits)
qed

lemma spared_set_loans [simp]: "spared n s (set_loans kind m s)"
  by (cases kind) (auto intro: spared_frame)

lemma spared_run_loan: assumes "run_loan c kind num loan s = Inr s'" shows "spared n s s'"
proof -
  from assms obtain del delta s1 s2 where p: "process_expired_loan c kind num loan s = Inr (del, delta, s1)"
    and l: "(if delta \<noteq> 0 then limits_for kind c (loan_receiver loan) delta s1 else Inr s1) = Inr s2"
    and s': "s' = (if del then set_loans kind (fmdrop num (loans_of kind s2)) s2 else s2)"
    unfolding run_loan_def res_simps by blast
  have "spared n s s1" using p
  proof (cases rule: process_expired_loan_parts)
    case (1 rp rp1 rented)
    show ?thesis unfolding 1(9) by (rule spared_trans [OF spared_frame spared_set_loans]) simp_all
  next
    case (2 rp rp1)
    then show ?thesis using fund_tables(1) by (intro spared_frame) (auto split: if_splits)
  qed
  moreover have "spared n s1 s2" using loan_delta_same [OF l] by (blast intro: spared_same)
  ultimately show ?thesis using spared_trans by (auto simp: s' intro: spared_trans)
qed

lemma spared_run_loans: "run_loans i c kind s = Inr s' \<Longrightarrow> spared n s s'"
proof (induction i arbitrary: s)
  case (Suc i)
  from Suc.prems consider "s' = s" | num loan x where "run_loan c kind num loan s = Inr x" "run_loans i c kind x = Inr s'"
    by (auto simp: bindr_Inr split: option.splits if_splits)
  then show ?case by cases (simp, blast intro: spared_trans [OF spared_run_loan Suc.IH])
qed simp

text \<open>Filling an order changes the row and the order of its owner only.\<close>

lemma fill_tables:
  assumes "fill_rex_order c m q s = Inr (ord, s')"
  shows "rexorders s' = rexorders s" "n \<noteq> m \<Longrightarrow> fmlookup (rexbalance s') n = fmlookup (rexbalance s) n"
  using assms unfolding fill_rex_order_def with_pool_def Let_def res_simps by (auto simp: res_simps split: if_splits)

lemma spared_run_order:
  assumes "run_order c m ord s = Inr s'" "fmlookup (rexorders s) m = Some ord" "is_open ord" shows "spared n s s'"
proof (cases "m = n")
  case True
  then show ?thesis using assms(2,3) by (simp add: spared_def no_open_order_def)
next
  case False
  show ?thesis
  proof (cases "fmlookup (rexbalance s) m")
    case None
    then show ?thesis using assms(1) by (simp add: run_order_def)
  next
    case (Some rb)
    obtain o1 s1 where f: "fill_rex_order c m (rex_requested ord) s = Inr (o1, s1)"
      and s': "s' = (if success o1 then s1\<lparr>rexorders := fmupd m (ord\<lparr>proceeds := (proceeds ord)\<lparr>amount := amount (out_proceeds o1)\<rparr>,
          stake_change := (stake_change ord)\<lparr>amount := amount (out_stake_change o1)\<rparr>, is_open := False\<rparr>) (rexorders s1),
          outbox := outbox s1 @ [OrderResult m (out_proceeds o1)]\<rparr> else s1)"
      using assms(1) unfolding run_order_def Some option.case res_simps by blast
    have "fmlookup (rexbalance s') n = fmlookup (rexbalance s) n" using fill_tables(2) [OF f] False by (simp add: s')
    moreover have "fmlookup (rexorders s') n = fmlookup (rexorders s) n" using fill_tables(1) [OF f] False by (simp add: s')
    ultimately show ?thesis by (simp add: spared_def stock_def no_open_order_def)
  qed
qed

lemma spared_run_orders: "run_orders c ms s = Inr s' \<Longrightarrow> spared n s s'"
proof (induction ms arbitrary: s)
  case (Cons m ms)
  from Cons.prems consider "s' = s" | ord x where "fmlookup (rexorders s) m = Some ord" "is_open ord"
      "run_order c m ord s = Inr x" "run_orders c ms x = Inr s'"
    by (auto simp: bindr_Inr split: option.splits if_splits)
  then show ?case by cases (simp, blast intro: spared_trans [OF spared_run_order Cons.IH])
qed simp

lemma spared_runrex: assumes "runrex c mx s = Inr s'" shows "spared n s s'"
  using assms
proof (cases rule: runrex_parts)
  case (1 s1 s2)
  show ?thesis
    by (rule spared_trans [OF spared_proceeds])
      (rule spared_trans3 [OF spared_run_loans [OF 1(2)] spared_run_loans [OF 1(3)] spared_run_orders [OF 1(4)]])
qed

section \<open>A locked row\<close>

definition locked_row :: "time_point_sec \<Rightarrow> (asset \<times> int64 \<times> (time_point_sec \<times> int64) list) \<Rightarrow> bool" where
  "locked_row until row \<longleftrightarrow> fst (snd row) = 0 \<and> (\<forall>b\<in>set (snd (snd row)). until < fst b)"

text \<open>Nothing the owner has is mature, nothing matures up to the given second, and no sale is waiting.\<close>

definition locked :: "time_point_sec \<Rightarrow> name \<Rightarrow> sys_state \<Rightarrow> bool" where
  "locked until n s \<longleftrightarrow> (\<forall>row. stock n s = Some row \<longrightarrow> locked_row until row) \<and> no_open_order n s"

lemma locked_rowD:
  "locked_row until (rb_view rb) \<Longrightarrow> matured_rex rb = 0" "locked_row until (rb_view rb) \<Longrightarrow> b \<in> set (rex_maturities rb) \<Longrightarrow> until < fst b"
  by (simp_all add: locked_row_def rb_view_def)

lemma lockedD: "locked until n s \<Longrightarrow> fmlookup (rexbalance s) n = Some rb \<Longrightarrow> locked_row until (rb_view rb)"
  "locked until n s \<Longrightarrow> no_open_order n s"
  by (simp_all add: locked_def stock_def)

lemma locked_spared: "locked until n s \<Longrightarrow> spared n s s' \<Longrightarrow> locked until n s'"
  by (simp add: locked_def spared_def)

lemma locked_put:
  "locked until n s \<Longrightarrow> locked_row until (rb_view rb) \<Longrightarrow> rexbalance s' = fmupd n rb (rexbalance s) \<Longrightarrow> rexorders s' = rexorders s
     \<Longrightarrow> locked until n s'"
  by (simp add: locked_def stock_def no_open_order_def)

text \<open>The seconds at which the owner is watched: buckets made then mature later.\<close>

definition watched :: "('x) chain_scheme \<Rightarrow> time_point_sec \<Rightarrow> bool" where
  "watched c until \<longleftrightarrow> now_sec c \<le> until \<and> until < get_rex_maturity c \<and> until < end_of_days"

lemma watched_days:
  assumes "0 \<le> t" "t \<le> now_sec c" "now_sec c \<le> t + 4 * 86400" "t + 9 * 86400 < 4294967296"
  shows "watched c (t + 4 * 86400)"
proof -
  let ?x = "now_sec c - now_sec c mod 86400 + 5 * 86400"
  have m: "0 \<le> now_sec c mod 86400" "now_sec c mod 86400 < 86400" by simp_all
  then have b: "now_sec c + 4 * 86400 < ?x" "?x \<le> now_sec c + 5 * 86400" by linarith+
  have "0 \<le> ?x" "?x < 4294967296" using b assms by linarith+
  then have "u32 ?x = ?x" by (simp add: u32_def)
  moreover have "t + 4 * 86400 < ?x" using b(1) assms(2) by linarith
  ultimately show ?thesis
    using assms by (simp add: watched_def get_rex_maturity_def Let_def seconds_per_day_def end_of_days_def)
qed

lemma locked_view_cong: "rb_view rb' = rb_view rb \<Longrightarrow> locked_row until (rb_view rb) \<Longrightarrow> locked_row until (rb_view rb')"
  by simp

lemma mature_none: "\<forall>b\<in>set bs. now < fst b \<Longrightarrow> mature now m bs = (m, bs)"
  by (cases bs) auto

lemma process_locked:
  assumes "locked_row until (rb_view rb)" "now_sec c \<le> until" shows "process_rex_maturities c rb = rb"
proof -
  have "mature (now_sec c) (matured_rex rb) (rex_maturities rb) = (matured_rex rb, rex_maturities rb)"
    by (rule mature_none) (use assms locked_rowD(2) in force)
  then show ?thesis by (simp add: process_rex_maturities_def)
qed

lemma add_bucket_locked:
  assumes "locked_row until (rb_view rb)" "until < t" shows "locked_row until (rb_view (add_bucket t r rb))"
proof -
  have "\<forall>b\<in>set (rex_maturities (add_bucket t r rb)). until < fst b"
    using locked_rowD(2) [OF assms(1)] assms(2) by (auto simp: add_bucket_def Let_def dest: in_set_butlastD)
  then show ?thesis using locked_rowD(1) [OF assms(1)] by (simp add: locked_row_def rb_view_def add_bucket_def Let_def)
qed

lemma read_savings_locked:
  assumes "read_rex_savings rb = (sav, rb')" "locked_row until (rb_view rb)" shows "locked_row until (rb_view rb')"
proof -
  have "set (rex_maturities rb') \<subseteq> set (rex_maturities rb)" "matured_rex rb' = matured_rex rb"
    using assms(1) by (auto simp: read_rex_savings_def Let_def dest: in_set_butlastD split: if_splits)
  then show ?thesis using assms(2) by (auto simp: locked_row_def rb_view_def)
qed

lemma put_savings_locked:
  "locked_row until (rb_view rb) \<Longrightarrow> until < end_of_days \<Longrightarrow> locked_row until (rb_view (put_rex_savings r rb))"
  by (simp add: put_rex_savings_def add_bucket_locked)

lemma consolidate_locked:
  assumes "watched c until" "amount q = 0" shows "locked_row until (rb_view (consolidate_rex_balance c q rb))"
proof -
  obtain sav rb1 where r: "read_rex_savings rb = (sav, rb1)" by fastforce
  have "locked_row until (rb_view (rb1\<lparr>matured_rex := amount q, rex_maturities := if 0 < x then [(get_rex_maturity c, x)] else []\<rparr>))" for x
    using assms by (simp add: locked_row_def rb_view_def watched_def)
  then show ?thesis using assms(1) by (simp add: consolidate_rex_balance_def r Let_def put_savings_locked watched_def)
qed

text \<open>Moving to savings takes from the buckets only: there is nothing mature to take.\<close>

lemma take_buckets_times: "take_buckets amt m bs = (m', bs') \<Longrightarrow> fst ` set bs' \<subseteq> fst ` set bs"
proof (induction bs arbitrary: m)
  case (Cons b bs)
  obtain t r where b: "b = (t, r)" by (cases b)
  from Cons.prems consider r' where "bs' = (t, r') # bs" | m1 where "take_buckets amt m1 bs = (m', bs')"
    by (auto simp: b Let_def split: if_splits)
  then show ?case
  proof cases
    case 2
    from Cons.IH [OF this] show ?thesis by auto
  qed (simp add: b)
qed simp

lemma move_to_savings_locked:
  assumes m: "move_to_savings amt 0 rb = Inr rb'" and l: "locked_row until (rb_view rb)"
    and f: "rb_fine rb" "rb_total rb < 9223372036854775808" "0 < amt" "amt < 9223372036854775808"
  shows "locked_row until (rb_view rb')"
proof -
  obtain mv bs where b: "take_buckets amt 0 (rev (rex_maturities rb)) = (mv, bs)" by fastforce
  have z: "matured_rex rb = 0" by (rule locked_rowD(1) [OF l])
  have s: "bucket_sum (rev (rex_maturities rb)) < 9223372036854775808" using f(2) z by (simp add: rb_total_def)
  have o: "buckets_ok (rev (rex_maturities rb))" using f(1) by (simp add: rb_fine_def)
  have mv: "0 \<le> mv" "mv \<le> amt" using take_buckets_keeps [OF b _ _ f(4) o s] f(3) by auto
  have "matured_rex rb' = 0 \<and> rex_maturities rb' = rev bs"
  proof (cases "mv < amt")
    case True
    have "i64 (amt - mv) = amt - mv" using mv True f by (intro i64_fits) auto
    moreover have "i64 (- (amt - mv)) = - (amt - mv)" using mv True f by (intro i64_id) (auto simp: in_i64_def)
    ultimately have False using m True z by (simp add: move_to_savings_def b Let_def)
    then show ?thesis ..
  next
    case False
    then show ?thesis using m z by (auto simp: move_to_savings_def b Let_def)
  qed
  moreover have "until < fst x" if "x \<in> set bs" for x
  proof -
    have "fst x \<in> fst ` set (rex_maturities rb)" using take_buckets_times [OF b] that by auto
    then show ?thesis using locked_rowD(2) [OF l] by auto
  qed
  ultimately show ?thesis by (simp add: locked_row_def rb_view_def)
qed

section \<open>The actions\<close>

lemma savings_bucket_locked:
  assumes "read_rex_savings rb0 = (sav, rb1)" "locked_row until (rb_view rb0)" "watched c until"
  shows "locked_row until (rb_view (put_rex_savings x (add_bucket (get_rex_maturity c) y (process_rex_maturities c rb1))))"
proof -
  have l: "locked_row until (rb_view rb1)" by (rule read_savings_locked [OF assms(1,2)])
  have w: "now_sec c \<le> until" "until < get_rex_maturity c" "until < end_of_days" using assms(3) by (simp_all add: watched_def)
  show ?thesis unfolding process_locked [OF l w(1)] by (rule put_savings_locked [OF add_bucket_locked [OF l w(2)] w(3)])
qed

lemma locked_add_balance:
  assumes "add_to_rex_balance c m q r s = Inr (d, s')" "locked until n s" "watched c until" shows "locked until n s'"
proof (rule add_to_rex_balance_parts [OF assms(1)])
  fix rb0 sav rb1
  assume r: "read_rex_savings rb0 = (sav, rb1)"
    and s': "s' = s\<lparr>rexbalance := fmupd m (put_rex_savings sav (add_bucket (get_rex_maturity c) (amount r)
       (process_rex_maturities c rb1))) (rexbalance s)\<rparr>"
    and o: "case fmlookup (rexbalance s) m of
       None \<Rightarrow> rb0 = \<lparr>vote_stake = q, rex_bal = r, matured_rex = 0, rex_maturities = []\<rparr>
     | Some rb \<Rightarrow> matured_rex rb0 = matured_rex rb \<and> rex_maturities rb0 = rex_maturities rb
         \<and> amount (rex_bal rb0) = i64 (amount (rex_bal rb) + amount r)"
  show ?thesis
  proof (cases "m = n")
    case True
    have "locked_row until (rb_view rb0)" using o lockedD(1) [OF assms(2)] True
      by (auto simp: locked_row_def rb_view_def split: option.splits)
    from savings_bucket_locked [OF r this assms(3)] show ?thesis by (rule locked_put [OF assms(2)]) (simp_all add: s' True)
  next
    case False
    then show ?thesis using locked_spared [OF assms(2) spared_other [OF False]] by (simp add: s')
  qed
qed

lemma spared_send [simp]: "spared n s (send_transfer ps f t q memo s)" "spared n s (send_result a s)"
  by (simp_all add: spared_frame send_transfer_def send_result_def)

lemma locked_fund:
  "transfer_to_fund c m q s = Inr s' \<Longrightarrow> locked until n s \<Longrightarrow> locked until n s'"
  "transfer_from_fund c m q s = Inr s' \<Longrightarrow> locked until n s \<Longrightarrow> locked until n s'"
  "add_to_rex_pool c q s = Inr (r, s') \<Longrightarrow> locked until n s \<Longrightarrow> locked until n s'"
  using fund_tables pool_tables locked_spared [OF _ spared_frame] by blast+

lemma locked_runrex: "runrex c mx s = Inr s' \<Longrightarrow> locked until n s \<Longrightarrow> locked until n s'"
  by (rule locked_spared [OF _ spared_runrex])

lemma locked_account: "update_rex_account c m p d b s = Inr (r, s') \<Longrightarrow> locked until n s \<Longrightarrow> locked until n s'"
  by (rule locked_spared [OF _ spared_account])

lemma locked_sent: "locked until n s \<Longrightarrow> locked until n (send_transfer ps f t q memo s)"
  "locked until n s \<Longrightarrow> locked until n (send_result a s)"
  by (simp_all add: locked_spared)

lemma locked_buyrex:
  assumes "buyrex c m q s = Inr s'" "locked until n s" "watched c until" shows "locked until n s'"
  using assms(1)
proof (cases rule: buyrex_parts)
  case (1 sy r d z r2 s1 s2 s3 s4 s5)
  have "locked until n s3" by (rule locked_add_balance [OF 1(7) locked_fund(3) [OF 1(6) locked_fund(2) [OF 1(5) assms(2)]] assms(3)])
  then show ?thesis unfolding 1(12) by (intro locked_sent locked_account [OF 1(11)] locked_runrex [OF 1(8)])
qed

lemma locked_unstaketorex:
  assumes "unstaketorex c m r nq cq s = Inr s'" "locked until n s" "watched c until" shows "locked until n s'"
  using assms(1)
proof (cases rule: unstaketorex_parts)
  case (1 d d1 s1 s2 pay rec s3 x s4 s5 z y s6)
  have "locked until n s1" by (rule locked_spared [OF assms(2) spared_frame]) (simp_all add: 1(11))
  then have "locked until n s2" using limits_same [OF 1(12)] by (blast intro: locked_spared spared_same)
  then have "locked until n s4" by (intro locked_add_balance [OF 1(15) _ assms(3)] locked_fund(3) [OF 1(14)] locked_sent)
  then show ?thesis unfolding 1(19) by (intro locked_sent locked_account [OF 1(18)] locked_runrex [OF 1(16)])
qed

text \<open>The owner's own sale fails; a sale by another owner does not touch the row.\<close>

lemma sellrex_locked:
  assumes "sellrex c n q s = Inr s'" "locked until n s" "now_sec c \<le> until" shows False
  using assms(1)
proof (cases rule: sellrex_parts)
  case (1 s1 rb s2 ord s3 z s4 pend s5 rb2)
  have l: "locked_row until (rb_view rb)" by (rule lockedD(1) [OF locked_runrex [OF 1(2) assms(2)] 1(3)])
  show ?thesis using 1(4,7) locked_rowD(1) [OF l] by (simp add: process_locked [OF l assms(3)])
qed

lemma locked_sellrex:
  assumes "sellrex c m q s = Inr s'" "locked until n s" "watched c until" shows "locked until n s'"
  using assms(1)
proof (cases rule: sellrex_parts)
  case (1 s1 rb s2 ord s3 z s4 pend s5 rb2)
  have ne: "m \<noteq> n" using sellrex_locked [OF assms(1)] assms(2,3) by (auto simp: watched_def)
  have "spared n s1 s2" by (rule spared_other [OF ne]) (simp_all add: 1(6))
  moreover have "spared n s2 s3" using fill_tables [OF 1(8)] ne by (simp add: spared_def stock_def no_open_order_def)
  moreover have "spared n s4 s5"
    using 1(11) ne by (auto simp: spared_def stock_def no_open_order_def dest!: queue_order_state split: if_splits)
  moreover have "spared n s5 s'" by (simp add: 1(14))
  ultimately show ?thesis
    using locked_runrex [OF 1(2) assms(2)] spared_account [OF 1(10)] locked_spared by meson
qed

lemma locked_withdraw: assumes "withdraw c m q s = Inr s'" "locked until n s" shows "locked until n s'"
proof -
  from assms(1) obtain z r s1 s2 where a: "update_rex_account c m z z False s = Inr (r, s1)" and b: "transfer_from_fund c m q s1 = Inr s2"
    and s': "s' = send_transfer [Perm rex_account active_permission] rex_account m q ''withdraw from REX fund'' s2"
    unfolding withdraw_def res_simps by blast
  show ?thesis unfolding s' by (rule locked_sent(1) [OF locked_fund(2) [OF b locked_account [OF a assms(2)]]])
qed

lemma locked_deposit: assumes "deposit c m q s = Inr s'" "locked until n s" shows "locked until n s'"
proof -
  have "transfer_to_fund c m q (send_transfer [Perm m active_permission] m rex_account q ''deposit to REX fund'' s) = Inr s'"
    using assms(1) by (auto simp: deposit_def res_simps)
  then show ?thesis by (rule locked_fund(1) [OF _ locked_sent(1) [OF assms(2)]])
qed

lemma locked_cnclrexorder: "cnclrexorder c m s = Inr s' \<Longrightarrow> locked until n s \<Longrightarrow> locked until n s'"
  by (auto simp: cnclrexorder_def res_simps locked_def stock_def no_open_order_def split: if_splits)

lemma locked_rentrex: assumes "rentrex kind c from receiver pay fund s = Inr s'" "locked until n s" shows "locked until n s'"
  using assms(1)
proof (cases rule: rentrex_parts)
  case (1 s1 sy s2 rp rented a s3)
  have "locked until n s2" using 1(9) locked_fund(2) locked_runrex [OF 1(2) assms(2)] by blast
  moreover have "spared n s2 s3"
    unfolding 1(15) by (rule spared_trans3 [OF spared_frame spared_set_loans spared_send(2)]) simp_all
  moreover have "spared n s3 s'" using limits_for_same [OF 1(16)] by (blast intro: spared_same)
  ultimately show ?thesis using locked_spared by blast
qed

lemma locked_fundloan: "fundloan kind c m num q s = Inr s' \<Longrightarrow> locked until n s \<Longrightarrow> locked until n s'"
  by (erule fund_loan_parts) (auto intro: locked_spared [OF locked_fund(2) spared_set_loans])

lemma locked_defloan: "defloan kind c m num q s = Inr s' \<Longrightarrow> locked until n s \<Longrightarrow> locked until n s'"
  by (erule defund_loan_parts) (rule locked_fund(1) [OF _ locked_spared [OF _ spared_set_loans]])

lemma locked_updaterex:
  assumes "updaterex c m s = Inr s'" "locked until n s" "watched c until" shows "locked until n s'"
  using assms(1)
proof (cases rule: updaterex_parts)
  case (1 s1 rb rp z stake change r s3 rb3)
  let ?s2 = "s1\<lparr>rexbalance := fmupd m (rb\<lparr>vote_stake := z\<lparr>amount := stake\<rparr>\<rparr>) (rexbalance s1)\<rparr>"
  have "spared n s1 ?s2" using 1(3) by (auto simp: spared_def stock_def no_open_order_def rb_view_def)
  then have l: "locked until n s3" using locked_account [OF 1(8)] locked_runrex [OF 1(2) assms(2)] locked_spared by blast
  show ?thesis
  proof (cases "m = n")
    case True
    have "process_rex_maturities c rb3 = rb3"
      by (rule process_locked [OF lockedD(1) [OF l 1(9) [unfolded True]]]) (use assms(3) in \<open>simp add: watched_def\<close>)
    then show ?thesis by (intro locked_put [OF l lockedD(1) [OF l 1(9) [unfolded True]]]) (simp_all add: 1(10) True)
  next
    case False
    show ?thesis by (rule locked_spared [OF l spared_other [OF False]]) (simp_all add: 1(10))
  qed
qed

lemma locked_consolidate:
  assumes "consolidate c m s = Inr s'" "locked until n s" "watched c until" "asset_ops_ok c" shows "locked until n s'"
  using assms(1)
proof (cases rule: consolidate_parts)
  case (1 s1 z r s2 rb)
  have l1: "locked until n s1" by (rule locked_runrex [OF 1(2) assms(2)])
  have l: "locked until n s2" by (rule locked_account [OF 1(5) l1])
  show ?thesis
  proof (cases "m = n")
    case True
    have "amount r = 0" by (rule account_row [OF assms(4) 1(5)]) (use lockedD(2) [OF l1] True in simp)
    then show ?thesis by (intro locked_put [OF l consolidate_locked [OF assms(3)]]) (simp_all add: 1(7) True)
  next
    case False
    show ?thesis by (rule locked_spared [OF l spared_other [OF False]]) (simp_all add: 1(7))
  qed
qed

text \<open>The row the owner's REX are moved from is the one the action found.\<close>

lemma locked_mvtosavings:
  assumes "mvtosavings c m q s = Inr s'" "locked until n s" "watched c until" "asset_ops_ok c"
    and q: "amount q < 9223372036854775808"
    and row: "\<And>rb. fmlookup (rexbalance s) n = Some rb \<Longrightarrow> rb_fine rb \<and> rb_total rb < 9223372036854775808"
  shows "locked until n s'"
  using assms(1)
proof (cases rule: mvtosavings_parts)
  case (1 s1 rb0 z r s2 rb1 sav rb2 rb3)
  have l1: "locked until n s1" by (rule locked_runrex [OF 1(2) assms(2)])
  have l: "locked until n s2" by (rule locked_account [OF 1(6) l1])
  show ?thesis
  proof (cases "m = n")
    case True
    have r: "amount r = 0" by (rule account_row [OF assms(4) 1(6)]) (use lockedD(2) [OF l1] True in simp)
    have "stock n s1 = stock n s" "stock n s2 = stock n s1"
      using spared_runrex [OF 1(2), of n] spared_account [OF 1(6), of n] lockedD(2) [OF assms(2)] by (auto simp: spared_def)
    then have "stock n s = Some (rb_view rb1)" using 1(7) True by (simp add: stock_def)
    then obtain rb where rb: "fmlookup (rexbalance s) n = Some rb" "rb_view rb = rb_view rb1" by (auto simp: stock_def)
    have f1: "rb_fine rb1" "rb_total rb1 < 9223372036854775808"
      using row [OF rb(1)] rb(2) by (simp_all add: rb_fine_def rb_total_def rb_view_def)
    note rd = read_savings_keeps [OF 1(8)]
    have f2: "rb_fine rb2" "rb_total rb2 < 9223372036854775808" using rd(1,2) f1 by auto
    have lr: "locked_row until (rb_view rb2)"
      by (rule read_savings_locked [OF 1(8) lockedD(1) [OF l 1(7) [unfolded True]]])
    have "process_rex_maturities c rb2 = rb2" by (rule process_locked [OF lr]) (use assms(3) in \<open>simp add: watched_def\<close>)
    then have "locked_row until (rb_view rb3)" using move_to_savings_locked [OF _ lr f2 1(4) q] 1(10) r by simp
    then have "locked_row until (rb_view (put_rex_savings x rb3))" for x
      using put_savings_locked assms(3) by (simp add: watched_def)
    then show ?thesis by (rule locked_put [OF l]) (simp_all add: 1(11) True)
  next
    case False
    show ?thesis by (rule locked_spared [OF l spared_other [OF False]]) (simp_all add: 1(11))
  qed
qed

lemma locked_mvfrsavings:
  assumes "mvfrsavings c m q s = Inr s'" "locked until n s" "watched c until" shows "locked until n s'"
  using assms(1)
proof (cases rule: mvfrsavings_parts)
  case (1 s1 rb0 sav rb1 s2 z r)
  have l: "locked until n s1" by (rule locked_runrex [OF 1(2) assms(2)])
  have "locked until n s2"
  proof (cases "m = n")
    case True
    show ?thesis
      by (rule locked_put [OF l savings_bucket_locked [OF 1(5) lockedD(1) [OF l 1(3) [unfolded True]] assms(3)]])
        (simp_all add: 1(7) True)
  next
    case False
    show ?thesis by (rule locked_spared [OF l spared_other [OF False]]) (simp_all add: 1(7))
  qed
  then show ?thesis by (rule locked_account [OF 1(9)])
qed

lemma locked_closerex: assumes "closerex c m s = Inr s'" "locked until n s" shows "locked until n s'"
  using assms(1)
proof (cases rule: closerex_parts)
  case (1 s1 z r s2 f s3)
  have "locked until n s1" using 1(2) assms(2) by (auto intro: locked_runrex split: if_splits)
  then have "locked until n s2" by (rule locked_account [OF 1(4)])
  then show ?thesis using 1(5,7) by (auto simp: locked_def stock_def no_open_order_def split: if_splits)
qed

text \<open>Trading RAM, producing a block and the actions outside REX.\<close>

lemma supply_tables: "update_ram_supply c s = Inr s' \<Longrightarrow> rexbalance s' = rexbalance s \<and> rexorders s' = rexorders s"
  by (erule update_ram_supply_parts) simp_all

lemma spared_buyram: assumes "buyram c m r q s = Inr s'" shows "spared n s s'"
  using assms
proof (cases rule: buyram_parts)
  case (1 s1 fee price s2 mk m1 out)
  have "spared n s1 s2"
    unfolding 1(7) pay_ram_def Let_def by (auto intro: spared_trans [OF spared_send(1)] spared_trans [OF spared_send(1) spared_channel])
  moreover have "spared n s s1" using supply_tables [OF 1(2)] by (simp add: spared_frame)
  moreover have "spared n s2 s'" using 1(11)
    by (rule credit_ram_parts) (auto simp: set_ram_limit_def set_limits_def intro!: spared_frame split: prod.splits)
  ultimately show ?thesis using spared_trans by blast
qed

lemma spared_sellram: assumes "sellram c m b s = Inr s'" shows "spared n s s'"
  using assms
proof (cases rule: sellram_parts)
  case (1 s1 r mk q sy out m1 stake r1)
  have s1: "rexbalance s1 = rexbalance s \<and> rexorders s1 = rexorders s" by (rule supply_tables [OF 1(2)])
  have pay: "spared n x y" if "pay_seller c m out x = Inr y" for x y
    using that spared_channel [of n x] by (auto simp: pay_seller_def Let_def core_asset_Inr
        intro: spared_trans [OF spared_send(1)] spared_trans3 [OF spared_send(1) spared_send(1) spared_channel] split: if_splits)
  have lim: "rexbalance (set_ram_limit m b x) = rexbalance x \<and> rexorders (set_ram_limit m b x) = rexorders x" for b x
    by (auto simp: set_ram_limit_def set_limits_def split: prod.splits)
  show ?thesis by (rule spared_trans [OF spared_frame pay [OF 1(14)]]) (simp_all add: lim s1)
qed

lemma spared_onblock: assumes "onblock c t m s = Inr s'" shows "spared n s s'"
  using assms
proof (cases rule: onblock_parts)
  case (1 s1 s2 s3)
  have "spared n x (count_block c m x)" for x by (rule spared_frame) (simp_all add: count_block_def split: option.splits)
  moreover have "spared n x (update_elected_producers c t x)" for x
    by (rule spared_frame) (simp_all add: update_elected_producers_def Let_def)
  moreover have "spared n x (close_highest_bid c t x)" for x
    by (rule spared_frame) (simp_all add: close_highest_bid_def channel_namebid_to_rex_def Let_def split: option.splits prod.splits)
  moreover have "spared n s s1" "spared n s1 s2" using 1(2,4) by (auto intro: spared_frame)
  ultimately show ?thesis using 1(5,6) by (metis spared_trans)
qed

lemma locked_action:
  assumes u: "apply_sys c a s = Inr s'" and l: "locked until n s" and w: "watched c until" and g: "good_ctx c" "rex_fair a"
    and row: "\<And>rb. fmlookup (rexbalance s) n = Some rb \<Longrightarrow> rb_fine rb \<and> rb_total rb < 9223372036854775808"
  shows "locked until n s'"
proof (cases "Rexing \<in> touches a")
  case False
  then have "same Rexing s s'" by (rule footprintD(1) [OF action_footprint [OF u]])
  then show ?thesis by (rule locked_spared [OF l spared_same])
next
  case True
  have ok: "asset_ops_ok c" using g by (simp add: good_ctx_def)
  note spares = locked_spared [OF l spared_onblock] locked_spared [OF l spared_buyram] locked_spared [OF l spared_sellram]
  note acts = locked_deposit [OF _ l] locked_withdraw [OF _ l] locked_buyrex [OF _ l w] locked_unstaketorex [OF _ l w]
    locked_sellrex [OF _ l w] locked_cnclrexorder [OF _ l] locked_rentrex [OF _ l] locked_fundloan [OF _ l] locked_defloan [OF _ l]
    locked_updaterex [OF _ l w] locked_consolidate [OF _ l w ok] locked_mvfrsavings [OF _ l w] locked_closerex [OF _ l]
  show ?thesis
  proof (cases a)
    case (MvToSavings m q)
    then show ?thesis using u g(2) row by (intro locked_mvtosavings [OF _ l w ok, of m q]) (auto simp: in_i64_def)
  next
    case (SetRex q)
    then show ?thesis using u by (auto simp: setrex_def res_simps intro!: locked_spared [OF l spared_frame])
  next
    case (RexExec m x)
    then show ?thesis using u by (auto simp: rexexec_def intro: locked_runrex [OF _ l])
  next
    case (BuyRamBytes m r b)
    then show ?thesis using u by (auto elim!: buyrambytes_parts intro: spares)
  qed (use u True in \<open>auto intro: acts spares\<close>)
qed

section \<open>Runs\<close>

fun happens_between :: "time_point_sec \<Rightarrow> time_point_sec \<Rightarrow> event \<Rightarrow> bool" where
  "happens_between a b (Sys c x) \<longleftrightarrow> a \<le> now_sec c \<and> now_sec c \<le> b"
| "happens_between a b (Tok c x) \<longleftrightarrow> True"

lemma locked_effects [simp]: "locked until n (s\<lparr>outbox := l\<rparr>) = locked until n s" "locked until n (s\<lparr>tokens := t\<rparr>) = locked until n s"
  by (simp_all add: locked_def stock_def no_open_order_def)

lemma locked_event:
  assumes i: "((market_ok core s \<and> rex_wf core s) \<and> covers core rex_account rex_owed s \<and> outbox s = []) \<and> capped rex_cap core (tokens s)"
    and e: "modest_event rex_cap rex_fair core e" and l: "locked until n s" and u: "world_step e s = Inr s'"
    and w: "\<And>c a. e = Sys c a \<Longrightarrow> watched c until"
  shows "locked until n s'"
proof (cases e)
  case (Tok c a)
  with u l show ?thesis by (auto simp: res_simps)
next
  case (Sys c a)
  with u obtain s1 t where s1: "apply_sys c a (s\<lparr>outbox := []\<rparr>) = Inr s1" and s': "s' = s1\<lparr>outbox := []\<rparr>\<lparr>tokens := t\<rparr>"
    by (auto simp: exec_sys_def res_simps)
  have "bal (sym_code core) (tokens s) rex_account \<le> rex_cap" using i by (intro bal_le_cap) (auto simp: covers_def rex_cap_def)
  then have b: "rex_fine core s" "rex_owed s \<le> rex_cap" using i by (auto simp: rex_wf_def covers_def)
  have row: "rb_fine rb \<and> rb_total rb < 9223372036854775808" if "fmlookup (rexbalance (s\<lparr>outbox := []\<rparr>)) n = Some rb" for rb
  proof -
    from that have r: "fmlookup (rexbalance s) n = Some rb" by simp
    show ?thesis using rex_fineD(3) [OF b(1) r] shares_bound(3) [OF b r] by (simp add: rb_ok_def)
  qed
  have "locked until n s1" by (rule locked_action [OF s1 _ w [OF Sys] _ _ row]) (use l e Sys in auto)
  then show ?thesis unfolding s' locked_effects .
qed

lemma locked_run:
  assumes i: "((market_ok core s \<and> rex_wf core s) \<and> covers core rex_account rex_owed s \<and> outbox s = []) \<and> capped rex_cap core (tokens s)"
    and "\<forall>e\<in>set es. modest_event rex_cap rex_fair core e" "run_all world_step es s = Inr s'"
    and "locked until n s" "\<forall>c a. Sys c a \<in> set es \<longrightarrow> watched c until"
  shows "locked until n s'"
  using assms
proof (induction es arbitrary: s)
  case (Cons e es)
  from Cons.prems(3) obtain s1 where s1: "world_step e s = Inr s1" and r: "run_all world_step es s1 = Inr s'" by (auto simp: bindr_Inr)
  have e: "modest_event rex_cap rex_fair core e" using Cons.prems(2) by simp
  have "locked until n s1" by (rule locked_event [OF Cons.prems(1) e Cons.prems(4) s1]) (use Cons.prems(5) in auto)
  then show ?case
    using Cons.IH [OF rex_tokens.bounded.step_inv [OF e Cons.prems(1) s1] _ r] Cons.prems(2,5) by auto
qed simp

text \<open>
  C39: REX cannot be sold for four days. Take any state the chain can reach and an owner of whom
  nothing is mature and nothing matures within the next four days, and who has no sale waiting: one
  without REX, or with all of it in savings. Whatever actions of anybody follow within those four
  days, the owner's own purchases, transfers between buckets and consolidations included, every
  attempt of the owner to sell REX in that time is refused.
\<close>

theorem rex_cannot_be_sold_early:
  assumes "core_ok core" "ledger_inv tk" "capped rex_cap core tk" "\<forall>e\<in>set (es @ es'). modest_event rex_cap rex_fair core e"
    and "run_all world_step es (genesis params lims tk) = Inr s" "run_all world_step es' s = Inr s'"
    and "locked (t + 4 * 86400) n s" "0 \<le> t" "t + 9 * 86400 < 4294967296"
    and "\<forall>e\<in>set (es' @ [Sys c (SellRex n q)]). happens_between t (t + 4 * 86400) e"
  shows "\<exists>err. world_step (Sys c (SellRex n q)) s' = Inl err"
proof -
  have modest: "\<forall>e\<in>set es. modest_event rex_cap rex_fair core e" "\<forall>e\<in>set es'. modest_event rex_cap rex_fair core e"
    using assms(4) by simp_all
  have w: "watched d (t + 4 * 86400)" if "Sys d a \<in> set (es' @ [Sys c (SellRex n q)])" for d a
  proof -
    have "happens_between t (t + 4 * 86400) (Sys d a)" using assms(10) that by blast
    then show ?thesis using assms(8,9) by (intro watched_days) simp_all
  qed
  have w': "\<forall>d a. Sys d a \<in> set es' \<longrightarrow> watched d (t + 4 * 86400)" using w by auto
  have l: "locked (t + 4 * 86400) n s'"
    by (rule locked_run [OF reachable_rex_state [OF assms(1-3) modest(1) assms(5)] modest(2) assms(6,7) w'])
  show ?thesis
  proof (cases "world_step (Sys c (SellRex n q)) s'")
    case (Inr s2)
    then obtain s1 where "sellrex c n q (s'\<lparr>outbox := []\<rparr>) = Inr s1" by (auto simp: exec_sys_def res_simps)
    from sellrex_locked [OF this, of "t + 4 * 86400"] l w [of c "SellRex n q"] show ?thesis by (simp add: watched_def)
  qed simp
qed

theorem rex_cannot_be_sold_early_witness:
  "\<exists>err. world_step (Sys (ref_sys [ex_alice] ex_now) (SellRex ex_alice (ast 4000000000 rex_symbol))) ex_bought = Inl err"
proof -
  have c: "capped rex_cap ex_sy empty_token_state" by (simp add: capped_def empty_token_state_def)
  have e: "\<forall>e\<in>set (((ex_launch @ [ex_stake]) @ ex_votes) @ ex_rex). modest_event rex_cap rex_fair ex_sy e" using ex_rex_modest by blast
  have r: "run_all world_step ex_rex ex_voted = Inr ex_bought" by (simp add: ex_rex_def ex_deposit ex_buy del: world_step.simps)
  have l: "locked (1600000000 + 4 * 86400) ex_alice ex_voted"
    by (simp add: locked_def stock_def no_open_order_def ex_bought_eval)
  have t: "\<forall>e\<in>set (ex_rex @ [Sys (ref_sys [ex_alice] ex_now) (SellRex ex_alice (ast 4000000000 rex_symbol))]).
      happens_between 1600000000 (1600000000 + 4 * 86400) e"
    by (simp add: ex_rex_def ex_now_second)
  show ?thesis
    by (rule rex_cannot_be_sold_early [OF ex_core_ok ledger_inv_empty c e ex_votes_run [unfolded ex_genesis_def] r l _ _ t]) simp_all
qed

end
