(* ===== verification/Buckets.thy ===== *)
theory Buckets
  imports Payouts RexSafe
begin

text \<open>
  The two buckets producers are paid from, and the accounts that hold their tokens: what the
  contract counts as set aside for pay per block and per vote is there. The product a block pay is
  computed with is 64 bits wide, which bounds the unpaid blocks of a claim.
\<close>

section \<open>The invariant\<close>

definition buckets_backed :: "symbol \<Rightarrow> sys_state \<Rightarrow> bool" where
  "buckets_backed core s \<longleftrightarrow>
     0 \<le> pervote_bucket (gstate s) \<and> pervote_bucket (gstate s) \<le> bal (sym_code core) (tokens s) vpay_account
     \<and> 0 \<le> perblock_bucket (gstate s) \<and> perblock_bucket (gstate s) \<le> bal (sym_code core) (tokens s) bpay_account"

definition books_fine :: "symbol \<Rightarrow> sys_state \<Rightarrow> bool" where
  "books_fine core s \<longleftrightarrow> market_ok core s \<and> ledger_inv (tokens s) \<and> capped rex_cap core (tokens s) \<and> outbox s = []"

text \<open>
  What a claim is to find: a count of unpaid blocks that is part of the global one and small enough
  for the product (a producer of 21 makes about 8,200 blocks a day) and, where pay is still by vote
  weight (revision 0), a vote total that is part of the global weight, which is zero or at least the
  smallest positive double.
\<close>

definition min_double :: rat where "min_double = 2 powi - 1074"

definition votes_fit :: "eosio_global_state \<Rightarrow> producer_info \<Rightarrow> bool" where
  "votes_fit g p \<longleftrightarrow> dle (Fin 0) (total_votes p) \<and> dle (total_votes p) (total_producer_vote_weight g)
     \<and> (dlt (Fin 0) (total_producer_vote_weight g) \<longrightarrow> dle (Fin min_double) (total_producer_vote_weight g))"

definition claim_fits :: "sys_state \<Rightarrow> name \<Rightarrow> bool" where
  "claim_fits s n \<longleftrightarrow> (case fmlookup (producers s) n of None \<Rightarrow> True
     | Some p \<Rightarrow> 0 \<le> unpaid_blocks p \<and> unpaid_blocks p \<le> 20000 \<and> unpaid_blocks p \<le> total_unpaid_blocks (gstate s)
         \<and> (0 < revision (gstate2 s) \<or> votes_fit (gstate s) p))"

fun event_fits :: "sys_state \<Rightarrow> event \<Rightarrow> bool" where
  "event_fits s (Sys c (ClaimRewards n)) \<longleftrightarrow> claim_fits s n"
| "event_fits s _ \<longleftrightarrow> True"

section \<open>Actions other than claims\<close>

lemma onblock_buckets:
  assumes "onblock c t n s = Inr s'"
  shows "pervote_bucket (gstate s') = pervote_bucket (gstate s) \<and> perblock_bucket (gstate s') = perblock_bucket (gstate s)"
  using assms
proof (cases rule: onblock_parts)
  case (1 s1 s2 s3)
  let ?b = "\<lambda>s. (pervote_bucket (gstate s), perblock_bucket (gstate s))"
  have "?b (count_block c n x) = ?b x" for x by (simp add: count_block_def split: option.splits)
  moreover have "?b (update_elected_producers c t x) = ?b x" for x by (simp add: update_elected_producers_def Let_def)
  moreover have "?b (close_highest_bid c t x) = ?b x" for x
    by (simp add: close_highest_bid_def channel_namebid_to_rex_def Let_def split: option.splits prod.splits)
  ultimately show ?thesis using 1 by auto
qed

lemma action_buckets:
  assumes "apply_sys c a s = Inr s'" "\<And>n. a \<noteq> ClaimRewards n"
  shows "pervote_bucket (gstate s') = pervote_bucket (gstate s) \<and> perblock_bucket (gstate s') = perblock_bucket (gstate s)"
proof (cases "Paying \<in> touches a")
  case False
  then have "same Paying s s'" by (rule footprintD(1) [OF action_footprint [OF assms(1)]])
  then show ?thesis by simp
next
  case True
  then show ?thesis using paying_touched [OF True] assms onblock_buckets by auto
qed

lemma pay_not_sent: "(\<And>n. a \<noteq> ClaimRewards n) \<Longrightarrow> vpay_account \<notin> held_senders a \<and> bpay_account \<notin> held_senders a"
  by (cases a) (auto simp: account_defs)

text \<open>What an action does to the books, once its inline actions have run.\<close>

lemma books_step:
  assumes e: "good_ctx c" "good_action core a" and i: "books_fine core s" and u: "world_step (Sys c a) s = Inr s'"
  obtains s1 t where "apply_sys c a s = Inr s1" "s' = s1\<lparr>outbox := [], tokens := t\<rparr>" "run_outbox c (outbox s1) (tokens s) = Inr t"
    "books_fine core s'" "all_plain (outbox s1)" "all_sent (outbox s1)"
    "\<And>n. bal (sym_code core) t n = bal (sym_code core) (tokens s) n + flows (sym_code core) n (outbox s1)"
proof -
  have o: "outbox s = []" and ok: "asset_ops_ok c" using i e(1) by (simp_all add: books_fine_def good_ctx_def)
  have s: "s\<lparr>outbox := []\<rparr> = s" using o by simp
  from u obtain s1 t where s1: "apply_sys c a s = Inr s1" and t: "run_outbox c (outbox s1) (tokens s1) = Inr t"
    and s': "s' = s1\<lparr>outbox := [], tokens := t\<rparr>"
    unfolding world_step.simps exec_sys_def s res_simps by auto
  have p: "all_plain (outbox s1)" "tokens s1 = tokens s" using action_plain [OF o s1] by auto
  note t = t [unfolded p(2)]
  have m: "market_ok core s1" by (rule action_market_ok [OF e _ s1]) (use i in \<open>simp add: books_fine_def\<close>)
  have b: "books_fine core s'"
    using run_outbox_inv [OF ok _ t] run_outbox_capped [OF ok p(1) _ t] i m by (simp add: books_fine_def s')
  note f = run_outbox_flows [OF ok p(1) t, of "sym_code core"]
  show ?thesis by (rule that [OF s1 s' t b p(1)]) (use f in auto)
qed

lemma books_token:
  assumes e: "good_event core (Tok c a)" "creates_within rex_cap core a" and i: "books_fine core s" and u: "world_step (Tok c a) s = Inr s'"
  shows "books_fine core s'" "n \<in> held_accounts \<Longrightarrow> bal (sym_code core) (tokens s) n \<le> bal (sym_code core) (tokens s') n" "gstate s' = gstate s"
proof -
  have ok: "asset_ops_ok c" using e by simp
  from u obtain t where t: "exec_token c a (tokens s) = Inr t" and s': "s' = s\<lparr>tokens := t\<rparr>" by (auto simp: res_simps)
  show "books_fine core s'"
    using i exec_token_inv [OF ok _ t] exec_token_capped [OF ok _ t e(2)] by (simp add: books_fine_def s')
  show "bal (sym_code core) (tokens s) n \<le> bal (sym_code core) (tokens s') n" if "n \<in> held_accounts"
    using drop_needs_auth [OF ok t, of "sym_code core" n] i e(1) that by (fastforce simp: s' books_fine_def)
  show "gstate s' = gstate s" by (simp add: s')
qed

section \<open>Claims\<close>

text \<open>A part of a bucket no larger than the whole stays so through the two roundings of its computation.\<close>

lemma rounded_part:
  fixes b v x :: rat
  assumes b: "1 \<le> b" "b \<le> 2 ^ 51" and v: "0 \<le> v" "v \<le> x" "min_double \<le> x"
  shows "rnd (b * v) / x \<le> b + 1 / 2"
proof -
  have x: "0 < x" using v(3) powi2_pos less_le_trans unfolding min_double_def by blast
  let ?y = "b * x" let ?u = "ulp_exp ?y"
  have y: "0 < ?y" using b(1) x by simp
  have "?y \<noteq> 0" using y by (rule less_imp_neq [symmetric])
  then have e: "rnd ?y \<le> ?y + 2 powi ?u / 2" using rnd_error [of ?y] by linarith
  have "2 powi ?u \<le> x"
  proof (cases "?u = - 1074")
    case False
    then have u: "?u = ilog2 ?y - 52" using y by (simp add: ulp_exp_def)
    have "(2::rat) powi ?u = 2 powi ilog2 ?y * 2 powi (- 52)" using powi2_add [of "ilog2 ?y" "- 52"] by (simp add: u)
    also have "\<dots> \<le> ?y * 2 powi (- 52)" using ilog2_bounds [OF y] by (intro mult_right_mono) simp_all
    also have "\<dots> \<le> x" using b(2) x by (simp add: power_int_def field_simps)
    finally show ?thesis .
  qed (use v(3) in \<open>simp add: min_double_def\<close>)
  then have "rnd ?y \<le> (b + 1 / 2) * x" using e by (simp add: algebra_simps)
  moreover have "rnd (b * v) \<le> rnd ?y" using b(1) v(2) by (intro rnd_mono mult_left_mono) simp_all
  ultimately show ?thesis using x by (simp add: pos_divide_le_eq)
qed

lemma part_of_bucket:
  assumes p: "to_int64 (ddiv (dmul (to_double b) v) w) = Inr pay" and b: "0 \<le> b" "b \<le> rex_cap"
    and v: "dle (Fin 0) v" "dle v w" "dle (Fin min_double) w"
  shows "0 \<le> pay \<and> pay \<le> b"
proof -
  have d: "to_double b = Fin (of_int b)" using b by (intro to_double_exact) (simp add: rex_cap_def)
  obtain f where f: "v = Fin f \<or> v = PInf" "0 \<le> f" using v(1) by (cases v) (auto simp: dle_def)
  obtain x where x: "w = Fin x \<or> w = PInf" "min_double \<le> x"
    using v(3) that [of min_double] by (cases w) (auto simp: dle_def)
  show ?thesis
  proof (cases "v = Fin f \<and> w = Fin x")
    case True
    have px: "0 < x" using x(2) powi2_pos less_le_trans unfolding min_double_def by blast
    have le: "f \<le> x" using v(2) True by (auto simp: dle_def)
    let ?q = "rnd (of_int b * f) / x"
    have pay: "pay = trunc_rat (rnd ?q)"
      using p px unfolding d by (auto simp: True mk_def Let_def res_simps split: if_splits)
    have "0 \<le> rnd (of_int b * f)" using b(1) f(2) by (intro rnd_nonneg) simp
    then have lo: "0 \<le> rnd ?q" using px by (intro rnd_nonneg) simp
    have "rnd ?q \<le> of_int b + 1 / 2"
    proof (cases "b = 0")
      case False
      have "?q \<le> of_int b + 1 / 2"
        by (rule rounded_part [OF _ _ f(2) le x(2)]) (use b False in \<open>simp_all add: rex_cap_def\<close>)
      then have "rnd ?q \<le> rnd (of_int b + 1 / 2)" by (rule rnd_mono)
      also have "\<dots> = of_int b + 1 / 2"
        using rnd_repr [of "2 * b + 1" "- 1"] b by (simp add: rex_cap_def power_int_def field_simps)
      finally show ?thesis .
    qed simp
    then show ?thesis using lo unfolding pay trunc_rat_def by (simp add: floor_le_iff)
  next
    case False
    then show ?thesis using p f(1) x(1) v(2) b unfolding d
      by (auto simp: dle_def inf_times_def mk_def Let_def trunc_rat_def res_simps split: if_splits)
  qed
qed

lemma vote_pay_bound:
  assumes "vote_pay c b v p s = Inr (pay, s')" "0 < revision (gstate2 s) \<or> votes_fit (gstate s) p"
    and "0 \<le> pervote_bucket (gstate s)" "pervote_bucket (gstate s) \<le> rex_cap"
  shows "0 \<le> pay \<and> pay \<le> pervote_bucket (gstate s)"
proof (cases "0 < revision (gstate2 s)")
  case True
  obtain tot s1 where u: "update_total_votepay_share (now_tp c) (Fin 0) (Fin 0) s = (tot, s1)" by fastforce
  have g: "gstate s1 = gstate s" using total_share_keeps(2) [of "now_tp c" "Fin 0" "Fin 0" s] by (simp add: u)
  show ?thesis using assms(1,3) True unfolding vote_pay_def u by (auto simp: bindr_Inr g min_pervote_daily_pay_def split: if_splits)
next
  case False
  then have fit: "votes_fit (gstate s) p" using assms(2) by blast
  show ?thesis
  proof (cases "dlt (Fin 0) (total_producer_vote_weight (gstate s))")
    case True
    from assms(1) False True obtain x where x: "to_int64 (ddiv (dmul (to_double (pervote_bucket (gstate s))) (total_votes p))
        (total_producer_vote_weight (gstate s))) = Inr x" and pay: "pay = (if x < min_pervote_daily_pay then 0 else x)"
      by (auto simp: vote_pay_def bindr_Inr)
    have "0 \<le> x \<and> x \<le> pervote_bucket (gstate s)"
      by (rule part_of_bucket [OF x assms(3,4)]) (use fit True in \<open>simp_all add: votes_fit_def\<close>)
    then show ?thesis using assms(3) by (simp add: pay)
  qed (use assms(1,3) False in \<open>simp add: vote_pay_def min_pervote_daily_pay_def\<close>)
qed

lemma block_pay_bound:
  assumes "0 \<le> perblock_bucket g" "perblock_bucket g \<le> rex_cap" "0 \<le> unpaid_blocks p" "unpaid_blocks p \<le> 20000"
    and "unpaid_blocks p \<le> total_unpaid_blocks g"
  shows "0 \<le> block_pay g p \<and> block_pay g p \<le> perblock_bucket g"
proof (cases "0 < total_unpaid_blocks g")
  case True
  have "perblock_bucket g * unpaid_blocks p \<le> rex_cap * 20000" using assms(1-4) by (intro mult_mono) simp_all
  then have "perblock_bucket g * unpaid_blocks p < 2 ^ 63" by (simp add: rex_cap_def)
  then have e: "block_pay g p = perblock_bucket g * unpaid_blocks p div total_unpaid_blocks g"
    by (rule block_pay_eq [OF assms(1,3) _ True])
  have "perblock_bucket g * unpaid_blocks p \<le> perblock_bucket g * total_unpaid_blocks g"
    using assms(5,1) by (rule mult_left_mono)
  then have "block_pay g p \<le> perblock_bucket g * total_unpaid_blocks g div total_unpaid_blocks g"
    unfolding e using True by (rule zdiv_mono1)
  moreover have "0 \<le> block_pay g p" unfolding e using assms(1,3) True by (simp add: pos_imp_zdiv_nonneg_iff)
  ultimately show ?thesis using True by simp
qed (use assms in \<open>simp add: block_pay_def\<close>)

lemma run_outbox_split:
  "run_outbox c (as @ bs) t = Inr t' \<Longrightarrow> \<exists>t1. run_outbox c as t = Inr t1 \<and> run_outbox c bs t1 = Inr t'"
proof (induction as arbitrary: t)
  case (Cons x as)
  then show ?case by (cases x) (auto simp: bindr_Inr)
qed simp

text \<open>Filling the buckets sends to each account what its bucket grows by.\<close>

lemma fill_flows:
  assumes ok: "asset_ops_ok c" and f: "fill_buckets c q s = Inr s1" and o: "outbox s = []" "all_sent (outbox s1)"
    and m: "core_sym s = Some core" "self c = eosio_account"
    and b: "0 \<le> pervote_bucket (gstate s)" "pervote_bucket (gstate s) \<le> max_amount"
      "0 \<le> perblock_bucket (gstate s)" "perblock_bucket (gstate s) \<le> max_amount"
  obtains x y where "0 \<le> x" "0 \<le> y"
    "flows (sym_code core) vpay_account (outbox s1) = x" "flows (sym_code core) bpay_account (outbox s1) = y"
    "pervote_bucket (gstate s1) = pervote_bucket (gstate s) + x" "perblock_bucket (gstate s1) = perblock_bucket (gstate s) + y"
    "gstate2 s1 = gstate2 s" "total_unpaid_blocks (gstate s1) = total_unpaid_blocks (gstate s)" "all_plain (outbox s1)"
    "total_producer_vote_weight (gstate s1) = total_producer_vote_weight (gstate s)"
  using f
proof (cases rule: fill_buckets_parts)
  case 1
  then show ?thesis using o by (intro that [of 0 0]) simp_all
next
  case (2 new_tokens prod_part block_part sy q1 q2 q3 q4)
  have sy: "sy = core" using 2(6) m(1) by simp
  have q: "q3 = ast block_part core" "q4 = ast (i64 (prod_part - block_part)) core"
    using 2(9,10) by (simp_all add: asset_newD [OF ok] sy)
  have s: "0 < amount q3" "amount q3 \<le> max_amount" "0 < amount q4" "amount q4 \<le> max_amount"
    using o by (simp_all add: 2(11))
  have i: "i64 (pervote_bucket (gstate s) + amount q4) = pervote_bucket (gstate s) + amount q4"
    "i64 (perblock_bucket (gstate s) + amount q3) = perblock_bucket (gstate s) + amount q3"
    using s b by (auto intro!: i64_fits simp: max_amount_def)
  show ?thesis
    by (rule that [of "amount q4" "amount q3"])
      (use o s i m(2) q in \<open>simp_all add: 2(11) account_defs\<close>)
qed

lemma pay_producer_outbox:
  assumes "asset_ops_ok c" "pay_producer c b n x memo s = Inr s'" "core_sym s = Some core" "n \<noteq> b"
  shows "outbox s' = outbox s @ (if 0 < x then [ToToken [Perm b active_permission, Perm n active_permission]
    (Transfer b n (ast x core) memo)] else [])" "gstate s' = gstate s" "core_sym s' = core_sym s"
  using assms
  by (auto elim!: pay_producer_parts simp: core_asset_Inr asset_newD send_transfer_def core_sym_def)

lemma share_keeps: "claim_share c n p s = (u, v, s') \<Longrightarrow> gstate2 s' = gstate2 s \<and> core_sym s' = core_sym s"
  by (auto simp: claim_share_def Let_def core_sym_def split: option.splits prod.splits)

lemma vote_pay_core: "vote_pay c b v p s = Inr (pay, s') \<Longrightarrow> core_sym s' = core_sym s"
  by (erule vote_pay_parts) (auto simp: core_sym_def update_total_votepay_share_def Let_def)

lemma settle_core: "core_sym (settle_claim c n p u v x y s) = core_sym s"
  by (simp add: settle_claim_def Let_def core_sym_def update_total_votepay_share_def)

lemma fill_core: "fill_buckets c q s = Inr s' \<Longrightarrow> core_sym s' = core_sym s"
  by (erule fill_buckets_parts) (simp_all add: core_sym_def)

text \<open>A claim pays out of the filled buckets, and its inline actions are those of the fill and the two payments.\<close>

lemma claim_effect:
  assumes ok: "asset_ops_ok c" and u: "claimrewards c n s = Inr s'" and y: "core_sym s = Some core"
    and n: "n \<noteq> vpay_account" "n \<noteq> bpay_account"
  obtains p q s1 a pay where "fmlookup (producers s) n = Some p" "fill_buckets c q s = Inr s1"
    "gstate s' = (gstate s1)\<lparr>pervote_bucket := i64 (pervote_bucket (gstate s1) - pay),
       perblock_bucket := i64 (perblock_bucket (gstate s1) - block_pay (gstate s1) p),
       total_unpaid_blocks := u32 (total_unpaid_blocks (gstate s1) - unpaid_blocks p)\<rparr>"
    "(0 < revision (gstate2 s1) \<or> votes_fit (gstate s1) p) \<and> 0 \<le> pervote_bucket (gstate s1) \<and> pervote_bucket (gstate s1) \<le> rex_cap
      \<longrightarrow> 0 \<le> pay \<and> pay \<le> pervote_bucket (gstate s1)"
    "outbox s' = outbox s1 @ a" "flows (sym_code core) bpay_account a = - max 0 (block_pay (gstate s1) p)"
    "flows (sym_code core) vpay_account a = - max 0 pay"
  using u
proof (cases rule: claimrewards_parts)
  case (1 p sy q s1 upd share s2 pay s3 s4)
  let ?b = "block_pay (gstate s1) p"
  let ?s3 = "settle_claim c n p upd share ?b pay s3"
  note sel = producers_claim_share [OF 1(9)] producers_vote_pay [OF 1(10)] settle_claim_sel [of c n p upd share ?b pay s3]
  have cs: "core_sym ?s3 = Some core"
    using y fill_core [OF 1(8)] share_keeps [OF 1(9)] vote_pay_core [OF 1(10)] settle_core by simp
  note p1 = pay_producer_outbox [OF ok 1(11) cs n(2)]
  have cs4: "core_sym s4 = Some core" using p1(3) cs by simp
  note p2 = pay_producer_outbox [OF ok 1(12) cs4 n(1)]
  have g2: "gstate2 s2 = gstate2 s1" using share_keeps [OF 1(9)] by simp
  have v: "0 \<le> pay \<and> pay \<le> pervote_bucket (gstate s1)"
    if "0 < revision (gstate2 s1) \<or> votes_fit (gstate s1) p" "0 \<le> pervote_bucket (gstate s1)" "pervote_bucket (gstate s1) \<le> rex_cap"
    using vote_pay_bound [OF 1(10)] that sel g2 by simp
  show ?thesis
    by (rule that [OF 1(2,8)]) (use p1 p2 sel n v in \<open>auto simp: account_defs max_def\<close>)
qed

lemma claim_backed:
  assumes g: "good_ctx c" and i: "books_fine core s" and b: "buckets_backed core s" and fit: "claim_fits s n"
    and u: "world_step (Sys c (ClaimRewards n)) s = Inr s'"
  shows "buckets_backed core s'"
proof (rule books_step [OF g _ i u])
  have ok: "asset_ops_ok c" and me: "self c = eosio_account" using g by (simp_all add: good_ctx_def)
  fix sf t
  assume a: "apply_sys c (ClaimRewards n) s = Inr sf" and s': "s' = sf\<lparr>outbox := [], tokens := t\<rparr>"
    and t: "run_outbox c (outbox sf) (tokens s) = Inr t" and sent: "all_sent (outbox sf)"
    and f: "\<And>m. bal (sym_code core) t m = bal (sym_code core) (tokens s) m + flows (sym_code core) m (outbox sf)"
  have o: "outbox s = []" and inv: "ledger_inv (tokens s)" and cap: "capped rex_cap core (tokens s)" and mk: "market_ok core s"
    using i by (simp_all add: books_fine_def)
  have u: "claimrewards c n s = Inr sf" using a by simp
  then obtain y where y: "core_sym s = Some y" "has_auth c n" by (rule claimrewards_parts)
  then have y: "core_sym s = Some core" using market_ok_core [OF mk y(1)] by simp
  have n: "n \<noteq> vpay_account" "n \<noteq> bpay_account"
    using g u by (auto simp: good_ctx_def held_accounts_def elim: claimrewards_parts)
  from claim_effect [OF ok u y n] obtain p q s1 l pay where e: "fmlookup (producers s) n = Some p" "fill_buckets c q s = Inr s1"
    "gstate sf = (gstate s1)\<lparr>pervote_bucket := i64 (pervote_bucket (gstate s1) - pay),
       perblock_bucket := i64 (perblock_bucket (gstate s1) - block_pay (gstate s1) p),
       total_unpaid_blocks := u32 (total_unpaid_blocks (gstate s1) - unpaid_blocks p)\<rparr>"
    "(0 < revision (gstate2 s1) \<or> votes_fit (gstate s1) p) \<and> 0 \<le> pervote_bucket (gstate s1) \<and> pervote_bucket (gstate s1) \<le> rex_cap
      \<longrightarrow> 0 \<le> pay \<and> pay \<le> pervote_bucket (gstate s1)"
    "outbox sf = outbox s1 @ l" "flows (sym_code core) bpay_account l = - max 0 (block_pay (gstate s1) p)"
    "flows (sym_code core) vpay_account l = - max 0 pay" .
  have small: "pervote_bucket (gstate s) \<le> max_amount" "perblock_bucket (gstate s) \<le> max_amount"
    using b bal_le_cap [OF inv cap, of vpay_account] bal_le_cap [OF inv cap, of bpay_account]
    by (simp_all add: buckets_backed_def rex_cap_def max_amount_def)
  have sent1: "all_sent (outbox s1)" using sent e(5) by simp
  from fill_flows [OF ok e(2) o sent1 y me] b small obtain v w where w: "0 \<le> v" "0 \<le> w"
    "flows (sym_code core) vpay_account (outbox s1) = v" "flows (sym_code core) bpay_account (outbox s1) = w"
    "pervote_bucket (gstate s1) = pervote_bucket (gstate s) + v" "perblock_bucket (gstate s1) = perblock_bucket (gstate s) + w"
    "gstate2 s1 = gstate2 s" "total_unpaid_blocks (gstate s1) = total_unpaid_blocks (gstate s)" "all_plain (outbox s1)"
    "total_producer_vote_weight (gstate s1) = total_producer_vote_weight (gstate s)"
    by (auto simp: buckets_backed_def)
  obtain t1 where t1: "run_outbox c (outbox s1) (tokens s) = Inr t1" using run_outbox_split t e(5) by fastforce
  have c1: "bal (sym_code core) t1 m \<le> rex_cap" for m
    by (rule bal_le_cap [OF run_outbox_inv [OF ok inv t1] run_outbox_capped [OF ok w(9) cap t1]]) (simp add: rex_cap_def)
  have le: "perblock_bucket (gstate s1) \<le> rex_cap" "pervote_bucket (gstate s1) \<le> rex_cap"
    using run_outbox_flows [OF ok w(9) t1, of "sym_code core" vpay_account] c1 [of vpay_account]
      run_outbox_flows [OF ok w(9) t1, of "sym_code core" bpay_account] c1 [of bpay_account] b w(3-6)
    by (simp_all add: buckets_backed_def)
  have nn: "0 \<le> perblock_bucket (gstate s1)" "0 \<le> pervote_bucket (gstate s1)" using b w by (simp_all add: buckets_backed_def)
  have bp: "0 \<le> block_pay (gstate s1) p \<and> block_pay (gstate s1) p \<le> perblock_bucket (gstate s1)"
    by (rule block_pay_bound [OF nn(1) le(1)]) (use fit e(1) w(8) in \<open>simp_all add: claim_fits_def\<close>)
  have "0 < revision (gstate2 s1) \<or> votes_fit (gstate s1) p"
    using e(1) fit w(7,10) by (simp add: claim_fits_def votes_fit_def)
  then have vp: "0 \<le> pay \<and> pay \<le> pervote_bucket (gstate s1)" using e(4) nn le(2) by blast
  have fits: "i64 (pervote_bucket (gstate s1) - pay) = pervote_bucket (gstate s1) - pay"
    "i64 (perblock_bucket (gstate s1) - block_pay (gstate s1) p) = perblock_bucket (gstate s1) - block_pay (gstate s1) p"
    using bp vp le by (auto intro!: i64_fits simp: rex_cap_def)
  show ?thesis
    using b f [of vpay_account] f [of bpay_account] bp vp w(3-6) e(5-7) fits
    by (simp add: buckets_backed_def s' e(3))
qed simp

lemma event_backed:
  assumes e: "modest_event rex_cap (\<lambda>_. True) core e" "event_fits s e" and i: "books_fine core s" and b: "buckets_backed core s"
    and u: "world_step e s = Inr s'"
  shows "books_fine core s'" "buckets_backed core s'"
proof -
  have "books_fine core s' \<and> buckets_backed core s'"
  proof (cases e)
    case (Tok c a)
    have t: "good_event core (Tok c a)" "creates_within rex_cap core a" "world_step (Tok c a) s = Inr s'" using e(1) u Tok by auto
    note k = books_token [OF t(1,2) i t(3)]
    show ?thesis using k(1,3) k(2) [of vpay_account] k(2) [of bpay_account] b
      by (auto simp: buckets_backed_def held_accounts_def)
  next
    case (Sys c a)
    have g: "good_ctx c" "good_action core a" and u: "world_step (Sys c a) s = Inr s'" using e(1) u Sys by auto
    have bf: "books_fine core s'" by (rule books_step [OF g i u])
    show ?thesis
    proof (cases "\<exists>n. a = ClaimRewards n")
      case True
      then show ?thesis using bf claim_backed [OF g(1) i b] u e(2) Sys by auto
    next
      case False
      then have nc: "\<And>n. a \<noteq> ClaimRewards n" by blast
      have "buckets_backed core s'"
      proof (rule books_step [OF g i u])
        fix s1 t
        assume a: "apply_sys c a s = Inr s1" and s': "s' = s1\<lparr>outbox := [], tokens := t\<rparr>" and sent: "all_sent (outbox s1)"
          and f: "\<And>m. bal (sym_code core) t m = bal (sym_code core) (tokens s) m + flows (sym_code core) m (outbox s1)"
        have o: "outbox s = []" using i by (simp add: books_fine_def)
        have "0 \<le> flows (sym_code core) vpay_account (outbox s1)" "0 \<le> flows (sym_code core) bpay_account (outbox s1)"
          using quiet_flow [OF g(1) _ _ o a sent] pay_not_sent [OF nc] by (simp_all add: held_accounts_def)
        then show ?thesis using f [of vpay_account] f [of bpay_account] action_buckets [OF a nc] b by (simp add: buckets_backed_def s')
      qed
      then show ?thesis using bf by blast
    qed
  qed
  then show "books_fine core s'" "buckets_backed core s'" by simp_all
qed

lemma run_backed:
  assumes "\<forall>e\<in>set es. modest_event rex_cap (\<lambda>_. True) core e" "books_fine core s" "buckets_backed core s"
    and "run_all world_step es s = Inr s'"
    and "\<And>es1 e es2 s1. es = es1 @ e # es2 \<Longrightarrow> run_all world_step es1 s = Inr s1 \<Longrightarrow> event_fits s1 e"
  shows "buckets_backed core s'"
  using assms
proof (induction es arbitrary: s)
  case (Cons e es)
  from Cons.prems(4) obtain s1 where s1: "world_step e s = Inr s1" and r: "run_all world_step es s1 = Inr s'" by (auto simp: bindr_Inr)
  have e: "modest_event rex_cap (\<lambda>_. True) core e" "event_fits s e" using Cons.prems(1) Cons.prems(5) [of "[]" e es s] by simp_all
  note k = event_backed [OF e Cons.prems(2,3) s1]
  show ?case
  proof (rule Cons.IH [OF _ k r])
    show "\<forall>e\<in>set es. modest_event rex_cap (\<lambda>_. True) core e" using Cons.prems(1) by simp
    show "event_fits s2 x" if "es = es1 @ x # es2" "run_all world_step es1 s1 = Inr s2" for es1 x es2 s2
      using Cons.prems(5) [of "e # es1" x es2 s2] that s1 by simp
  qed
qed simp

section \<open>A claim, evaluated\<close>

lemma rne_near:
  assumes "\<bar>x - of_int n\<bar> < 1 / 2" shows "rne x = n"
proof -
  have "\<bar>of_int (rne x) - of_int n\<bar> \<le> \<bar>of_int (rne x) - x\<bar> + \<bar>x - of_int n\<bar>" by linarith
  also have "\<dots> < (1::rat)" using rne_error [of x] assms by linarith
  finally have "rat_of_int \<bar>rne x - n\<bar> < of_int 1" by simp
  then show ?thesis unfolding of_int_less_iff by linarith
qed

lemma mk_at:
  assumes "2 powi (e + 52) \<le> x" "x < 2 powi (e + 53)" "- 1074 \<le> e" "\<bar>x / 2 powi e - of_int n\<bar> < 1 / 2" "of_int n * 2 powi e < (2::rat) ^ 1024"
  shows "mk x = Fin (of_int n * 2 powi e)"
proof -
  have p: "0 < x" using assms(1) powi2_pos less_le_trans by blast
  have "ilog2 x = e + 52" by (rule ilog2_unique) (use assms(1,2) in \<open>simp_all add: add.assoc\<close>)
  then have "rnd x = of_int n * 2 powi e" using p assms(3) rne_near [OF assms(4)] by (simp add: rnd_def ulp_exp_def Let_def)
  moreover have "0 \<le> rnd x" using p by (intro rnd_nonneg) simp
  ultimately show ?thesis using assms(5) by (simp add: mk_Fin)
qed


lemma ex_rate: "mk (4879 / 100000) = Fin (439461251638813 / 9007199254740992)"
  using mk_at [of "- 57" "4879 / 100000" 7031380026221008] by simp

lemma ex_growth: "mk (439461251638813 * 5001000000000 / 9007199254740992) = Fin 243998790000"
  using mk_at [of "- 15" "439461251638813 * 5001000000000 / 9007199254740992" 7995352350720000] by simp

lemma ex_years: "mk (243998790000 * 172800000000) = Fin 42162990911999996592128"
  using mk_at [of 23 "243998790000 * 172800000000" 5026220191955566] by simp

lemma ex_issued: "mk (42162990911999996592128 / 31449600000000) = Fin (5623104949956923 / 4194304)"
  using mk_at [of "- 22" "42162990911999996592128 / 31449600000000" 5623104949956923] by simp

lemma ex_inflation: "inflation 5001000000000 172800000000 = Inr 1340652692"
proof -
  have d: "to_double 5001000000000 = Fin 5001000000000" "to_double 172800000000 = Fin 172800000000"
    "to_double 31449600000000 = Fin 31449600000000" by (simp_all add: to_double_exact)
  have "\<lfloor>5623104949956923 / 4194304 :: rat\<rfloor> = 1340652692" by (rule floor_unique) simp_all
  then show ?thesis
    by (simp add: inflation_def continuous_rate_def useconds_per_year_def d ex_rate ex_growth [simplified] ex_years [simplified]
        ex_issued [simplified] trunc_rat_def in_i64_def)
qed

text \<open>A producer registers, makes a block and claims the pay for it two days later.\<close>

definition ex_produce :: "event list" where
  "ex_produce =
     [Sys (ref_sys [eosio_account] ex_now) (UpdtRevision 1), Sys (ref_sys [ex_alice] ex_now) (RegProducer ex_alice [1] '''' 0),
      Sys (ref_sys [eosio_account] ex_now) (OnBlock 1 ex_alice)]"

definition ex_claim :: event where
  "ex_claim = Sys (ref_sys [ex_alice] 1600172800000000) (ClaimRewards ex_alice)"

definition ex_maker :: producer_info where
  "ex_maker = \<lparr>total_votes = Fin 0, producer_key = [1], is_active = True, url = '''', unpaid_blocks = 1,
     last_claim_time = ex_now, location = 0\<rparr>"

definition ex_produced :: sys_state where
  "ex_produced = ex_active\<lparr>
     producers := fmupd ex_alice ex_maker fmempty,
     producers2 := fmupd ex_alice \<lparr>votepay_share = Fin 0, last_votepay_share_update = ex_now\<rparr> fmempty,
     gstate := (gstate ex_active)\<lparr>last_pervote_bucket_fill := ex_now, total_unpaid_blocks := 1\<rparr>,
     gstate2 := (gstate2 ex_active)\<lparr>last_block_num := 1, revision := 1\<rparr>\<rparr>"

lemma ex_produce_run: "run_all world_step ex_produce ex_active = Inr ex_produced"
  by (simp add: ex_produce_def ex_produced_def ex_maker_def ex_active_def ex_open_def ex_genesis_def genesis_def ex_eval
      updtrevision_def regproducer_def onblock_def count_block_def min_activated_stake_def now_tp_def i64_def u32_def fmupd_idem)

definition ex_paid :: sys_state where
  "ex_paid = ex_produced\<lparr>
     producers := fmupd ex_alice (ex_maker\<lparr>unpaid_blocks := 0, last_claim_time := 1600172800000000\<rparr>) fmempty,
     producers2 := fmupd ex_alice \<lparr>votepay_share = Fin 0, last_votepay_share_update = 1600172800000000\<rparr> fmempty,
     gstate := (gstate ex_produced)\<lparr>last_pervote_bucket_fill := 1600172800000000, pervote_bucket := 201097904,
       perblock_bucket := 0, total_unpaid_blocks := 0\<rparr>,
     gstate3 := \<lparr>last_vpay_state_update = 1600172800000000, total_vpay_share_change_rate = Fin 0\<rparr>,
     tokens := \<lparr>accounts =
         fmupd (stake_account, 5459781) \<lparr>balance = ast 2000000000000 ex_sy\<rparr>
         (fmupd (saving_account, 5459781) \<lparr>balance = ast 1072522154 ex_sy\<rparr>
         (fmupd (vpay_account, 5459781) \<lparr>balance = ast 201097904 ex_sy\<rparr>
         (fmupd (bpay_account, 5459781) \<lparr>balance = ast 0 ex_sy\<rparr>
         (fmupd (ex_alice, 5459781) \<lparr>balance = ast 3001067032634 ex_sy\<rparr> (accounts ex_tokens))))),
       stats = fmupd 5459781 \<lparr>cur_supply = ast 5002340652692 ex_sy, max_supply = ast 100000000000000 ex_sy, issuer = eosio_account\<rparr> fmempty,
       inlines = [],
       notified = notified (tokens ex_active) @ [eosio_account, saving_account, eosio_account, bpay_account, eosio_account,
         vpay_account, bpay_account, ex_alice]\<rparr>\<rparr>"

lemma ex_claim_run: "world_step ex_claim ex_produced = Inr ex_paid"
  by (simp add: ex_claim_def ex_paid_def ex_produced_def ex_maker_def ex_active_def ex_open_def ex_genesis_def genesis_def ex_eval
      ex_market_def ex_tokens_def
      claimrewards_def min_activated_stake_def useconds_per_day_def now_tp_def i64_def u32_def with_core_def core_sym_def get_supply_def
      fill_buckets_def ex_inflation core_asset_def claim_share_def update_producer_votepay_share_def block_pay_def
      vote_pay_def update_total_votepay_share_def add_clipped_def elapsed_seconds_def to_double_exact past_threshold_def
      min_pervote_daily_pay_def settle_claim_def pay_producer_def send_transfer_def fmupd_idem)

lemma ex_paid_run: "run_all world_step (((ex_launch @ ex_activate) @ ex_produce) @ [ex_claim]) ex_genesis = Inr ex_paid"
  unfolding run_all_append [of world_step "(ex_launch @ ex_activate) @ ex_produce"] run_all_append [of world_step "ex_launch @ ex_activate"]
    run_all_append [of world_step ex_launch] ex_launch_run bindr_simps ex_activate_run ex_produce_run
  by (simp add: ex_claim_run del: world_step.simps)

lemma ex_paid_modest:
  "e \<in> set (((ex_launch @ ex_activate) @ ex_produce) @ [ex_claim]) \<Longrightarrow> modest_event rex_cap (\<lambda>_. True) ex_sy e"
  by (auto simp: ex_launch_def ex_activate_def ex_produce_def ex_claim_def held_accounts_def account_defs rex_cap_def
      intro!: ref_sys_good)

lemma ex_paid_fits:
  assumes "((ex_launch @ ex_activate) @ ex_produce) @ [ex_claim] = es1 @ e # es2" "run_all world_step es1 ex_genesis = Inr s1"
  shows "event_fits s1 e"
proof (cases es2 rule: rev_cases)
  case Nil
  then have e: "es1 = (ex_launch @ ex_activate) @ ex_produce" "e = ex_claim" using assms(1) by auto
  have "run_all world_step es1 ex_genesis = Inr ex_produced"
    unfolding e(1) run_all_append [of world_step "ex_launch @ ex_activate"] run_all_append [of world_step ex_launch]
      ex_launch_run bindr_simps ex_activate_run ex_produce_run ..
  then have "s1 = ex_produced" using assms(2) by simp
  then show ?thesis by (simp add: e(2) ex_claim_def claim_fits_def ex_produced_def ex_maker_def)
next
  case (snoc es3 x)
  have "e \<in> set ((ex_launch @ ex_activate) @ ex_produce)" using assms(1) unfolding snoc by (metis append_Cons append_assoc
      butlast_snoc in_set_conv_decomp)
  then show ?thesis by (auto simp: ex_launch_def ex_activate_def ex_produce_def)
qed

section \<open>The property\<close>

text \<open>
  C40: The pay of the producers is backed by tokens: over any run of the chain with a core token of at
  most \<open>rex_cap\<close> units, the bucket for pay per vote and the bucket for pay per block never fall below
  zero and never exceed what the accounts eosio.vpay and eosio.bpay hold, as long as each claim is made
  by a producer whose unpaid blocks are at most 20,000 and at most the global count, and, if it is made
  under revision 0, whose vote total is between zero and the global weight (which is zero or at least
  the smallest positive double).
\<close>

theorem pay_is_backed:
  assumes "core_ok core" "ledger_inv tk" "capped rex_cap core tk" "\<forall>e\<in>set es. modest_event rex_cap (\<lambda>_. True) core e"
    and "run_all world_step es (genesis params lims tk) = Inr s"
    and "\<And>es1 e es2 s1. es = es1 @ e # es2 \<Longrightarrow> run_all world_step es1 (genesis params lims tk) = Inr s1 \<Longrightarrow> event_fits s1 e"
  shows "0 \<le> pervote_bucket (gstate s) \<and> pervote_bucket (gstate s) \<le> bal (sym_code core) (tokens s) vpay_account
    \<and> 0 \<le> perblock_bucket (gstate s) \<and> perblock_bucket (gstate s) \<le> bal (sym_code core) (tokens s) bpay_account"
proof -
  have "books_fine core (genesis params lims tk)" using assms(1-3) by (simp add: books_fine_def)
  moreover have "buckets_backed core (genesis params lims tk)"
    using bal_nonneg [OF assms(2)] by (simp add: buckets_backed_def genesis_def)
  ultimately have "buckets_backed core s" using run_backed [OF assms(4) _ _ assms(5)] assms(6) by blast
  then show ?thesis by (simp add: buckets_backed_def)
qed

theorem pay_is_backed_witness:
  "pervote_bucket (gstate ex_paid) = 201097904 \<and> pervote_bucket (gstate ex_paid) \<le> bal 5459781 (tokens ex_paid) vpay_account"
proof -
  have c: "capped rex_cap ex_sy empty_token_state" by (simp add: capped_def empty_token_state_def)
  have e: "\<forall>e\<in>set (((ex_launch @ ex_activate) @ ex_produce) @ [ex_claim]). modest_event rex_cap (\<lambda>_. True) ex_sy e"
    using ex_paid_modest by blast
  from pay_is_backed [OF ex_core_ok ledger_inv_empty c e ex_paid_run [unfolded ex_genesis_def]] ex_paid_fits [unfolded ex_genesis_def]
  have "pervote_bucket (gstate ex_paid) \<le> bal (sym_code ex_sy) (tokens ex_paid) vpay_account" by blast
  then show ?thesis by (simp add: ex_paid_def ex_sy_def)
qed

end
