(* ===== verification/Spec2Isabelle.thy ===== *)
theory Spec2Isabelle
  imports Msig Proposals Safety Votes Bios Wrap RexProps RexPrice NamesLedger Payouts Auctions Funds
    TokenSpec TokenErrors WeightLedger Quotas RexLock Buckets
begin

text \<open>
  A model of the system contracts of an EOSIO chain (the directory contracts of the repository):
  eosio.token, eosio.msig, eosio.wrap, eosio.bios and eosio.system, with the theorems that make
  them correct.

  \<^bold>\<open>The program.\<close> eosio.token keeps balances and supplies. eosio.system runs the chain:
  accounts stake core tokens for bandwidth, vote for producers with what they staked, buy RAM from
  a market, bid for short names, and lend tokens through the REX pool; producers are scheduled and
  paid. It keeps the tokens it is given in accounts of its own at eosio.token, which it moves by
  inline actions: eosio.stake, eosio.ram, eosio.ramfee, eosio.names, eosio.rex, eosio.bpay,
  eosio.vpay and eosio.saving. eosio.msig collects approvals of a proposed transaction and executes
  it; eosio.wrap sends a transaction on behalf of the producers; eosio.bios runs a chain before
  eosio.system does.

  \<^bold>\<open>How a run is modelled.\<close> An action is a function from the state to \<open>string + state\<close>;
  \<open>Inl\<close> is a failed check with its message, which undoes the transaction. The inline actions an
  action sends are collected in the field \<open>outbox\<close> of the state of eosio.system and run after it,
  in order, on the model of eosio.token (\<open>exec_sys\<close>, \<open>run_outbox\<close> in Contract); when one fails, the
  whole action does. A run of the chain is a list of events, each an action of eosio.system or of
  eosio.token in a context of its own (\<open>world_step\<close>), from the state \<open>genesis\<close>. Loops over a table
  are recursions over its rows in the order of the index the code uses; integers are \<open>int\<close> with
  the wrap of \<open>int64_t\<close>, \<open>uint64_t\<close>, \<open>uint32_t\<close> and \<open>uint16_t\<close> written out (\<open>i64\<close>, \<open>u64\<close>, \<open>u32\<close>,
  \<open>u16\<close>) wherever the code computes in that type; names and flags are words; a \<open>double\<close> is an IEEE
  binary64 value (Float64), rounded after each operation.

  \<^bold>\<open>What is a parameter.\<close> eosiolib is not part of the repository. The arithmetic of \<open>asset\<close>, the
  conversions of time, the checks of accounts and symbols, \<open>std::pow\<close>, SHA-256, the decoding of
  packed data and the privileged functions of the host are fields of the record \<open>chain\<close> and its
  extensions \<open>sys_chain\<close>, \<open>bios_chain\<close>, \<open>wrap_chain\<close> (Chain, SysState, Bios, Wrap) and of the
  context of eosio.msig. The documented behaviour that proofs rely on is stated by the predicates
  \<open>asset_ops_ok\<close> (asset operations compute exactly and fail on a foreign symbol or out of the range
  of an asset) and \<open>time_ops_ok\<close> (seconds and block slots of a time). \<open>ref_chain\<close> and \<open>ref_sys\<close> are
  concrete contexts that satisfy them, and Example runs a small chain on them.

  \<^bold>\<open>Theories that model the code.\<close>
  \<^item> Prelude: results, checks, tables as finite maps, sums over tables, the locale of a state machine
    with an invariant. Chain: permissions, assets, symbols, the context of an action. Float64: doubles.
  \<^item> Token: eosio.token.hpp and eosio.token.cpp, every action and helper.
  \<^item> Msig: eosio.msig.hpp and eosio.msig.cpp, the current and the legacy table of approvals. Wrap:
    eosio.wrap.cpp. Bios: eosio.bios.hpp and eosio.bios.cpp. Native: native.hpp, the actions of
    eosio.system with an empty body.
  \<^item> SysState: the tables and globals of eosio.system.hpp, exchange_state.hpp and
    delegate_bandwidth.cpp, the parts of the host's state the contract sets, and the clock.
  \<^item> RexPool and Rex: rex.cpp. Voting: voting.cpp. Stake: the staking part of
    delegate_bandwidth.cpp. Ram: exchange_state.cpp, the RAM part of delegate_bandwidth.cpp, setram
    and setramrate of eosio.system.cpp. Names and Admin: the rest of eosio.system.cpp. Pay:
    producer_pay.cpp. Contract: the dispatch (EOSIO_DISPATCH), inline actions, runs and \<open>genesis\<close>.
    Large actions are split along their blocks: for instance \<open>changebw\<close> into \<open>update_delband\<close>,
    \<open>update_totals\<close>, \<open>update_refund\<close>, \<open>stake_or_refund\<close>; \<open>claimrewards\<close> into \<open>fill_buckets\<close>,
    \<open>claim_share\<close>, \<open>vote_pay\<close>, \<open>settle_claim\<close>, \<open>pay_producer\<close>.

  \<^bold>\<open>Interfaces.\<close> A \<open>machine\<close> (Prelude) is a step function with an invariant, and gives it for runs;
  \<open>traced\<close>, which it extends, relates the state to the events so far, for claims about history
  (proposals in Msig, auctions in Auctions, wrapped transactions in Wrap).
  A \<open>purse\<close> (Token) is a table of balances with a debit and a credit. A \<open>capped_escrow\<close>, and the
  \<open>escrow\<close> that extends it (Escrow), is an account of the contract together with what it owes
  according to the tables: an action raises the debt by no more than its inline actions bring in,
  so the account covers the debt over every run; it is interpreted for stakes and refunds
  (Solvency), RAM (Solvency), name auctions (NamesLedger) and REX (RexSafe). \<open>steady\<close> (Escrow) is an
  invariant of the tables alone; it is interpreted for the symbols and bytes of the RAM market, unpaid
  blocks, proxies, the rows of staking, the bandwidth of accounts and the limits of the host.
  \<open>rex_walk\<close> (RexWalk) is a relation that the elementary steps of the REX procedures respect, and
  gives it for every action of rex.cpp.

  \<^bold>\<open>Frames.\<close> Frame, Proxies, RexFrame and Footprint show what each action leaves alone: Footprint
  divides the state into seven aspects and proves the table \<open>touches\<close> of what an action may change,
  and \<open>spenders\<close>, whose tokens it may send. The lemmas \<open>*_parts\<close> take a successful run of an action
  apart into its steps; every later proof starts from them.

  \<^bold>\<open>What is proved.\<close>
  \<^item> Tokens (Token, TokenSpec, TokenErrors): supply is the sum of balances, who can lose tokens, the
    effect of each action, refinement of an abstract ledger, and which error a refusal reports.
  \<^item> Proposals (Msig, Proposals): an execution rests on live approvals; when it succeeds; a cancelled
    proposal leaves nothing behind. Runs of eosio.msig come in the order of their block times.
  \<^item> Solvency of the contract's accounts over every run (Safety, NamesLedger, RexProps, Buckets):
    stakes and refunds, RAM, bids, REX and producer pay are covered by tokens, and tokens are spent
    only with the signature of their owner. What is owed can be collected: refunds (Payouts), bids
    (Payouts), REX funds (Funds).
  \<^item> The books of RAM, unpaid blocks, REX and bandwidth agree (Market, RamLedger, PayLedger, RexLedger,
    RexRun, RexSafe, RexShares, WeightLedger), and the limits the host enforces are those of the books
    (Quotas).
  \<^item> Votes (ProxyGraph, Votes): proxies form no cycle, propagation ends, the schedule holds the best
    producers (as long as no deactivated one has a negative total), an accepted vote is recorded as
    given and was valid.
  \<^item> Auctions (Auctions): the highest bid is closed first, and a short name is created by whom
    the bid of a closed auction belongs to, or by the system contract.
  \<^item> REX prices and times (Bancor, RexPrice, RexProps, RexLock): the price of REX does not fall, trading
    back and forth gains nothing, and bought REX cannot be sold for four days.
  \<^item> eosio.bios and eosio.wrap (Bios, Wrap): nothing changes without the contract's own signature.

  \<^bold>\<open>Hypotheses and bounds.\<close> \<open>good_ctx\<close>: the library behaves as documented, the contract is deployed at
  its account, and the accounts that hold tokens for others sign nothing themselves. \<open>good_event\<close>
  adds that \<open>init\<close> sets the core symbol the property is about; \<open>modest_event\<close> bounds the maximum
  supply of the core token at its creation by \<open>rex_cap\<close> = 4.6 * 10^14 units: with the ratio of 10^4
  REX per token, more REX could exist than an asset can hold, as the comment in \<open>add_to_rex_pool\<close>
  says (it puts the limit at 4 * 10^14), and \<open>rex_fair\<close> asks that \<open>setrex\<close> stays below twice that.
  Claims of pay are to find unpaid blocks that are part of the global count, at most 20,000, and under
  revision 0 a vote total that is part of the global weight (\<open>claim_fits\<close> in Buckets).
  Recursions with fuel: \<open>convert\<close> has fuel 2, which \<open>conversion_takes_two_turns\<close> shows to be enough on a
  market with three different symbols (the invariant \<open>market_ok\<close> gives them);
  \<open>propagate\<close> has one more than the number of voters, enough by \<open>propagation_ends\<close>. The loops of
  \<open>runrex\<close> are bounded by their parameter as in the code.

  \<^bold>\<open>What modelling showed.\<close> \<open>update_ram_supply\<close> computes new RAM in 32 bits; \<open>runrex\<close> discards the
  proceeds of auctions while no REX exist; \<open>block_pay\<close> multiplies in 64 bits and can go negative,
  which is why \<open>pay_is_backed\<close> bounds the blocks of a claim; \<open>propagate_weight_change\<close> leaves small
  negative totals in the vote index (\<open>negative_total_cuts_schedule\<close>); \<open>unstaketorex\<close> sets
  \<open>vote_stake\<close> to more than it adds to the vote.

  \<^bold>\<open>Not modelled.\<close> The tests. The payer of the RAM of a row and the billing of RAM. Version numbers
  and fields of a row that repeat its key. Serialisation: a packed transaction, its header and a
  packed schedule are bytes whose decoding is a parameter. The host: authorities of a new account,
  deferred transactions after they were sent, notifications of other contracts, and the activation
  of a proposed schedule. The actions of rex.results and the empty native actions do nothing but
  show up in traces. What the map does not cover of the sources are comments, signatures,
  declarations of types for the ABI and the names of namespaces.
\<close>

end
